(* ===== verification/Prelude.thy ===== *)
theory Prelude
  imports Main "HOL-Library.Word" "HOL-Library.Sublist"
begin

text \<open>
  What every theory of the development shares: the fixed-width integers of the Go code, Go
  errors as values, HTTP status codes, the calling convention for code outside the repository,
  and the generic lemmas on lists and sums the component proofs use.

  A Go \<^verbatim>\<open>string\<close> is a sequence of bytes, which is what \<^typ>\<open>string\<close> (a list of 8-bit
  characters) is; a \<^verbatim>\<open>[]byte\<close> is a list of 8-bit words.  An \<^verbatim>\<open>int64\<close> is a 64-bit word
  read by \<^const>\<open>sint\<close>, a \<^verbatim>\<open>uint64\<close> one read by \<^const>\<open>unat\<close>.  A Go \<^verbatim>\<open>int\<close> is 64 bits wide on
  the platforms the images are built for.
\<close>

subsection \<open>Machine integers and byte strings\<close>

type_synonym u8 = "8 word"
type_synonym u32 = "32 word"
type_synonym u64 = "64 word"
type_synonym i32 = "32 word"
type_synonym i64 = "64 word"
type_synonym bytes = "u8 list"

text \<open>The conversion \<^verbatim>\<open>[]byte(s)\<close>.\<close>

definition text_bytes :: "string \<Rightarrow> bytes" where
  "text_bytes s = map (\<lambda>c. of_char c) s"

subsection \<open>Automation collections\<close>

text \<open>
  \<open>step_defs\<close> collects the definitions of handlers and steps whose unfolding a whole-handler
  proof needs; \<open>codec_simps\<close> the length and round-trip facts of encoders.
\<close>

named_theorems step_defs
named_theorems codec_simps

subsection \<open>Go errors\<close>

text \<open>
  An \<^verbatim>\<open>error\<close> value.  A library error is opaque but for its text and for the questions the
  code asks of it: \<^verbatim>\<open>apierrors.IsNotFound\<close>, \<^verbatim>\<open>apierrors.IsAlreadyExists\<close> and the SQLSTATE of a
  \<^verbatim>\<open>pgconn.PgError\<close>.  \<open>Wrapf\<close> is \<^verbatim>\<open>fmt.Errorf("p: %w", err)\<close>, \<open>Joined\<close> is \<^verbatim>\<open>errors.Join\<close>.
\<close>

datatype go_error =
    GoError string
  | NotFoundError string
  | AlreadyExistsError string
  | PgError string string
  | ErrSubmissionExists
  | Wrapf string go_error
  | Joined "go_error list"

type_synonym 'a result = "go_error + 'a"

fun intercalate :: "'a list \<Rightarrow> 'a list list \<Rightarrow> 'a list" where
  "intercalate sep [] = []"
| "intercalate sep [x] = x"
| "intercalate sep (x # y # xs) = x @ sep @ intercalate sep (y # xs)"

text \<open>The \<^verbatim>\<open>Error()\<close> method: the text a caller sees.\<close>

fun error_text :: "go_error \<Rightarrow> string" where
  "error_text (GoError t) = t"
| "error_text (NotFoundError t) = t"
| "error_text (AlreadyExistsError t) = t"
| "error_text (PgError code t) = t"
| "error_text ErrSubmissionExists = ''submission already exists''"
| "error_text (Wrapf p e) = p @ '': '' @ error_text e"
| "error_text (Joined es) = intercalate ''\<newline>'' (map error_text es)"

text \<open>
  \<^verbatim>\<open>%q\<close>, for strings without a character that it escapes, as the names, phases and languages of the
  program are.
\<close>

definition quoted :: "string \<Rightarrow> string" where
  "quoted s = CHR 0x22 # s @ [CHR 0x22]"

text \<open>
  \<^verbatim>\<open>apierrors.IsNotFound\<close> and \<^verbatim>\<open>apierrors.IsAlreadyExists\<close> look through wrapping, as
  \<^verbatim>\<open>errors.As\<close> does: depth first, first match.
\<close>

fun is_not_found :: "go_error \<Rightarrow> bool" where
  "is_not_found (NotFoundError t) = True"
| "is_not_found (Wrapf p e) = is_not_found e"
| "is_not_found (Joined es) = list_ex is_not_found es"
| "is_not_found _ = False"

fun is_already_exists :: "go_error \<Rightarrow> bool" where
  "is_already_exists (AlreadyExistsError t) = True"
| "is_already_exists (Wrapf p e) = is_already_exists e"
| "is_already_exists (Joined es) = list_ex is_already_exists es"
| "is_already_exists _ = False"

text \<open>\<^verbatim>\<open>errors.As(err, &pgErr)\<close>: the SQLSTATE of the first Postgres error in the chain.\<close>

fun pg_code :: "go_error \<Rightarrow> string option"
  and pg_code_list :: "go_error list \<Rightarrow> string option" where
  "pg_code (PgError code t) = Some code"
| "pg_code (Wrapf p e) = pg_code e"
| "pg_code (Joined es) = pg_code_list es"
| "pg_code (GoError t) = None"
| "pg_code (NotFoundError t) = None"
| "pg_code (AlreadyExistsError t) = None"
| "pg_code ErrSubmissionExists = None"
| "pg_code_list [] = None"
| "pg_code_list (e # es) = (case pg_code e of Some c \<Rightarrow> Some c | None \<Rightarrow> pg_code_list es)"

text \<open>\<^verbatim>\<open>errors.Is(err, ErrSubmissionExists)\<close>.\<close>

fun is_submission_exists :: "go_error \<Rightarrow> bool" where
  "is_submission_exists ErrSubmissionExists = True"
| "is_submission_exists (Wrapf p e) = is_submission_exists e"
| "is_submission_exists (Joined es) = list_ex is_submission_exists es"
| "is_submission_exists _ = False"

text \<open>\<^verbatim>\<open>errors.Join\<close> drops nil errors and is nil when nothing is left.\<close>

definition errors_join :: "go_error option list \<Rightarrow> go_error option" where
  "errors_join es = (case List.map_filter id es of [] \<Rightarrow> None | xs \<Rightarrow> Some (Joined xs))"

lemma errors_join_two:
  "errors_join [a, b] =
     (case a of
        None \<Rightarrow> (case b of None \<Rightarrow> None | Some e \<Rightarrow> Some (Joined [e]))
      | Some d \<Rightarrow> (case b of None \<Rightarrow> Some (Joined [d]) | Some e \<Rightarrow> Some (Joined [d, e])))"
  by (cases a; cases b) (simp_all add: errors_join_def List.map_filter_def)

subsection \<open>HTTP status codes (\<^verbatim>\<open>net/http\<close>)\<close>

definition StatusOK :: nat where "StatusOK = 200"
definition StatusBadRequest :: nat where "StatusBadRequest = 400"
definition StatusForbidden :: nat where "StatusForbidden = 403"
definition StatusMethodNotAllowed :: nat where "StatusMethodNotAllowed = 405"
definition StatusInternalServerError :: nat where "StatusInternalServerError = 500"
definition StatusBadGateway :: nat where "StatusBadGateway = 502"

lemmas http_status_defs =
  StatusOK_def StatusBadRequest_def StatusForbidden_def StatusMethodNotAllowed_def
  StatusInternalServerError_def StatusBadGateway_def

subsection \<open>Calls to code outside the repository\<close>

text \<open>
  A component that talks to something outside the repository (the Kubernetes API server, the
  operating system, Postgres, MinIO, a registry) is modelled over the history of the calls made
  so far.  The outside world is a parameter: a function from the history, the new call last, to
  the answer of that call.  This is the most general deterministic peer: it may fail at any
  point, change between two calls, or remember everything it was told.
\<close>

type_synonym ('c, 'r) peer = "'c list \<Rightarrow> 'r"

definition ask :: "('c, 'r) peer \<Rightarrow> 'c \<Rightarrow> 'c list \<Rightarrow> 'r \<times> 'c list" where
  "ask peer c h = (peer (h @ [c]), h @ [c])"

lemma ask_simp [simp]: "ask peer c h = (peer (h @ [c]), h @ [c])"
  by (simp add: ask_def)

subsection \<open>Generic lemmas\<close>

lemma list_all_nth_conv: "list_all P xs \<longleftrightarrow> (\<forall>i < length xs. P (xs ! i))"
  by (simp add: list_all_length)

lemma append_eq_same_length:
  "length xs = length ys \<Longrightarrow> xs @ us = ys @ vs \<longleftrightarrow> xs = ys \<and> us = vs"
  by (rule append_eq_append_conv) simp

text \<open>Blocks of one fixed length can be read back from their concatenation.\<close>

lemma concat_blocks_inj:
  assumes len: "\<And>x. length (f x) = k" and pos: "0 < k"
    and eq: "concat (map f xs) = concat (map f ys)"
  shows "map f xs = map f ys"
  using eq
proof (induction xs arbitrary: ys)
  case Nil
  then show ?case using len pos by (cases ys) (auto simp: length_0_conv [symmetric] simp del: length_0_conv)
next
  case (Cons x xs)
  show ?case
  proof (cases ys)
    case Nil
    with Cons.prems len [of x] pos show ?thesis by auto
  next
    case (Cons y ys')
    with \<open>concat (map f (x # xs)) = concat (map f ys)\<close>
    have "f x @ concat (map f xs) = f y @ concat (map f ys')" by simp
    then have "f x = f y \<and> concat (map f xs) = concat (map f ys')"
      using append_eq_same_length [of "f x" "f y"] len by simp
    with Cons.IH [of ys'] \<open>ys = y # ys'\<close> show ?thesis by simp
  qed
qed

lemma length_concat_map_const:
  "(\<And>x. length (f x) = k) \<Longrightarrow> length (concat (map f xs)) = k * length xs"
  by (induction xs) simp_all

lemma strictly_increasing_upt_map:
  fixes f :: "nat \<Rightarrow> 'a :: linorder"
  assumes "\<And>i j. i < j \<Longrightarrow> j < n \<Longrightarrow> f i < f j"
  shows "sorted_wrt (<) (map f [0..<n])"
  using assms by (simp add: sorted_wrt_map sorted_wrt_iff_nth_less)

lemma sorted_wrt_less_distinct: "sorted_wrt (<) (xs :: 'a :: linorder list) \<Longrightarrow> distinct xs"
  by (induction xs) auto

lemma text_bytes_length [simp]: "length (text_bytes s) = length s"
  by (simp add: text_bytes_def)

lemma text_bytes_append [simp]: "text_bytes (s @ t) = text_bytes s @ text_bytes t"
  by (simp add: text_bytes_def)

lemma of_char_u8_inj: "of_char c = (of_char d :: u8) \<longleftrightarrow> c = d"
proof
  assume eq: "of_char c = (of_char d :: u8)"
  have u: "unat (of_char x :: u8) = of_char x" for x :: char
  proof -
    have "(of_char x :: u8) = of_nat (of_char x)" by (rule of_nat_of_char [symmetric])
    moreover have "(of_char x :: nat) < 2 ^ LENGTH(8)" by simp
    ultimately show ?thesis by (simp only: unat_of_nat mod_less)
  qed
  from eq have "(of_char c :: nat) = of_char d" by (metis u)
  then show "c = d" by simp
qed simp

lemma text_bytes_inj: "text_bytes s = text_bytes t \<longleftrightarrow> s = t"
  unfolding text_bytes_def
  by (rule inj_map_eq_map) (simp add: inj_def of_char_u8_inj)

text \<open>\<^verbatim>\<open>strings.Split(s, c)\<close> for a separator of one character.\<close>

fun split_on :: "char \<Rightarrow> string \<Rightarrow> string list" where
  "split_on sep [] = [[]]"
| "split_on sep (c # cs) =
     (if c = sep then [] # split_on sep cs
      else (case split_on sep cs of [] \<Rightarrow> [[c]] | w # ws \<Rightarrow> (c # w) # ws))"

lemma split_on_nonempty: "split_on sep p \<noteq> []"
  by (induction p) (auto split: list.splits)

lemma split_on_free: "\<forall>e \<in> set (split_on sep p). sep \<notin> set e"
  by (induction p) (auto split: list.splits)

lemma split_on_word: "sep \<notin> set w \<Longrightarrow> split_on sep w = [w]"
  by (induction w) auto

lemma split_on_app: "split_on sep (a @ sep # b) = split_on sep a @ split_on sep b"
proof (induction a)
  case (Cons c cs)
  then show ?case using split_on_nonempty [of sep cs] by (auto split: list.splits)
qed simp

lemma intercalate_Cons: "es \<noteq> [] \<Longrightarrow> intercalate sep (e # es) = e @ sep @ intercalate sep es"
  by (cases es) simp_all

lemma split_on_intercalate:
  "es \<noteq> [] \<Longrightarrow> \<forall>e \<in> set es. sep \<notin> set e \<Longrightarrow> split_on sep (intercalate [sep] es) = es"
proof (induction es)
  case (Cons e es)
  then show ?case
    by (cases "es = []") (simp_all add: split_on_word intercalate_Cons split_on_app)
qed simp

lemma intercalate_split_on: "intercalate [sep] (split_on sep p) = p"
proof (induction p)
  case (Cons c cs)
  obtain w ws where ws: "split_on sep cs = w # ws"
    using split_on_nonempty [of sep cs] by (cases "split_on sep cs") auto
  show ?case
    using Cons ws by (cases ws) auto
qed simp

end
