(* ===== verification/Codec.thy ===== *)
theory Codec
  imports Prelude
begin

text \<open>
  What the code uses of \<^verbatim>\<open>encoding/binary\<close> and \<^verbatim>\<open>encoding/hex\<close>: the big-endian and
  little-endian 8-byte encodings of a \<^verbatim>\<open>uint64\<close> and the hexadecimal text of a byte slice.
  The locale \<open>fixed_codec\<close> is the interface the encoders are used through: a block of one fixed
  width that can be decoded.  Injectivity of a block, of a block followed by anything and of a
  sequence of blocks is proved once inside it.
\<close>

subsection \<open>The interface of a fixed-width encoder\<close>

locale fixed_codec =
  fixes enc :: "'a \<Rightarrow> 'b list"
    and dec :: "'b list \<Rightarrow> 'a"
    and width :: nat
  assumes enc_length: "length (enc x) = width"
    and dec_enc: "dec (enc x) = x"
    and width_pos: "0 < width"
begin

lemma enc_inj: "enc x = enc y \<longleftrightarrow> x = y"
  by (metis dec_enc)

lemma enc_append_inj: "enc x @ us = enc y @ vs \<longleftrightarrow> x = y \<and> us = vs"
  by (simp add: append_eq_same_length enc_length enc_inj)

lemma take_drop_enc: "take width (enc x @ us) = enc x" "drop width (enc x @ us) = us"
  by (simp_all add: enc_length)

lemma blocks_inj: "concat (map enc xs) = concat (map enc ys) \<longleftrightarrow> xs = ys"
proof
  assume "concat (map enc xs) = concat (map enc ys)"
  then have "map enc xs = map enc ys"
    using concat_blocks_inj [of enc width xs ys] enc_length width_pos by blast
  then show "xs = ys"
    by (simp add: inj_map_eq_map inj_def enc_inj)
qed simp

lemma blocks_length: "length (concat (map enc xs)) = width * length xs"
  by (rule length_concat_map_const) (rule enc_length)

end

subsection \<open>\<^verbatim>\<open>binary.LittleEndian.PutUint64\<close> and \<^verbatim>\<open>binary.BigEndian.PutUint64\<close>\<close>

definition le64 :: "u64 \<Rightarrow> bytes" where
  "le64 w = map (\<lambda>i. ucast (drop_bit (8 * i) w)) [0..<8]"

definition be64 :: "u64 \<Rightarrow> bytes" where
  "be64 w = map (\<lambda>i. ucast (drop_bit (56 - 8 * i) w)) [0..<8]"

definition be32 :: "u32 \<Rightarrow> bytes" where
  "be32 w = map (\<lambda>i. ucast (drop_bit (24 - 8 * i) w)) [0..<4]"

text \<open>The decoders, for the proofs: byte \<open>i\<close> contributes bits \<open>8 i\<close> to \<open>8 i + 7\<close>.\<close>

fun un_le :: "bytes \<Rightarrow> 'w :: len word" where
  "un_le [] = 0"
| "un_le (b # bs) = or (ucast b) (push_bit 8 (un_le bs))"

definition un_be :: "bytes \<Rightarrow> 'w :: len word" where
  "un_be bs = un_le (rev bs)"

lemma be64_rev_le64: "be64 w = rev (le64 w)"
  by (simp add: be64_def le64_def upt_rec)

lemma bit_un_le:
  "bit (un_le bs :: 'w :: len word) n \<longleftrightarrow>
     n < LENGTH('w) \<and> n div 8 < length bs \<and> bit (bs ! (n div 8)) (n mod 8)"
proof (induction bs arbitrary: n)
  case Nil
  then show ?case by simp
next
  case (Cons b bs)
  show ?case
  proof (cases "n < 8")
    case True
    then show ?thesis
      by (auto simp: bit_or_iff bit_push_bit_iff bit_ucast_iff dest: bit_imp_le_length)
  next
    case False
    then obtain m where m: "n = m + 8" by (metis add.commute le_Suc_ex not_less)
    have hi: "\<not> bit (b :: u8) n" using False by (auto dest: bit_imp_le_length)
    have "n div 8 = Suc (m div 8)" "n mod 8 = m mod 8" using m by simp_all
    then show ?thesis
      using m hi Cons.IH [of m] by (auto simp: bit_or_iff bit_push_bit_iff bit_ucast_iff)
  qed
qed

lemma un_le_le64: "un_le (le64 w) = w"
proof (rule bit_word_eqI)
  fix n :: nat
  assume "n < LENGTH(64)"
  then have n: "n div 8 < 8" "n mod 8 < 8" by simp_all
  then have "le64 w ! (n div 8) = ucast (drop_bit (8 * (n div 8)) w)"
    by (simp add: le64_def)
  then show "bit (un_le (le64 w) :: u64) n = bit w n"
    using n \<open>n < LENGTH(64)\<close>
    by (simp add: bit_un_le bit_ucast_iff bit_drop_bit_eq) (simp add: le64_def)
qed

lemma le64_length [simp, codec_simps]: "length (le64 w) = 8"
  by (simp add: le64_def)

lemma be64_length [simp, codec_simps]: "length (be64 w) = 8"
  by (simp add: be64_def)

lemma be32_length [simp, codec_simps]: "length (be32 w) = 4"
  by (simp add: be32_def)

interpretation le64: fixed_codec le64 un_le 8
  by unfold_locales (simp_all add: un_le_le64)

interpretation be64: fixed_codec be64 un_be 8
  by unfold_locales (simp_all add: un_be_def be64_rev_le64 un_le_le64)

text \<open>Two blocks read together: the first holds the high half.\<close>

lemma un_le_append_le64:
  "(un_le (le64 a @ le64 b) :: 128 word) = or (push_bit 64 (ucast b)) (ucast a)"
proof (rule bit_word_eqI)
  fix n :: nat
  assume n: "n < LENGTH(128)"
  show "bit (un_le (le64 a @ le64 b) :: 128 word) n
      = bit (or (push_bit 64 (ucast b)) (ucast a) :: 128 word) n"
  proof (cases "n < 64")
    case True
    then have "bit (un_le (le64 a) :: u64) n
        \<longleftrightarrow> bit (un_le (le64 a @ le64 b) :: 128 word) n"
      using n by (auto simp: bit_un_le nth_append)
    with True n show ?thesis
      by (simp add: un_le_le64 bit_or_iff bit_push_bit_iff bit_ucast_iff)
  next
    case False
    then obtain m where m: "n = m + 64" by (metis add.commute le_Suc_ex not_less)
    then have "n mod 8 = (m + 8 * 8) mod 8" by simp
    then have "n mod 8 = m mod 8" by (simp only: mod_mult_self2)
    with m have d: "n div 8 = m div 8 + 8" "n mod 8 = m mod 8" "m < 64" using n by simp_all
    then have "bit (un_le (le64 b) :: u64) m
        \<longleftrightarrow> bit (un_le (le64 a @ le64 b) :: 128 word) n"
      using n m by (auto simp: bit_un_le nth_append)
    moreover have "\<not> bit a n" using False by (auto dest: bit_imp_le_length)
    ultimately show ?thesis
      using m n by (simp add: un_le_le64 bit_or_iff bit_push_bit_iff bit_ucast_iff)
  qed
qed

lemma un_be_append_be64:
  "(un_be (be64 a @ be64 b) :: 128 word) = or (push_bit 64 (ucast a)) (ucast b)"
  by (simp add: un_be_def be64_rev_le64 un_le_append_le64)

lemma unat_be_pair:
  "unat (un_be (be64 a @ be64 b) :: 128 word) = unat a * 2 ^ 64 + unat b"
proof -
  let ?h = "push_bit 64 (ucast a) :: 128 word" and ?l = "ucast b :: 128 word"
  have "and ?h ?l = 0"
    by (rule bit_word_eqI)
      (auto simp: bit_and_iff bit_push_bit_iff bit_ucast_iff dest: bit_imp_le_length)
  then have "or ?h ?l = ?h + ?l" by (simp add: disjunctive_add_eq_or)
  moreover have a: "unat a < 2 ^ 64" and b: "unat b < 2 ^ 64"
    using unsigned_less [of a] unsigned_less [of b] by simp_all
  moreover have "unat ?h = unat a * 2 ^ 64"
  proof -
    have "unat (ucast a :: 128 word) = unat a"
      using a by (simp add: unsigned_ucast_eq take_bit_nat_eq_self)
    then have "unat ?h = take_bit 128 (push_bit 64 (unat a))"
      by (simp add: unsigned_push_bit_eq)
    then show ?thesis using a by (simp add: push_bit_nat_def take_bit_nat_eq_self)
  qed
  moreover have "unat ?l = unat b"
    using b by (simp add: unsigned_ucast_eq take_bit_nat_eq_self)
  ultimately show ?thesis by (simp add: un_be_append_be64 unat_word_ariths)
qed
subsection \<open>\<^verbatim>\<open>hex.EncodeToString\<close> and \<^verbatim>\<open>hex.DecodeString\<close>\<close>

definition hex_digits :: string where
  "hex_digits = ''0123456789abcdef''"

definition hex_byte :: "u8 \<Rightarrow> string" where
  "hex_byte b = [hex_digits ! (unat b div 16), hex_digits ! (unat b mod 16)]"

definition hex_encode :: "bytes \<Rightarrow> string" where
  "hex_encode bs = concat (map hex_byte bs)"

text \<open>The value of a hexadecimal digit; the decoder takes both cases.\<close>

definition hex_value :: "char \<Rightarrow> nat option" where
  "hex_value c =
     map_of (zip ''0123456789abcdefABCDEF'' ([0, 1, 2, 3, 4, 5, 6, 7, 8, 9] @
       [10, 11, 12, 13, 14, 15] @ [10, 11, 12, 13, 14, 15])) c"

definition hex_invalid :: go_error where
  "hex_invalid = GoError ''encoding/hex: invalid byte''"

definition hex_odd :: go_error where
  "hex_odd = GoError ''encoding/hex: odd length hex string''"

text \<open>
  The decoder reads pairs from the left and stops at the first invalid byte; an odd last
  character is reported as invalid before its missing partner is.
\<close>

fun hex_decode :: "string \<Rightarrow> bytes result" where
  "hex_decode [] = Inr []"
| "hex_decode [c] = (case hex_value c of None \<Rightarrow> Inl hex_invalid | Some _ \<Rightarrow> Inl hex_odd)"
| "hex_decode (c # d # cs) =
     (case (hex_value c, hex_value d) of
        (Some hi, Some lo) \<Rightarrow>
          (case hex_decode cs of
             Inl e \<Rightarrow> Inl e
           | Inr bs \<Rightarrow> Inr (of_nat (16 * hi + lo) # bs))
      | _ \<Rightarrow> Inl hex_invalid)"

lemma hex_digits_value:
  assumes "n < 16"
  shows "hex_value (hex_digits ! n) = Some n"
proof -
  have all: "map (\<lambda>n. hex_value (hex_digits ! n)) [0, 1, 2, 3, 4, 5, 6, 7, 8, 9, 10, 11, 12, 13, 14, 15]
      = map Some [0, 1, 2, 3, 4, 5, 6, 7, 8, 9, 10, 11, 12, 13, 14, 15]"
    by (simp add: hex_value_def hex_digits_def)
  have "n \<in> set [0..<16]" using assms by simp
  then have "n \<in> set [0, 1, 2, 3, 4, 5, 6, 7, 8, 9, 10, 11, 12, 13, 14, 15]"
    by (simp add: upt_rec numeral_eq_Suc)
  with all show ?thesis by (simp only: map_eq_conv)
qed

lemma of_nat_unat_split: "(16 * of_nat (unat b div 16) + of_nat (unat b mod 16) :: u8) = b"
proof -
  have "(of_nat (16 * (unat b div 16) + unat b mod 16) :: u8) = b" by simp
  then show ?thesis by (simp only: of_nat_add of_nat_mult of_nat_numeral)
qed

lemma hex_encode_Nil [simp]: "hex_encode [] = []"
  by (simp add: hex_encode_def)

lemma hex_encode_Cons: "hex_encode (b # bs) = hex_byte b @ hex_encode bs"
  by (simp add: hex_encode_def)

lemma hex_encode_length [simp, codec_simps]: "length (hex_encode bs) = 2 * length bs"
  by (induction bs) (simp_all add: hex_encode_Cons hex_byte_def)

lemma hex_decode_encode [codec_simps]: "hex_decode (hex_encode bs) = Inr bs"
proof (induction bs)
  case Nil
  then show ?case by simp
next
  case (Cons b bs)
  have "unat b < 256" using unsigned_less [of b] by simp
  then have "unat b div 16 < 16" "unat b mod 16 < 16" by simp_all
  then show ?case
    using Cons.IH
    by (simp add: hex_encode_Cons hex_byte_def hex_digits_value of_nat_unat_split)
qed

lemma hex_encode_inj: "hex_encode xs = hex_encode ys \<longleftrightarrow> xs = ys"
  by (metis hex_decode_encode sum.inject(2))

text \<open>The alphabet of the encoder.\<close>

lemma hex_encode_alphabet: "set (hex_encode bs) \<subseteq> set hex_digits"
proof (induction bs)
  case Nil
  then show ?case by simp
next
  case (Cons b bs)
  have "unat b < 256" using unsigned_less [of b] by simp
  then have "unat b div 16 < length hex_digits" "unat b mod 16 < length hex_digits"
    by (simp_all add: hex_digits_def)
  then show ?case
    using Cons.IH by (auto simp: hex_encode_Cons hex_byte_def)
qed

end
