(* ===== verification/Sha256.thy ===== *)
theory Sha256
  imports Codec
begin

text \<open>
  \<^verbatim>\<open>crypto/sha256\<close>, the one hash the code uses (session tokens, scenario and schedule hashes,
  content addresses), written out after FIPS 180-4: padding, message schedule, 64 rounds per
  64-byte block.  A \<^verbatim>\<open>hash.Hash\<close> that was written several times digests the concatenation of
  what was written, so a sequence of \<^verbatim>\<open>h.Write\<close> calls followed by \<^verbatim>\<open>h.Sum(nil)\<close> is \<open>sha256\<close>
  of the concatenation.
\<close>

unbundle bit_operations_syntax

subsection \<open>Constants\<close>

definition round_constants :: "u32 list" where
  "round_constants =
    [1116352408, 1899447441, 3049323471, 3921009573, 961987163, 1508970993, 2453635748,
     2870763221, 3624381080, 310598401, 607225278, 1426881987, 1925078388, 2162078206,
     2614888103, 3248222580, 3835390401, 4022224774, 264347078, 604807628, 770255983,
     1249150122, 1555081692, 1996064986, 2554220882, 2821834349, 2952996808, 3210313671,
     3336571891, 3584528711, 113926993, 338241895, 666307205, 773529912, 1294757372,
     1396182291, 1695183700, 1986661051, 2177026350, 2456956037, 2730485921, 2820302411,
     3259730800, 3345764771, 3516065817, 3600352804, 4094571909, 275423344, 430227734,
     506948616, 659060556, 883997877, 958139571, 1322822218, 1537002063, 1747873779,
     1955562222, 2024104815, 2227730452, 2361852424, 2428436474, 2756734187, 3204031479,
     3329325298]"

definition initial_hash :: "u32 list" where
  "initial_hash =
    [1779033703, 3144134277, 1013904242, 2773480762, 1359893119, 2600822924, 528734635,
     1541459225]"

subsection \<open>Rounds\<close>

definition mix0 :: "u32 \<Rightarrow> u32" where
  "mix0 w = (word_rotr 7 w XOR word_rotr 18 w) XOR drop_bit 3 w"

definition mix1 :: "u32 \<Rightarrow> u32" where
  "mix1 w = (word_rotr 17 w XOR word_rotr 19 w) XOR drop_bit 10 w"

text \<open>The message schedule, newest word first: 16 words of the block, then 48 derived ones.\<close>

fun expand_schedule :: "nat \<Rightarrow> u32 list \<Rightarrow> u32 list" where
  "expand_schedule 0 ws = ws"
| "expand_schedule (Suc n) ws =
     expand_schedule n ((mix1 (ws ! 1) + ws ! 6 + mix0 (ws ! 14) + ws ! 15) # ws)"

type_synonym digest_state = "u32 \<times> u32 \<times> u32 \<times> u32 \<times> u32 \<times> u32 \<times> u32 \<times> u32"

fun sha_round :: "digest_state \<Rightarrow> u32 \<times> u32 \<Rightarrow> digest_state" where
  "sha_round (a, b, c, d, e, f, g, h) (k, w) =
     (let big1 = (word_rotr 6 e XOR word_rotr 11 e) XOR word_rotr 25 e;
          chosen = (e AND f) XOR (NOT e AND g);
          t1 = h + big1 + chosen + k + w;
          big0 = (word_rotr 2 a XOR word_rotr 13 a) XOR word_rotr 22 a;
          major = (a AND b) XOR (a AND c) XOR (b AND c);
          t2 = big0 + major
      in (t1 + t2, a, b, c, d + t1, e, f, g))"

fun add_states :: "digest_state \<Rightarrow> digest_state \<Rightarrow> digest_state" where
  "add_states (a, b, c, d, e, f, g, h) (a', b', c', d', e', f', g', h') =
     (a + a', b + b', c + c', d + d', e + e', f + f', g + g', h + h')"

definition block_words :: "bytes \<Rightarrow> u32 list" where
  "block_words blk = map (\<lambda>i. un_be (take 4 (drop (4 * i) blk))) [0..<16]"

definition sha_block :: "digest_state \<Rightarrow> bytes \<Rightarrow> digest_state" where
  "sha_block st blk =
     (let ws = rev (expand_schedule 48 (rev (block_words blk)))
      in add_states st (foldl sha_round st (zip round_constants ws)))"

subsection \<open>Padding and digest\<close>

definition sha_pad :: "bytes \<Rightarrow> bytes" where
  "sha_pad msg =
     msg @ [128] @ replicate (nat ((55 - int (length msg)) mod 64)) 0
         @ be64 (of_nat (8 * length msg))"

definition sha_blocks :: "bytes \<Rightarrow> bytes list" where
  "sha_blocks bs = map (\<lambda>i. take 64 (drop (64 * i) bs)) [0..<length bs div 64]"

fun state_of_words :: "u32 list \<Rightarrow> digest_state" where
  "state_of_words [a, b, c, d, e, f, g, h] = (a, b, c, d, e, f, g, h)"
| "state_of_words _ = (0, 0, 0, 0, 0, 0, 0, 0)"

fun state_bytes :: "digest_state \<Rightarrow> bytes" where
  "state_bytes (a, b, c, d, e, f, g, h) =
     be32 a @ be32 b @ be32 c @ be32 d @ be32 e @ be32 f @ be32 g @ be32 h"

definition sha256 :: "bytes \<Rightarrow> bytes" where
  "sha256 msg = state_bytes (foldl sha_block (state_of_words initial_hash) (sha_blocks (sha_pad msg)))"

text \<open>\<^verbatim>\<open>hex.EncodeToString(h.Sum(nil))\<close>.\<close>

definition sha256_hex :: "bytes \<Rightarrow> string" where
  "sha256_hex msg = hex_encode (sha256 msg)"

lemma state_bytes_length: "length (state_bytes st) = 32"
  by (cases st rule: state_bytes.cases) simp

lemma sha256_length [simp, codec_simps]: "length (sha256 msg) = 32"
  by (simp add: sha256_def state_bytes_length)

lemma sha256_hex_length [simp, codec_simps]: "length (sha256_hex msg) = 64"
  by (simp add: sha256_hex_def)

lemma sha256_hex_nonempty [simp]: "sha256_hex msg \<noteq> []"
  by (metis sha256_hex_length list.size(3) zero_neq_numeral)

lemma sha_pad_aligned: "length (sha_pad msg) mod 64 = 0"
proof -
  define k where "k = nat ((55 - int (length msg)) mod 64)"
  have k: "int k = (55 - int (length msg)) mod 64" by (simp add: k_def)
  have "int (length (sha_pad msg)) = int (length msg) + (55 - int (length msg)) mod 64 + 9"
    by (simp add: sha_pad_def k [symmetric] k_def [symmetric])
  also have "\<dots> mod 64 = (64 + (55 - int (length msg)) mod 64 + (int (length msg) - 55)) mod 64"
    by (simp add: algebra_simps)
  also have "\<dots> = (64 + (55 - int (length msg)) + (int (length msg) - 55)) mod 64"
    by (metis mod_add_left_eq mod_add_right_eq)
  also have "\<dots> = 0" by simp
  finally have "int (length (sha_pad msg) mod 64) = 0" by (simp add: of_nat_mod)
  then show ?thesis by (simp only: of_nat_eq_0_iff)
qed

subsection \<open>Collisions\<close>

text \<open>
  A collision is two different messages with one digest.  Claims that a hash identifies its
  input are stated as: equal digests come from equal inputs, or the inputs collide.
\<close>

definition sha256_collision :: "bytes \<Rightarrow> bytes \<Rightarrow> bool" where
  "sha256_collision x y \<longleftrightarrow> x \<noteq> y \<and> sha256 x = sha256 y"

lemma sha256_eqD: "sha256 x = sha256 y \<Longrightarrow> x = y \<or> sha256_collision x y"
  by (simp add: sha256_collision_def)

lemma sha256_hex_eqD: "sha256_hex x = sha256_hex y \<Longrightarrow> x = y \<or> sha256_collision x y"
  by (simp add: sha256_hex_def hex_encode_inj sha256_eqD)

end
