(* ===== verification/SubmissionTable.thy ===== *)
theory SubmissionTable
  imports Prelude
begin

text \<open>
  The table \<^verbatim>\<open>submissions\<close> of \<^verbatim>\<open>deploy/manifests/base/postgres/migrations/002_submissions.sql\<close>, with
  its primary key, its unique column and its \<^verbatim>\<open>CHECK\<close> constraints, and the statements that
  submission-api and build-runner run on it.  A statement is atomic.  The connection may refuse it,
  or lose the answer after the statement took effect (\<open>outage\<close>).

  The locale \<open>submission_store\<close> is the contract the clients rely on: what a lookup returns after an
  insert, that a taken hash is refused with the error code the code tests for, and that updates keep
  a row's identity.  It is interpreted on the table at the end of the theory.
\<close>

subsection \<open>Rows and constraints\<close>

record submission_row =
  row_id :: string
  row_sha256 :: bytes
  row_language :: string
  row_status :: string
  row_image_digest :: "string option"
  row_reject_reason :: "string option"
  row_created_at :: int
  row_updated_at :: int

type_synonym submission_table = "submission_row list"

definition row_check :: "submission_row \<Rightarrow> bool" where
  "row_check r \<longleftrightarrow>
     row_language r \<in> {''rust'', ''go'', ''cpp''}
   \<and> row_status r \<in> {''PENDING'', ''BUILDING'', ''READY'', ''REJECTED''}"

definition unique_violation :: go_error where
  "unique_violation = PgError ''23505'' ''duplicate key value violates unique constraint''"

definition check_violation :: go_error where
  "check_violation = PgError ''23514'' ''new row violates check constraint''"

subsection \<open>Statements\<close>

text \<open>\<^verbatim>\<open>CHECK\<close> constraints are tested before the unique indexes.\<close>

definition sql_insert :: "submission_row \<Rightarrow> submission_table \<Rightarrow> go_error option \<times> submission_table" where
  "sql_insert r t =
     (if \<not> row_check r then (Some check_violation, t)
      else if list_ex (\<lambda>q. row_id q = row_id r \<or> row_sha256 q = row_sha256 r) t then (Some unique_violation, t)
      else (None, t @ [r]))"

definition sql_select :: "bytes \<Rightarrow> submission_table \<Rightarrow> submission_row option" where
  "sql_select sha t = List.find (\<lambda>r. row_sha256 r = sha) t"

definition sql_update :: "bytes \<Rightarrow> (submission_row \<Rightarrow> submission_row) \<Rightarrow> submission_table
    \<Rightarrow> go_error option \<times> submission_table" where
  "sql_update sha f t =
     (if list_all (\<lambda>r. row_sha256 r = sha \<longrightarrow> row_check (f r)) t
      then (None, map (\<lambda>r. if row_sha256 r = sha then f r else r) t)
      else (Some check_violation, t))"

text \<open>The connection under a statement.\<close>

datatype outage = Connected | Refused string | AnswerLost string

fun over_connection :: "outage \<Rightarrow> ('s \<Rightarrow> go_error option \<times> 's) \<Rightarrow> 's \<Rightarrow> go_error option \<times> 's" where
  "over_connection Connected stmt t = stmt t"
| "over_connection (Refused e) stmt t = (Some (GoError e), t)"
| "over_connection (AnswerLost e) stmt t = (Some (GoError e), snd (stmt t))"

subsection \<open>Invariant\<close>

definition table_ok :: "submission_table \<Rightarrow> bool" where
  "table_ok t \<longleftrightarrow> distinct (map row_id t) \<and> distinct (map row_sha256 t) \<and> list_all row_check t"

text \<open>What of a row no statement of the program may change.\<close>

definition row_identity :: "submission_row \<Rightarrow> string \<times> bytes \<times> string \<times> int" where
  "row_identity r = (row_id r, row_sha256 r, row_language r, row_created_at r)"

definition keeps_identity :: "(submission_row \<Rightarrow> submission_row) \<Rightarrow> bool" where
  "keeps_identity f \<longleftrightarrow> (\<forall>r. row_identity (f r) = row_identity r)"

lemma keeps_identityD:
  "keeps_identity f \<Longrightarrow> row_id (f r) = row_id r"
  "keeps_identity f \<Longrightarrow> row_sha256 (f r) = row_sha256 r"
  by (simp_all add: keeps_identity_def row_identity_def)

subsection \<open>The contract of the store\<close>

datatype 'row statement = Insert 'row | Update bytes "'row \<Rightarrow> 'row"

fun run_statement :: "('row \<Rightarrow> 's \<Rightarrow> go_error option \<times> 's) \<Rightarrow> (bytes \<Rightarrow> ('row \<Rightarrow> 'row) \<Rightarrow> 's \<Rightarrow> go_error option \<times> 's)
    \<Rightarrow> 'row statement \<Rightarrow> 's \<Rightarrow> 's" where
  "run_statement ins upd (Insert r) s = snd (ins r s)"
| "run_statement ins upd (Update k f) s = snd (upd k f s)"

fun statement_ok :: "submission_row statement \<Rightarrow> bool" where
  "statement_ok (Insert r) = True"
| "statement_ok (Update k f) = keeps_identity f"

locale submission_store =
  fixes insert_row :: "submission_row \<Rightarrow> 's \<Rightarrow> go_error option \<times> 's"
    and update_row :: "bytes \<Rightarrow> (submission_row \<Rightarrow> submission_row) \<Rightarrow> 's \<Rightarrow> go_error option \<times> 's"
    and find_row :: "bytes \<Rightarrow> 's \<Rightarrow> submission_row option"
    and store_ok :: "'s \<Rightarrow> bool"
  assumes find_key: "find_row k s = Some r \<Longrightarrow> row_sha256 r = k"
    and insert_done: "store_ok s \<Longrightarrow> insert_row r s = (None, s') \<Longrightarrow>
          store_ok s' \<and> find_row (row_sha256 r) s = None
        \<and> (\<forall>k. find_row k s' = (if k = row_sha256 r then Some r else find_row k s))"
    and insert_failed: "insert_row r s = (Some e, s') \<Longrightarrow> s' = s"
    and insert_taken: "find_row (row_sha256 r) s = Some q \<Longrightarrow> row_check r \<Longrightarrow>
          \<exists>e. insert_row r s = (Some e, s) \<and> pg_code e = Some ''23505''"
    and update_keeps: "store_ok s \<Longrightarrow> keeps_identity f \<Longrightarrow> update_row k f s = (err, s') \<Longrightarrow>
          store_ok s'
        \<and> (\<forall>j. find_row j s' = (if j = k \<and> err = None then map_option f (find_row j s) else find_row j s))"
begin

abbreviation run :: "submission_row statement \<Rightarrow> 's \<Rightarrow> 's" where
  "run \<equiv> run_statement insert_row update_row"

lemma run_ok: "store_ok s \<Longrightarrow> statement_ok st \<Longrightarrow> store_ok (run st s)"
proof (cases st)
  case (Insert r)
  assume "store_ok s"
  then show ?thesis
    using Insert insert_done [of s r] insert_failed [of r s]
    by (cases "insert_row r s"; cases "fst (insert_row r s)") auto
next
  case (Update k f)
  assume "store_ok s" "statement_ok st"
  then show ?thesis
    using Update update_keeps [of s f k] by (cases "update_row k f s") auto
qed

lemma run_keeps_rows:
  assumes "store_ok s" "statement_ok st" "find_row k s = Some r"
  shows "\<exists>r'. find_row k (run st s) = Some r' \<and> row_identity r' = row_identity r"
proof (cases st)
  case (Insert q)
  show ?thesis
  proof (cases "fst (insert_row q s)")
    case None
    then have "insert_row q s = (None, run st s)" using Insert by (cases "insert_row q s") simp
    with insert_done [OF assms(1) this] assms(3) show ?thesis by auto
  next
    case (Some e)
    then have "insert_row q s = (Some e, run st s)" using Insert by (cases "insert_row q s") simp
    with insert_failed [OF this] assms(3) show ?thesis by auto
  qed
next
  case (Update j f)
  then have f: "keeps_identity f" and u: "update_row j f s = (fst (update_row j f s), run st s)"
    using assms(2) by simp_all
  have "find_row k (run st s) = Some r \<or> find_row k (run st s) = Some (f r)"
    using update_keeps [OF assms(1) f u] assms(3) by auto
  then show ?thesis using f by (auto simp: keeps_identity_def)
qed

lemma runs_ok: "store_ok s \<Longrightarrow> list_all statement_ok sts \<Longrightarrow> store_ok (foldl (\<lambda>s st. run st s) s sts)"
  by (induction sts arbitrary: s) (simp_all add: run_ok)

lemma runs_keep_rows:
  "store_ok s \<Longrightarrow> list_all statement_ok sts \<Longrightarrow> find_row k s = Some r \<Longrightarrow>
   \<exists>r'. find_row k (foldl (\<lambda>s st. run st s) s sts) = Some r' \<and> row_identity r' = row_identity r"
proof (induction sts arbitrary: s r)
  case (Cons st sts)
  from Cons.prems have s: "store_ok s" and st: "statement_ok st" and sts: "list_all statement_ok sts"
    by simp_all
  obtain r1 where r1: "find_row k (run st s) = Some r1" "row_identity r1 = row_identity r"
    using run_keeps_rows [OF s st Cons.prems(3)] by blast
  from Cons.IH [OF run_ok [OF s st] sts r1(1)] r1(2) show ?case by auto
qed auto

end

subsection \<open>The table implements it\<close>

lemma sql_select_Some:
  "sql_select sha t = Some r \<Longrightarrow> r \<in> set t \<and> row_sha256 r = sha"
  by (auto simp: sql_select_def find_Some_iff)

lemma sql_select_None: "sql_select sha t = None \<longleftrightarrow> (\<forall>r \<in> set t. row_sha256 r \<noteq> sha)"
  by (auto simp: sql_select_def find_None_iff)

lemma sql_select_append:
  "sql_select sha (t @ [r]) =
     (case sql_select sha t of Some q \<Rightarrow> Some q | None \<Rightarrow> if row_sha256 r = sha then Some r else None)"
  by (induction t) (auto simp: sql_select_def)

lemma sql_select_map:
  "keeps_identity f \<Longrightarrow>
   sql_select j (map (\<lambda>r. if row_sha256 r = k then f r else r) t) =
     (if j = k then map_option f (sql_select j t) else sql_select j t)"
  by (induction t) (auto simp: sql_select_def keeps_identityD)

lemma sql_insert_ok: "table_ok t \<Longrightarrow> table_ok (snd (sql_insert r t))"
  by (auto simp: sql_insert_def table_ok_def list_ex_iff)

lemma sql_update_ok: "table_ok t \<Longrightarrow> keeps_identity f \<Longrightarrow> table_ok (snd (sql_update k f t))"
proof -
  assume t: "table_ok t" and f: "keeps_identity f"
  let ?g = "\<lambda>r. if row_sha256 r = k then f r else r"
  have "map row_id (map ?g t) = map row_id t" "map row_sha256 (map ?g t) = map row_sha256 t"
    using f by (simp_all add: keeps_identityD)
  then have "table_ok (map ?g t)" if "list_all (\<lambda>r. row_sha256 r = k \<longrightarrow> row_check (f r)) t"
    using t that unfolding table_ok_def by (auto simp: list_all_iff simp del: map_map map_eq_conv)
  then show ?thesis using t by (simp add: sql_update_def)
qed

interpretation pg: submission_store sql_insert sql_update sql_select table_ok
proof unfold_locales
  show "sql_select k s = Some r \<Longrightarrow> row_sha256 r = k" for k s r
    using sql_select_Some by blast
  show "table_ok s' \<and> sql_select (row_sha256 r) s = None
      \<and> (\<forall>k. sql_select k s' = (if k = row_sha256 r then Some r else sql_select k s))"
    if "table_ok s" "sql_insert r s = (None, s')" for s s' r
  proof -
    have s': "s' = s @ [r]" and none: "sql_select (row_sha256 r) s = None"
      using that(2) by (auto simp: sql_insert_def list_ex_iff sql_select_None split: if_splits)
    moreover have "table_ok s'" using sql_insert_ok [OF that(1), of r] that(2) by simp
    ultimately show ?thesis by (auto simp: sql_select_append split: option.splits)
  qed
  show "sql_insert r s = (Some e, s') \<Longrightarrow> s' = s" for r s e s'
    by (auto simp: sql_insert_def split: if_splits)
  show "\<exists>e. sql_insert r s = (Some e, s) \<and> pg_code e = Some ''23505''"
    if "sql_select (row_sha256 r) s = Some q" "row_check r" for r s q
    using sql_select_Some [OF that(1)] that(2)
    by (auto simp: sql_insert_def list_ex_iff unique_violation_def)
  show "table_ok s' \<and> (\<forall>j. sql_select j s'
      = (if j = k \<and> e = None then map_option f (sql_select j s) else sql_select j s))"
    if "table_ok s" "keeps_identity f" "sql_update k f s = (e, s')" for s s' k f e
    using sql_update_ok [OF that(1,2), of k] that(2,3)
    by (auto simp: sql_update_def sql_select_map split: if_splits)
qed

lemma over_connection_cases:
  assumes "over_connection oc stmt t = (e, t')"
  obtains (clean) "stmt t = (e, t')" | (refused) m where "e = Some (GoError m)" "t' = t"
    | (lost) m where "e = Some (GoError m)" "t' = snd (stmt t)"
  using assms by (cases oc) auto

end
