(* ===== verification/KubeTypes.thy ===== *)
theory KubeTypes
  imports Prelude
begin

text \<open>
  The Kubernetes objects the program reads and writes, reduced to the fields its code names.  A Go
  pointer is an \<^typ>\<open>'a option\<close>; a label map is a partial function, and a missing key reads as the
  empty string.
\<close>

type_synonym labels = "string \<rightharpoonup> string"

definition label :: "labels \<Rightarrow> string \<Rightarrow> string" where
  "label ls k = (case ls k of None \<Rightarrow> [] | Some v \<Rightarrow> v)"

lemma label_simps [simp]: "label Map.empty k = []" "label (ls(j \<mapsto> v)) k = (if k = j then v else label ls k)"
  by (simp_all add: label_def)

text \<open>
  \<open>DeletionTimestamp\<close> and the owner references are written by the API server and by the library;
  an owner is identified by its name and whether it is the controller.
\<close>

record ObjectMeta =
  om_Name :: string
  om_Namespace :: string
  om_Labels :: labels
  om_Finalizers :: "string list"
  om_DeletionTimestamp :: "int option"
  om_OwnerReferences :: "(string \<times> bool) list"

definition object_meta :: "string \<Rightarrow> string \<Rightarrow> labels \<Rightarrow> ObjectMeta" where
  "object_meta name ns ls =
     \<lparr>om_Name = name, om_Namespace = ns, om_Labels = ls, om_Finalizers = [],
      om_DeletionTimestamp = None, om_OwnerReferences = []\<rparr>"

record SecretKeySelector =
  sk_Name :: string
  sk_Key :: string

record EnvVar =
  env_Name :: string
  env_Value :: string
  env_SecretKeyRef :: "SecretKeySelector option"

definition env_var :: "string \<Rightarrow> string \<Rightarrow> EnvVar" where
  "env_var n v = \<lparr>env_Name = n, env_Value = v, env_SecretKeyRef = None\<rparr>"

record SecurityContext =
  sc_AllowPrivilegeEscalation :: "bool option"
  sc_ReadOnlyRootFilesystem :: "bool option"
  sc_CapabilitiesDrop :: "string list option"

record PodSecurityContext =
  psc_RunAsNonRoot :: "bool option"
  psc_RunAsUser :: "int option"
  psc_RunAsGroup :: "int option"
  psc_SeccompProfile :: "string option"

record ResourceRequirements =
  res_Requests :: "string \<rightharpoonup> string"
  res_Limits :: "string \<rightharpoonup> string"

record Container =
  ct_Name :: string
  ct_Image :: string
  ct_ImagePullPolicy :: string
  ct_Ports :: "(string \<times> i32) list"
  ct_Env :: "EnvVar list"
  ct_VolumeMounts :: "(string \<times> string) list"
  ct_SecurityContext :: "SecurityContext option"
  ct_Resources :: ResourceRequirements

text \<open>The sources of a volume the code tells apart.\<close>

datatype volume_source = EmptyDir | HostPath string | OtherVolume string

record Volume =
  vol_Name :: string
  vol_Source :: volume_source

record PodSpec =
  ps_RestartPolicy :: string
  ps_ServiceAccountName :: string
  ps_RuntimeClassName :: "string option"
  ps_HostNetwork :: bool
  ps_HostPID :: bool
  ps_HostIPC :: bool
  ps_SecurityContext :: "PodSecurityContext option"
  ps_InitContainers :: "Container list"
  ps_Containers :: "Container list"
  ps_Volumes :: "Volume list"

record PodStatus =
  pst_Phase :: string
  pst_Conditions :: "(string \<times> string) list"

record Pod =
  pod_Meta :: ObjectMeta
  pod_Spec :: PodSpec
  pod_Status :: PodStatus

text \<open>The zero values of the structs, which the composite literals of the code start from.\<close>

definition no_resources :: ResourceRequirements where
  "no_resources = \<lparr>res_Requests = Map.empty, res_Limits = Map.empty\<rparr>"

definition zero_container :: Container where
  "zero_container =
     \<lparr>ct_Name = [], ct_Image = [], ct_ImagePullPolicy = [], ct_Ports = [], ct_Env = [],
      ct_VolumeMounts = [], ct_SecurityContext = None, ct_Resources = no_resources\<rparr>"

definition zero_pod_spec :: PodSpec where
  "zero_pod_spec =
     \<lparr>ps_RestartPolicy = [], ps_ServiceAccountName = [], ps_RuntimeClassName = None,
      ps_HostNetwork = False, ps_HostPID = False, ps_HostIPC = False, ps_SecurityContext = None,
      ps_InitContainers = [], ps_Containers = [], ps_Volumes = []\<rparr>"

definition zero_pod_status :: PodStatus where
  "zero_pod_status = \<lparr>pst_Phase = [], pst_Conditions = []\<rparr>"

record ServicePort =
  sp_Port :: i32
  sp_TargetPort :: i32

record Service =
  svc_Meta :: ObjectMeta
  svc_Selector :: labels
  svc_Ports :: "ServicePort list"

record Condition =
  cond_Type :: string
  cond_Status :: bool
  cond_Reason :: string
  cond_Message :: string

lemmas kube_zero_defs =
  object_meta_def env_var_def no_resources_def zero_container_def zero_pod_spec_def zero_pod_status_def

end
