(* ===== verification/Clients.thy ===== *)
theory Clients
  imports Prelude
begin

text \<open>
  \<^verbatim>\<open>pkg/postgresclient\<close> and \<^verbatim>\<open>pkg/miniclient\<close>: how a service opens its database pool and its object
  store.  The drivers are parameters.
\<close>

subsection \<open>\<^verbatim>\<open>postgresclient\<close>\<close>

text \<open>The driver: parsing a DSN, opening a pool with a number of connections, and pinging it.\<close>

record ('c, 'p) pg_driver =
  pd_ParseConfig :: "string \<Rightarrow> 'c result"
  pd_NewWithConfig :: "'c \<Rightarrow> i32 \<Rightarrow> 'p result"
  pd_Ping :: "'p \<Rightarrow> go_error option"

text \<open>\<open>postgres_New\<close> also gives the pools it closed again.\<close>

definition postgres_New :: "('c, 'p) pg_driver \<Rightarrow> string \<Rightarrow> 'p result \<times> 'p list" where
  "postgres_New drv dsn =
     (case pd_ParseConfig drv dsn of
        Inl err \<Rightarrow> (Inl (Wrapf ''parse dsn'' err), [])
      | Inr cfg \<Rightarrow>
          (case pd_NewWithConfig drv cfg 16 of
             Inl err \<Rightarrow> (Inl (Wrapf ''connect'' err), [])
           | Inr pool \<Rightarrow>
               (case pd_Ping drv pool of
                  Some err \<Rightarrow> (Inl (Wrapf ''ping'' err), [pool])
                | None \<Rightarrow> (Inr pool, []))))"

definition postgres_Close :: "'p option \<Rightarrow> 'p list" where
  "postgres_Close pool = (case pool of None \<Rightarrow> [] | Some p \<Rightarrow> [p])"

text \<open>
  A pool that was opened is either handed to the caller, and answered a ping, or closed.
\<close>

lemma postgres_New_no_leak:
  assumes "postgres_New drv dsn = (res, closed)" and "pd_ParseConfig drv dsn = Inr cfg"
    and "pd_NewWithConfig drv cfg 16 = Inr pool"
  shows "res = Inr pool \<and> closed = [] \<and> pd_Ping drv pool = None
       \<or> (\<exists>e. res = Inl (Wrapf ''ping'' e)) \<and> closed = [pool]"
  using assms by (auto simp: postgres_New_def split: option.splits)

subsection \<open>\<^verbatim>\<open>miniclient\<close>\<close>

record mini_client =
  mc_Bucket :: string

definition mini_New :: "(string \<Rightarrow> string \<Rightarrow> string \<Rightarrow> bool \<Rightarrow> go_error option) \<Rightarrow> string \<Rightarrow> string \<Rightarrow> string \<Rightarrow> string
    \<Rightarrow> bool \<Rightarrow> mini_client result" where
  "mini_New drv endpoint accessKey secretKey bucket useSSL =
     (case drv endpoint accessKey secretKey useSSL of
        Some err \<Rightarrow> Inl (Wrapf ''minio new'' err)
      | None \<Rightarrow> Inr \<lparr>mc_Bucket = bucket\<rparr>)"

datatype mini_call = BucketExists string | MakeBucket string

record mini_peer =
  mp_exists :: "(mini_call, bool result) peer"
  mp_make :: "(mini_call, go_error option) peer"

definition EnsureBucket :: "mini_peer \<Rightarrow> mini_client \<Rightarrow> mini_call list \<Rightarrow> go_error option \<times> mini_call list" where
  "EnsureBucket mp c h =
     (case ask (mp_exists mp) (BucketExists (mc_Bucket c)) h of
        (Inl err, h) \<Rightarrow> (Some (Wrapf ''bucket exists'' err), h)
      | (Inr yes, h) \<Rightarrow>
          if yes then (None, h)
          else
            (case ask (mp_make mp) (MakeBucket (mc_Bucket c)) h of
               (Some err, h) \<Rightarrow> (Some (Wrapf ''make bucket'' err), h)
             | (None, h) \<Rightarrow> (None, h)))"

text \<open>A start that meets the bucket makes none; one that does not makes it at most once.\<close>

lemma EnsureBucket_makes_once:
  "EnsureBucket mp c h = (err, h') \<Longrightarrow>
   \<exists>cs. h' = h @ cs \<and> (cs = [BucketExists (mc_Bucket c)] \<or> cs = [BucketExists (mc_Bucket c), MakeBucket (mc_Bucket c)])
      \<and> (mp_exists mp (h @ [BucketExists (mc_Bucket c)]) = Inr True \<longrightarrow> err = None \<and> length cs = 1)"
  by (auto simp: EnsureBucket_def split: sum.splits if_splits option.splits)

definition PutOpts :: string where
  "PutOpts = ''application/zstd''"

end
