(* ===== verification/SubmissionService.thy ===== *)
theory SubmissionService
  imports Sha256 SubmissionTable JobDispatch Clients
begin

text \<open>
  submission-api (\<^verbatim>\<open>apps/submission-api\<close>): the content-addressed write to MinIO and the \<^verbatim>\<open>submissions\<close>
  table (\<^verbatim>\<open>repo\<close>), the upload flow (\<^verbatim>\<open>service\<close>), the HTTP handler (\<^verbatim>\<open>server\<close>) and the start of the
  process.  \<open>Upload\<close> is the function as written; \<open>upload_move\<close> cuts it at its calls, so that uploads
  can be interleaved with each other and with the status updates of the builds.
\<close>

subsection \<open>State and environment\<close>

text \<open>
  What the service acts on: the table, the objects MinIO has acknowledged, each under its bucket and key,
  and the calls made to the API server.
\<close>

type_synonym object_store = "((string \<times> string) \<times> bytes) list"

record upload_world =
  uw_table :: submission_table
  uw_objects :: object_store
  uw_jobs :: "job_call list"

text \<open>
  What one request meets: its body (the bytes read and the error that ended the read), MinIO's
  answer, the fresh \<^verbatim>\<open>uuid.New()\<close> in its text form, the database's clock and connection at the
  insert and at the lookup, and the API server.
\<close>

record upload_env =
  ue_body :: "bytes \<times> go_error option"
  ue_put :: "go_error option"
  ue_uuid :: string
  ue_now :: int
  ue_insert :: outage
  ue_select :: "string option"
  ue_jobs :: job_api

subsection \<open>\<^verbatim>\<open>repo\<close>\<close>

record Submission =
  sb_ID :: string
  sb_Sha256 :: bytes
  sb_Language :: string
  sb_Status :: string
  sb_CreatedAt :: int
  sb_UpdatedAt :: int

text \<open>The row of \<^verbatim>\<open>INSERT INTO submissions (id, sha256, language, status) VALUES ...\<close>.\<close>

definition inserted_row :: "int \<Rightarrow> Submission \<Rightarrow> submission_row" where
  "inserted_row now s =
     \<lparr>row_id = sb_ID s, row_sha256 = sb_Sha256 s, row_language = sb_Language s, row_status = sb_Status s,
      row_image_digest = None, row_reject_reason = None, row_created_at = now, row_updated_at = now\<rparr>"

definition scanned_row :: "submission_row \<Rightarrow> Submission" where
  "scanned_row r =
     \<lparr>sb_ID = row_id r, sb_Sha256 = row_sha256 r, sb_Language = row_language r, sb_Status = row_status r,
      sb_CreatedAt = row_created_at r, sb_UpdatedAt = row_updated_at r\<rparr>"

definition pg_Insert :: "outage \<Rightarrow> int \<Rightarrow> Submission \<Rightarrow> submission_table
    \<Rightarrow> go_error option \<times> submission_table" where
  "pg_Insert conn now s t =
     (case over_connection conn (sql_insert (inserted_row now s)) t of
        (None, t') \<Rightarrow> (None, t')
      | (Some err, t') \<Rightarrow>
          (if pg_code err = Some ''23505'' then (Some ErrSubmissionExists, t') else (Some err, t')))"

definition err_no_rows :: go_error where
  "err_no_rows = GoError ''no rows in result set''"

definition pg_BySha256 :: "string option \<Rightarrow> bytes \<Rightarrow> submission_table \<Rightarrow> Submission result" where
  "pg_BySha256 conn sha t =
     (case conn of
        Some e \<Rightarrow> Inl (GoError e)
      | None \<Rightarrow> (case sql_select sha t of None \<Rightarrow> Inl err_no_rows | Some r \<Rightarrow> Inr (scanned_row r)))"

definition object_key :: "bytes \<Rightarrow> string" where
  "object_key sha = hex_encode sha @ ''/source.tar.zst''"

definition PutContentAddressed :: "mini_client \<Rightarrow> upload_env \<Rightarrow> object_store
    \<Rightarrow> (bytes \<times> i64 \<times> go_error option) \<times> object_store" where
  "PutContentAddressed c ev objs =
     (let (data, read_err) = ue_body ev;
          n = of_nat (length data)
      in if read_err \<noteq> None then ((replicate 32 0, n, read_err), objs)
         else (let sha = sha256 data in
               case ue_put ev of
                 Some err \<Rightarrow> ((sha, n, Some err), objs)
               | None \<Rightarrow> ((sha, n, None), objs @ [((mc_Bucket c, object_key sha), data)])))"

subsection \<open>\<^verbatim>\<open>service\<close>\<close>

record UploadService =
  sv_MinIO :: mini_client
  sv_Disp :: "Dispatcher option"

record UploadResult =
  ur_ID :: string
  ur_Sha256 :: bytes
  ur_Size :: i64

definition pending_submission :: "string \<Rightarrow> bytes \<Rightarrow> string \<Rightarrow> Submission" where
  "pending_submission uuid sha language =
     \<lparr>sb_ID = uuid, sb_Sha256 = sha, sb_Language = language, sb_Status = ''PENDING'',
      sb_CreatedAt = 0, sb_UpdatedAt = 0\<rparr>"

definition dispatch_inputs :: "string \<Rightarrow> bytes \<Rightarrow> string \<Rightarrow> Inputs" where
  "dispatch_inputs uuid sha language =
     \<lparr>in_SubmissionID = uuid, in_Sha256Hex = hex_encode sha, in_Language = language\<rparr>"

definition Upload :: "UploadService \<Rightarrow> string \<Rightarrow> upload_env \<Rightarrow> upload_world
    \<Rightarrow> UploadResult result \<times> upload_world" where
  "Upload svc language ev w =
     (case PutContentAddressed (sv_MinIO svc) ev (uw_objects w) of
        ((sha, n, Some err), objs) \<Rightarrow> (Inl (Wrapf ''minio put'' err), w\<lparr>uw_objects := objs\<rparr>)
      | ((sha, n, None), objs) \<Rightarrow>
     (case pg_Insert (ue_insert ev) (ue_now ev) (pending_submission (ue_uuid ev) sha language) (uw_table w) of
        (Some err, t) \<Rightarrow>
          (let w1 = w\<lparr>uw_objects := objs, uw_table := t\<rparr> in
           if is_submission_exists err then
             (case pg_BySha256 (ue_select ev) sha t of
                Inl e2 \<Rightarrow> (Inl (Wrapf ''dedupe lookup'' e2), w1)
              | Inr existing \<Rightarrow> (Inr \<lparr>ur_ID = sb_ID existing, ur_Sha256 = sha, ur_Size = n\<rparr>, w1))
           else (Inl (Wrapf ''postgres insert'' err), w1))
      | (None, t) \<Rightarrow>
          (let w1 = w\<lparr>uw_objects := objs, uw_table := t\<rparr>;
               res = \<lparr>ur_ID = ue_uuid ev, ur_Sha256 = sha, ur_Size = n\<rparr>
           in case sv_Disp svc of
                None \<Rightarrow> (Inr res, w1)
              | Some d \<Rightarrow>
                  (case Dispatch d (ue_jobs ev) (dispatch_inputs (ue_uuid ev) sha language) (uw_jobs w1) of
                     (Some dErr, js) \<Rightarrow> (Inl (Wrapf ''dispatch build'' dErr), w1\<lparr>uw_jobs := js\<rparr>)
                   | (None, js) \<Rightarrow> (Inr res, w1\<lparr>uw_jobs := js\<rparr>)))))"

subsection \<open>\<^verbatim>\<open>server\<close>\<close>

text \<open>The body of a success is the JSON object with id, hex digest and size.\<close>

datatype upload_response = UploadError nat string | UploadJSON string string i64

definition HandleUpload :: "UploadService \<Rightarrow> string \<Rightarrow> string \<Rightarrow> upload_env \<Rightarrow> upload_world
    \<Rightarrow> upload_response \<times> upload_world" where
  "HandleUpload svc http_method lang ev w =
     (if http_method \<noteq> ''POST'' then (UploadError StatusMethodNotAllowed ''method not allowed'', w)
      else if lang \<notin> {''rust'', ''go'', ''cpp''} then
        (UploadError StatusBadRequest ''missing or invalid ?language= (must be rust|go|cpp)'', w)
      else
        (case Upload svc lang ev w of
           (Inl err, w') \<Rightarrow> (UploadError StatusInternalServerError (error_text err), w')
         | (Inr res, w') \<Rightarrow> (UploadJSON (ur_ID res) (hex_encode (ur_Sha256 res)) (ur_Size res), w')))"

subsection \<open>An upload, cut at its calls\<close>

datatype stage =
    Received
  | Stored bytes i64
  | Inserted bytes i64
  | Exists bytes i64
  | Answered "UploadResult result"

fun upload_move :: "UploadService \<Rightarrow> string \<Rightarrow> upload_env \<Rightarrow> stage \<Rightarrow> upload_world \<Rightarrow> stage \<times> upload_world" where
  "upload_move svc lang ev Received w =
     (case PutContentAddressed (sv_MinIO svc) ev (uw_objects w) of
        ((sha, n, Some err), objs) \<Rightarrow> (Answered (Inl (Wrapf ''minio put'' err)), w\<lparr>uw_objects := objs\<rparr>)
      | ((sha, n, None), objs) \<Rightarrow> (Stored sha n, w\<lparr>uw_objects := objs\<rparr>))"
| "upload_move svc lang ev (Stored sha n) w =
     (case pg_Insert (ue_insert ev) (ue_now ev) (pending_submission (ue_uuid ev) sha lang) (uw_table w) of
        (Some err, t) \<Rightarrow>
          (if is_submission_exists err then Exists sha n else Answered (Inl (Wrapf ''postgres insert'' err)),
           w\<lparr>uw_table := t\<rparr>)
      | (None, t) \<Rightarrow> (Inserted sha n, w\<lparr>uw_table := t\<rparr>))"
| "upload_move svc lang ev (Exists sha n) w =
     (case pg_BySha256 (ue_select ev) sha (uw_table w) of
        Inl e2 \<Rightarrow> (Answered (Inl (Wrapf ''dedupe lookup'' e2)), w)
      | Inr existing \<Rightarrow> (Answered (Inr \<lparr>ur_ID = sb_ID existing, ur_Sha256 = sha, ur_Size = n\<rparr>), w))"
| "upload_move svc lang ev (Inserted sha n) w =
     (let res = \<lparr>ur_ID = ue_uuid ev, ur_Sha256 = sha, ur_Size = n\<rparr> in
      case sv_Disp svc of
        None \<Rightarrow> (Answered (Inr res), w)
      | Some d \<Rightarrow>
          (case Dispatch d (ue_jobs ev) (dispatch_inputs (ue_uuid ev) sha lang) (uw_jobs w) of
             (Some dErr, js) \<Rightarrow> (Answered (Inl (Wrapf ''dispatch build'' dErr)), w\<lparr>uw_jobs := js\<rparr>)
           | (None, js) \<Rightarrow> (Answered (Inr res), w\<lparr>uw_jobs := js\<rparr>)))"
| "upload_move svc lang ev (Answered r) w = (Answered r, w)"

text \<open>Undisturbed, three moves are the function.\<close>

lemma Upload_moves:
  "((\<lambda>(st, w). upload_move svc lang ev st w) ^^ 3) (Received, w) =
     (Answered (fst (Upload svc lang ev w)), snd (Upload svc lang ev w))"
proof -
  obtain sha n err objs where put: "PutContentAddressed (sv_MinIO svc) ev (uw_objects w) = ((sha, n, err), objs)"
    by (metis surj_pair)
  obtain ierr t where ins: "pg_Insert (ue_insert ev) (ue_now ev) (pending_submission (ue_uuid ev) sha lang)
      (uw_table w) = (ierr, t)" by (metis surj_pair)
  obtain derr js where disp: "\<And>d. sv_Disp svc = Some d \<Longrightarrow>
      Dispatch d (ue_jobs ev) (dispatch_inputs (ue_uuid ev) sha lang) (uw_jobs w) = (derr, js)"
    by (metis option.inject surj_pair)
  show ?thesis
    using put ins disp
    by (cases err; cases ierr; cases "sv_Disp svc"; cases derr)
      (auto simp: Upload_def numeral_3_eq_3 Let_def split: sum.splits)
qed

end
