(* ===== verification/SubmissionSystem.thy ===== *)
theory SubmissionSystem
  imports SubmissionService
begin

text \<open>
  Any number of uploads in flight at once, interleaved call by call with each other and with the
  status updates of the build runners.  The invariant of the system gives what submission-api
  promises: every row has its source, equal sources get one id, and a submission is dispatched at
  most once, with its own parameters.
\<close>

subsection \<open>The system\<close>

record upload_request =
  rq_Language :: string
  rq_Env :: upload_env
  rq_Stage :: stage

record upload_system =
  us_world :: upload_world
  us_requests :: "upload_request list"

definition rq_data :: "upload_request \<Rightarrow> bytes" where
  "rq_data rq = fst (ue_body (rq_Env rq))"

inductive service_step :: "UploadService \<Rightarrow> upload_system \<Rightarrow> upload_system \<Rightarrow> bool" for svc where
  arrive: "service_step svc \<lparr>us_world = w, us_requests = rs\<rparr>
     \<lparr>us_world = w, us_requests = rs @ [\<lparr>rq_Language = lang, rq_Env = ev, rq_Stage = Received\<rparr>]\<rparr>"
| move: "i < length rs \<Longrightarrow>
     upload_move svc (rq_Language (rs ! i)) (rq_Env (rs ! i)) (rq_Stage (rs ! i)) w = (st, w') \<Longrightarrow>
     service_step svc \<lparr>us_world = w, us_requests = rs\<rparr>
       \<lparr>us_world = w', us_requests = rs[i := (rs ! i)\<lparr>rq_Stage := st\<rparr>]\<rparr>"
| build: "keeps_identity f \<Longrightarrow>
     service_step svc \<lparr>us_world = w, us_requests = rs\<rparr>
       \<lparr>us_world = w\<lparr>uw_table := snd (sql_update k f (uw_table w))\<rparr>, us_requests = rs\<rparr>"

definition empty_world :: upload_world where
  "empty_world = \<lparr>uw_table = [], uw_objects = [], uw_jobs = []\<rparr>"

inductive service_run :: "UploadService \<Rightarrow> upload_system \<Rightarrow> bool" for svc where
  start: "service_run svc \<lparr>us_world = empty_world, us_requests = []\<rparr>"
| step: "service_run svc s \<Longrightarrow> service_step svc s s' \<Longrightarrow> service_run svc s'"

subsection \<open>The invariant\<close>

text \<open>The Jobs created so far.\<close>

fun creates :: "job_call list \<Rightarrow> Job list" where
  "creates [] = []"
| "creates (GetJob ns n # h) = creates h"
| "creates (CreateJob ns j # h) = j # creates h"

lemma creates_append [simp]: "creates (h @ g) = creates h @ creates g"
  by (induction h rule: creates.induct) simp_all

definition job_id :: "Job \<Rightarrow> string" where
  "job_id j = om_Name (job_Meta j)"

definition row_job :: "Dispatcher \<Rightarrow> submission_row \<Rightarrow> Job" where
  "row_job d r = build_job d (dispatch_inputs (row_id r) (row_sha256 r) (row_language r))"

definition backed :: "object_store \<Rightarrow> bytes \<Rightarrow> bool" where
  "backed objs sha \<longleftrightarrow> (\<exists>bucket data. ((bucket, object_key sha), data) \<in> set objs \<and> sha256 data = sha)"

definition world_ok :: "UploadService \<Rightarrow> upload_world \<Rightarrow> bool" where
  "world_ok svc w \<longleftrightarrow>
     table_ok (uw_table w)
   \<and> (\<forall>r \<in> set (uw_table w). backed (uw_objects w) (row_sha256 r))
   \<and> (\<forall>(k, data) \<in> set (uw_objects w). k = (mc_Bucket (sv_MinIO svc), object_key (sha256 data)))
   \<and> (\<forall>j \<in> set (creates (uw_jobs w)). \<exists>d. sv_Disp svc = Some d \<and> (\<exists>r \<in> set (uw_table w). j = row_job d r))
   \<and> distinct (map job_id (creates (uw_jobs w)))"

lemma world_okD:
  assumes "world_ok svc w" "r \<in> set (uw_table w)"
  shows "table_ok (uw_table w)"
    and "\<exists>data. ((mc_Bucket (sv_MinIO svc), object_key (row_sha256 r)), data) \<in> set (uw_objects w) \<and> sha256 data = row_sha256 r"
    and "\<forall>(k, data) \<in> set (uw_objects w). k = (mc_Bucket (sv_MinIO svc), object_key (sha256 data))"
proof -
  show t: "table_ok (uw_table w)"
    and k: "\<forall>(k, data) \<in> set (uw_objects w). k = (mc_Bucket (sv_MinIO svc), object_key (sha256 data))"
    using assms(1) by (simp_all add: world_ok_def)
  have "backed (uw_objects w) (row_sha256 r)" using assms by (simp add: world_ok_def)
  then obtain bucket data where d: "((bucket, object_key (row_sha256 r)), data) \<in> set (uw_objects w)"
    "sha256 data = row_sha256 r" by (auto simp: backed_def)
  moreover have "bucket = mc_Bucket (sv_MinIO svc)" using bspec [OF k d(1)] by simp
  ultimately show "\<exists>data. ((mc_Bucket (sv_MinIO svc), object_key (row_sha256 r)), data) \<in> set (uw_objects w)
      \<and> sha256 data = row_sha256 r" by blast
qed

text \<open>What is known of a request at each of its stages.\<close>

definition stage_ok :: "upload_world \<Rightarrow> upload_request \<Rightarrow> bool" where
  "stage_ok w rq \<longleftrightarrow>
     (let sha = sha256 (rq_data rq); n = of_nat (length (rq_data rq)) in
      case rq_Stage rq of
        Received \<Rightarrow> True
      | Stored sha' n' \<Rightarrow> sha' = sha \<and> n' = n \<and> backed (uw_objects w) sha
      | Inserted sha' n' \<Rightarrow> sha' = sha \<and> n' = n
          \<and> (\<exists>r. sql_select sha (uw_table w) = Some r \<and> row_id r = ue_uuid (rq_Env rq)
                 \<and> row_language r = rq_Language rq)
          \<and> ''build-'' @ ue_uuid (rq_Env rq) \<notin> set (map job_id (creates (uw_jobs w)))
      | Exists sha' n' \<Rightarrow> sha' = sha \<and> n' = n
      | Answered (Inl e) \<Rightarrow> True
      | Answered (Inr u) \<Rightarrow> ur_Sha256 u = sha \<and> ur_Size u = n
          \<and> (\<exists>r. sql_select sha (uw_table w) = Some r \<and> row_id r = ur_ID u))"

definition inserting :: "upload_request \<Rightarrow> bool" where
  "inserting rq \<longleftrightarrow> (case rq_Stage rq of Inserted sha n \<Rightarrow> True | _ \<Rightarrow> False)"

definition system_ok :: "UploadService \<Rightarrow> upload_system \<Rightarrow> bool" where
  "system_ok svc s \<longleftrightarrow>
     world_ok svc (us_world s) \<and> (\<forall>rq \<in> set (us_requests s). stage_ok (us_world s) rq)
   \<and> (\<forall>i j. i < length (us_requests s) \<longrightarrow> j < length (us_requests s) \<longrightarrow> i \<noteq> j \<longrightarrow>
        inserting (us_requests s ! i) \<longrightarrow> inserting (us_requests s ! j) \<longrightarrow>
        ue_uuid (rq_Env (us_requests s ! i)) \<noteq> ue_uuid (rq_Env (us_requests s ! j)))"

subsection \<open>Later worlds\<close>

definition rows_stay :: "submission_table \<Rightarrow> submission_table \<Rightarrow> bool" where
  "rows_stay t t' \<longleftrightarrow>
     (\<forall>k r. sql_select k t = Some r \<longrightarrow> (\<exists>r'. sql_select k t' = Some r' \<and> row_identity r' = row_identity r))"

lemma rows_stay_refl [simp]: "rows_stay t t"
  by (simp add: rows_stay_def)

lemma rows_stay_statement: "table_ok t \<Longrightarrow> statement_ok st \<Longrightarrow> rows_stay t (pg.run st t)"
  unfolding rows_stay_def using pg.run_keeps_rows by blast

lemma rows_stayD:
  assumes "rows_stay t t'" "sql_select k t = Some r"
  obtains r' where "sql_select k t' = Some r'" "row_id r' = row_id r" "row_language r' = row_language r"
  using assms unfolding rows_stay_def by (auto simp: row_identity_def)

text \<open>What is known of a request stays true as the world moves on.\<close>

lemma stage_ok_mono:
  assumes "stage_ok w rq" "rows_stay (uw_table w) (uw_table w')" "set (uw_objects w) \<subseteq> set (uw_objects w')"
    and "\<And>sha n. rq_Stage rq = Inserted sha n \<Longrightarrow>
           ''build-'' @ ue_uuid (rq_Env rq) \<notin> set (map job_id (creates (uw_jobs w')))"
  shows "stage_ok w' rq"
proof (cases "rq_Stage rq")
  case (Stored sha n)
  then show ?thesis using assms(1,3) unfolding stage_ok_def backed_def by (auto simp: Let_def)
next
  case (Inserted sha n)
  then obtain r where "sha = sha256 (rq_data rq)" "n = of_nat (length (rq_data rq))"
      "sql_select sha (uw_table w) = Some r" "row_id r = ue_uuid (rq_Env rq)" "row_language r = rq_Language rq"
    using assms(1) by (auto simp: stage_ok_def Let_def)
  moreover from rows_stayD [OF assms(2) this(3)] obtain r' where
    "sql_select sha (uw_table w') = Some r'" "row_id r' = row_id r" "row_language r' = row_language r" by blast
  ultimately show ?thesis using Inserted assms(4) [OF Inserted] by (auto simp: stage_ok_def Let_def)
next
  case (Exists sha n)
  then show ?thesis using assms(1) by (auto simp: stage_ok_def Let_def)
next
  case (Answered res)
  show ?thesis
  proof (cases res)
    case (Inr u)
    then obtain r where r: "sql_select (sha256 (rq_data rq)) (uw_table w) = Some r" "row_id r = ur_ID u"
        "ur_Sha256 u = sha256 (rq_data rq)" "ur_Size u = of_nat (length (rq_data rq))"
      using assms(1) Answered by (auto simp: stage_ok_def Let_def)
    from rows_stayD [OF assms(2) r(1)] obtain r' where
      "sql_select (sha256 (rq_data rq)) (uw_table w') = Some r'" "row_id r' = row_id r" by blast
    then show ?thesis using Answered Inr r by (auto simp: stage_ok_def Let_def)
  qed (simp add: stage_ok_def Let_def Answered)
qed (simp add: stage_ok_def Let_def)

lemma backed_mono: "backed objs sha \<Longrightarrow> set objs \<subseteq> set objs' \<Longrightarrow> backed objs' sha"
  unfolding backed_def by blast

text \<open>Rows a statement leaves are the old ones, but for their status, or the inserted one.\<close>

lemma update_rows:
  "keeps_identity f \<Longrightarrow> r \<in> set (snd (sql_update k f t)) \<Longrightarrow> \<exists>q \<in> set t. row_identity r = row_identity q"
  by (auto simp: sql_update_def keeps_identity_def split: if_splits)

lemma update_rows_back:
  "keeps_identity f \<Longrightarrow> q \<in> set t \<Longrightarrow> \<exists>r \<in> set (snd (sql_update k f t)). row_identity r = row_identity q"
  by (auto simp: sql_update_def keeps_identity_def)

lemma row_job_identity: "row_identity r = row_identity q \<Longrightarrow> row_job d r = row_job d q"
  by (simp add: row_job_def row_identity_def)

lemma job_id_row_job [simp]: "job_id (row_job d r) = ''build-'' @ row_id r"
  by (simp add: job_id_def row_job_def build_job_def object_meta_def job_name_def dispatch_inputs_def)

subsection \<open>What a move does\<close>

text \<open>
  \<open>move_ok\<close> is everything the invariant needs of one move: the world stays good and only grows, the
  request's new stage is right, and a Job is created only by a request that has inserted its row.
\<close>

definition move_ok :: "UploadService \<Rightarrow> upload_world \<Rightarrow> upload_request \<Rightarrow> stage \<Rightarrow> upload_world \<Rightarrow> bool" where
  "move_ok svc w rq st w' \<longleftrightarrow>
     world_ok svc w' \<and> rows_stay (uw_table w) (uw_table w') \<and> set (uw_objects w) \<subseteq> set (uw_objects w')
   \<and> stage_ok w' (rq\<lparr>rq_Stage := st\<rparr>)
   \<and> (creates (uw_jobs w') = creates (uw_jobs w)
      \<or> inserting rq \<and> (\<exists>j. creates (uw_jobs w') = creates (uw_jobs w) @ [j]
                            \<and> job_id j = ''build-'' @ ue_uuid (rq_Env rq)))
   \<and> (inserting (rq\<lparr>rq_Stage := st\<rparr>) \<longrightarrow> ue_uuid (rq_Env rq) \<notin> row_id ` set (uw_table w))"

lemma receive_move:
  assumes "world_ok svc w" "rq_Stage rq = Received"
    and "upload_move svc (rq_Language rq) (rq_Env rq) (rq_Stage rq) w = (st, w')"
  shows "move_ok svc w rq st w'"
proof (cases "snd (ue_body (rq_Env rq)) = None \<and> ue_put (rq_Env rq) = None")
  case False
  then have "w' = w" "\<exists>e. st = Answered (Inl e)"
    using assms(2,3) by (auto simp: PutContentAddressed_def Let_def case_prod_unfold split: option.splits if_splits)
  then show ?thesis using assms(1) by (auto simp: move_ok_def stage_ok_def inserting_def Let_def)
next
  case True
  let ?d = "rq_data rq"
  have st: "st = Stored (sha256 ?d) (of_nat (length ?d))"
    and w': "w' = w\<lparr>uw_objects := uw_objects w @ [((mc_Bucket (sv_MinIO svc), object_key (sha256 ?d)), ?d)]\<rparr>"
    using assms(2,3) True by (auto simp: PutContentAddressed_def Let_def case_prod_unfold rq_data_def)
  have "backed (uw_objects w') (sha256 ?d)" by (auto simp: w' backed_def)
  then have "stage_ok w' (rq\<lparr>rq_Stage := st\<rparr>)" by (simp add: st stage_ok_def Let_def rq_data_def)
  moreover have "world_ok svc w'"
    using assms(1) unfolding w' world_ok_def by (auto intro: backed_mono)
  ultimately show ?thesis by (simp add: move_ok_def w' st inserting_def subset_iff)
qed

text \<open>The ways an insert goes; \<open>row\<close> is the row it tries to add.\<close>

lemma pg_Insert_cases:
  fixes now :: int and s :: Submission and t :: submission_table
  defines "row \<equiv> inserted_row now s"
  obtains (added) "pg_Insert conn now s t = (None, t @ [row])" "sql_insert row t = (None, t @ [row])"
    | (taken) "pg_Insert conn now s t = (Some ErrSubmissionExists, t)"
    | (failed) err t' where "pg_Insert conn now s t = (Some err, t')" "\<not> is_submission_exists err"
        "t' = t \<or> (t' = t @ [row] \<and> sql_insert row t = (None, t @ [row]))"
proof -
  consider "sql_insert row t = (Some check_violation, t)" | "sql_insert row t = (Some unique_violation, t)"
    | "sql_insert row t = (None, t @ [row])" unfolding sql_insert_def by metis
  then show ?thesis
    using that
    by cases (cases conn; auto simp: pg_Insert_def row_def unique_violation_def check_violation_def)+
qed

lemma added_row:
  assumes "table_ok t" "sql_insert row t = (None, t @ [row])"
  shows "table_ok (t @ [row])" "rows_stay t (t @ [row])" "sql_select (row_sha256 row) (t @ [row]) = Some row"
    and "row_id row \<notin> row_id ` set t"
proof -
  have run: "pg.run (Insert row) t = t @ [row]" using assms(2) by simp
  show "table_ok (t @ [row])" using pg.run_ok [OF assms(1), of "Insert row"] run by simp
  show "rows_stay t (t @ [row])" using rows_stay_statement [OF assms(1), of "Insert row"] run by simp
  show "sql_select (row_sha256 row) (t @ [row]) = Some row"
    using pg.insert_done [OF assms] by simp
  show "row_id row \<notin> row_id ` set t"
    using assms(2) by (auto simp: sql_insert_def list_ex_iff split: if_splits)
qed

lemma world_ok_insert:
  assumes "world_ok svc w" "sql_insert row (uw_table w) = (None, uw_table w @ [row])"
    and "backed (uw_objects w) (row_sha256 row)"
  shows "world_ok svc (w\<lparr>uw_table := uw_table w @ [row]\<rparr>)"
proof -
  have jobs: "\<exists>d. sv_Disp svc = Some d \<and> (\<exists>r \<in> set (uw_table w @ [row]). j = row_job d r)"
    if "j \<in> set (creates (uw_jobs w))" for j
    using assms(1) that unfolding world_ok_def by fastforce
  show ?thesis
    using assms(1,3) added_row(1) [OF _ assms(2)] jobs unfolding world_ok_def by simp
qed

lemma insert_move:
  assumes "world_ok svc w" "rq_Stage rq = Stored sha n" "stage_ok w rq"
    and "upload_move svc (rq_Language rq) (rq_Env rq) (rq_Stage rq) w = (st, w')"
  shows "move_ok svc w rq st w'"
proof -
  let ?ev = "rq_Env rq"
  let ?s = "pending_submission (ue_uuid ?ev) sha (rq_Language rq)"
  let ?row = "inserted_row (ue_now ?ev) ?s"
  have t: "table_ok (uw_table w)" using assms(1) by (simp add: world_ok_def)
  have sha: "sha = sha256 (rq_data rq)" "n = of_nat (length (rq_data rq))" "backed (uw_objects w) sha"
    using assms(2,3) by (simp_all add: stage_ok_def Let_def)
  have row: "row_sha256 ?row = sha" "row_id ?row = ue_uuid ?ev" "row_language ?row = rq_Language rq"
    by (simp_all add: inserted_row_def pending_submission_def)
  note defs = move_ok_def stage_ok_def inserting_def Let_def rq_data_def
  show ?thesis
  proof (cases rule: pg_Insert_cases [of "ue_insert ?ev" "ue_now ?ev" ?s "uw_table w"])
    case added
    then have st: "st = Inserted sha n" and w': "w' = w\<lparr>uw_table := uw_table w @ [?row]\<rparr>"
      using assms(2,4) by simp_all
    note new = added_row [OF t added(2)]
    have "world_ok svc w'" using world_ok_insert [OF assms(1) added(2)] sha(3) row(1) w' by simp
    moreover have fresh: "''build-'' @ ue_uuid ?ev \<notin> set (map job_id (creates (uw_jobs w')))"
      using assms(1) new(4) row(2) w' by (auto simp: world_ok_def)
    ultimately show ?thesis
      using new row sha st w' by (simp add: defs image_iff)
  next
    case taken
    then have "st = Exists sha n" "w' = w" using assms(2,4) by simp_all
    then show ?thesis using assms(1) sha by (simp add: defs)
  next
    case (failed err t')
    then have st: "st = Answered (Inl (Wrapf ''postgres insert'' err))" and w': "w' = w\<lparr>uw_table := t'\<rparr>"
      using assms(2,4) by simp_all
    have "world_ok svc w' \<and> rows_stay (uw_table w) (uw_table w')"
      using failed(3) world_ok_insert [OF assms(1), of ?row] added_row(2) [OF t, of ?row] assms(1) sha(3) row(1) w'
      by auto
    then show ?thesis using st w' by (simp add: defs)
  qed
qed

lemma lookup_move:
  assumes "world_ok svc w" "rq_Stage rq = Exists sha n" "stage_ok w rq"
    and "upload_move svc (rq_Language rq) (rq_Env rq) (rq_Stage rq) w = (st, w')"
  shows "move_ok svc w rq st w'"
proof -
  have sha: "sha = sha256 (rq_data rq)" "n = of_nat (length (rq_data rq))"
    using assms(2,3) by (simp_all add: stage_ok_def Let_def)
  have w': "w' = w" using assms(2,4) by (auto split: sum.splits)
  have "stage_ok w (rq\<lparr>rq_Stage := st\<rparr>) \<and> \<not> inserting (rq\<lparr>rq_Stage := st\<rparr>)"
    using assms(2,4) sha
    by (auto simp: pg_BySha256_def stage_ok_def inserting_def Let_def scanned_row_def rq_data_def
        split: option.splits)
  then show ?thesis using assms(1) by (simp add: move_ok_def w')
qed

lemma world_ok_create:
  assumes "world_ok svc w" "sv_Disp svc = Some d" "r \<in> set (uw_table w)" "job_id j \<notin> set (map job_id (creates (uw_jobs w)))"
    and "creates js = creates (uw_jobs w) @ [j]" "j = row_job d r"
  shows "world_ok svc (w\<lparr>uw_jobs := js\<rparr>)"
  using assms unfolding world_ok_def by auto

lemma dispatch_move:
  assumes "world_ok svc w" "rq_Stage rq = Inserted sha n" "stage_ok w rq"
    and "upload_move svc (rq_Language rq) (rq_Env rq) (rq_Stage rq) w = (st, w')"
  shows "move_ok svc w rq st w'"
proof -
  let ?ev = "rq_Env rq"
  let ?i = "dispatch_inputs (ue_uuid ?ev) sha (rq_Language rq)"
  obtain r where sha: "sha = sha256 (rq_data rq)" "n = of_nat (length (rq_data rq))"
    and r: "sql_select sha (uw_table w) = Some r" "row_id r = ue_uuid ?ev" "row_language r = rq_Language rq"
    and fresh: "''build-'' @ ue_uuid ?ev \<notin> set (map job_id (creates (uw_jobs w)))"
    using assms(2,3) by (auto simp: stage_ok_def Let_def)
  have rt: "r \<in> set (uw_table w)" "row_sha256 r = sha" using sql_select_Some [OF r(1)] by simp_all
  have stage: "stage_ok (w\<lparr>uw_jobs := js\<rparr>) (rq\<lparr>rq_Stage := Answered res\<rparr>)"
    if "res = Inr \<lparr>ur_ID = ue_uuid ?ev, ur_Sha256 = sha, ur_Size = n\<rparr> \<or> (\<exists>e. res = Inl e)" for res js
    using that sha r by (auto simp: stage_ok_def Let_def rq_data_def)
  show ?thesis
  proof (cases "sv_Disp svc")
    case None
    then have "w' = w" "st = Answered (Inr \<lparr>ur_ID = ue_uuid ?ev, ur_Sha256 = sha, ur_Size = n\<rparr>)"
      using assms(2,4) by simp_all
    then show ?thesis using stage [of _ "uw_jobs w"] assms(1) by (simp add: move_ok_def inserting_def)
  next
    case (Some d)
    obtain err js where disp: "Dispatch d (ue_jobs ?ev) ?i (uw_jobs w) = (err, js)" by (metis surj_pair)
    have w': "w' = w\<lparr>uw_jobs := js\<rparr>"
      using assms(2,4) Some disp by (cases err) simp_all
    have "\<exists>res. st = Answered res
            \<and> (res = Inr \<lparr>ur_ID = ue_uuid ?ev, ur_Sha256 = sha, ur_Size = n\<rparr> \<or> (\<exists>e. res = Inl e))"
      using assms(2,4) Some disp by (cases err) auto
    then obtain res where res: "st = Answered res"
      "res = Inr \<lparr>ur_ID = ue_uuid ?ev, ur_Sha256 = sha, ur_Size = n\<rparr> \<or> (\<exists>e. res = Inl e)" by blast
    have st: "stage_ok w' (rq\<lparr>rq_Stage := st\<rparr>)" "\<not> inserting (rq\<lparr>rq_Stage := st\<rparr>)"
      using stage [OF res(2)] by (simp_all add: inserting_def w' res(1))
    have j: "build_job d ?i = row_job d r"
      using r rt by (simp add: row_job_def)
    have "creates js = creates (uw_jobs w) \<or> creates js = creates (uw_jobs w) @ [row_job d r]"
      using disp j by (cases rule: Dispatch_cases [of "ue_jobs ?ev" "uw_jobs w" d ?i]) auto
    then show ?thesis
    proof
      assume same: "creates js = creates (uw_jobs w)"
      then have "world_ok svc w'" using assms(1) by (simp add: w' world_ok_def)
      then show ?thesis using st same by (simp add: move_ok_def w')
    next
      assume new: "creates js = creates (uw_jobs w) @ [row_job d r]"
      have "world_ok svc w'"
        using world_ok_create [OF assms(1) Some rt(1) _ new refl] fresh r(2) w' by simp
      then show ?thesis using st new r(2) assms(2) by (simp add: move_ok_def w' inserting_def)
    qed
  qed
qed

lemma move_is_ok:
  assumes "world_ok svc w" "stage_ok w rq"
    and "upload_move svc (rq_Language rq) (rq_Env rq) (rq_Stage rq) w = (st, w')"
  shows "move_ok svc w rq st w'"
proof (cases "rq_Stage rq")
  case (Answered r)
  then have "w' = w" "rq\<lparr>rq_Stage := st\<rparr> = rq" using assms(3) by simp_all
  then show ?thesis using assms(1,2) Answered by (simp add: move_ok_def inserting_def)
next
  case Received
  then show ?thesis using receive_move assms by blast
next
  case (Stored sha n)
  then show ?thesis using insert_move assms by blast
next
  case (Inserted sha n)
  then show ?thesis using dispatch_move assms by blast
next
  case (Exists sha n)
  then show ?thesis using lookup_move assms by blast
qed

subsection \<open>The invariant holds\<close>

lemma world_ok_build:
  assumes "world_ok svc w" "keeps_identity f"
  shows "world_ok svc (w\<lparr>uw_table := snd (sql_update k f (uw_table w))\<rparr>)"
proof -
  let ?t = "snd (sql_update k f (uw_table w))"
  have "backed (uw_objects w) (row_sha256 r)" if r: "r \<in> set ?t" for r
  proof -
    obtain q where "q \<in> set (uw_table w)" "row_identity r = row_identity q"
      using update_rows [OF assms(2) r] by blast
    then have "row_sha256 r = row_sha256 q" "backed (uw_objects w) (row_sha256 q)"
      using assms(1) by (simp_all add: row_identity_def world_ok_def)
    then show ?thesis by simp
  qed
  moreover have "\<exists>d. sv_Disp svc = Some d \<and> (\<exists>r \<in> set ?t. j = row_job d r)"
    if j: "j \<in> set (creates (uw_jobs w))" for j
  proof -
    obtain d q where "sv_Disp svc = Some d" "q \<in> set (uw_table w)" "j = row_job d q"
      using assms(1) j unfolding world_ok_def by blast
    moreover obtain r where "r \<in> set ?t" "row_identity r = row_identity q"
      using update_rows_back [OF assms(2) \<open>q \<in> set (uw_table w)\<close>] by blast
    ultimately show ?thesis using row_job_identity [of r q d] by metis
  qed
  moreover have "table_ok ?t" using assms sql_update_ok by (simp add: world_ok_def)
  ultimately show ?thesis using assms(1) unfolding world_ok_def by simp
qed

lemma stage_ok_Inserted:
  assumes "stage_ok w rq" "rq_Stage rq = Inserted sha n"
  shows "''build-'' @ ue_uuid (rq_Env rq) \<notin> set (map job_id (creates (uw_jobs w)))"
    and "ue_uuid (rq_Env rq) \<in> row_id ` set (uw_table w)"
proof -
  from assms have "\<exists>r. sql_select sha (uw_table w) = Some r \<and> row_id r = ue_uuid (rq_Env rq)"
    by (auto simp: stage_ok_def Let_def)
  then obtain r where "r \<in> set (uw_table w)" "row_id r = ue_uuid (rq_Env rq)"
    using sql_select_Some by blast
  then show "ue_uuid (rq_Env rq) \<in> row_id ` set (uw_table w)" by (metis imageI)
  show "''build-'' @ ue_uuid (rq_Env rq) \<notin> set (map job_id (creates (uw_jobs w)))"
    using assms by (simp add: stage_ok_def Let_def)
qed

lemma inserting_row:
  "stage_ok w rq \<Longrightarrow> inserting rq \<Longrightarrow> ue_uuid (rq_Env rq) \<in> row_id ` set (uw_table w)"
  by (cases "rq_Stage rq") (simp_all add: inserting_def stage_ok_Inserted(2))

lemma system_step_move:
  assumes ok: "system_ok svc \<lparr>us_world = w, us_requests = rs\<rparr>" and i: "i < length rs"
    and m: "move_ok svc w (rs ! i) st w'"
  shows "system_ok svc \<lparr>us_world = w', us_requests = rs[i := (rs ! i)\<lparr>rq_Stage := st\<rparr>]\<rparr>"
proof -
  let ?rs = "rs[i := (rs ! i)\<lparr>rq_Stage := st\<rparr>]"
  have stage: "stage_ok w (rs ! k)" if "k < length rs" for k
    using ok that by (simp add: system_ok_def)
  have apart: "ue_uuid (rq_Env (rs ! a)) \<noteq> ue_uuid (rq_Env (rs ! b))"
    if "a < length rs" "b < length rs" "a \<noteq> b" "inserting (rs ! a)" "inserting (rs ! b)" for a b
    using ok that by (simp add: system_ok_def)
  have stages: "stage_ok w' (?rs ! k)" if k: "k < length rs" for k
  proof (cases "k = i")
    case True
    then show ?thesis using m i by (simp add: move_ok_def)
  next
    case False
    have "''build-'' @ ue_uuid (rq_Env (rs ! k)) \<notin> set (map job_id (creates (uw_jobs w')))"
      if ins: "rq_Stage (rs ! k) = Inserted sha n" for sha n
    proof -
      have old: "''build-'' @ ue_uuid (rq_Env (rs ! k)) \<notin> set (map job_id (creates (uw_jobs w)))"
        by (rule stage_ok_Inserted(1) [OF stage [OF k] ins])
      from m consider "creates (uw_jobs w') = creates (uw_jobs w)"
        | j where "inserting (rs ! i)" "creates (uw_jobs w') = creates (uw_jobs w) @ [j]"
            "job_id j = ''build-'' @ ue_uuid (rq_Env (rs ! i))"
        unfolding move_ok_def by blast
      then show ?thesis
      proof cases
        case 2
        then show ?thesis using old apart [OF i k] False ins by (simp add: inserting_def)
      qed (use old in simp)
    qed
    then show ?thesis
      using stage_ok_mono [OF stage [OF k]] m False by (simp add: move_ok_def)
  qed
  have apart': "ue_uuid (rq_Env (?rs ! a)) \<noteq> ue_uuid (rq_Env (?rs ! b))"
    if ab: "a < length rs" "b < length rs" "a \<noteq> b" "inserting (?rs ! a)" "inserting (?rs ! b)" for a b
  proof -
    have new: "ue_uuid (rq_Env (rs ! i)) \<noteq> ue_uuid (rq_Env (rs ! k))"
      if "inserting ((rs ! i)\<lparr>rq_Stage := st\<rparr>)" "k < length rs" "inserting (rs ! k)" for k
      using m that inserting_row [OF stage [OF that(2)] that(3)] by (auto simp: move_ok_def)
    consider "a = i" | "b = i" | "a \<noteq> i" "b \<noteq> i" by blast
    then show ?thesis
    proof cases
      case 1
      then show ?thesis using new [of b] ab i by simp
    next
      case 2
      then show ?thesis using new [of a] ab i by (simp add: eq_commute)
    next
      case 3
      then show ?thesis using apart [of a b] ab by simp
    qed
  qed
  have "\<forall>rq \<in> set ?rs. stage_ok w' rq"
  proof
    fix rq assume "rq \<in> set ?rs"
    then obtain k where "k < length rs" "rq = ?rs ! k" unfolding in_set_conv_nth by auto
    then show "stage_ok w' rq" using stages by simp
  qed
  moreover have "world_ok svc w'" using m by (simp add: move_ok_def)
  ultimately show ?thesis using apart' by (simp add: system_ok_def)
qed

lemma system_step:
  assumes "system_ok svc s" "service_step svc s s'"
  shows "system_ok svc s'"
  using assms(2,1)
proof cases
  case (arrive w rs lang ev)
  have new: "\<not> inserting \<lparr>rq_Language = lang, rq_Env = ev, rq_Stage = Received\<rparr>"
    and "stage_ok w \<lparr>rq_Language = lang, rq_Env = ev, rq_Stage = Received\<rparr>"
    by (simp_all add: inserting_def stage_ok_def Let_def)
  then show ?thesis
    using arrive assms(1) unfolding system_ok_def by (auto simp: nth_append less_Suc_eq)
next
  case (move i rs w st w')
  have "world_ok svc w" "stage_ok w (rs ! i)" using assms(1) move by (simp_all add: system_ok_def)
  from move_is_ok [OF this move(4)] show ?thesis
    using system_step_move [of svc w rs i st w'] assms(1) move by simp
next
  case (build f w rs k)
  have w: "world_ok svc w" using assms(1) build by (simp add: system_ok_def)
  have "pg.run (Update k f) (uw_table w) = snd (sql_update k f (uw_table w))" by simp
  then have rows: "rows_stay (uw_table w) (snd (sql_update k f (uw_table w)))"
    using rows_stay_statement [of "uw_table w" "Update k f"] w build(3) by (simp add: world_ok_def)
  have "stage_ok (w\<lparr>uw_table := snd (sql_update k f (uw_table w))\<rparr>) rq" if "rq \<in> set rs" for rq
  proof -
    have st: "stage_ok w rq" using assms(1) build(1) that by (simp add: system_ok_def)
    show ?thesis
      by (rule stage_ok_mono [OF st])
        (use stage_ok_Inserted(1) [OF st] rows in simp_all)
  qed
  then show ?thesis
    using world_ok_build [OF w build(3)] assms(1) build by (simp add: system_ok_def)
qed

lemma system_invariant: "service_run svc s \<Longrightarrow> system_ok svc s"
proof (induction rule: service_run.induct)
  case start
  show ?case by (simp add: system_ok_def world_ok_def empty_world_def table_ok_def)
qed (rule system_step)

text \<open>An upload of bytes whose row is already there asks nothing of the API server.\<close>

lemma later_upload:
  assumes "sql_select (sha256 (fst (ue_body ev))) (uw_table w) = Some r"
  shows "uw_jobs (snd (Upload svc lang ev w)) = uw_jobs w
       \<and> (\<forall>u. fst (Upload svc lang ev w) = Inr u \<longrightarrow> ur_ID u = row_id r)"
proof (cases "snd (ue_body ev) = None \<and> ue_put ev = None")
  case False
  then show ?thesis
    by (auto simp: Upload_def PutContentAddressed_def Let_def case_prod_unfold split: option.splits)
next
  case True
  let ?sha = "sha256 (fst (ue_body ev))"
  let ?s = "pending_submission (ue_uuid ev) ?sha lang"
  have put: "PutContentAddressed (sv_MinIO svc) ev (uw_objects w) =
      ((?sha, of_nat (length (fst (ue_body ev))), None), uw_objects w @ [((mc_Bucket (sv_MinIO svc), object_key ?sha), fst (ue_body ev))])"
    using True by (simp add: PutContentAddressed_def Let_def case_prod_unfold)
  have sha: "row_sha256 (inserted_row (ue_now ev) ?s) = ?sha"
    by (simp add: inserted_row_def pending_submission_def)
  have no_insert: "sql_insert (inserted_row (ue_now ev) ?s) (uw_table w) \<noteq> (None, uw_table w @ [inserted_row (ue_now ev) ?s])"
    using sql_select_Some [OF assms] sha by (auto simp: sql_insert_def list_ex_iff split: if_splits)
  show ?thesis
  proof (cases rule: pg_Insert_cases [of "ue_insert ev" "ue_now ev" ?s "uw_table w"])
    case added
    then show ?thesis using no_insert by simp
  next
    case taken
    then show ?thesis
      using put assms by (auto simp: Upload_def Let_def pg_BySha256_def scanned_row_def split: option.splits)
  next
    case (failed err t')
    then show ?thesis using put by (simp add: Upload_def Let_def)
  qed
qed

subsection \<open>What submission-api promises\<close>

text \<open>
  C18 (submissions_have_their_source): however uploads and builds interleave, the constraints of the
  table hold and the bytes of every row's source have been acknowledged by MinIO, in the bucket the service
  is configured with and under the key the build runner will read; an object's key always names its bytes.
\<close>

theorem submissions_have_their_source:
  assumes "service_run svc s" and "r \<in> set (uw_table (us_world s))"
  shows "table_ok (uw_table (us_world s))
       \<and> (\<exists>data. ((mc_Bucket (sv_MinIO svc), object_key (row_sha256 r)), data) \<in> set (uw_objects (us_world s))
            \<and> sha256 data = row_sha256 r)
       \<and> (\<forall>(k, data) \<in> set (uw_objects (us_world s)). k = (mc_Bucket (sv_MinIO svc), object_key (sha256 data)))"
  using world_okD [of svc "us_world s"] system_invariant [OF assms(1)] assms(2)
  unfolding system_ok_def by blast

text \<open>
  C9 (equal_sources_equal_ids): two uploads that were answered got the same id exactly when their
  bytes have the same digest, whichever of them came first, whatever their languages are and however
  their calls and the builds interleaved; and the answer names the digest and the size of the bytes.
\<close>

theorem equal_sources_equal_ids:
  assumes "service_run svc s" and "a \<in> set (us_requests s)" and "b \<in> set (us_requests s)"
    and "rq_Stage a = Answered (Inr u)" and "rq_Stage b = Answered (Inr v)"
  shows "(ur_ID u = ur_ID v \<longleftrightarrow> sha256 (rq_data a) = sha256 (rq_data b))
       \<and> ur_Sha256 u = sha256 (rq_data a) \<and> ur_Size u = of_nat (length (rq_data a))"
proof -
  let ?t = "uw_table (us_world s)"
  have ok: "system_ok svc s" by (rule system_invariant [OF assms(1)])
  have row: "\<exists>r. sql_select (sha256 (rq_data rq)) ?t = Some r \<and> row_id r = ur_ID x
      \<and> ur_Sha256 x = sha256 (rq_data rq) \<and> ur_Size x = of_nat (length (rq_data rq))"
    if "rq \<in> set (us_requests s)" "rq_Stage rq = Answered (Inr x)" for rq x
  proof -
    have "stage_ok (us_world s) rq" using ok that(1) by (simp add: system_ok_def)
    then show ?thesis using that(2) by (auto simp: stage_ok_def Let_def)
  qed
  obtain p where p: "sql_select (sha256 (rq_data a)) ?t = Some p" "row_id p = ur_ID u"
      "ur_Sha256 u = sha256 (rq_data a)" "ur_Size u = of_nat (length (rq_data a))"
    using row [OF assms(2,4)] by blast
  obtain q where q: "sql_select (sha256 (rq_data b)) ?t = Some q" "row_id q = ur_ID v"
    using row [OF assms(3,5)] by blast
  have "distinct (map row_id ?t)" using ok by (simp add: system_ok_def world_ok_def table_ok_def)
  then have "row_id p = row_id q \<longleftrightarrow> p = q"
    using sql_select_Some [OF p(1)] sql_select_Some [OF q(1)] by (auto simp: distinct_map dest: inj_onD)
  moreover have "p = q \<longleftrightarrow> sha256 (rq_data a) = sha256 (rq_data b)"
    using sql_select_Some [OF p(1)] sql_select_Some [OF q(1)] p(1) q(1) by auto
  ultimately show ?thesis using p q by simp
qed

text \<open>
  C20 (dispatched_at_most_once): no two Jobs are ever created under one name, and each is exactly the
  Job of a row of the table, with that row's digest and language, whatever the API server answered.
\<close>

theorem dispatched_at_most_once:
  assumes "service_run svc s"
  shows "distinct (map job_id (creates (uw_jobs (us_world s))))
       \<and> (\<forall>j \<in> set (creates (uw_jobs (us_world s))). \<exists>d. sv_Disp svc = Some d
            \<and> (\<exists>r \<in> set (uw_table (us_world s)). j = row_job d r))"
  using system_invariant [OF assms] by (simp add: system_ok_def world_ok_def)

text \<open>
  With nothing failing, an upload stores its bytes, and answers with the id of
  the row that holds its digest, or else adds a \<^verbatim>\<open>PENDING\<close> row under its fresh id.
\<close>

theorem upload_outcome:
  assumes "ue_body ev = (data, None)" and "ue_put ev = None" and "ue_insert ev = Connected"
    and "ue_select ev = None" and "lang \<in> {''rust'', ''go'', ''cpp''}"
    and "ue_uuid ev \<notin> row_id ` set (uw_table w)"
    and "\<forall>d. sv_Disp svc = Some d \<longrightarrow>
           fst (Dispatch d (ue_jobs ev) (dispatch_inputs (ue_uuid ev) (sha256 data) lang) (uw_jobs w)) = None"
  shows "fst (Upload svc lang ev w) = Inr
           \<lparr>ur_ID = (case sql_select (sha256 data) (uw_table w) of Some r \<Rightarrow> row_id r | None \<Rightarrow> ue_uuid ev),
            ur_Sha256 = sha256 data, ur_Size = of_nat (length data)\<rparr>
       \<and> uw_objects (snd (Upload svc lang ev w)) = uw_objects w @ [((mc_Bucket (sv_MinIO svc), object_key (sha256 data)), data)]
       \<and> uw_table (snd (Upload svc lang ev w)) =
           (case sql_select (sha256 data) (uw_table w) of
              Some r \<Rightarrow> uw_table w
            | None \<Rightarrow> uw_table w @ [inserted_row (ue_now ev) (pending_submission (ue_uuid ev) (sha256 data) lang)])"
proof -
  let ?sha = "sha256 data"
  let ?row = "inserted_row (ue_now ev) (pending_submission (ue_uuid ev) ?sha lang)"
  have row: "row_check ?row" "row_sha256 ?row = ?sha" "row_id ?row = ue_uuid ev"
    using assms(5) by (auto simp: row_check_def inserted_row_def pending_submission_def)
  have put: "PutContentAddressed (sv_MinIO svc) ev (uw_objects w) =
      ((?sha, of_nat (length data), None), uw_objects w @ [((mc_Bucket (sv_MinIO svc), object_key ?sha), data)])"
    using assms(1,2) by (simp add: PutContentAddressed_def Let_def)
  show ?thesis
  proof (cases "sql_select ?sha (uw_table w)")
    case (Some r)
    obtain e where e: "sql_insert ?row (uw_table w) = (Some e, uw_table w)" "pg_code e = Some ''23505''"
      using pg.insert_taken [of ?row "uw_table w" r] Some row by auto
    then have "pg_Insert (ue_insert ev) (ue_now ev) (pending_submission (ue_uuid ev) ?sha lang) (uw_table w)
        = (Some ErrSubmissionExists, uw_table w)"
      using assms(3) by (simp add: pg_Insert_def)
    then show ?thesis using put Some assms(4) by (simp add: Upload_def pg_BySha256_def scanned_row_def Let_def)
  next
    case None
    then have "\<not> list_ex (\<lambda>q. row_id q = row_id ?row \<or> row_sha256 q = row_sha256 ?row) (uw_table w)"
      using assms(6) row by (auto simp: list_ex_iff sql_select_None image_iff)
    then have "pg_Insert (ue_insert ev) (ue_now ev) (pending_submission (ue_uuid ev) ?sha lang) (uw_table w)
        = (None, uw_table w @ [?row])"
      using assms(3) row(1) by (simp add: pg_Insert_def sql_insert_def)
    then show ?thesis
      using put None assms(7) by (auto simp: Upload_def Let_def split: option.splits prod.splits)
  qed
qed

text \<open>
  C40 (failed_dispatch_is_never_retried): an upload that fails at the dispatch has left its row,
  \<^verbatim>\<open>PENDING\<close>; every later upload of the same bytes, by whichever replica and whatever happened to the
  table in between, makes no call to the API server, so the submission is never built.  If it is
  answered, it is with the id of the row that was left.
\<close>

theorem failed_dispatch_is_never_retried:
  assumes "Upload svc lang ev w = (Inl (Wrapf ''dispatch build'' e), w1)" and "table_ok (uw_table w)"
    and "list_all statement_ok sts"
    and "w2 = w1\<lparr>uw_table := foldl (\<lambda>t st. pg.run st t) (uw_table w1) sts\<rparr>"
    and "fst (ue_body ev') = fst (ue_body ev)"
  shows "sql_select (sha256 (fst (ue_body ev))) (uw_table w1)
           = Some (inserted_row (ue_now ev) (pending_submission (ue_uuid ev) (sha256 (fst (ue_body ev))) lang))
       \<and> uw_jobs (snd (Upload svc' lang' ev' w2)) = uw_jobs w1
       \<and> (\<forall>u. fst (Upload svc' lang' ev' w2) = Inr u \<longrightarrow> ur_ID u = ue_uuid ev)"
proof -
  let ?d = "fst (ue_body ev)"
  let ?row = "inserted_row (ue_now ev) (pending_submission (ue_uuid ev) (sha256 ?d) lang)"
  have body: "snd (ue_body ev) = None" "ue_put ev = None"
    using assms(1) by (auto simp: Upload_def PutContentAddressed_def Let_def case_prod_unfold split: option.splits if_splits)
  then have put: "PutContentAddressed (sv_MinIO svc) ev (uw_objects w) =
      ((sha256 ?d, of_nat (length ?d), None), uw_objects w @ [((mc_Bucket (sv_MinIO svc), object_key (sha256 ?d)), ?d)])"
    by (simp add: PutContentAddressed_def Let_def case_prod_unfold)
  have row_sha: "row_sha256 ?row = sha256 ?d" by (simp add: inserted_row_def pending_submission_def)
  have ins: "uw_table w1 = uw_table w @ [?row]" "sql_insert ?row (uw_table w) = (None, uw_table w @ [?row])"
  proof -
    consider "pg_Insert (ue_insert ev) (ue_now ev) (pending_submission (ue_uuid ev) (sha256 ?d) lang) (uw_table w)
        = (None, uw_table w @ [?row])" "sql_insert ?row (uw_table w) = (None, uw_table w @ [?row])"
      | err t where "pg_Insert (ue_insert ev) (ue_now ev) (pending_submission (ue_uuid ev) (sha256 ?d) lang)
          (uw_table w) = (Some err, t)"
      by (cases rule: pg_Insert_cases [of "ue_insert ev" "ue_now ev"
            "pending_submission (ue_uuid ev) (sha256 ?d) lang" "uw_table w"]) blast+
    then have "uw_table w1 = uw_table w @ [?row] \<and> sql_insert ?row (uw_table w) = (None, uw_table w @ [?row])"
    proof cases
      case 1
      then show ?thesis
        using assms(1) put by (auto simp: Upload_def Let_def split: option.splits prod.splits)
    next
      case 2
      then show ?thesis
        using assms(1) put by (auto simp: Upload_def Let_def split: if_splits sum.splits)
    qed
    then show "uw_table w1 = uw_table w @ [?row]" "sql_insert ?row (uw_table w) = (None, uw_table w @ [?row])"
      by blast+
  qed
  have t1: "table_ok (uw_table w1)" "sql_select (sha256 ?d) (uw_table w1) = Some ?row"
    using added_row [OF assms(2) ins(2)] ins(1) row_sha by simp_all
  obtain r where r: "sql_select (sha256 ?d) (uw_table w2) = Some r" "row_identity r = row_identity ?row"
    using pg.runs_keep_rows [OF t1(1) assms(3) t1(2)] assms(4) by auto
  have id: "row_id r = ue_uuid ev"
    using r(2) by (simp add: row_identity_def inserted_row_def pending_submission_def)
  have "uw_jobs (snd (Upload svc' lang' ev' w2)) = uw_jobs w2
      \<and> (\<forall>u. fst (Upload svc' lang' ev' w2) = Inr u \<longrightarrow> ur_ID u = row_id r)"
    using later_upload [of ev' w2 r svc' lang'] r(1) assms(5) by simp
  then show ?thesis using t1(2) id assms(4) by simp
qed

subsection \<open>A run with two uploads of the same bytes\<close>

definition move_at :: "UploadService \<Rightarrow> nat \<Rightarrow> upload_system \<Rightarrow> upload_system" where
  "move_at svc i s =
     (let rq = us_requests s ! i;
          (st, w) = upload_move svc (rq_Language rq) (rq_Env rq) (rq_Stage rq) (us_world s)
      in \<lparr>us_world = w, us_requests = (us_requests s)[i := rq\<lparr>rq_Stage := st\<rparr>]\<rparr>)"

lemma run_move_at:
  "service_run svc s \<Longrightarrow> i < length (us_requests s) \<Longrightarrow> service_run svc (move_at svc i s)"
  by (cases s) (auto simp: move_at_def Let_def case_prod_unfold intro!: service_run.step [OF _ service_step.move])

lemma run_arrive:
  "service_run svc s \<Longrightarrow>
   service_run svc (s\<lparr>us_requests := us_requests s @ [\<lparr>rq_Language = lang, rq_Env = ev, rq_Stage = Received\<rparr>]\<rparr>)"
  by (cases s) (auto intro: service_run.step service_step.arrive)

definition sample_upload :: "string \<Rightarrow> upload_env" where
  "sample_upload uuid =
     \<lparr>ue_body = ([7, 7], None), ue_put = None, ue_uuid = uuid, ue_now = 9, ue_insert = Connected,
      ue_select = None, ue_jobs = empty_cluster\<rparr>"

definition sample_service :: UploadService where
  "sample_service = \<lparr>sv_MinIO = \<lparr>mc_Bucket = ''submissions''\<rparr>, sv_Disp = Some sample_dispatcher\<rparr>"

definition two_uploads :: upload_system where
  "two_uploads = \<lparr>us_world = empty_world, us_requests =
     [\<lparr>rq_Language = ''go'', rq_Env = sample_upload ''u1'', rq_Stage = Received\<rparr>,
      \<lparr>rq_Language = ''cpp'', rq_Env = sample_upload ''u2'', rq_Stage = Received\<rparr>]\<rparr>"

definition two_answers :: upload_system where
  "two_answers = foldl (\<lambda>s i. move_at sample_service i s) two_uploads [0, 1, 1, 0, 0, 1]"

lemma two_answers_run: "service_run sample_service two_answers"
proof -
  have len: "length (us_requests (move_at svc i s)) = length (us_requests s)" for svc i s
    by (simp add: move_at_def Let_def case_prod_unfold)
  have run: "service_run sample_service (foldl (\<lambda>s i. move_at sample_service i s) s is)"
    if "service_run sample_service s" "\<forall>i \<in> set is. i < length (us_requests s)" for s "is"
    using that by (induction "is" arbitrary: s) (simp_all add: run_move_at len)
  have "service_run sample_service two_uploads"
    using run_arrive [OF run_arrive [OF service_run.start], of sample_service "''go''" "sample_upload ''u1''"
        "''cpp''" "sample_upload ''u2''"] by (simp add: two_uploads_def)
  then show ?thesis unfolding two_answers_def by (rule run) (simp add: two_uploads_def)
qed

lemma two_answers_eq:
  "us_requests two_answers =
     [\<lparr>rq_Language = ''go'', rq_Env = sample_upload ''u1'',
       rq_Stage = Answered (Inr \<lparr>ur_ID = ''u2'', ur_Sha256 = sha256 [7, 7], ur_Size = 2\<rparr>)\<rparr>,
      \<lparr>rq_Language = ''cpp'', rq_Env = sample_upload ''u2'',
       rq_Stage = Answered (Inr \<lparr>ur_ID = ''u2'', ur_Sha256 = sha256 [7, 7], ur_Size = 2\<rparr>)\<rparr>]"
  "map row_id (uw_table (us_world two_answers)) = [''u2'']"
  "creates (uw_jobs (us_world two_answers)) =
     [build_job sample_dispatcher (dispatch_inputs ''u2'' (sha256 [7, 7]) ''cpp'')]"
  by (simp_all add: two_answers_def two_uploads_def move_at_def empty_world_def sample_upload_def
      sample_service_def PutContentAddressed_def pg_Insert_def sql_insert_def row_check_def inserted_row_def
      pending_submission_def unique_violation_def pg_BySha256_def sql_select_def scanned_row_def
      Dispatch_def empty_cluster_def Let_def)

theorem submissions_have_their_source_witness:
  "\<exists>r \<in> set (uw_table (us_world two_answers)). row_id r = ''u2''
     \<and> (\<exists>data. ((''submissions'', object_key (row_sha256 r)), data) \<in> set (uw_objects (us_world two_answers))
          \<and> sha256 data = row_sha256 r)"
proof -
  obtain r where r: "r \<in> set (uw_table (us_world two_answers))" "row_id r = ''u2''"
    using two_answers_eq(2) by (cases "uw_table (us_world two_answers)") simp_all
  show ?thesis
    using r submissions_have_their_source [OF two_answers_run r(1)] by (auto simp: sample_service_def)
qed

theorem equal_sources_equal_ids_witness:
  "sha256 (rq_data (us_requests two_answers ! 0)) = sha256 (rq_data (us_requests two_answers ! 1))
   \<and> ur_Size \<lparr>ur_ID = ''u2'', ur_Sha256 = sha256 [7, 7], ur_Size = 2\<rparr>
       = of_nat (length (rq_data (us_requests two_answers ! 0)))"
  using equal_sources_equal_ids [OF two_answers_run, of "us_requests two_answers ! 0" "us_requests two_answers ! 1"
      "\<lparr>ur_ID = ''u2'', ur_Sha256 = sha256 [7, 7], ur_Size = 2\<rparr>"
      "\<lparr>ur_ID = ''u2'', ur_Sha256 = sha256 [7, 7], ur_Size = 2\<rparr>"]
  by (simp add: two_answers_eq(1))

theorem dispatched_at_most_once_witness:
  "distinct (map job_id (creates (uw_jobs (us_world two_answers))))
   \<and> (\<exists>j r. creates (uw_jobs (us_world two_answers)) = [j] \<and> j = row_job sample_dispatcher r)"
  using dispatched_at_most_once [OF two_answers_run] two_answers_eq(3) by (auto simp: sample_service_def)

theorem upload_outcome_witness:
  "fst (Upload sample_service ''go'' (sample_upload ''u1'') empty_world)
     = Inr \<lparr>ur_ID = ''u1'', ur_Sha256 = sha256 [7, 7], ur_Size = 2\<rparr>"
  using upload_outcome [of "sample_upload ''u1''" "[7, 7]" "''go''" empty_world sample_service]
  by (simp add: sample_upload_def empty_world_def sample_service_def sql_select_def Dispatch_def
      empty_cluster_def Let_def)

text \<open>An API server that has no Job and refuses to create one.\<close>

definition full_cluster :: job_api where
  "full_cluster h = (case last h of GetJob ns n \<Rightarrow> Some (NotFoundError ''not found'')
                                  | CreateJob ns j \<Rightarrow> Some (GoError ''quota exceeded''))"

theorem failed_dispatch_is_never_retried_witness:
  "let w1 = snd (Upload sample_service ''go'' (sample_upload ''u1''\<lparr>ue_jobs := full_cluster\<rparr>) empty_world)
   in map row_status (uw_table w1) = [''PENDING'']
    \<and> uw_jobs (snd (Upload sample_service ''rust'' (sample_upload ''u2'') w1)) = uw_jobs w1
    \<and> creates (uw_jobs w1) = [build_job sample_dispatcher (dispatch_inputs ''u1'' (sha256 [7, 7]) ''go'')]"
proof -
  let ?ev = "sample_upload ''u1''\<lparr>ue_jobs := full_cluster\<rparr>"
  let ?row = "inserted_row 9 (pending_submission ''u1'' (sha256 [7, 7]) ''go'')"
  let ?i = "dispatch_inputs ''u1'' (sha256 [7, 7]) ''go''"
  define w1 where "w1 = \<lparr>uw_table = [?row], uw_objects = [((''submissions'', object_key (sha256 [7, 7])), [7, 7])],
      uw_jobs = [GetJob ''builds'' (job_name ?i), CreateJob ''builds'' (build_job sample_dispatcher ?i)]\<rparr>"
  have disp: "Dispatch sample_dispatcher full_cluster ?i [] =
      (Some (Wrapf ''create job'' (GoError ''quota exceeded'')), uw_jobs w1)"
    by (simp add: Dispatch_def full_cluster_def job_namespace_def sample_dispatcher_def w1_def Let_def)
  have up: "Upload sample_service ''go'' ?ev empty_world
      = (Inl (Wrapf ''dispatch build'' (Wrapf ''create job'' (GoError ''quota exceeded''))), w1)"
    by (simp add: Upload_def sample_upload_def empty_world_def sample_service_def PutContentAddressed_def
        pg_Insert_def sql_insert_def row_check_def inserted_row_def pending_submission_def Let_def
        disp) (simp add: w1_def inserted_row_def pending_submission_def)
  have "uw_jobs (snd (Upload sample_service ''rust'' (sample_upload ''u2'') w1)) = uw_jobs w1"
    using failed_dispatch_is_never_retried [OF up, of "[]" w1 "sample_upload ''u2''" sample_service "''rust''"]
    by (simp add: empty_world_def table_ok_def sample_upload_def)
  then show ?thesis
    unfolding Let_def up by (simp add: w1_def inserted_row_def pending_submission_def)
qed

end
