(* ===== verification/SubmissionMain.thy ===== *)
theory SubmissionMain
  imports SubmissionSystem
begin

text \<open>
  The start of submission-api (\<^verbatim>\<open>apps/submission-api/main.go\<close>, \<^verbatim>\<open>config/config.go\<close>): configuration, the two
  stores, and the build dispatcher, which exists only inside a cluster.
\<close>

record SubmissionConfig =
  sg_HTTPAddr :: string
  sg_GRPCAddr :: string
  sg_PostgresDSN :: string
  sg_MinIOEndpoint :: string
  sg_MinIOAccessKey :: string
  sg_MinIOSecretKey :: string
  sg_MinIOBucket :: string
  sg_MinIOUseSSL :: bool

text \<open>
  What the process starts from: \<^verbatim>\<open>envconfig.Process\<close>, the drivers, and what \<^verbatim>\<open>rest.InClusterConfig\<close>
  and \<^verbatim>\<open>kubernetes.NewForConfig\<close> answer.
\<close>

record ('c, 'p) api_boot =
  ab_config :: "SubmissionConfig result"
  ab_postgres :: "('c, 'p) pg_driver"
  ab_minio :: "string \<Rightarrow> string \<Rightarrow> string \<Rightarrow> bool \<Rightarrow> go_error option"
  ab_buckets :: mini_peer
  ab_in_cluster :: "go_error option"
  ab_clientset :: "go_error option"

datatype api_start = ApiFatal string | ApiServing string UploadService

definition build_dispatcher :: Dispatcher where
  "build_dispatcher = \<lparr>disp_Image = ''ironbook/build-runner:dev'', disp_Namespace = ''builds''\<rparr>"

definition submission_main :: "('c, 'p) api_boot \<Rightarrow> api_start" where
  "submission_main boot =
     (case ab_config boot of
        Inl err \<Rightarrow> ApiFatal (''config: '' @ error_text err)
      | Inr cfg \<Rightarrow>
     (case fst (postgres_New (ab_postgres boot) (sg_PostgresDSN cfg)) of
        Inl err \<Rightarrow> ApiFatal (''pg: '' @ error_text err)
      | Inr pg \<Rightarrow>
     (case mini_New (ab_minio boot) (sg_MinIOEndpoint cfg) (sg_MinIOAccessKey cfg) (sg_MinIOSecretKey cfg)
             (sg_MinIOBucket cfg) (sg_MinIOUseSSL cfg) of
        Inl err \<Rightarrow> ApiFatal (''minio: '' @ error_text err)
      | Inr mc \<Rightarrow>
     (case fst (EnsureBucket (ab_buckets boot) mc []) of
        Some err \<Rightarrow> ApiFatal (''ensure bucket: '' @ error_text err)
      | None \<Rightarrow>
     (case ab_in_cluster boot of
        Some kErr \<Rightarrow> ApiServing (sg_HTTPAddr cfg) \<lparr>sv_MinIO = mc, sv_Disp = None\<rparr>
      | None \<Rightarrow>
          (case ab_clientset boot of
             Some cErr \<Rightarrow> ApiFatal (''k8s client: '' @ error_text cErr)
           | None \<Rightarrow> ApiServing (sg_HTTPAddr cfg) \<lparr>sv_MinIO = mc, sv_Disp = Some build_dispatcher\<rparr>))))))"

text \<open>A process that serves writes to the bucket of its configuration.\<close>

lemma serves_its_bucket:
  assumes "submission_main boot = ApiServing addr svc" and "ab_config boot = Inr cfg"
  shows "mc_Bucket (sv_MinIO svc) = sg_MinIOBucket cfg"
  using assms by (auto simp: submission_main_def mini_New_def split: sum.splits option.splits)

text \<open>
  Outside a cluster the service still serves; its uploads are stored and answered, and no Job is ever
  asked for.
\<close>

lemma no_cluster_no_jobs:
  assumes "ab_in_cluster boot = Some e" and "submission_main boot = ApiServing addr svc"
  shows "uw_jobs (snd (Upload svc lang ev w)) = uw_jobs w"
proof -
  have "sv_Disp svc = None"
    using assms by (auto simp: submission_main_def split: sum.splits option.splits)
  then show ?thesis
    by (auto simp: Upload_def Let_def split: prod.splits option.splits sum.splits)
qed

text \<open>A start in a cluster, with everything reachable.\<close>

definition sample_api_config :: SubmissionConfig where
  "sample_api_config =
     \<lparr>sg_HTTPAddr = '':8080'', sg_GRPCAddr = '':9090'', sg_PostgresDSN = ''p'', sg_MinIOEndpoint = ''m'',
      sg_MinIOAccessKey = ''a'', sg_MinIOSecretKey = ''s'', sg_MinIOBucket = ''submissions'', sg_MinIOUseSSL = False\<rparr>"

definition sample_boot :: "(unit, unit) api_boot" where
  "sample_boot =
     \<lparr>ab_config = Inr sample_api_config,
      ab_postgres = \<lparr>pd_ParseConfig = \<lambda>_. Inr (), pd_NewWithConfig = \<lambda>_ _. Inr (), pd_Ping = \<lambda>_. None\<rparr>,
      ab_minio = \<lambda>_ _ _ _. None, ab_buckets = \<lparr>mp_exists = \<lambda>_. Inr True, mp_make = \<lambda>_. None\<rparr>,
      ab_in_cluster = None, ab_clientset = None\<rparr>"

lemma sample_boot_serves: "submission_main sample_boot = ApiServing '':8080'' sample_service"
  by (simp add: submission_main_def sample_boot_def sample_api_config_def postgres_New_def mini_New_def EnsureBucket_def
      build_dispatcher_def sample_service_def sample_dispatcher_def)

end
