(* ===== verification/PathClean.thy ===== *)
theory PathClean
  imports Prelude
begin

text \<open>
  The lexical path functions of \<^verbatim>\<open>path/filepath\<close> on Unix that the code uses: \<^verbatim>\<open>Clean\<close>, \<^verbatim>\<open>Join\<close>,
  \<^verbatim>\<open>Dir\<close> and \<^verbatim>\<open>Ext\<close>.  A path is a string; \<open>path_elems\<close> is the list of elements its cleaned form
  has, and containment of paths is stated on it.
\<close>

subsection \<open>Elements\<close>

abbreviation slash :: char where "slash \<equiv> CHR ''/''"

abbreviation split_slash :: "string \<Rightarrow> string list" where
  "split_slash \<equiv> split_on slash"

definition slash_join :: "string list \<Rightarrow> string" where
  "slash_join es = intercalate ''/'' es"

definition is_rooted :: "string \<Rightarrow> bool" where
  "is_rooted p \<longleftrightarrow> (case p of [] \<Rightarrow> False | c # cs \<Rightarrow> c = slash)"

text \<open>One element met by \<^verbatim>\<open>Clean\<close>; the stack holds the elements kept so far, the last on top.\<close>

definition clean_push :: "bool \<Rightarrow> string list \<Rightarrow> string \<Rightarrow> string list" where
  "clean_push rooted st e =
     (if e = [] \<or> e = ''.'' then st
      else if e = ''..'' then
        (case st of
           [] \<Rightarrow> if rooted then [] else [''..'']
         | t # ts \<Rightarrow> if t = ''..'' then ''..'' # st else ts)
      else e # st)"

definition path_elems :: "string \<Rightarrow> string list" where
  "path_elems p = rev (foldl (clean_push (is_rooted p)) [] (split_slash p))"

subsection \<open>The functions\<close>

definition Clean :: "string \<Rightarrow> string" where
  "Clean p =
     (let es = path_elems p in
      if is_rooted p then slash # slash_join es
      else if es = [] then ''.'' else slash_join es)"

definition Join :: "string list \<Rightarrow> string" where
  "Join es = (case dropWhile (\<lambda>e. e = []) es of [] \<Rightarrow> [] | fs \<Rightarrow> Clean (slash_join fs))"

definition Dir :: "string \<Rightarrow> string" where
  "Dir p = Clean (rev (dropWhile (\<lambda>c. c \<noteq> slash) (rev p)))"

text \<open>\<^verbatim>\<open>Ext\<close>: from the last dot of the last element, the dot included.\<close>

definition Ext :: "string \<Rightarrow> string" where
  "Ext p =
     (let base = rev (takeWhile (\<lambda>c. c \<noteq> slash) (rev p));
          suffix = rev (takeWhile (\<lambda>c. c \<noteq> CHR ''.'') (rev base))
      in if CHR ''.'' \<in> set base then CHR ''.'' # suffix else [])"

subsection \<open>Splitting and joining\<close>

lemmas split_slash_noslash = split_on_free [of slash]

lemma slash_join_Cons: "es \<noteq> [] \<Longrightarrow> slash_join (e # es) = e @ slash # slash_join es"
  by (simp add: slash_join_def intercalate_Cons)

lemma slash_join_simps [simp]: "slash_join [] = []" "slash_join [e] = e"
  by (simp_all add: slash_join_def)

lemma split_slash_join:
  "es \<noteq> [] \<Longrightarrow> \<forall>e \<in> set es. slash \<notin> set e \<Longrightarrow> split_slash (slash_join es) = es"
  by (simp add: slash_join_def split_on_intercalate)

lemma split_slash_join_rooted: "split_slash (slash # p) = [] # split_slash p"
  by simp

subsection \<open>The shape of a cleaned path\<close>

definition plain_elem :: "string \<Rightarrow> bool" where
  "plain_elem e \<longleftrightarrow> e \<noteq> [] \<and> e \<noteq> ''.'' \<and> e \<noteq> ''..'' \<and> slash \<notin> set e"

definition clean_shape :: "bool \<Rightarrow> string list \<Rightarrow> bool" where
  "clean_shape rooted es \<longleftrightarrow>
     (\<exists>k ns. es = replicate k ''..'' @ ns \<and> (rooted \<longrightarrow> k = 0) \<and> list_all plain_elem ns)"

lemma clean_shapeI:
  "list_all plain_elem ns \<Longrightarrow> rooted \<longrightarrow> k = 0 \<Longrightarrow> clean_shape rooted (replicate k ''..'' @ ns)"
  unfolding clean_shape_def by blast

lemma clean_push_plain: "plain_elem e \<Longrightarrow> clean_push rooted st e = e # st"
  by (simp add: clean_push_def plain_elem_def)

lemma clean_push_all_plain: "list_all plain_elem es \<Longrightarrow> foldl (clean_push rooted) st es = rev es @ st"
  by (induction es arbitrary: st) (simp_all add: clean_push_plain)

lemma clean_push_shape:
  assumes "clean_shape rooted (rev st)" "slash \<notin> set e"
  shows "clean_shape rooted (rev (clean_push rooted st e))"
proof -
  from assms(1) obtain k ns where st: "rev st = replicate k ''..'' @ ns"
    and k: "rooted \<longrightarrow> k = 0" and ns: "list_all plain_elem ns"
    by (auto simp: clean_shape_def)
  from st have st': "st = rev ns @ replicate k ''..''"
    by (simp add: rev_swap)
  consider "e = [] \<or> e = ''.''" | "e = ''..''" | "plain_elem e"
    using assms(2) by (auto simp: plain_elem_def)
  then show ?thesis
  proof cases
    case 1
    then show ?thesis using assms(1) by (simp add: clean_push_def)
  next
    case 2
    show ?thesis
    proof (cases ns rule: rev_cases)
      case Nil
      show ?thesis
      proof (cases k)
        case 0
        then have "rev (clean_push rooted st e) = replicate (if rooted then 0 else 1) ''..'' @ []"
          using 2 st' Nil by (simp add: clean_push_def)
        then show ?thesis using clean_shapeI [of "[]" rooted "if rooted then 0 else 1"] by simp
      next
        case (Suc j)
        then have "clean_push rooted st e = replicate (Suc k) ''..''"
          using 2 st' Nil by (simp add: clean_push_def)
        then have "rev (clean_push rooted st e) = replicate (Suc k) ''..'' @ []"
          by (simp add: replicate_append_same)
        then show ?thesis using Suc k clean_shapeI [of "[]" rooted "Suc k"]
          by (simp add: replicate_append_same)
      qed
    next
      case (snoc ms m)
      then have "clean_push rooted st e = rev ms @ replicate k ''..''"
        using 2 st' ns by (simp add: clean_push_def plain_elem_def)
      then have "rev (clean_push rooted st e) = replicate k ''..'' @ ms" by simp
      then show ?thesis using ns snoc k clean_shapeI [of ms rooted k] by simp
    qed
  next
    case 3
    then have "rev (clean_push rooted st e) = replicate k ''..'' @ (ns @ [e])"
      by (simp add: clean_push_plain st')
    then show ?thesis using 3 ns k clean_shapeI [of "ns @ [e]" rooted k] by simp
  qed
qed

lemma path_elems_shape: "clean_shape (is_rooted p) (path_elems p)"
proof -
  have "clean_shape r (rev (foldl (clean_push r) st es))"
    if "clean_shape r (rev st)" "\<forall>e \<in> set es. slash \<notin> set e" for r st es
    using that by (induction es arbitrary: st) (simp_all add: clean_push_shape)
  moreover have "clean_shape (is_rooted p) (rev [])" by (auto simp: clean_shape_def)
  ultimately show ?thesis using split_slash_noslash [of p] by (simp add: path_elems_def)
qed

lemma clean_shape_elems: "clean_shape r es \<Longrightarrow> e \<in> set es \<Longrightarrow> e = ''..'' \<or> plain_elem e"
  by (auto simp: clean_shape_def list_all_iff)

lemma clean_shape_noslash: "clean_shape r es \<Longrightarrow> \<forall>e \<in> set es. slash \<notin> set e \<and> e \<noteq> []"
  using clean_shape_elems by (fastforce simp: plain_elem_def)

lemma clean_shape_fold: "clean_shape r es \<Longrightarrow> foldl (clean_push r) [] es = rev es"
proof -
  assume "clean_shape r es"
  then obtain k ns where es: "es = replicate k ''..'' @ ns" "r \<longrightarrow> k = 0" "list_all plain_elem ns"
    by (auto simp: clean_shape_def)
  have "foldl (clean_push r) (replicate j ''..'') (replicate i ''..'') = replicate (j + i) ''..''"
    if "\<not> r" for i j
  proof (induction i arbitrary: j)
    case (Suc i)
    have "clean_push r (replicate j ''..'') ''..'' = replicate (Suc j) ''..''"
      using that by (cases j) (simp_all add: clean_push_def)
    then show ?case using Suc.IH [of "Suc j"] by simp
  qed simp
  from this [of 0 k] have "foldl (clean_push r) [] (replicate k ''..'') = replicate k ''..''"
    using es(2) by (cases r) simp_all
  then show ?thesis using es by (simp add: clean_push_all_plain)
qed

lemma is_rooted_simps [simp]: "is_rooted (slash # p)" "\<not> is_rooted []"
  by (simp_all add: is_rooted_def)

lemma is_rooted_append: "p \<noteq> [] \<Longrightarrow> is_rooted (p @ q) = is_rooted p"
  by (cases p) (simp_all add: is_rooted_def)

lemma clean_push_skip [simp]: "clean_push r st [] = st" "clean_push r st ''.'' = st"
  by (simp_all add: clean_push_def)

lemma Clean_cases:
  obtains (root) "is_rooted p" "Clean p = slash # slash_join (path_elems p)"
    | (dot) "\<not> is_rooted p" "path_elems p = []" "Clean p = ''.''"
    | (rel) "\<not> is_rooted p" "path_elems p \<noteq> []" "Clean p = slash_join (path_elems p)"
      "\<not> is_rooted (slash_join (path_elems p))"
proof -
  note shape = clean_shape_noslash [OF path_elems_shape [of p]]
  have "\<not> is_rooted (slash_join (path_elems p))" if "path_elems p = e # es" for e es
    using shape that by (cases e; cases es) (auto simp: slash_join_Cons is_rooted_def)
  then show ?thesis
    using that by (cases "path_elems p") (auto simp: Clean_def Let_def)
qed

lemma path_elems_split: "path_elems p \<noteq> [] \<Longrightarrow> split_slash (slash_join (path_elems p)) = path_elems p"
  using clean_shape_noslash [OF path_elems_shape [of p]] by (intro split_slash_join) auto

text \<open>Meeting a cleaned path is meeting its elements.\<close>

lemma foldl_Clean: "foldl (clean_push r) st (split_slash (Clean p)) = foldl (clean_push r) st (path_elems p)"
proof (cases rule: Clean_cases [of p])
  case root
  then show ?thesis using path_elems_split [of p] by (cases "path_elems p = []") simp_all
next
  case dot
  then show ?thesis by (simp add: split_on_word)
next
  case rel
  then show ?thesis by (simp add: path_elems_split)
qed

lemma Clean_rooted: "is_rooted (Clean p) = is_rooted p"
  by (cases rule: Clean_cases [of p]) (simp_all add: is_rooted_def)

lemma Clean_nonempty: "Clean p \<noteq> []"
proof (cases rule: Clean_cases [of p])
  case rel
  then obtain e es where "path_elems p = e # es" by (cases "path_elems p") auto
  then show ?thesis
    using rel clean_shape_noslash [OF path_elems_shape [of p]]
    by (cases es) (auto simp: slash_join_Cons)
qed simp_all

lemma path_elems_Clean: "path_elems (Clean p) = path_elems p"
proof -
  have "path_elems (Clean p) = rev (foldl (clean_push (is_rooted p)) [] (path_elems p))"
    using foldl_Clean [of "is_rooted p" "[]" p] by (simp add: path_elems_def Clean_rooted)
  then show ?thesis using clean_shape_fold [OF path_elems_shape [of p]] by simp
qed

lemma Clean_idem: "Clean (Clean p) = Clean p"
  by (simp add: Clean_def [of "Clean p"] path_elems_Clean Clean_rooted) (simp add: Clean_def)

subsection \<open>Staying below a directory\<close>

text \<open>The test \<^verbatim>\<open>clean == ".." || (len(clean) >= 3 && clean[:3] == "../")\<close>.\<close>

definition escapes :: "string \<Rightarrow> bool" where
  "escapes c \<longleftrightarrow> c = ''..'' \<or> (3 \<le> length c \<and> take 3 c = ''../'')"

lemma escapes_Clean:
  "escapes (Clean p) \<longleftrightarrow> \<not> is_rooted p \<and> path_elems p \<noteq> [] \<and> hd (path_elems p) = ''..''"
proof (cases rule: Clean_cases [of p])
  case root
  then show ?thesis by (simp add: escapes_def numeral_3_eq_3)
next
  case dot
  then show ?thesis by (simp add: escapes_def)
next
  case rel
  obtain e es where es: "path_elems p = e # es" using rel(2) by (cases "path_elems p") auto
  have split: "split_slash (Clean p) = e # es" using path_elems_split [OF rel(2)] rel(3) es by simp
  have "e = ''..''" if "escapes (Clean p)"
  proof (cases "Clean p = ''..''")
    case True
    then show ?thesis using split by simp
  next
    case False
    then have "take 3 (Clean p) = ''../''" using that by (simp add: escapes_def)
    then have "Clean p = ''../'' @ drop 3 (Clean p)" by (metis append_take_drop_id)
    then have c: "Clean p = ''..'' @ slash # drop 3 (Clean p)" by simp
    have "split_slash (''..'' @ slash # drop 3 (Clean p)) = [''..''] @ split_slash (drop 3 (Clean p))"
      by (subst split_on_app) (simp add: split_on_word)
    then have "split_slash (Clean p) = [''..''] @ split_slash (drop 3 (Clean p))"
      using c by (simp only:)
    then show ?thesis using split by simp
  qed
  moreover have "escapes (Clean p)" if "e = ''..''"
    using rel(3) es that by (cases es) (simp_all add: escapes_def slash_join_Cons numeral_3_eq_3)
  ultimately show ?thesis using rel es by auto
qed

lemma plain_if_inside: "\<not> escapes (Clean p) \<Longrightarrow> list_all plain_elem (path_elems p)"
proof -
  assume ne: "\<not> escapes (Clean p)"
  obtain k ns where es: "path_elems p = replicate k ''..'' @ ns" "is_rooted p \<longrightarrow> k = 0" "list_all plain_elem ns"
    using path_elems_shape [of p] by (auto simp: clean_shape_def)
  have "k = 0"
    using ne es by (cases k) (auto simp: escapes_Clean)
  then show ?thesis using es by simp
qed

lemma Join_dir: "d \<noteq> [] \<Longrightarrow> Join [d, c] = Clean (d @ slash # c)"
  by (simp add: Join_def slash_join_Cons)

text \<open>
  Joining a directory with a cleaned path that passes the test appends the elements of the path to
  those of the directory: the result is the directory or below it.
\<close>

lemma Join_contained:
  assumes "d \<noteq> []" "\<not> escapes (Clean p)"
  shows "path_elems (Join [d, Clean p]) = path_elems d @ path_elems p"
    and "is_rooted (Join [d, Clean p]) = is_rooted d"
proof -
  show "is_rooted (Join [d, Clean p]) = is_rooted d"
    using assms(1) by (simp add: Join_dir Clean_rooted is_rooted_append)
  have "path_elems (Join [d, Clean p])
      = rev (foldl (clean_push (is_rooted d)) (foldl (clean_push (is_rooted d)) [] (split_slash d))
               (split_slash (Clean p)))"
    unfolding Join_dir [OF assms(1)] path_elems_Clean
    unfolding path_elems_def is_rooted_append [OF assms(1)] split_on_app by simp
  also have "\<dots> = rev (rev (path_elems p) @ rev (path_elems d))"
    using plain_if_inside [OF assms(2)]
    by (simp add: foldl_Clean clean_push_all_plain path_elems_def)
  finally show "path_elems (Join [d, Clean p]) = path_elems d @ path_elems p" by simp
qed

text \<open>\<^verbatim>\<open>Dir\<close> of a cleaned path drops its last element.\<close>

lemma dropWhile_last_elem:
  "slash \<notin> set e \<Longrightarrow> rev (dropWhile (\<lambda>c. c \<noteq> slash) (rev (a @ slash # e))) = a @ [slash]"
  "slash \<notin> set e \<Longrightarrow> rev (dropWhile (\<lambda>c. c \<noteq> slash) (rev e)) = []"
proof -
  assume "slash \<notin> set e"
  then have "\<forall>c \<in> set (rev e). c \<noteq> slash" by auto
  then show "rev (dropWhile (\<lambda>c. c \<noteq> slash) (rev (a @ slash # e))) = a @ [slash]"
    and "rev (dropWhile (\<lambda>c. c \<noteq> slash) (rev e)) = []"
    by (simp_all add: dropWhile_append3 dropWhile_append)
qed

lemma slash_join_snoc: "es \<noteq> [] \<Longrightarrow> slash_join (es @ [e]) = slash_join es @ slash # e"
proof (induction es)
  case (Cons x es)
  then show ?case by (cases "es = []") (simp_all add: slash_join_Cons)
qed simp

lemma Dir_prefix:
  assumes "path_elems p = es @ [e]"
  shows "rev (dropWhile (\<lambda>c. c \<noteq> slash) (rev (Clean p)))
       = (if is_rooted p then [slash] else []) @ (if es = [] then [] else slash_join es @ [slash])"
proof -
  have e: "slash \<notin> set e" using clean_shape_noslash [OF path_elems_shape [of p]] assms by simp
  show ?thesis
  proof (cases rule: Clean_cases [of p])
    case root
    have c: "Clean p = (if es = [] then [] else slash # slash_join es) @ slash # e"
      using root assms by (simp add: slash_join_snoc)
    show ?thesis using dropWhile_last_elem(1) [OF e] root(1) unfolding c by simp
  next
    case dot
    then show ?thesis using assms by simp
  next
    case rel
    show ?thesis
    proof (cases "es = []")
      case True
      then show ?thesis using rel assms dropWhile_last_elem(2) [OF e] by simp
    next
      case False
      then have c: "Clean p = slash_join es @ slash # e"
        using rel assms by (simp add: slash_join_snoc)
      show ?thesis using dropWhile_last_elem(1) [OF e] rel(1) False unfolding c by simp
    qed
  qed
qed

lemma Dir_elems:
  assumes "path_elems p = es @ [e]"
  shows "path_elems (Dir (Clean p)) = es" and "is_rooted (Dir (Clean p)) = is_rooted p"
proof -
  let ?r = "is_rooted p"
  have shape: "clean_shape ?r es"
  proof -
    obtain k ns where kn: "path_elems p = replicate k ''..'' @ ns" "?r \<longrightarrow> k = 0" "list_all plain_elem ns"
      using path_elems_shape [of p] by (auto simp: clean_shape_def)
    show ?thesis
    proof (cases ns rule: rev_cases)
      case Nil
      then have "es = replicate (k - 1) ''..'' @ []"
        using kn(1) assms by (cases k) (simp_all add: replicate_append_same [symmetric])
      then show ?thesis using clean_shapeI [of "[]" ?r "k - 1"] kn(2) by simp
    next
      case (snoc ms m)
      then have "es = replicate k ''..'' @ ms" using kn(1) assms by simp
      then show ?thesis using clean_shapeI [of ms ?r k] kn(2,3) snoc by simp
    qed
  qed
  let ?q = "(if ?r then [slash] else []) @ (if es = [] then [] else slash_join es @ [slash])"
  have noslash: "es \<noteq> [] \<Longrightarrow> split_slash (slash_join es) = es"
    using clean_shape_noslash [OF shape] by (intro split_slash_join) auto
  have "\<not> is_rooted (slash_join es @ [slash])" if ne: "es \<noteq> []"
  proof -
    obtain x xs where "es = x # xs" using ne by (cases es) auto
    then show ?thesis
      using clean_shape_noslash [OF shape] by (cases x; cases xs) (auto simp: slash_join_Cons is_rooted_def)
  qed
  then have rooted: "is_rooted ?q = ?r" by (auto simp: is_rooted_def)
  have "split_slash (slash_join es @ [slash]) = es @ [[]]" if "es \<noteq> []"
    using split_on_app [of slash "slash_join es" "[]"] noslash that by simp
  then have "foldl (clean_push ?r) [] (split_slash ?q) = foldl (clean_push ?r) [] es"
    by (cases "es = []"; cases ?r) simp_all
  then have elems: "path_elems ?q = es"
    unfolding path_elems_def rooted by (simp add: clean_shape_fold [OF shape])
  show "path_elems (Dir (Clean p)) = es" "is_rooted (Dir (Clean p)) = ?r"
    unfolding Dir_def Dir_prefix [OF assms] path_elems_Clean Clean_rooted using elems rooted by blast+
qed

end
