(* ===== verification/BuildSteps.thy ===== *)
theory BuildSteps
  imports PathClean
begin

unbundle bit_operations_syntax

text \<open>
  \<^verbatim>\<open>apps/build-runner/builder/compile.go\<close>: unpacking the source archive and running the toolchain of
  the submission's language.  The operating system is a peer over the history of calls; gzip and
  tar decoding give the list of archive items.
\<close>

subsection \<open>Calls to the operating system\<close>

datatype os_call =
    MkdirAll string u32
  | OpenTrunc string u32
  | CopyTo string bytes
  | CloseFile string
  | RunCommand "string list" string "string list"
  | ReadDir string
  | Stat string

text \<open>
  \<open>os_error\<close> answers the calls that only succeed or fail; a directory listing is given as names with
  \<^verbatim>\<open>IsDir\<close>, the mode of a file as its 32 bits.
\<close>

record os_peer =
  os_error :: "(os_call, go_error option) peer"
  os_read_dir :: "(os_call, (string \<times> bool) list result) peer"
  os_stat :: "(os_call, u32 result) peer"

subsection \<open>The archive\<close>

datatype typeflag = TypeDir | TypeReg | TypeOther char

record tar_header =
  hdr_Name :: string
  hdr_Typeflag :: typeflag
  hdr_Mode :: i64

text \<open>
  One answer of \<^verbatim>\<open>tr.Next()\<close>: a header with the body (and the error its reading ends with), or an
  error.  The end of the list is \<^verbatim>\<open>io.EOF\<close>.
\<close>

datatype tar_item = TarEntry tar_header bytes "go_error option" | TarError go_error

subsection \<open>ExtractTarGz\<close>

definition extract_file :: "os_peer \<Rightarrow> string \<Rightarrow> u32 \<Rightarrow> bytes \<Rightarrow> go_error option \<Rightarrow> os_call list
    \<Rightarrow> go_error option \<times> os_call list" where
  "extract_file os target mode body read_err h =
     (case ask (os_error os) (MkdirAll (Dir target) 493) h of
        (Some err, h) \<Rightarrow> (Some err, h)
      | (None, h) \<Rightarrow>
     (case ask (os_error os) (OpenTrunc target mode) h of
        (Some err, h) \<Rightarrow> (Some err, h)
      | (None, h) \<Rightarrow>
          (let (write_err, h) = ask (os_error os) (CopyTo target body) h;
               copy_err = (if write_err \<noteq> None then write_err else read_err);
               (_, h) = ask (os_error os) (CloseFile target) h
           in (copy_err, h))))"

definition extract_entry :: "os_peer \<Rightarrow> string \<Rightarrow> tar_header \<Rightarrow> bytes \<Rightarrow> go_error option \<Rightarrow> os_call list
    \<Rightarrow> go_error option \<times> os_call list" where
  "extract_entry os destDir hdr body read_err h =
     (let clean = Clean (hdr_Name hdr) in
      if escapes clean then (Some (GoError (''tar entry escapes root: '' @ hdr_Name hdr)), h)
      else (let target = Join [destDir, clean] in
        case hdr_Typeflag hdr of
          TypeDir \<Rightarrow> ask (os_error os) (MkdirAll target (ucast (hdr_Mode hdr))) h
        | TypeReg \<Rightarrow> extract_file os target (ucast (hdr_Mode hdr)) body read_err h
        | TypeOther c \<Rightarrow> (None, h)))"

fun extract_entries :: "os_peer \<Rightarrow> string \<Rightarrow> tar_item list \<Rightarrow> os_call list \<Rightarrow> go_error option \<times> os_call list" where
  "extract_entries os destDir [] h = (None, h)"
| "extract_entries os destDir (TarError err # its) h = (Some (Wrapf ''tar next'' err), h)"
| "extract_entries os destDir (TarEntry hdr body read_err # its) h =
     (case extract_entry os destDir hdr body read_err h of
        (Some err, h) \<Rightarrow> (Some err, h)
      | (None, h) \<Rightarrow> extract_entries os destDir its h)"

text \<open>\<open>src\<close> is what \<^verbatim>\<open>gzip.NewReader\<close> makes of the stream: an error, or the items of the archive.\<close>

definition ExtractTarGz :: "os_peer \<Rightarrow> tar_item list result \<Rightarrow> string \<Rightarrow> os_call list
    \<Rightarrow> go_error option \<times> os_call list" where
  "ExtractTarGz os src destDir h =
     (case ask (os_error os) (MkdirAll destDir 493) h of
        (Some err, h) \<Rightarrow> (Some err, h)
      | (None, h) \<Rightarrow>
          (case src of
             Inl err \<Rightarrow> (Some (Wrapf ''gzip reader'' err), h)
           | Inr its \<Rightarrow> extract_entries os destDir its h))"

subsection \<open>Compile\<close>

fun release_binary :: "os_peer \<Rightarrow> (string \<times> bool) list \<Rightarrow> os_call list \<Rightarrow> string result \<times> os_call list" where
  "release_binary os [] h = (Inl (GoError ''no release binary found under /work/target/release''), h)"
| "release_binary os ((name, is_dir) # es) h =
     (if is_dir then release_binary os es h
      else if name = ''deps'' \<or> Ext name \<noteq> [] then release_binary os es h
      else
        (let path = Join [''/work/target/release'', name] in
         case ask (os_stat os) (Stat path) h of
           (Inr mode, h1) \<Rightarrow> if mode AND 73 \<noteq> 0 then (Inr path, h1) else release_binary os es h1
         | (Inl err, h1) \<Rightarrow> release_binary os es h1))"

definition compileRust :: "os_peer \<Rightarrow> string \<Rightarrow> os_call list \<Rightarrow> string result \<times> os_call list" where
  "compileRust os srcDir h =
     (case ask (os_error os) (RunCommand [''cargo'', ''build'', ''--release''] srcDir
             [''CARGO_HOME=/work/.cargo'', ''CARGO_TARGET_DIR=/work/target'']) h of
        (Some err, h) \<Rightarrow> (Inl (Wrapf ''cargo build'' err), h)
      | (None, h) \<Rightarrow>
          (case ask (os_read_dir os) (ReadDir ''/work/target/release'') h of
             (Inl err, h) \<Rightarrow> (Inl err, h)
           | (Inr entries, h) \<Rightarrow> release_binary os entries h))"

definition compileGo :: "os_peer \<Rightarrow> string \<Rightarrow> os_call list \<Rightarrow> string result \<times> os_call list" where
  "compileGo os srcDir h =
     (let out = ''/work/engine'' in
      case ask (os_error os) (RunCommand [''go'', ''build'', ''-trimpath'', ''-ldflags=-s -w'', ''-o'', out, ''./...'']
             srcDir [''CGO_ENABLED=0'', ''GOOS=linux'', ''GOARCH=arm64'']) h of
        (Some err, h) \<Rightarrow> (Inl (Wrapf ''go build'' err), h)
      | (None, h) \<Rightarrow> (Inr out, h))"

definition compileCpp :: "os_peer \<Rightarrow> string \<Rightarrow> os_call list \<Rightarrow> string result \<times> os_call list" where
  "compileCpp os srcDir h =
     (case ask (os_stat os) (Stat (Join [srcDir, ''CMakeLists.txt''])) h of
        (Inl err, h) \<Rightarrow> (Inl (Wrapf ''cpp build expects CMakeLists.txt at srcDir'' err), h)
      | (Inr _, h) \<Rightarrow>
     (let bld = Join [srcDir, ''build''] in
      case ask (os_error os) (RunCommand [''cmake'', ''-B'', bld, ''-S'', srcDir, ''-DCMAKE_BUILD_TYPE=Release''] [] []) h of
        (Some err, h) \<Rightarrow> (Inl (Wrapf ''cmake'' err), h)
      | (None, h) \<Rightarrow>
     (case ask (os_error os) (RunCommand [''cmake'', ''--build'', bld, ''--parallel''] [] []) h of
        (Some err, h) \<Rightarrow> (Inl (Wrapf ''cmake build'' err), h)
      | (None, h) \<Rightarrow>
     (let out = Join [bld, ''engine''] in
      case ask (os_stat os) (Stat out) h of
        (Inl err, h) \<Rightarrow> (Inl (Wrapf (''expected binary at '' @ out) err), h)
      | (Inr _, h) \<Rightarrow> (Inr out, h)))))"

definition CompileSource :: "os_peer \<Rightarrow> string \<Rightarrow> string \<Rightarrow> os_call list \<Rightarrow> string result \<times> os_call list" where
  "CompileSource os language srcDir h =
     (if language = ''rust'' then compileRust os srcDir h
      else if language = ''go'' then compileGo os srcDir h
      else if language = ''cpp'' then compileCpp os srcDir h
      else (Inl (GoError (''unsupported language '' @ quoted language)), h))"

subsection \<open>Staying below the destination\<close>

definition inside :: "string \<Rightarrow> string \<Rightarrow> bool" where
  "inside d p \<longleftrightarrow> is_rooted p = is_rooted d \<and> (\<exists>es. path_elems p = path_elems d @ es \<and> list_all plain_elem es)"

text \<open>
  The calls an extraction may make.  The parent of the destination can only be asked for as a
  directory; it exists once the first call, for the destination itself, has succeeded.  No call
  makes a link.
\<close>

fun call_inside :: "string \<Rightarrow> os_call \<Rightarrow> bool" where
  "call_inside d (MkdirAll p m) \<longleftrightarrow> inside d p \<or> p = Dir (Clean d)"
| "call_inside d (OpenTrunc p m) \<longleftrightarrow> inside d p"
| "call_inside d (CopyTo p b) \<longleftrightarrow> inside d p"
| "call_inside d (CloseFile p) \<longleftrightarrow> inside d p"
| "call_inside d (RunCommand args dir env) \<longleftrightarrow> False"
| "call_inside d (ReadDir p) \<longleftrightarrow> False"
| "call_inside d (Stat p) \<longleftrightarrow> False"

lemma inside_refl: "inside d d"
  by (auto simp: inside_def intro: exI [of _ "[]"])

lemma Clean_cong: "path_elems p = path_elems q \<Longrightarrow> is_rooted p = is_rooted q \<Longrightarrow> Clean p = Clean q"
  by (simp add: Clean_def)

lemma target_inside:
  assumes d: "d \<noteq> []" and n: "\<not> escapes (Clean n)"
  shows "inside d (Join [d, Clean n])"
  using Join_contained [OF d n] plain_if_inside [OF n] by (auto simp: inside_def)

lemma target_parent:
  assumes d: "d \<noteq> []" and n: "\<not> escapes (Clean n)"
  shows "inside d (Dir (Join [d, Clean n])) \<or> Dir (Join [d, Clean n]) = Dir (Clean d)"
proof -
  let ?q = "d @ slash # Clean n"
  have target: "Join [d, Clean n] = Clean ?q" by (rule Join_dir [OF d])
  have elems: "path_elems ?q = path_elems d @ path_elems n" "is_rooted ?q = is_rooted d"
    using Join_contained [OF d n] unfolding target by (simp_all add: path_elems_Clean Clean_rooted)
  show ?thesis
  proof (cases "path_elems n" rule: rev_cases)
    case Nil
    then have "Clean ?q = Clean d" using elems by (intro Clean_cong) simp_all
    then show ?thesis by (simp add: target)
  next
    case (snoc xs x)
    have "path_elems (Dir (Clean ?q)) = path_elems d @ xs" "is_rooted (Dir (Clean ?q)) = is_rooted d"
      using Dir_elems [of ?q "path_elems d @ xs" x] elems snoc by simp_all
    moreover have "list_all plain_elem xs" using plain_if_inside [OF n] snoc by simp
    ultimately show ?thesis by (auto simp: target inside_def)
  qed
qed

lemma extract_entry_inside:
  assumes "d \<noteq> []" "extract_entry os d hdr body re h = (err, h')"
  shows "\<exists>cs. h' = h @ cs \<and> list_all (call_inside d) cs"
proof (cases "escapes (Clean (hdr_Name hdr))")
  case True
  then show ?thesis using assms(2) by (simp add: extract_entry_def Let_def)
next
  case False
  note target = target_inside [OF assms(1) False] target_parent [OF assms(1) False]
  show ?thesis
    using assms(2) False target
    by (auto simp: extract_entry_def extract_file_def Let_def split: typeflag.splits option.splits)
qed

lemma extract_entries_inside:
  assumes "d \<noteq> []"
  shows "extract_entries os d its h = (err, h') \<Longrightarrow> \<exists>cs. h' = h @ cs \<and> list_all (call_inside d) cs"
proof (induction its arbitrary: h)
  case (Cons it its)
  show ?case
  proof (cases it)
    case (TarEntry hdr body re)
    obtain e h1 where e: "extract_entry os d hdr body re h = (e, h1)" by (metis surj_pair)
    obtain cs where cs: "h1 = h @ cs" "list_all (call_inside d) cs"
      using extract_entry_inside [OF assms e] by blast
    show ?thesis
    proof (cases e)
      case None
      then have "extract_entries os d its h1 = (err, h')" using Cons.prems TarEntry e by simp
      from Cons.IH [OF this] cs show ?thesis by auto
    next
      case (Some x)
      then show ?thesis using Cons.prems TarEntry e cs by auto
    qed
  next
    case (TarError x)
    then show ?thesis using Cons.prems by simp
  qed
qed simp

text \<open>
  C8 (extraction_is_contained): whatever the archive holds, absolute names, \<^verbatim>\<open>..\<close> elements or links
  included, and whatever the operating system answers, the extraction only makes directories, and
  opens, writes and closes files, at or below its destination; it runs nothing and makes no links.
\<close>

theorem extraction_is_contained:
  assumes "ExtractTarGz os src d h = (err, h')" and "d \<noteq> []"
  shows "\<exists>cs. h' = h @ cs \<and> list_all (call_inside d) cs"
proof (cases "os_error os (h @ [MkdirAll d 493])")
  case None
  show ?thesis
  proof (cases src)
    case (Inl x)
    then show ?thesis using assms None inside_refl by (auto simp: ExtractTarGz_def)
  next
    case (Inr its)
    then have "extract_entries os d its (h @ [MkdirAll d 493]) = (err, h')"
      using assms None by (simp add: ExtractTarGz_def)
    from extract_entries_inside [OF assms(2) this] show ?thesis by (auto simp: inside_refl)
  qed
next
  case (Some x)
  then show ?thesis using assms inside_refl by (auto simp: ExtractTarGz_def)
qed

subsection \<open>What a whole archive does\<close>

text \<open>The calls of one entry when none fails.\<close>

definition entry_calls :: "string \<Rightarrow> tar_header \<Rightarrow> bytes \<Rightarrow> os_call list" where
  "entry_calls d hdr body =
     (let target = Join [d, Clean (hdr_Name hdr)]; mode = ucast (hdr_Mode hdr) in
      case hdr_Typeflag hdr of
        TypeDir \<Rightarrow> [MkdirAll target mode]
      | TypeReg \<Rightarrow> [MkdirAll (Dir target) 493, OpenTrunc target mode, CopyTo target body, CloseFile target]
      | TypeOther c \<Rightarrow> [])"

fun good_item :: "tar_item \<Rightarrow> bool" where
  "good_item (TarEntry hdr body re) \<longleftrightarrow> \<not> escapes (Clean (hdr_Name hdr)) \<and> re = None"
| "good_item (TarError e) \<longleftrightarrow> False"

fun item_calls :: "string \<Rightarrow> tar_item \<Rightarrow> os_call list" where
  "item_calls d (TarEntry hdr body re) = entry_calls d hdr body"
| "item_calls d (TarError e) = []"

lemma extract_good:
  assumes "\<forall>h. os_error os h = None" and "list_all good_item its"
  shows "extract_entries os d (its @ rest) h = extract_entries os d rest (h @ concat (map (item_calls d) its))"
  using assms(2)
proof (induction its arbitrary: h)
  case (Cons it its)
  then obtain hdr body where it: "it = TarEntry hdr body None" "\<not> escapes (Clean (hdr_Name hdr))"
    by (cases it) auto
  then have "extract_entry os d hdr body None h = (None, h @ entry_calls d hdr body)"
    using assms(1)
    by (auto simp: extract_entry_def extract_file_def entry_calls_def Let_def split: typeflag.splits)
  then show ?case using Cons it by simp
qed simp

text \<open>
  With a working disk, the good entries before the first bad one
  are unpacked, each under its cleaned name and in order, and nothing of what follows; an archive
  without a bad entry is unpacked whole, and links and other special entries leave no trace.
\<close>

theorem extraction_follows_the_archive:
  assumes "\<forall>h. os_error os h = None" and "list_all good_item its"
    and "bad = [] \<or> (\<exists>hdr body re more. bad = TarEntry hdr body re # more \<and> escapes (Clean (hdr_Name hdr))
           \<and> name = hdr_Name hdr)"
  shows "ExtractTarGz os (Inr (its @ bad)) d h =
           (if bad = [] then None else Some (GoError (''tar entry escapes root: '' @ name)),
            h @ MkdirAll d 493 # concat (map (item_calls d) its))"
proof -
  have "extract_entries os d bad g = (if bad = [] then None else Some (GoError (''tar entry escapes root: '' @ name)), g)" for g
    using assms(3) by (auto simp: extract_entry_def)
  then show ?thesis using assms(1) extract_good [OF assms(1,2)] by (simp add: ExtractTarGz_def)
qed

definition working_disk :: os_peer where
  "working_disk = \<lparr>os_error = (\<lambda>h. None), os_read_dir = (\<lambda>h. Inr [(''build'', True), (''lib.d'', False), (''engine'', False)]),
     os_stat = (\<lambda>h. Inr 493)\<rparr>"

definition sample_entry :: "string \<Rightarrow> tar_header" where
  "sample_entry name = \<lparr>hdr_Name = name, hdr_Typeflag = TypeReg, hdr_Mode = 420\<rparr>"

lemma sample_names:
  "Clean ''a/../b/./c.rs'' = ''b/c.rs''" "escapes (Clean ''a/../../etc'')"
  "Join [''/work/src'', ''b/c.rs''] = ''/work/src/b/c.rs''" "Dir ''/work/src/b/c.rs'' = ''/work/src/b''"
  by code_simp+

theorem extraction_follows_the_archive_witness:
  "ExtractTarGz working_disk
     (Inr [TarEntry (sample_entry ''a/../b/./c.rs'') [1] None, TarEntry (sample_entry ''a/../../etc'') [2] None])
     ''/work/src'' []
   = (Some (GoError ''tar entry escapes root: a/../../etc''),
      [MkdirAll ''/work/src'' 493, MkdirAll ''/work/src/b'' 493, OpenTrunc ''/work/src/b/c.rs'' 420,
       CopyTo ''/work/src/b/c.rs'' [1], CloseFile ''/work/src/b/c.rs''])"
proof -
  have "\<not> escapes ''b/c.rs''" by code_simp
  then show ?thesis
    using extraction_follows_the_archive [of working_disk "[TarEntry (sample_entry ''a/../b/./c.rs'') [1] None]"
        "[TarEntry (sample_entry ''a/../../etc'') [2] None]" "''a/../../etc''" "''/work/src''" "[]"]
    by (simp add: working_disk_def sample_entry_def entry_calls_def Let_def sample_names)
qed

theorem extraction_is_contained_witness:
  "list_all (call_inside ''/work/src'')
     (snd (ExtractTarGz working_disk (Inr [TarEntry (sample_entry ''/etc/passwd'') [2] None]) ''/work/src'' []))"
  using extraction_is_contained [of working_disk "Inr [TarEntry (sample_entry ''/etc/passwd'') [2] None]" "''/work/src''" "[]"
      "fst (ExtractTarGz working_disk (Inr [TarEntry (sample_entry ''/etc/passwd'') [2] None]) ''/work/src'' [])"
      "snd (ExtractTarGz working_disk (Inr [TarEntry (sample_entry ''/etc/passwd'') [2] None]) ''/work/src'' [])"]
  by simp

subsection \<open>Choosing the binary\<close>

definition is_binary :: "(string \<Rightarrow> u32 result) \<Rightarrow> string \<times> bool \<Rightarrow> bool" where
  "is_binary stat = (\<lambda>(name, is_dir). \<not> is_dir \<and> name \<noteq> ''deps'' \<and> Ext name = []
     \<and> (case stat (Join [''/work/target/release'', name]) of Inl e \<Rightarrow> False | Inr mode \<Rightarrow> mode AND 73 \<noteq> 0))"

lemma release_binary_find:
  assumes "\<forall>h p. os_stat os (h @ [Stat p]) = stat p"
  shows "fst (release_binary os es h) =
     (case List.find (is_binary stat) es of
        None \<Rightarrow> Inl (GoError ''no release binary found under /work/target/release'')
      | Some e \<Rightarrow> Inr (Join [''/work/target/release'', fst e]))"
proof (induction es arbitrary: h)
  case (Cons e es)
  obtain name is_dir where e: "e = (name, is_dir)" by (cases e)
  show ?case
    using Cons.IH assms by (auto simp: e is_binary_def Let_def split: sum.splits)
qed simp

text \<open>
  A Rust build ends with the first plain, extensionless, executable
  file of the release directory, a Go build with the path it asked the linker for; nothing is
  returned when the toolchain fails, and no toolchain runs for any other language.
\<close>

theorem compile_picks_the_binary:
  assumes "\<forall>h p. os_stat os (h @ [Stat p]) = stat p"
    and "\<forall>h args dir env. os_error os (h @ [RunCommand args dir env]) = run args"
    and "\<forall>h. os_read_dir os h = listing"
  shows "fst (CompileSource os lang src h) =
     (if lang = ''rust'' then
        (case (run [''cargo'', ''build'', ''--release''], listing) of
           (Some e, _) \<Rightarrow> Inl (Wrapf ''cargo build'' e)
         | (None, Inl e) \<Rightarrow> Inl e
         | (None, Inr es) \<Rightarrow>
             (case List.find (is_binary stat) es of
                None \<Rightarrow> Inl (GoError ''no release binary found under /work/target/release'')
              | Some e \<Rightarrow> Inr (Join [''/work/target/release'', fst e])))
      else if lang = ''go'' then
        (case run [''go'', ''build'', ''-trimpath'', ''-ldflags=-s -w'', ''-o'', ''/work/engine'', ''./...''] of
           Some e \<Rightarrow> Inl (Wrapf ''go build'' e) | None \<Rightarrow> Inr ''/work/engine'')
      else if lang = ''cpp'' then fst (compileCpp os src h)
      else Inl (GoError (''unsupported language '' @ quoted lang)))
   \<and> (lang \<notin> {''rust'', ''go'', ''cpp''} \<longrightarrow> snd (CompileSource os lang src h) = h)
   \<and> (lang = ''cpp'' \<longrightarrow> fst (CompileSource os lang src h)
        \<in> {Inr (Join [Join [src, ''build''], ''engine''])} \<union> range Inl)"
proof -
  have rust: "fst (compileRust os src h) =
      (case (run [''cargo'', ''build'', ''--release''], listing) of
           (Some e, _) \<Rightarrow> Inl (Wrapf ''cargo build'' e)
         | (None, Inl e) \<Rightarrow> Inl e
         | (None, Inr es) \<Rightarrow>
             (case List.find (is_binary stat) es of
                None \<Rightarrow> Inl (GoError ''no release binary found under /work/target/release'')
              | Some e \<Rightarrow> Inr (Join [''/work/target/release'', fst e])))"
    using assms(2,3) release_binary_find [OF assms(1)]
    by (auto simp: compileRust_def split: option.splits sum.splits)
  have go: "fst (compileGo os src h) =
      (case run [''go'', ''build'', ''-trimpath'', ''-ldflags=-s -w'', ''-o'', ''/work/engine'', ''./...''] of
           Some e \<Rightarrow> Inl (Wrapf ''go build'' e) | None \<Rightarrow> Inr ''/work/engine'')"
    using assms(2) by (auto simp: compileGo_def Let_def split: option.splits)
  have cpp: "fst (compileCpp os src h) \<in> {Inr (Join [Join [src, ''build''], ''engine''])} \<union> range Inl"
    by (auto simp: compileCpp_def Let_def split: option.splits sum.splits)
  show ?thesis
    using rust go cpp by (auto simp: CompileSource_def)
qed

theorem compile_picks_the_binary_witness:
  "fst (CompileSource working_disk ''rust'' ''/work/src'' []) = Inr ''/work/target/release/engine''"
proof -
  have names: "Ext ''lib.d'' = ''.d''" "Ext ''engine'' = []"
      "Join [''/work/target/release'', ''engine''] = ''/work/target/release/engine''" by code_simp+
  have "(493 AND 73 :: u32) \<noteq> 0" by code_simp
  then show ?thesis
    using compile_picks_the_binary [of working_disk "\<lambda>p. Inr 493" "\<lambda>args. None"
        "Inr [(''build'', True), (''lib.d'', False), (''engine'', False)]" "''rust''" "''/work/src''" "[]"]
    by (simp add: working_disk_def is_binary_def names)
qed

end
