(* ===== verification/BuildRunner.thy ===== *)
theory BuildRunner
  imports SubmissionSystem BuildSteps Clients
begin

text \<open>
  \<^verbatim>\<open>apps/build-runner\<close>: packaging a binary into an image and pushing it (\<^verbatim>\<open>builder/builder.go\<close>), and the
  one-shot \<^verbatim>\<open>main\<close> that moves a submission from \<^verbatim>\<open>BUILDING\<close> to \<^verbatim>\<open>READY\<close> or \<^verbatim>\<open>REJECTED\<close>.  The
  container-registry library, the operating system and MinIO are parameters; the table is the one
  submission-api writes.
\<close>

subsection \<open>Images\<close>

record image_config =
  ic_Entrypoint :: "string list"
  ic_Cmd :: "string list"
  ic_User :: string
  ic_Architecture :: string
  ic_OS :: string

record layer_file =
  lf_Name :: string
  lf_Mode :: i64
  lf_Size :: i64
  lf_Body :: bytes

text \<open>
  \<^verbatim>\<open>crane\<close>, \<^verbatim>\<open>tarball\<close>, \<^verbatim>\<open>mutate\<close>, \<^verbatim>\<open>name\<close> and \<^verbatim>\<open>remote\<close>, over a type of images, and the tar and gzip
  writers for a single file.
\<close>

record 'i image_lib =
  il_pull :: "string \<Rightarrow> 'i result"
  il_tar_gz :: "layer_file \<Rightarrow> bytes result"
  il_layer :: "bytes \<Rightarrow> go_error option"
  il_append :: "'i \<Rightarrow> bytes \<Rightarrow> 'i result"
  il_config :: "'i \<Rightarrow> image_config result"
  il_with_config :: "'i \<Rightarrow> image_config \<Rightarrow> 'i result"
  il_new_tag :: "string \<Rightarrow> go_error option"
  il_write :: "string \<Rightarrow> 'i \<Rightarrow> go_error option"
  il_digest :: "'i \<Rightarrow> string result"
  il_manifest :: "'i \<Rightarrow> string result"

definition BaseImageARM64 :: string where
  "BaseImageARM64 = ''gcr.io/distroless/static-debian12:nonroot''"

record BuildResult =
  br_Repository :: string
  br_Tag :: string
  br_Digest :: string
  br_Reference :: string

text \<open>\<^verbatim>\<open>if err != nil { return nil, fmt.Errorf("p: %w", err) }\<close>.\<close>

definition wrapping :: "string \<Rightarrow> 'a result \<Rightarrow> ('a \<Rightarrow> 'b result) \<Rightarrow> 'b result" where
  "wrapping p m k = (case m of Inl err \<Rightarrow> Inl (Wrapf p err) | Inr a \<Rightarrow> k a)"

definition singleFileTarGz :: "'i image_lib \<Rightarrow> string \<Rightarrow> bytes \<Rightarrow> i64 \<Rightarrow> bytes result" where
  "singleFileTarGz lib path body mode =
     il_tar_gz lib \<lparr>lf_Name = Clean (tl path), lf_Mode = mode, lf_Size = of_nat (length body), lf_Body = body\<rparr>"

definition TarLayerForBinary :: "'i image_lib \<Rightarrow> (string \<Rightarrow> bytes result) \<Rightarrow> string \<Rightarrow> bytes result" where
  "TarLayerForBinary lib read_file binPath =
     (case read_file binPath of
        Inl err \<Rightarrow> Inl err
      | Inr body \<Rightarrow> singleFileTarGz lib ''/usr/local/bin/engine'' body 493)"

definition ProbeBase :: "'i image_lib \<Rightarrow> string result" where
  "ProbeBase lib = (case il_pull lib BaseImageARM64 of Inl err \<Rightarrow> Inl err | Inr base \<Rightarrow> il_manifest lib base)"

definition engine_config :: "image_config \<Rightarrow> image_config" where
  "engine_config cfg =
     cfg\<lparr>ic_Entrypoint := [''/usr/local/bin/engine''], ic_Cmd := [], ic_User := ''65534:65534'',
         ic_Architecture := ''arm64'', ic_OS := ''linux''\<rparr>"

text \<open>Steps 1 to 3 of \<^verbatim>\<open>Build\<close>: the image that will be pushed.\<close>

definition final_image :: "'i image_lib \<Rightarrow> (string \<Rightarrow> bytes result) \<Rightarrow> string \<Rightarrow> 'i result" where
  "final_image lib read_file binaryPath =
     wrapping ''pull base'' (il_pull lib BaseImageARM64) (\<lambda>base.
     wrapping ''read binary'' (read_file binaryPath) (\<lambda>binBytes.
     wrapping ''tar layer'' (singleFileTarGz lib ''/usr/local/bin/engine'' binBytes 493) (\<lambda>layerBytes.
     case il_layer lib layerBytes of
       Some err \<Rightarrow> Inl (Wrapf ''layer from opener'' err)
     | None \<Rightarrow>
     wrapping ''append layer'' (il_append lib base layerBytes) (\<lambda>withLayer.
     wrapping ''config file'' (il_config lib withLayer) (\<lambda>cfg.
     wrapping ''config file mutate'' (il_with_config lib withLayer (engine_config cfg)) (\<lambda>finalImg.
       Inr finalImg))))))"

text \<open>\<open>reg\<close> is the list of pushes the registry has accepted.\<close>

definition Build :: "'i image_lib \<Rightarrow> (string \<Rightarrow> bytes result) \<Rightarrow> string \<Rightarrow> string \<Rightarrow> string
    \<Rightarrow> (string \<times> 'i) list \<Rightarrow> BuildResult result \<times> (string \<times> 'i) list" where
  "Build lib read_file binaryPath contestantSha registry reg =
     (case final_image lib read_file binaryPath of
        Inl err \<Rightarrow> (Inl err, reg)
      | Inr finalImg \<Rightarrow>
     (let repo = registry @ ''/sub/'' @ contestantSha; tag = repo @ '':latest'' in
      case il_new_tag lib tag of
        Some err \<Rightarrow> (Inl (Wrapf ''parse tag'' err), reg)
      | None \<Rightarrow>
     (case il_write lib tag finalImg of
        Some err \<Rightarrow> (Inl (Wrapf ''remote write'' err), reg)
      | None \<Rightarrow>
     (case il_digest lib finalImg of
        Inl err \<Rightarrow> (Inl (Wrapf ''digest'' err), reg @ [(tag, finalImg)])
      | Inr digest \<Rightarrow>
          (Inr \<lparr>br_Repository = repo, br_Tag = ''latest'', br_Digest = digest,
                br_Reference = repo @ ''@'' @ digest\<rparr>, reg @ [(tag, finalImg)])))))"

subsection \<open>The job\<close>

record BuildConfig =
  bc_SubmissionID :: string
  bc_SubmissionSha256 :: string
  bc_Language :: string
  bc_MinIOEndpoint :: string
  bc_MinIOAccessKey :: string
  bc_MinIOSecretKey :: string
  bc_MinIOBucket :: string
  bc_MinIOUseSSL :: bool
  bc_Registry :: string
  bc_PostgresDSN :: string
  bc_WorkDir :: string

record 'i build_env =
  be_postgres :: "go_error option"
  be_minio :: "go_error option"
  be_object :: "string \<Rightarrow> string \<Rightarrow> tar_item list result result"
  be_os :: os_peer
  be_read_file :: "string \<Rightarrow> bytes result"
  be_images :: "'i image_lib"
  be_first :: outage
  be_last :: outage
  be_started :: int
  be_ended :: int

record 'i build_world =
  bw_table :: submission_table
  bw_os :: "os_call list"
  bw_pushed :: "(string \<times> 'i) list"

definition source_key :: "BuildConfig \<Rightarrow> string" where
  "source_key cfg = bc_SubmissionSha256 cfg @ ''/source.tar.zst''"

definition runBuild :: "BuildConfig \<Rightarrow> 'i build_env \<Rightarrow> 'i build_world \<Rightarrow> BuildResult result \<times> 'i build_world" where
  "runBuild cfg ev w =
     (case be_object ev (bc_MinIOBucket cfg) (source_key cfg) of
        Inl err \<Rightarrow> (Inl (Wrapf ''get source'' err), w)
      | Inr obj \<Rightarrow>
     (let srcDir = bc_WorkDir cfg @ ''/src'' in
      case ask (os_error (be_os ev)) (MkdirAll srcDir 493) (bw_os w) of
        (Some err, h) \<Rightarrow> (Inl (Wrapf ''mkdir src'' err), w\<lparr>bw_os := h\<rparr>)
      | (None, h) \<Rightarrow>
     (case ExtractTarGz (be_os ev) obj srcDir h of
        (Some err, h) \<Rightarrow> (Inl (Wrapf ''extract'' err), w\<lparr>bw_os := h\<rparr>)
      | (None, h) \<Rightarrow>
     (case CompileSource (be_os ev) (bc_Language cfg) srcDir h of
        (Inl err, h) \<Rightarrow> (Inl (Wrapf ''compile'' err), w\<lparr>bw_os := h\<rparr>)
      | (Inr binPath, h) \<Rightarrow>
     (case Build (be_images ev) (be_read_file ev) binPath (bc_SubmissionSha256 cfg) (bc_Registry cfg) (bw_pushed w) of
        (Inl err, reg) \<Rightarrow> (Inl (Wrapf ''package+push'' err), w\<lparr>bw_os := h, bw_pushed := reg\<rparr>)
      | (Inr res, reg) \<Rightarrow> (Inr res, w\<lparr>bw_os := h, bw_pushed := reg\<rparr>))))))"

subsection \<open>Status updates\<close>

definition mark_status :: "string \<Rightarrow> int \<Rightarrow> submission_row \<Rightarrow> submission_row" where
  "mark_status status now r = r\<lparr>row_status := status, row_updated_at := now\<rparr>"

definition mark_ready :: "string \<Rightarrow> int \<Rightarrow> submission_row \<Rightarrow> submission_row" where
  "mark_ready imageRef now r = r\<lparr>row_status := ''READY'', row_image_digest := Some imageRef, row_updated_at := now\<rparr>"

definition mark_rejected :: "string \<Rightarrow> int \<Rightarrow> submission_row \<Rightarrow> submission_row" where
  "mark_rejected reason now r =
     r\<lparr>row_status := ''REJECTED'', row_reject_reason := Some reason, row_updated_at := now\<rparr>"

definition setStatus :: "outage \<Rightarrow> int \<Rightarrow> bytes \<Rightarrow> string \<Rightarrow> submission_table \<Rightarrow> go_error option \<times> submission_table" where
  "setStatus conn now sha status = over_connection conn (sql_update sha (mark_status status now))"

definition setStatusReady :: "outage \<Rightarrow> int \<Rightarrow> bytes \<Rightarrow> string \<Rightarrow> submission_table
    \<Rightarrow> go_error option \<times> submission_table" where
  "setStatusReady conn now sha imageRef = over_connection conn (sql_update sha (mark_ready imageRef now))"

definition setStatusReject :: "outage \<Rightarrow> int \<Rightarrow> bytes \<Rightarrow> string \<Rightarrow> submission_table
    \<Rightarrow> go_error option \<times> submission_table" where
  "setStatusReject conn now sha reason = over_connection conn (sql_update sha (mark_rejected reason now))"

subsection \<open>\<^verbatim>\<open>main\<close>\<close>

datatype runner_exit = RunnerFatal string | RunnerExit nat | RunnerReady string

definition runner_main :: "BuildConfig result \<Rightarrow> 'i build_env \<Rightarrow> 'i build_world \<Rightarrow> runner_exit \<times> 'i build_world" where
  "runner_main config ev w =
     (case config of
        Inl err \<Rightarrow> (RunnerFatal (''config: '' @ error_text err), w)
      | Inr cfg \<Rightarrow>
     (case be_postgres ev of
        Some err \<Rightarrow> (RunnerFatal (''pg: '' @ error_text err), w)
      | None \<Rightarrow>
     (case be_minio ev of
        Some err \<Rightarrow> (RunnerFatal (''minio: '' @ error_text err), w)
      | None \<Rightarrow>
     (case hex_decode (bc_SubmissionSha256 cfg) of
        Inl err \<Rightarrow> (RunnerFatal (''decode sha: '' @ error_text err), w)
      | Inr shaBytes \<Rightarrow>
     (case setStatus (be_first ev) (be_started ev) shaBytes ''BUILDING'' (bw_table w) of
        (Some err, t) \<Rightarrow> (RunnerFatal (''status BUILDING: '' @ error_text err), w\<lparr>bw_table := t\<rparr>)
      | (None, t) \<Rightarrow>
     (case runBuild cfg ev (w\<lparr>bw_table := t\<rparr>) of
        (Inl buildErr, w) \<Rightarrow>
          (case setStatusReject (be_last ev) (be_ended ev) shaBytes (error_text buildErr) (bw_table w) of
             (_, t) \<Rightarrow> (RunnerExit 1, w\<lparr>bw_table := t\<rparr>))
      | (Inr res, w) \<Rightarrow>
          (case setStatusReady (be_last ev) (be_ended ev) shaBytes (br_Reference res) (bw_table w) of
             (Some err, t) \<Rightarrow> (RunnerFatal (''status READY: '' @ error_text err), w\<lparr>bw_table := t\<rparr>)
           | (None, t) \<Rightarrow> (RunnerReady (br_Reference res), w\<lparr>bw_table := t\<rparr>))))))))"

lemma runBuild_table: "bw_table (snd (runBuild cfg ev w)) = bw_table w"
  by (auto simp: runBuild_def Let_def split: sum.splits option.splits prod.splits)

lemma marks_keep_identity:
  "keeps_identity (mark_status st now)" "keeps_identity (mark_ready ref now)" "keeps_identity (mark_rejected why now)"
  by (simp_all add: keeps_identity_def row_identity_def mark_status_def mark_ready_def mark_rejected_def)

lemma marks_check:
  "row_check r \<Longrightarrow> row_check (mark_status ''BUILDING'' now r)"
  "row_check r \<Longrightarrow> row_check (mark_ready ref now r)"
  "row_check r \<Longrightarrow> row_check (mark_rejected why now r)"
  by (simp_all add: row_check_def mark_status_def mark_ready_def mark_rejected_def)

subsection \<open>What a run does to the table\<close>

definition at_sha :: "bytes \<Rightarrow> (submission_row \<Rightarrow> submission_row) \<Rightarrow> submission_row \<Rightarrow> submission_row" where
  "at_sha sha f r = (if row_sha256 r = sha then f r else r)"

lemma sql_update_marks:
  assumes "list_all row_check t" "\<And>r. row_check r \<Longrightarrow> row_check (f r)"
  shows "sql_update sha f t = (None, map (at_sha sha f) t)"
  using assms by (auto simp: sql_update_def at_sha_def list_all_iff)

lemma update_over_connection:
  assumes "list_all row_check t" "\<And>r. row_check r \<Longrightarrow> row_check (f r)"
    and "over_connection conn (sql_update sha f) t = (err, t')"
  shows "t' = t \<or> t' = map (at_sha sha f) t"
  using assms(3) sql_update_marks [where f = f and sha = sha, OF assms(1,2)] by (cases conn) auto

lemma map_at_sha_check:
  "list_all row_check t \<Longrightarrow> (\<And>r. row_check r \<Longrightarrow> row_check (f r)) \<Longrightarrow> list_all row_check (map (at_sha sha f) t)"
  by (auto simp: list_all_iff at_sha_def)

text \<open>\<open>reaches\<close> is a table that updates of one submission's row can lead to.\<close>

definition reaches :: "bytes \<Rightarrow> submission_table \<Rightarrow> submission_table \<Rightarrow> bool" where
  "reaches sha t t' \<longleftrightarrow> list_all row_check t' \<and>
     (\<exists>g. keeps_identity g \<and> t' = map (at_sha sha g) t)"

lemma reaches_refl: "list_all row_check t \<Longrightarrow> reaches sha t t"
  unfolding reaches_def
  by (intro conjI exI [of _ "\<lambda>r. r"]) (simp_all add: keeps_identity_def at_sha_def map_idI)

lemma reaches_update:
  assumes "reaches sha t0 t" "keeps_identity f" "\<And>r. row_check r \<Longrightarrow> row_check (f r)"
    and "over_connection conn (sql_update sha f) t = (err, t')"
  shows "reaches sha t0 t'"
proof -
  obtain g where t: "list_all row_check t" and g: "keeps_identity g" "t = map (at_sha sha g) t0"
    using assms(1) by (auto simp: reaches_def)
  have "map (at_sha sha f) t = map (at_sha sha (f \<circ> g)) t0"
    using g by (simp add: at_sha_def keeps_identityD)
  moreover have "keeps_identity (f \<circ> g)" using assms(2) g(1) by (simp add: keeps_identity_def)
  moreover have "list_all row_check (map (at_sha sha f) t)" using map_at_sha_check [OF t] assms(3) by blast
  ultimately have "reaches sha t0 (map (at_sha sha f) t)" unfolding reaches_def by blast
  then show ?thesis using update_over_connection [OF t assms(3,4)] assms(1) by auto
qed

lemma runner_reaches:
  assumes "list_all row_check (bw_table w)" "runner_main (Inr cfg) ev w = (res, w')"
  shows "\<exists>sha. reaches sha (bw_table w) (bw_table w')
      \<and> (bw_table w' \<noteq> bw_table w \<longrightarrow> hex_decode (bc_SubmissionSha256 cfg) = Inr sha)"
proof (cases "be_postgres ev = None \<and> be_minio ev = None \<and> (\<exists>sha. hex_decode (bc_SubmissionSha256 cfg) = Inr sha)")
  case False
  then have "w' = w" using assms(2) by (auto simp: runner_main_def split: option.splits sum.splits)
  then show ?thesis using reaches_refl [OF assms(1)] by blast
next
  case True
  then obtain sha where ok: "be_postgres ev = None" "be_minio ev = None"
    and sha: "hex_decode (bc_SubmissionSha256 cfg) = Inr sha" by blast
  obtain err t where first: "setStatus (be_first ev) (be_started ev) sha ''BUILDING'' (bw_table w) = (err, t)"
    by (metis surj_pair)
  have r1: "reaches sha (bw_table w) t"
    using reaches_update [OF reaches_refl [OF assms(1)] marks_keep_identity(1) marks_check(1)] first
    unfolding setStatus_def by blast
  have "reaches sha (bw_table w) (bw_table w')"
  proof (cases err)
    case (Some e)
    then show ?thesis using assms(2) ok sha first r1 by (auto simp: runner_main_def)
  next
    case None
    obtain bres w1 where build: "runBuild cfg ev (w\<lparr>bw_table := t\<rparr>) = (bres, w1)" by (metis surj_pair)
    have t1: "bw_table w1 = t" using runBuild_table [of cfg ev "w\<lparr>bw_table := t\<rparr>"] build by simp
    show ?thesis
    proof (cases bres)
      case (Inl e)
      obtain e2 t2 where last: "setStatusReject (be_last ev) (be_ended ev) sha (error_text e) t = (e2, t2)"
        by (metis surj_pair)
      have "reaches sha (bw_table w) t2"
        using reaches_update [OF r1 marks_keep_identity(3) marks_check(3)] last unfolding setStatusReject_def by blast
      moreover have "bw_table w' = t2" using assms(2) ok sha first None build Inl t1 last by (auto simp: runner_main_def)
      ultimately show ?thesis by simp
    next
      case (Inr r)
      obtain e2 t2 where last: "setStatusReady (be_last ev) (be_ended ev) sha (br_Reference r) t = (e2, t2)"
        by (metis surj_pair)
      have "reaches sha (bw_table w) t2"
        using reaches_update [OF r1 marks_keep_identity(2) marks_check(2)] last unfolding setStatusReady_def by blast
      moreover have "bw_table w' = t2"
        using assms(2) ok sha first None build Inr t1 last by (auto simp: runner_main_def split: option.splits)
      ultimately show ?thesis by simp
    qed
  qed
  then show ?thesis using sha by blast
qed

text \<open>
  A build run, however it ends and whatever the connection does to
  its statements, keeps the table well formed, adds and removes no row, changes no id, digest,
  language or creation time, and leaves the rows of other submissions exactly as they are.
\<close>

theorem builds_touch_their_row_only:
  assumes "table_ok (bw_table w)" and "runner_main (Inr cfg) ev w = (res, w')"
  shows "table_ok (bw_table w') \<and> map row_identity (bw_table w') = map row_identity (bw_table w)
       \<and> (\<forall>r \<in> set (bw_table w). hex_decode (bc_SubmissionSha256 cfg) \<noteq> Inr (row_sha256 r)
            \<longrightarrow> r \<in> set (bw_table w'))"
proof -
  let ?t = "bw_table w" and ?t' = "bw_table w'"
  obtain sha where reach: "reaches sha ?t ?t'"
    and changed: "?t' \<noteq> ?t \<longrightarrow> hex_decode (bc_SubmissionSha256 cfg) = Inr sha"
    using runner_reaches [OF _ assms(2)] assms(1) unfolding table_ok_def by blast
  obtain g where g: "keeps_identity g" "?t' = map (at_sha sha g) ?t"
    using reach by (auto simp: reaches_def)
  have "row_identity (at_sha sha g r) = row_identity r" for r
    using g(1) by (simp add: at_sha_def keeps_identity_def)
  then have ids: "map row_identity ?t' = map row_identity ?t" by (simp add: g(2))
  have "map row_id ?t' = map row_id ?t" "map row_sha256 ?t' = map row_sha256 ?t"
    using g by (simp_all add: at_sha_def keeps_identityD)
  then have "table_ok ?t'"
    using reach assms(1) by (simp add: reaches_def table_ok_def del: map_eq_conv)
  moreover have "r \<in> set ?t'" if "r \<in> set ?t" "hex_decode (bc_SubmissionSha256 cfg) \<noteq> Inr (row_sha256 r)" for r
  proof (cases "?t' = ?t")
    case False
    then have "row_sha256 r \<noteq> sha" using changed that(2) by auto
    then have "at_sha sha g r = r" by (simp add: at_sha_def)
    then show ?thesis using that(1) g(2) by (metis imageI list.set_map)
  qed (use that in simp)
  ultimately show ?thesis using ids by blast
qed

lemma runner_outcome:
  assumes "be_postgres ev = None" and "be_minio ev = None" and "be_first ev = Connected" and "be_last ev = Connected"
    and "hex_decode (bc_SubmissionSha256 cfg) = Inr sha" and "table_ok (bw_table w)"
    and "built = fst (runBuild cfg ev (w\<lparr>bw_table := map (at_sha sha (mark_status ''BUILDING'' (be_started ev))) (bw_table w)\<rparr>))"
  shows "fst (runner_main (Inr cfg) ev w) =
           (case built of Inl e \<Rightarrow> RunnerExit 1 | Inr r \<Rightarrow> RunnerReady (br_Reference r))
       \<and> bw_table (snd (runner_main (Inr cfg) ev w)) = map (at_sha sha
           ((case built of Inl e \<Rightarrow> mark_rejected (error_text e) (be_ended ev)
                         | Inr r \<Rightarrow> mark_ready (br_Reference r) (be_ended ev))
            \<circ> mark_status ''BUILDING'' (be_started ev))) (bw_table w)"
proof -
  let ?m = "mark_status ''BUILDING'' (be_started ev)"
  let ?t = "map (at_sha sha ?m) (bw_table w)"
  have t: "list_all row_check (bw_table w)" using assms(6) by (simp add: table_ok_def)
  have first: "setStatus (be_first ev) (be_started ev) sha ''BUILDING'' (bw_table w) = (None, ?t)"
    using sql_update_marks [OF t marks_check(1)] assms(3) by (simp add: setStatus_def)
  have t1: "list_all row_check ?t" using map_at_sha_check [OF t marks_check(1)] .
  obtain w1 where build: "runBuild cfg ev (w\<lparr>bw_table := ?t\<rparr>) = (built, w1)"
    using assms(7) by (metis prod.exhaust_sel)
  have w1: "bw_table w1 = ?t" using runBuild_table [of cfg ev "w\<lparr>bw_table := ?t\<rparr>"] build by simp
  have twice: "map (at_sha sha f) ?t = map (at_sha sha (f \<circ> ?m)) (bw_table w)" for f
    by (simp add: at_sha_def mark_status_def)
  show ?thesis
  proof (cases built)
    case (Inl e)
    have "setStatusReject (be_last ev) (be_ended ev) sha (error_text e) ?t
        = (None, map (at_sha sha (mark_rejected (error_text e) (be_ended ev))) ?t)"
      using sql_update_marks [OF t1 marks_check(3)] assms(4) by (simp add: setStatusReject_def)
    then show ?thesis
      using assms(1,2,5) first build Inl w1 unfolding twice by (simp add: runner_main_def del: map_map)
  next
    case (Inr r)
    have "setStatusReady (be_last ev) (be_ended ev) sha (br_Reference r) ?t
        = (None, map (at_sha sha (mark_ready (br_Reference r) (be_ended ev))) ?t)"
      using sql_update_marks [OF t1 marks_check(2)] assms(4) by (simp add: setStatusReady_def)
    then show ?thesis
      using assms(1,2,5) first build Inr w1 unfolding twice by (simp add: runner_main_def del: map_map)
  qed
qed










text \<open>
  A Job is retried after a failure, so a rejected submission can become ready; its row then still
  carries the reason of the failed run.
\<close>

lemma retry_keeps_old_reason:
  assumes "be_postgres ev = None" and "be_minio ev = None" and "be_first ev = Connected" and "be_last ev = Connected"
    and "hex_decode (bc_SubmissionSha256 cfg) = Inr sha" and "table_ok (bw_table w)"
    and "fst (runner_main (Inr cfg) ev w) = RunnerReady ref"
    and "r \<in> set (bw_table w)" and "row_sha256 r = sha"
  shows "\<exists>r' \<in> set (bw_table (snd (runner_main (Inr cfg) ev w))).
           row_status r' = ''READY'' \<and> row_image_digest r' = Some ref \<and> row_reject_reason r' = row_reject_reason r"
proof -
  let ?b = "fst (runBuild cfg ev (w\<lparr>bw_table := map (at_sha sha (mark_status ''BUILDING'' (be_started ev))) (bw_table w)\<rparr>))"
  note out = runner_outcome [OF assms(1-6) refl]
  obtain res where "?b = Inr res" "br_Reference res = ref"
    using out assms(7) by (cases ?b) simp_all
  then have "mark_ready ref (be_ended ev) (mark_status ''BUILDING'' (be_started ev) r)
      \<in> set (bw_table (snd (runner_main (Inr cfg) ev w)))"
    using out assms(8,9) by (force simp: at_sha_def)
  then show ?thesis by (rule bexI [rotated]) (simp add: mark_ready_def mark_status_def)
qed

text \<open>
  A build that succeeds has pushed exactly one image, under the
  repository named by the source's digest, and the reference it returns pins that image's digest;
  the image runs the engine as a non-root user.  A build that fails returns no reference.
\<close>

theorem image_is_what_is_named:
  assumes "Build lib read_file bin sha registry reg = (Inr r, reg')"
    and "\<forall>i c i'. il_with_config lib i c = Inr i' \<longrightarrow> il_config lib i' = Inr c"
  shows "\<exists>img cfg. reg' = reg @ [(registry @ ''/sub/'' @ sha @ '':latest'', img)]
       \<and> br_Reference r = registry @ ''/sub/'' @ sha @ ''@'' @ br_Digest r \<and> il_digest lib img = Inr (br_Digest r)
       \<and> il_config lib img = Inr cfg \<and> ic_Entrypoint cfg = [''/usr/local/bin/engine''] \<and> ic_User cfg = ''65534:65534''"
proof -
  obtain img where img: "final_image lib read_file bin = Inr img"
    and digest: "il_digest lib img = Inr (br_Digest r)"
    and push: "reg' = reg @ [(registry @ ''/sub/'' @ sha @ '':latest'', img)]"
    and ref: "br_Reference r = registry @ ''/sub/'' @ sha @ ''@'' @ br_Digest r"
    using assms(1) by (auto simp: Build_def Let_def split: sum.splits option.splits)
  obtain i c where "il_with_config lib i (engine_config c) = Inr img"
    using img by (auto simp: final_image_def wrapping_def split: sum.splits option.splits)
  then have "il_config lib img = Inr (engine_config c)" using assms(2) by blast
  then show ?thesis using digest push ref by (auto simp: engine_config_def)
qed

subsection \<open>A sample run\<close>

definition sample_images :: "image_config image_lib" where
  "sample_images =
     \<lparr>il_pull = (\<lambda>_. Inr \<lparr>ic_Entrypoint = [], ic_Cmd = [''sh''], ic_User = ''65532'', ic_Architecture = ''arm64'', ic_OS = ''linux''\<rparr>),
      il_tar_gz = (\<lambda>f. Inr (lf_Body f)), il_layer = (\<lambda>_. None), il_append = (\<lambda>i _. Inr i), il_config = Inr,
      il_with_config = (\<lambda>_ c. Inr c), il_new_tag = (\<lambda>_. None), il_write = (\<lambda>_ _. None),
      il_digest = (\<lambda>_. Inr ''sha256:d1''), il_manifest = (\<lambda>_. Inr ''{}'')\<rparr>"

definition sample_build_env :: "image_config build_env" where
  "sample_build_env =
     \<lparr>be_postgres = None, be_minio = None, be_object = (\<lambda>_ _. Inr (Inr [])), be_os = working_disk,
      be_read_file = (\<lambda>_. Inr [127]), be_images = sample_images, be_first = Connected, be_last = Connected,
      be_started = 20, be_ended = 30\<rparr>"

definition sample_build_config :: "string \<Rightarrow> BuildConfig" where
  "sample_build_config lang =
     \<lparr>bc_SubmissionID = ''u1'', bc_SubmissionSha256 = ''07'', bc_Language = lang, bc_MinIOEndpoint = ''m'',
      bc_MinIOAccessKey = ''a'', bc_MinIOSecretKey = ''s'', bc_MinIOBucket = ''submissions'', bc_MinIOUseSSL = False,
      bc_Registry = ''reg:5000'', bc_PostgresDSN = ''p'', bc_WorkDir = ''/work''\<rparr>"

definition sample_build_world :: "image_config build_world" where
  "sample_build_world =
     \<lparr>bw_table = [inserted_row 9 (pending_submission ''u1'' [7] ''go''), inserted_row 9 (pending_submission ''u2'' [8] ''go'')],
      bw_os = [], bw_pushed = []\<rparr>"

lemma sample_image:
  "final_image sample_images (\<lambda>_. Inr [127]) p = Inr \<lparr>ic_Entrypoint = [''/usr/local/bin/engine''], ic_Cmd = [],
     ic_User = ''65534:65534'', ic_Architecture = ''arm64'', ic_OS = ''linux''\<rparr>"
  by (simp add: final_image_def wrapping_def sample_images_def singleFileTarGz_def engine_config_def)

lemma sample_Build:
  "Build sample_images (\<lambda>_. Inr [127]) p sha reg pushed =
     (Inr \<lparr>br_Repository = reg @ ''/sub/'' @ sha, br_Tag = ''latest'', br_Digest = ''sha256:d1'',
           br_Reference = reg @ ''/sub/'' @ sha @ ''@sha256:d1''\<rparr>,
      pushed @ [(reg @ ''/sub/'' @ sha @ '':latest'', \<lparr>ic_Entrypoint = [''/usr/local/bin/engine''], ic_Cmd = [],
         ic_User = ''65534:65534'', ic_Architecture = ''arm64'', ic_OS = ''linux''\<rparr>)])"
  unfolding Build_def sample_image by (simp add: sample_images_def Let_def)


lemma sample_world_ok: "table_ok (bw_table sample_build_world)"
  by (simp add: sample_build_world_def table_ok_def inserted_row_def pending_submission_def row_check_def)

lemma sample_sha: "hex_decode (bc_SubmissionSha256 (sample_build_config l)) = Inr [7]"
proof -
  have "hex_decode ''07'' = Inr [7]" by code_simp
  then show ?thesis by (simp add: sample_build_config_def)
qed

theorem builds_touch_their_row_only_witness:
  "inserted_row 9 (pending_submission ''u2'' [8] ''go'')
     \<in> set (bw_table (snd (runner_main (Inr (sample_build_config ''go'')) sample_build_env sample_build_world)))"
  using builds_touch_their_row_only [OF sample_world_ok, of "sample_build_config ''go''" sample_build_env
      "fst (runner_main (Inr (sample_build_config ''go'')) sample_build_env sample_build_world)"
      "snd (runner_main (Inr (sample_build_config ''go'')) sample_build_env sample_build_world)"]
  by (simp add: sample_sha sample_build_world_def inserted_row_def pending_submission_def)



theorem image_is_what_is_named_witness:
  "\<exists>img cfg. [(''r'' @ ''/sub/'' @ ''07'' @ '':latest'', img)]
       = snd (Build sample_images (\<lambda>_. Inr [127]) ''/work/engine'' ''07'' ''r'' [])
     \<and> il_config sample_images img = Inr cfg \<and> ic_User cfg = ''65534:65534''"
proof -
  have "\<forall>i c i'. il_with_config sample_images i c = Inr i' \<longrightarrow> il_config sample_images i' = Inr c"
    by (simp add: sample_images_def)
  from image_is_what_is_named [OF sample_Build [of "''/work/engine''" "''07''" "''r''" "[]"] this]
  show ?thesis by (simp add: sample_Build) blast
qed

end
