(* ===== verification/OperatorApi.thy ===== *)
theory OperatorApi
  imports KubeTypes
begin

text \<open>
  What the benchmark-operator's reconcilers share: the custom resources of
  \<^verbatim>\<open>apps/benchmark-operator/api/v1\<close>, the calls they make of the API server, the library functions
  on objects, and a calculus for what a reconciler does.

  The API server is a \<open>kube\<close>: one response function per kind of call, each over the history of all
  calls so far, so it may fail anywhere, answer differently each time and remember everything.  A
  reconciler is an \<open>'a act\<close>: it extends the history and returns a value.  \<open>emits m Q\<close> says of
  every run of \<open>m\<close>, against that API server and from any history, that the calls it adds and the
  value it returns satisfy \<open>Q\<close>; the rules \<open>emits_rules\<close> follow the structure of \<open>m\<close>.
\<close>

subsection \<open>Custom resources\<close>

record BenchmarkRunSpec =
  brs_SubmissionRef :: string
  brs_ScenarioRef :: string
  brs_BotSwarmRef :: string
  brs_Seed :: i64

record BenchmarkRunStatus =
  st_Phase :: string
  st_StartedAt :: "int option"
  st_EndedAt :: "int option"
  st_SubmissionEndpoint :: string
  st_OracleEndpoint :: string
  st_GatewayEndpoint :: string
  st_Conditions :: "Condition list"

record BenchmarkRun =
  br_Meta :: ObjectMeta
  br_Spec :: BenchmarkRunSpec
  br_Status :: BenchmarkRunStatus

record SubmissionSpec =
  subs_Sha256 :: string
  subs_Language :: string

record SubmissionStatus =
  subst_Phase :: string
  subst_ImageDigest :: string
  subst_RejectReason :: string
  subst_Conditions :: "Condition list"

record SubmissionCR =
  sub_Meta :: ObjectMeta
  sub_Spec :: SubmissionSpec
  sub_Status :: SubmissionStatus

record ScenarioTargets =
  tg_P50Us :: i32
  tg_P99Us :: i32
  tg_TPS :: i32

record ScenarioSpec =
  scs_YAMLSpec :: string
  scs_Seed :: i64
  scs_DurationSeconds :: i32
  scs_Targets :: ScenarioTargets

record ScenarioStatus =
  scst_ContentHash :: string
  scst_Conditions :: "Condition list"

record Scenario =
  scn_Meta :: ObjectMeta
  scn_Spec :: ScenarioSpec
  scn_Status :: ScenarioStatus

record OrderMixProfile =
  om_LimitFraction :: string
  om_IocFraction :: string
  om_CancelFraction :: string

record BotSwarmSpec =
  bss_MaxWorkers :: i32
  bss_Protocols :: "string list"
  bss_OrderMix :: OrderMixProfile

record BotSwarm =
  bsw_Meta :: ObjectMeta
  bsw_Spec :: BotSwarmSpec
  bsw_Conditions :: "Condition list"

subsection \<open>The API server\<close>

type_synonym object_key = "string \<times> string"

datatype api_call =
    GetRun object_key
  | GetSubmission object_key
  | GetScenario object_key
  | GetBotSwarm object_key
  | ListPods string string
  | CreatePod Pod
  | CreateService Service
  | DeletePod Pod
  | UpdateRun BenchmarkRun
  | UpdateRunStatus BenchmarkRun
  | UpdateSubmissionStatus SubmissionCR
  | UpdateScenarioStatus Scenario

record kube =
  get_run :: "api_call list \<Rightarrow> BenchmarkRun result"
  get_submission :: "api_call list \<Rightarrow> SubmissionCR result"
  get_scenario :: "api_call list \<Rightarrow> Scenario result"
  get_botswarm :: "api_call list \<Rightarrow> BotSwarm result"
  list_pods :: "api_call list \<Rightarrow> Pod list result"
  write_reply :: "api_call list \<Rightarrow> go_error option"
  clock_now :: "api_call list \<Rightarrow> int"

text \<open>
  The functions of \<^verbatim>\<open>controllerutil\<close> and \<^verbatim>\<open>meta\<close> on objects, as parameters.  \<open>kube_lib_ok\<close> is what
  their documentation says of finalizers and of the fields they leave alone.
\<close>

record kube_lib =
  ContainsFinalizer :: "ObjectMeta \<Rightarrow> string \<Rightarrow> bool"
  AddFinalizer :: "ObjectMeta \<Rightarrow> string \<Rightarrow> ObjectMeta"
  RemoveFinalizer :: "ObjectMeta \<Rightarrow> string \<Rightarrow> ObjectMeta"
  SetControllerReference :: "ObjectMeta \<Rightarrow> ObjectMeta \<Rightarrow> ObjectMeta result"
  SetStatusCondition :: "Condition list \<Rightarrow> Condition \<Rightarrow> Condition list"

definition same_identity :: "ObjectMeta \<Rightarrow> ObjectMeta \<Rightarrow> bool" where
  "same_identity a b \<longleftrightarrow>
     om_Name a = om_Name b \<and> om_Namespace a = om_Namespace b \<and> om_Labels a = om_Labels b
   \<and> om_DeletionTimestamp a = om_DeletionTimestamp b"

definition kube_lib_ok :: "kube_lib \<Rightarrow> bool" where
  "kube_lib_ok lib \<longleftrightarrow>
     (\<forall>m f. ContainsFinalizer lib m f \<longleftrightarrow> f \<in> set (om_Finalizers m))
   \<and> (\<forall>m f. set (om_Finalizers (AddFinalizer lib m f)) = insert f (set (om_Finalizers m)))
   \<and> (\<forall>m f. set (om_Finalizers (RemoveFinalizer lib m f)) = set (om_Finalizers m) - {f})
   \<and> (\<forall>m f. same_identity (AddFinalizer lib m f) m \<and> same_identity (RemoveFinalizer lib m f) m)
   \<and> (\<forall>ow m m'. SetControllerReference lib ow m = Inr m' \<longrightarrow>
        same_identity m' m \<and> (om_Name ow, True) \<in> set (om_OwnerReferences m'))"

subsection \<open>Reconciler programs\<close>

type_synonym 'a act = "api_call list \<Rightarrow> 'a \<times> api_call list"

definition done_with :: "'a \<Rightarrow> 'a act" where
  "done_with a = (\<lambda>h. (a, h))"

definition and_then :: "'a act \<Rightarrow> ('a \<Rightarrow> 'b act) \<Rightarrow> 'b act" where
  "and_then m k = (\<lambda>h. let (a, h') = m h in k a h')"

definition api_call :: "(api_call list \<Rightarrow> 'a) \<Rightarrow> api_call \<Rightarrow> 'a act" where
  "api_call reply c = (\<lambda>h. ask reply c h)"

text \<open>\<^verbatim>\<open>if err := m(); err != nil { onerr(err) }; k(value)\<close>, and the same without a value.\<close>

definition or_else :: "'a result act \<Rightarrow> (go_error \<Rightarrow> 'b act) \<Rightarrow> ('a \<Rightarrow> 'b act) \<Rightarrow> 'b act" where
  "or_else m onerr k = and_then m (\<lambda>r. case r of Inl e \<Rightarrow> onerr e | Inr a \<Rightarrow> k a)"

definition if_error :: "go_error option act \<Rightarrow> (go_error \<Rightarrow> 'b act) \<Rightarrow> 'b act \<Rightarrow> 'b act" where
  "if_error m onerr k = and_then m (\<lambda>r. case r of Some e \<Rightarrow> onerr e | None \<Rightarrow> k)"

text \<open>The reading of the wall clock; it is not a call of the API server.\<close>

definition time_now :: "kube \<Rightarrow> int act" where
  "time_now api = (\<lambda>h. (clock_now api h, h))"

text \<open>\<^verbatim>\<open>ctrl.Result\<close> (the delay in seconds) and what \<^verbatim>\<open>Reconcile\<close> returns.\<close>

record ctrl_result =
  Requeue :: bool
  RequeueAfter :: nat

type_synonym outcome = "ctrl_result \<times> go_error option"

definition no_requeue :: ctrl_result where
  "no_requeue = \<lparr>Requeue = False, RequeueAfter = 0\<rparr>"

definition requeue_now :: ctrl_result where
  "requeue_now = \<lparr>Requeue = True, RequeueAfter = 0\<rparr>"

definition requeue_after :: "nat \<Rightarrow> ctrl_result" where
  "requeue_after s = \<lparr>Requeue = False, RequeueAfter = s\<rparr>"

definition IgnoreNotFound :: "go_error \<Rightarrow> go_error option" where
  "IgnoreNotFound e = (if is_not_found e then None else Some e)"

subsection \<open>What a program does\<close>

definition emits :: "'a act \<Rightarrow> (api_call list \<Rightarrow> 'a \<Rightarrow> bool) \<Rightarrow> bool" where
  "emits m Q \<longleftrightarrow> (\<forall>h. \<exists>cs. snd (m h) = h @ cs \<and> Q cs (fst (m h)))"

lemma emits_done: "Q [] a \<Longrightarrow> emits (done_with a) Q"
  by (simp add: emits_def done_with_def)

lemma emits_call: "(\<And>a. Q [c] a) \<Longrightarrow> emits (api_call reply c) Q"
  by (simp add: emits_def api_call_def)

lemma emits_time: "(\<And>t. Q [] t) \<Longrightarrow> emits (time_now api) Q"
  by (simp add: emits_def time_now_def)

lemma emits_then:
  assumes "emits m P" and "\<And>cs a. P cs a \<Longrightarrow> emits (k a) (\<lambda>ds. Q (cs @ ds))"
  shows "emits (and_then m k) Q"
  unfolding emits_def
proof
  fix h
  obtain cs where cs: "snd (m h) = h @ cs" "P cs (fst (m h))"
    using assms(1) by (auto simp: emits_def)
  obtain ds where "snd (k (fst (m h)) (h @ cs)) = (h @ cs) @ ds" "Q (cs @ ds) (fst (k (fst (m h)) (h @ cs)))"
    using assms(2) [OF cs(2)] unfolding emits_def by blast
  then show "\<exists>es. snd (and_then m k h) = h @ es \<and> Q es (fst (and_then m k h))"
    using cs(1) by (auto simp: and_then_def case_prod_unfold)
qed

lemma emits_or_else:
  assumes "emits m P" and "\<And>cs e. P cs (Inl e) \<Longrightarrow> emits (onerr e) (\<lambda>ds. Q (cs @ ds))"
    and "\<And>cs a. P cs (Inr a) \<Longrightarrow> emits (k a) (\<lambda>ds. Q (cs @ ds))"
  shows "emits (or_else m onerr k) Q"
  unfolding or_else_def by (rule emits_then [OF assms(1)]) (use assms(2,3) in \<open>auto split: sum.splits\<close>)

lemma emits_if_error:
  assumes "emits m P" and "\<And>cs e. P cs (Some e) \<Longrightarrow> emits (onerr e) (\<lambda>ds. Q (cs @ ds))"
    and "\<And>cs. P cs None \<Longrightarrow> emits k (\<lambda>ds. Q (cs @ ds))"
  shows "emits (if_error m onerr k) Q"
  unfolding if_error_def by (rule emits_then [OF assms(1)]) (use assms(2,3) in \<open>auto split: option.splits\<close>)

text \<open>The same three when the first step is a single call.\<close>

lemma emits_call_or_else:
  assumes "\<And>e. emits (onerr e) (\<lambda>ds. Q (c # ds))" and "\<And>a. emits (k a) (\<lambda>ds. Q (c # ds))"
  shows "emits (or_else (api_call reply c) onerr k) Q"
  by (rule emits_or_else [where P = "\<lambda>cs _. cs = [c]"]) (use assms in \<open>auto intro: emits_call\<close>)

lemma emits_call_if_error:
  assumes "\<And>e. emits (onerr e) (\<lambda>ds. Q (c # ds))" and "emits k (\<lambda>ds. Q (c # ds))"
  shows "emits (if_error (api_call reply c) onerr k) Q"
  by (rule emits_if_error [where P = "\<lambda>cs _. cs = [c]"]) (use assms in \<open>auto intro: emits_call\<close>)

lemma emits_call_then:
  assumes "\<And>a. emits (k a) (\<lambda>ds. Q (c # ds))"
  shows "emits (and_then (api_call reply c) k) Q"
  by (rule emits_then [where P = "\<lambda>cs _. cs = [c]"]) (use assms in \<open>auto intro: emits_call\<close>)

lemma emits_time_then:
  assumes "\<And>t. emits (k t) Q"
  shows "emits (and_then (time_now api) k) Q"
  by (rule emits_then [where P = "\<lambda>cs _. cs = []"]) (use assms in \<open>auto intro: emits_time\<close>)

lemma emits_if: "(b \<Longrightarrow> emits m Q) \<Longrightarrow> (\<not> b \<Longrightarrow> emits n Q) \<Longrightarrow> emits (if b then m else n) Q"
  by simp

lemma emits_weaken: "emits m P \<Longrightarrow> (\<And>cs a. P cs a \<Longrightarrow> Q cs a) \<Longrightarrow> emits m Q"
  unfolding emits_def by blast

lemma emitsD: "emits m Q \<Longrightarrow> m [] = (a, cs) \<Longrightarrow> Q cs a"
  unfolding emits_def by (metis append_Nil fst_conv snd_conv)

lemmas emits_rules =
  emits_call_or_else emits_call_if_error emits_call_then emits_time_then emits_if emits_done

end
