(* ===== verification/Strconv.thy ===== *)
theory Strconv
  imports Prelude
begin

text \<open>
  Decimal integers as the components exchange them through environment variables:
  \<^verbatim>\<open>fmt.Sprintf("%d", n)\<close> on an \<^verbatim>\<open>int64\<close> or \<^verbatim>\<open>int32\<close>, and \<^verbatim>\<open>strconv.ParseInt(s, 10, 64)\<close>,
  which is also what \<^verbatim>\<open>strconv.Atoi\<close> computes where \<^verbatim>\<open>int\<close> has 64 bits.
\<close>

subsection \<open>Digits\<close>

definition digits :: string where
  "digits = ''0123456789''"

definition digit_char :: "nat \<Rightarrow> char" where
  "digit_char d = digits ! d"

definition digit_value :: "char \<Rightarrow> nat option" where
  "digit_value c = (if c \<in> set digits then Some (length (takeWhile (\<lambda>x. x \<noteq> c) digits)) else None)"

fun format_nat :: "nat \<Rightarrow> string" where
  "format_nat n = (if n < 10 then [digit_char n] else format_nat (n div 10) @ [digit_char (n mod 10)])"

declare format_nat.simps [simp del]

definition format_int :: "int \<Rightarrow> string" where
  "format_int i = (if i < 0 then CHR ''-'' # format_nat (nat (- i)) else format_nat (nat i))"

subsection \<open>Parsing\<close>

definition err_syntax :: go_error where
  "err_syntax = GoError ''invalid syntax''"

definition err_range :: go_error where
  "err_range = GoError ''value out of range''"

text \<open>The loop of \<^verbatim>\<open>ParseUint\<close>: the first bad character or the first overflow ends it.\<close>

fun parse_digits :: "nat \<Rightarrow> string \<Rightarrow> nat result" where
  "parse_digits n [] = Inr n"
| "parse_digits n (c # cs) =
     (case digit_value c of
        None \<Rightarrow> Inl err_syntax
      | Some d \<Rightarrow> if 2 ^ 64 \<le> 10 * n + d then Inl err_range else parse_digits (10 * n + d) cs)"

definition parse_uint :: "string \<Rightarrow> nat result" where
  "parse_uint s = (if s = [] then Inl err_syntax else parse_digits 0 s)"

definition ParseInt :: "string \<Rightarrow> i64 result" where
  "ParseInt s =
     (let (neg, ds) = (case s of
           [] \<Rightarrow> (False, [])
         | c # cs \<Rightarrow> if c = CHR ''-'' then (True, cs) else if c = CHR ''+'' then (False, cs) else (False, s))
      in if s = [] then Inl err_syntax
         else (case parse_uint ds of
           Inl e \<Rightarrow> Inl e
         | Inr un \<Rightarrow>
             if \<not> neg \<and> 2 ^ 63 \<le> un then Inl err_range
             else if neg \<and> 2 ^ 63 < un then Inl err_range
             else Inr (word_of_int (if neg then - int un else int un))))"

subsection \<open>Round trip\<close>

lemma digit_value_char: "d < 10 \<Longrightarrow> digit_value (digit_char d) = Some d"
proof -
  assume "d < 10"
  then have "d = 0 \<or> d = 1 \<or> d = 2 \<or> d = 3 \<or> d = 4 \<or> d = 5 \<or> d = 6 \<or> d = 7 \<or> d = 8 \<or> d = 9"
    by presburger
  then show ?thesis
    by (elim disjE) (simp_all add: digit_value_def digit_char_def digits_def)
qed

lemma digit_char_not_sign: "d < 10 \<Longrightarrow> digit_char d \<noteq> CHR ''-'' \<and> digit_char d \<noteq> CHR ''+''"
proof -
  assume "d < 10"
  then have "digit_char d \<in> set digits" 
    unfolding digit_char_def by (intro nth_mem) (simp add: digits_def)
  then show ?thesis by (auto simp: digits_def)
qed

lemma format_nat_nonempty: "format_nat n \<noteq> []"
  by (subst format_nat.simps) simp

lemma format_nat_hd: "hd (format_nat n) \<noteq> CHR ''-'' \<and> hd (format_nat n) \<noteq> CHR ''+''"
proof (induction n rule: format_nat.induct)
  case (1 n)
  then show ?case
    using format_nat_nonempty [of "n div 10"] digit_char_not_sign [of n]
    by (subst (1 2) format_nat.simps) simp
qed

lemma parse_digits_append:
  "parse_digits n xs = Inr m \<Longrightarrow> parse_digits n (xs @ ys) = parse_digits m ys"
  by (induction xs arbitrary: n) (auto split: option.splits if_splits)

lemma parse_digits_format: "n < 2 ^ 64 \<Longrightarrow> parse_digits 0 (format_nat n) = Inr n"
proof (induction n rule: format_nat.induct)
  case (1 n)
  show ?case
  proof (cases "n < 10")
    case True
    then show ?thesis by (subst format_nat.simps) (simp add: digit_value_char)
  next
    case False
    then have "parse_digits 0 (format_nat (n div 10)) = Inr (n div 10)" using 1 by simp
    from parse_digits_append [OF this, of "[digit_char (n mod 10)]"]
    have "parse_digits 0 (format_nat n) = parse_digits (n div 10) [digit_char (n mod 10)]"
      using False by (subst format_nat.simps) simp
    also have "\<dots> = Inr n" using "1.prems" by (simp add: digit_value_char)
    finally show ?thesis .
  qed
qed

lemma parse_uint_format: "n < 2 ^ 64 \<Longrightarrow> parse_uint (format_nat n) = Inr n"
  by (simp add: parse_uint_def format_nat_nonempty parse_digits_format)

lemma ParseInt_format:
  assumes "- (2 ^ 63) \<le> i" "i < 2 ^ 63"
  shows "ParseInt (format_int i) = Inr (word_of_int i)"
proof (cases "i < 0")
  case True
  have n: "nat (- i) \<le> 2 ^ 63" "nat (- i) < 2 ^ 64" using assms by auto
  have "- int (nat (- i)) = i" using True by simp
  with True n show ?thesis
    by (simp add: format_int_def ParseInt_def parse_uint_format del: int_nat_eq)
next
  case False
  obtain c cs where c: "format_nat (nat i) = c # cs" "c \<noteq> CHR ''-''" "c \<noteq> CHR ''+''"
    using format_nat_nonempty [of "nat i"] format_nat_hd [of "nat i"] by (cases "format_nat (nat i)") auto
  have n: "nat i < 2 ^ 63" "nat i < 2 ^ 64" using assms by auto
  have "parse_uint (c # cs) = Inr (nat i)" using parse_uint_format [OF n(2)] c(1) by simp
  with False n c show ?thesis by (simp add: format_int_def ParseInt_def)
qed

lemma ParseInt_format_i64: "ParseInt (format_int (sint (n :: i64))) = Inr n"
proof -
  have "- (2 ^ 63) \<le> sint n" "sint n < 2 ^ 63"
    using sint_greater_eq [of n] sint_less [of n] by simp_all
  from ParseInt_format [OF this] show ?thesis by simp
qed

lemma ParseInt_format_i32: "ParseInt (format_int (sint (n :: i32))) = Inr (scast n)"
proof -
  have "- (2 ^ 31) \<le> sint n" "sint n < 2 ^ 31"
    using sint_greater_eq [of n] sint_less [of n] by simp_all
  then have "ParseInt (format_int (sint n)) = Inr (word_of_int (sint n))"
    by (intro ParseInt_format) simp_all
  moreover have "word_of_int (sint n) = (scast n :: i64)" by simp
  ultimately show ?thesis by simp
qed

end
