(* ===== verification/RunController.thy ===== *)
theory RunController
  imports OperatorApi Strconv
begin

text \<open>
  \<^verbatim>\<open>apps/benchmark-operator/internal/controller/benchmarkrun_controller.go\<close>: the state machine of a
  BenchmarkRun.  Every handler is a program over the API server; \<open>Reconcile\<close> is the dispatch.
  The phases are the strings the code compares and writes.
\<close>

subsection \<open>Constants and names\<close>

definition ironbookFinalizer :: string where "ironbookFinalizer = ''ironbook.io/run-cleanup''"
definition labelRun :: string where "labelRun = ''ironbook.io/run''"
definition labelRole :: string where "labelRole = ''ironbook.io/role''"
definition roleOracle :: string where "roleOracle = ''reference-oracle''"
definition roleSubmission :: string where "roleSubmission = ''submission''"
definition roleGateway :: string where "roleGateway = ''fairness-gateway''"
definition roleCoordinator :: string where "roleCoordinator = ''bot-coordinator''"
definition imgOracle :: string where "imgOracle = ''ironbook/reference-oracle:dev''"
definition imgGateway :: string where "imgGateway = ''ironbook/fairness-gateway:dev''"
definition imgCoordinator :: string where "imgCoordinator = ''ironbook/bot-coordinator:dev''"

lemmas role_defs = roleOracle_def roleSubmission_def roleGateway_def roleCoordinator_def
lemmas label_defs = labelRun_def labelRole_def

definition run_name :: "BenchmarkRun \<Rightarrow> string" where
  "run_name br = om_Name (br_Meta br)"

definition run_ns :: "BenchmarkRun \<Rightarrow> string" where
  "run_ns br = om_Namespace (br_Meta br)"

subsection \<open>Templates\<close>

definition podMeta :: "BenchmarkRun \<Rightarrow> string \<Rightarrow> ObjectMeta" where
  "podMeta br role =
     object_meta (role @ ''-'' @ run_name br) (run_ns br) [labelRun \<mapsto> run_name br, labelRole \<mapsto> role]"

definition nonRootPodSecurityContext :: PodSecurityContext where
  "nonRootPodSecurityContext =
     \<lparr>psc_RunAsNonRoot = Some True, psc_RunAsUser = Some 65532, psc_RunAsGroup = Some 65532,
      psc_SeccompProfile = Some ''RuntimeDefault''\<rparr>"

definition hardenedContainerSecurityContext :: SecurityContext where
  "hardenedContainerSecurityContext =
     \<lparr>sc_AllowPrivilegeEscalation = Some False, sc_ReadOnlyRootFilesystem = Some True,
      sc_CapabilitiesDrop = Some [''ALL'']\<rparr>"

definition smallResources :: ResourceRequirements where
  "smallResources =
     \<lparr>res_Requests = [''cpu'' \<mapsto> ''100m'', ''memory'' \<mapsto> ''128Mi''],
      res_Limits = [''cpu'' \<mapsto> ''500m'', ''memory'' \<mapsto> ''512Mi'']\<rparr>"

definition oracle_pod :: "BenchmarkRun \<Rightarrow> Pod" where
  "oracle_pod br =
     \<lparr>pod_Meta = podMeta br roleOracle,
      pod_Spec = zero_pod_spec\<lparr>
        ps_RestartPolicy := ''Never'',
        ps_SecurityContext := Some nonRootPodSecurityContext,
        ps_Containers :=
          [zero_container\<lparr>ct_Name := ''oracle'', ct_Image := imgOracle,
             ct_ImagePullPolicy := ''IfNotPresent'', ct_Ports := [(''grpc'', 7080)],
             ct_SecurityContext := Some hardenedContainerSecurityContext,
             ct_Resources := smallResources\<rparr>]\<rparr>,
      pod_Status = zero_pod_status\<rparr>"

definition submission_pod :: "BenchmarkRun \<Rightarrow> SubmissionCR \<Rightarrow> Pod" where
  "submission_pod br sub =
     \<lparr>pod_Meta = podMeta br roleSubmission,
      pod_Spec = zero_pod_spec\<lparr>
        ps_RestartPolicy := ''Never'',
        ps_SecurityContext := Some nonRootPodSecurityContext,
        ps_Containers :=
          [zero_container\<lparr>ct_Name := ''engine'', ct_Image := subst_ImageDigest (sub_Status sub),
             ct_ImagePullPolicy := ''IfNotPresent'', ct_Ports := [(''engine'', 7777)],
             ct_SecurityContext := Some hardenedContainerSecurityContext,
             ct_Resources := smallResources\<rparr>]\<rparr>,
      pod_Status = zero_pod_status\<rparr>"

definition gateway_pod :: "BenchmarkRun \<Rightarrow> Pod" where
  "gateway_pod br =
     \<lparr>pod_Meta = podMeta br roleGateway,
      pod_Spec = zero_pod_spec\<lparr>
        ps_RestartPolicy := ''Never'',
        ps_SecurityContext := Some nonRootPodSecurityContext,
        ps_Volumes := [\<lparr>vol_Name = ''scratch'', vol_Source = EmptyDir\<rparr>],
        ps_Containers :=
          [zero_container\<lparr>ct_Name := ''gateway'', ct_Image := imgGateway,
             ct_ImagePullPolicy := ''IfNotPresent'', ct_Ports := [(''http'', 8080)],
             ct_SecurityContext := Some hardenedContainerSecurityContext,
             ct_VolumeMounts := [(''scratch'', ''/var/log/ironbook'')],
             ct_Env :=
               [env_var ''IRONBOOK_HTTP_ADDR'' '':8080'',
                env_var ''IRONBOOK_TIME_SERVICE'' ''time-service.ironbook.svc.cluster.local:7070'',
                env_var ''IRONBOOK_SUBMISSION_ENDPOINT'' (st_SubmissionEndpoint (br_Status br)),
                env_var ''IRONBOOK_ORACLE_ENDPOINT'' (st_OracleEndpoint (br_Status br)),
                env_var ''IRONBOOK_EVENT_LOG_PATH'' ''/var/log/ironbook/events.jsonl''],
             ct_Resources := smallResources\<rparr>]\<rparr>,
      pod_Status = zero_pod_status\<rparr>"

definition coordinator_pod :: "BenchmarkRun \<Rightarrow> Scenario \<Rightarrow> Pod" where
  "coordinator_pod br scn =
     \<lparr>pod_Meta = podMeta br roleCoordinator,
      pod_Spec = zero_pod_spec\<lparr>
        ps_RestartPolicy := ''Never'',
        ps_SecurityContext := Some nonRootPodSecurityContext,
        ps_Containers :=
          [zero_container\<lparr>ct_Name := ''coordinator'', ct_Image := imgCoordinator,
             ct_ImagePullPolicy := ''IfNotPresent'',
             ct_SecurityContext := Some hardenedContainerSecurityContext,
             ct_Env :=
               [env_var ''IRONBOOK_SCENARIO_YAML'' (scs_YAMLSpec (scn_Spec scn)),
                env_var ''IRONBOOK_SCENARIO_SEED'' (format_int (sint (brs_Seed (br_Spec br)))),
                env_var ''IRONBOOK_DURATION_SECONDS'' (format_int (sint (scs_DurationSeconds (scn_Spec scn)))),
                env_var ''IRONBOOK_GATEWAY_URL'' (''http://'' @ st_GatewayEndpoint (br_Status br))],
             ct_Resources := smallResources\<rparr>]\<rparr>,
      pod_Status = zero_pod_status\<rparr>"

definition run_service :: "BenchmarkRun \<Rightarrow> string \<Rightarrow> i32 \<Rightarrow> Service" where
  "run_service br role port =
     \<lparr>svc_Meta = object_meta (role @ ''-'' @ run_name br) (run_ns br)
        [labelRun \<mapsto> run_name br, labelRole \<mapsto> role],
      svc_Selector = [labelRun \<mapsto> run_name br, labelRole \<mapsto> role],
      svc_Ports = [\<lparr>sp_Port = port, sp_TargetPort = port\<rparr>]\<rparr>"

subsection \<open>Creating objects\<close>

definition ensurePod :: "kube_lib \<Rightarrow> kube \<Rightarrow> BenchmarkRun \<Rightarrow> Pod \<Rightarrow> go_error option act" where
  "ensurePod lib api br pod =
     (case SetControllerReference lib (br_Meta br) (pod_Meta pod) of
        Inl err \<Rightarrow> done_with (Some err)
      | Inr m \<Rightarrow>
          if_error (api_call (write_reply api) (CreatePod (pod\<lparr>pod_Meta := m\<rparr>)))
            (\<lambda>err. done_with (if is_already_exists err then None else Some err))
            (done_with None))"

definition ensureService ::
    "kube_lib \<Rightarrow> kube \<Rightarrow> BenchmarkRun \<Rightarrow> string \<Rightarrow> i32 \<Rightarrow> go_error option act" where
  "ensureService lib api br role port =
     (let svc = run_service br role port in
      case SetControllerReference lib (br_Meta br) (svc_Meta svc) of
        Inl err \<Rightarrow> done_with (Some err)
      | Inr m \<Rightarrow>
          if_error (api_call (write_reply api) (CreateService (svc\<lparr>svc_Meta := m\<rparr>)))
            (\<lambda>err. done_with (if is_already_exists err then None else Some err))
            (done_with None))"

text \<open>A \<^verbatim>\<open>for\<close> loop whose body returns the first error.\<close>

fun first_error :: "go_error option act list \<Rightarrow> go_error option act" where
  "first_error [] = done_with None"
| "first_error (m # ms) = if_error m (\<lambda>e. done_with (Some e)) (first_error ms)"

subsection \<open>Observing pods\<close>

definition listOwnedPods :: "kube \<Rightarrow> BenchmarkRun \<Rightarrow> Pod list result act" where
  "listOwnedPods api br = api_call (list_pods api) (ListPods (run_ns br) (run_name br))"

definition podReady :: "Pod \<Rightarrow> bool" where
  "podReady p = list_ex (\<lambda>(t, s). t = ''Ready'' \<and> s = ''True'') (pst_Conditions (pod_Status p))"

definition pod_role :: "Pod \<Rightarrow> string" where
  "pod_role p = label (om_Labels (pod_Meta p)) labelRole"

definition pod_gate :: "Pod \<Rightarrow> bool" where
  "pod_gate p =
     (if pod_role p = roleCoordinator then pst_Phase (pod_Status p) \<noteq> ''Pending'' else podReady p)"

definition allOwnedPodsReady :: "kube \<Rightarrow> BenchmarkRun \<Rightarrow> bool result act" where
  "allOwnedPodsReady api br =
     or_else (listOwnedPods api br) (\<lambda>err. done_with (Inl err))
       (\<lambda>pods. if length pods < 4 then done_with (Inr False)
                else done_with (Inr (list_all pod_gate pods)))"

subsection \<open>Transitions\<close>

definition set_phase :: "kube_lib \<Rightarrow> string \<Rightarrow> Condition \<Rightarrow> BenchmarkRun \<Rightarrow> BenchmarkRun" where
  "set_phase lib ph c br =
     br\<lparr>br_Status := (br_Status br)\<lparr>st_Phase := ph,
         st_Conditions := SetStatusCondition lib (st_Conditions (br_Status br)) c\<rparr>\<rparr>"

definition condition :: "string \<Rightarrow> bool \<Rightarrow> string \<Rightarrow> string \<Rightarrow> Condition" where
  "condition t s r m = \<lparr>cond_Type = t, cond_Status = s, cond_Reason = r, cond_Message = m\<rparr>"

text \<open>\<^verbatim>\<open>return result, r.Status().Update(ctx, br)\<close>.\<close>

definition status_update :: "kube \<Rightarrow> ctrl_result \<Rightarrow> BenchmarkRun \<Rightarrow> outcome act" where
  "status_update api res br =
     and_then (api_call (write_reply api) (UpdateRunStatus br)) (\<lambda>err. done_with (res, err))"

definition toPending :: "kube_lib \<Rightarrow> kube \<Rightarrow> BenchmarkRun \<Rightarrow> outcome act" where
  "toPending lib api br =
     status_update api requeue_now
       (set_phase lib ''PENDING'' (condition ''Initialized'' True ''Created'' ''BenchmarkRun accepted'') br)"

definition toInvalid :: "kube_lib \<Rightarrow> kube \<Rightarrow> BenchmarkRun \<Rightarrow> string \<Rightarrow> outcome act" where
  "toInvalid lib api br reason =
     status_update api no_requeue
       (set_phase lib ''INVALID'' (condition ''RefsValidated'' False ''MissingRef'' reason) br)"

definition missing_ref :: "string \<Rightarrow> string \<Rightarrow> go_error \<Rightarrow> string" where
  "missing_ref kind name err = kind @ '' '' @ quoted name @ '' not found: '' @ error_text err"

definition toAllocating :: "kube_lib \<Rightarrow> kube \<Rightarrow> BenchmarkRun \<Rightarrow> outcome act" where
  "toAllocating lib api br =
     (let subRef = brs_SubmissionRef (br_Spec br); scnRef = brs_ScenarioRef (br_Spec br);
          swarmRef = brs_BotSwarmRef (br_Spec br)
      in
      or_else (api_call (get_submission api) (GetSubmission (run_ns br, subRef)))
        (\<lambda>err. toInvalid lib api br (missing_ref ''submission'' subRef err))
        (\<lambda>sub. if subst_Phase (sub_Status sub) \<noteq> ''READY'' then done_with (requeue_after 5, None) else
      or_else (api_call (get_scenario api) (GetScenario (run_ns br, scnRef)))
        (\<lambda>err. toInvalid lib api br (missing_ref ''scenario'' scnRef err))
        (\<lambda>scn. if scst_ContentHash (scn_Status scn) = [] then done_with (requeue_after 2, None) else
      or_else (api_call (get_botswarm api) (GetBotSwarm (run_ns br, swarmRef)))
        (\<lambda>err. toInvalid lib api br (missing_ref ''botswarm'' swarmRef err))
        (\<lambda>swarm. status_update api requeue_now
           (set_phase lib ''ALLOCATING'' (condition ''RefsValidated'' True ''AllRefsReady'' []) br)))))"

definition endpoint :: "BenchmarkRun \<Rightarrow> string \<Rightarrow> string \<Rightarrow> string" where
  "endpoint br role port = role @ ''-'' @ run_name br @ ''.'' @ run_ns br @ ''.svc:'' @ port"

definition stamp_endpoints :: "BenchmarkRun \<Rightarrow> BenchmarkRun" where
  "stamp_endpoints br =
     br\<lparr>br_Status := (br_Status br)\<lparr>
         st_OracleEndpoint := endpoint br roleOracle ''7080'',
         st_SubmissionEndpoint := endpoint br roleSubmission ''7777'',
         st_GatewayEndpoint := endpoint br roleGateway ''8080''\<rparr>\<rparr>"

definition run_pods :: "BenchmarkRun \<Rightarrow> SubmissionCR \<Rightarrow> Scenario \<Rightarrow> Pod list" where
  "run_pods br sub scn = [oracle_pod br, submission_pod br sub, gateway_pod br, coordinator_pod br scn]"

definition run_services :: "(string \<times> i32) list" where
  "run_services = [(roleOracle, 7080), (roleSubmission, 7777), (roleGateway, 8080)]"

definition toPriming :: "kube_lib \<Rightarrow> kube \<Rightarrow> BenchmarkRun \<Rightarrow> outcome act" where
  "toPriming lib api br =
     or_else (api_call (get_submission api) (GetSubmission (run_ns br, brs_SubmissionRef (br_Spec br))))
       (\<lambda>err. done_with (no_requeue, Some err))
       (\<lambda>sub.
     or_else (api_call (get_scenario api) (GetScenario (run_ns br, brs_ScenarioRef (br_Spec br))))
       (\<lambda>err. done_with (no_requeue, Some err))
       (\<lambda>scn.
     (let br1 = stamp_endpoints br in
     if_error (first_error (map (ensurePod lib api br1) (run_pods br1 sub scn)))
       (\<lambda>err. done_with (no_requeue, Some err))
     (if_error (first_error (map (\<lambda>(role, port). ensureService lib api br1 role port) run_services))
       (\<lambda>err. done_with (no_requeue, Some err))
     (status_update api requeue_now
        (set_phase lib ''PRIMING'' (condition ''PodsAllocated'' True ''PodsCreated'' []) br1))))))"

definition observePriming :: "kube_lib \<Rightarrow> kube \<Rightarrow> BenchmarkRun \<Rightarrow> outcome act" where
  "observePriming lib api br =
     or_else (allOwnedPodsReady api br)
       (\<lambda>err. done_with (no_requeue, Some err))
       (\<lambda>allReady. if \<not> allReady then done_with (requeue_after 2, None) else
          and_then (time_now api) (\<lambda>now.
            status_update api requeue_now
              (set_phase lib ''RUNNING'' (condition ''PodsReady'' True ''AllReady'' [])
                (br\<lparr>br_Status := (br_Status br)\<lparr>st_StartedAt := Some now\<rparr>\<rparr>))))"

definition coordinator_succeeded :: "Pod \<Rightarrow> bool" where
  "coordinator_succeeded p \<longleftrightarrow> pod_role p = roleCoordinator \<and> pst_Phase (pod_Status p) = ''Succeeded''"

definition observeRunning :: "kube_lib \<Rightarrow> kube \<Rightarrow> BenchmarkRun \<Rightarrow> outcome act" where
  "observeRunning lib api br =
     or_else (listOwnedPods api br)
       (\<lambda>err. done_with (no_requeue, Some err))
       (\<lambda>pods. if list_ex coordinator_succeeded pods then
           status_update api requeue_now
             (set_phase lib ''DRAINING'' (condition ''ScheduleDispatched'' True ''CoordinatorDone'' []) br)
         else done_with (requeue_after 5, None))"

definition toComplete :: "kube_lib \<Rightarrow> kube \<Rightarrow> BenchmarkRun \<Rightarrow> outcome act" where
  "toComplete lib api br =
     and_then (time_now api) (\<lambda>now.
       status_update api no_requeue
         (set_phase lib ''COMPLETE'' (condition ''Completed'' True ''DrainSuccessful'' [])
           (br\<lparr>br_Status := (br_Status br)\<lparr>st_EndedAt := Some now\<rparr>\<rparr>)))"

text \<open>The deletion loop: pods already being deleted are skipped, a pod already gone is no error.\<close>

fun delete_pods :: "kube \<Rightarrow> Pod list \<Rightarrow> go_error option act" where
  "delete_pods api [] = done_with None"
| "delete_pods api (p # ps) =
     (if om_DeletionTimestamp (pod_Meta p) = None then
        if_error (api_call (write_reply api) (DeletePod p))
          (\<lambda>err. if is_not_found err then delete_pods api ps else done_with (Some err))
          (delete_pods api ps)
      else delete_pods api ps)"

definition handleDelete :: "kube_lib \<Rightarrow> kube \<Rightarrow> BenchmarkRun \<Rightarrow> outcome act" where
  "handleDelete lib api br =
     or_else (listOwnedPods api br)
       (\<lambda>err. done_with (no_requeue, Some err))
       (\<lambda>pods. if 0 < length pods then
           if_error (delete_pods api pods)
             (\<lambda>err. done_with (no_requeue, Some err))
             (done_with (requeue_after 2, None))
         else
           and_then (api_call (write_reply api)
               (UpdateRun (br\<lparr>br_Meta := RemoveFinalizer lib (br_Meta br) ironbookFinalizer\<rparr>)))
             (\<lambda>err. done_with (no_requeue, err)))"

definition terminal_phases :: "string list" where
  "terminal_phases = [''COMPLETE'', ''ABORTED'', ''INVALID'', ''INSUFFICIENT_CAPACITY'', ''GATEWAY_REJECT'']"

text \<open>The \<^verbatim>\<open>switch\<close> on the phase.\<close>

definition on_phase :: "kube_lib \<Rightarrow> kube \<Rightarrow> BenchmarkRun \<Rightarrow> outcome act" where
  "on_phase lib api br =
     (let ph = st_Phase (br_Status br) in
      if ph = [] then toPending lib api br
      else if ph = ''PENDING'' then toAllocating lib api br
      else if ph = ''ALLOCATING'' then toPriming lib api br
      else if ph = ''PRIMING'' then observePriming lib api br
      else if ph = ''RUNNING'' then observeRunning lib api br
      else if ph = ''DRAINING'' then toComplete lib api br
      else if ph \<in> set terminal_phases then done_with (no_requeue, None)
      else done_with (no_requeue, Some (GoError (''unknown phase '' @ quoted ph))))"

definition reconcile_run :: "kube_lib \<Rightarrow> kube \<Rightarrow> BenchmarkRun \<Rightarrow> outcome act" where
  "reconcile_run lib api br =
     (if om_DeletionTimestamp (br_Meta br) \<noteq> None then handleDelete lib api br
      else if \<not> ContainsFinalizer lib (br_Meta br) ironbookFinalizer then
        and_then (api_call (write_reply api)
            (UpdateRun (br\<lparr>br_Meta := AddFinalizer lib (br_Meta br) ironbookFinalizer\<rparr>)))
          (\<lambda>err. done_with (no_requeue, err))
      else on_phase lib api br)"

definition Reconcile :: "kube_lib \<Rightarrow> kube \<Rightarrow> object_key \<Rightarrow> outcome act" where
  "Reconcile lib api req =
     or_else (api_call (get_run api) (GetRun req))
       (\<lambda>err. done_with (no_requeue, IgnoreNotFound err))
       (\<lambda>br. reconcile_run lib api br)"

subsection \<open>The phase machine\<close>

text \<open>The edges of the state machine the file's header describes, and the rank of a phase.\<close>

inductive phase_edge :: "string \<Rightarrow> string \<Rightarrow> bool" where
  "phase_edge [] ''PENDING''"
| "phase_edge ''PENDING'' ''ALLOCATING''"
| "phase_edge ''PENDING'' ''INVALID''"
| "phase_edge ''ALLOCATING'' ''PRIMING''"
| "phase_edge ''PRIMING'' ''RUNNING''"
| "phase_edge ''RUNNING'' ''DRAINING''"
| "phase_edge ''DRAINING'' ''COMPLETE''"

inductive_cases phase_edgeE: "phase_edge p q"

definition phase_rank :: "string \<Rightarrow> nat" where
  "phase_rank p =
     (if p = [] then 0 else if p = ''PENDING'' then 1 else if p = ''ALLOCATING'' then 2
      else if p = ''PRIMING'' then 3 else if p = ''RUNNING'' then 4 else if p = ''DRAINING'' then 5
      else 6)"

lemma phase_edge_rank: "phase_edge p q \<Longrightarrow> phase_rank p < phase_rank q"
  by (erule phase_edgeE) (simp_all add: phase_rank_def)

lemma phase_edge_not_terminal: "phase_edge p q \<Longrightarrow> p \<notin> set terminal_phases"
  by (erule phase_edgeE) (simp_all add: terminal_phases_def)

definition run_phase :: "BenchmarkRun \<Rightarrow> string" where
  "run_phase br = st_Phase (br_Status br)"

definition endpoints_of :: "BenchmarkRun \<Rightarrow> string \<times> string \<times> string" where
  "endpoints_of br =
     (st_OracleEndpoint (br_Status br), st_SubmissionEndpoint (br_Status br), st_GatewayEndpoint (br_Status br))"

definition run_endpoints :: "BenchmarkRun \<Rightarrow> string \<times> string \<times> string" where
  "run_endpoints br =
     (endpoint br roleOracle ''7080'', endpoint br roleSubmission ''7777'', endpoint br roleGateway ''8080'')"

text \<open>
  What a status write changes: the phase along an edge, the start time on entering \<^verbatim>\<open>RUNNING\<close>, the
  end time on entering \<^verbatim>\<open>COMPLETE\<close>, the endpoints on entering \<^verbatim>\<open>PRIMING\<close>; the conditions aside,
  nothing else.
\<close>

definition run_edge :: "BenchmarkRun \<Rightarrow> BenchmarkRun \<Rightarrow> bool" where
  "run_edge br br' \<longleftrightarrow>
     br_Meta br' = br_Meta br \<and> br_Spec br' = br_Spec br \<and> phase_edge (run_phase br) (run_phase br')
   \<and> (if run_phase br' = ''RUNNING'' then st_StartedAt (br_Status br') \<noteq> None
      else st_StartedAt (br_Status br') = st_StartedAt (br_Status br))
   \<and> (if run_phase br' = ''COMPLETE'' then st_EndedAt (br_Status br') \<noteq> None
      else st_EndedAt (br_Status br') = st_EndedAt (br_Status br))
   \<and> endpoints_of br' = (if run_phase br' = ''PRIMING'' then run_endpoints br else endpoints_of br)"

definition run_live :: "kube_lib \<Rightarrow> BenchmarkRun \<Rightarrow> bool" where
  "run_live lib br \<longleftrightarrow>
     om_DeletionTimestamp (br_Meta br) = None \<and> ContainsFinalizer lib (br_Meta br) ironbookFinalizer"

text \<open>
  What the calls of one reconcile of \<open>br\<close> may be: a write of the run or of its status is the last
  call; a status write moves along an edge and changes nothing else; objects are created only for
  a live run that is \<^verbatim>\<open>ALLOCATING\<close>, with the run as their controller; pods are deleted only for a
  run that is being deleted, and only if they are not already.
\<close>

fun run_trace :: "kube_lib \<Rightarrow> BenchmarkRun \<Rightarrow> api_call list \<Rightarrow> bool" where
  "run_trace lib br [] = True"
| "run_trace lib br (UpdateRunStatus br' # cs) = (cs = [] \<and> run_live lib br \<and> run_edge br br')"
| "run_trace lib br (UpdateRun br' # cs) =
     (cs = [] \<and> br_Spec br' = br_Spec br \<and> br_Status br' = br_Status br
      \<and> br_Meta br' =
          (if om_DeletionTimestamp (br_Meta br) = None
           then AddFinalizer lib (br_Meta br) ironbookFinalizer
           else RemoveFinalizer lib (br_Meta br) ironbookFinalizer))"
| "run_trace lib br (CreatePod p # cs) =
     (run_live lib br \<and> run_phase br = ''ALLOCATING''
      \<and> (\<exists>role \<in> {roleOracle, roleSubmission, roleGateway, roleCoordinator}.
           SetControllerReference lib (br_Meta br) (podMeta br role) = Inr (pod_Meta p))
      \<and> run_trace lib br cs)"
| "run_trace lib br (CreateService v # cs) =
     (run_live lib br \<and> run_phase br = ''ALLOCATING''
      \<and> (\<exists>role \<in> {roleOracle, roleSubmission, roleGateway}.
           SetControllerReference lib (br_Meta br) (podMeta br role) = Inr (svc_Meta v))
      \<and> run_trace lib br cs)"
| "run_trace lib br (DeletePod p # cs) =
     (om_DeletionTimestamp (br_Meta br) \<noteq> None \<and> om_DeletionTimestamp (pod_Meta p) = None
      \<and> run_trace lib br cs)"
| "run_trace lib br (UpdateSubmissionStatus v # cs) = False"
| "run_trace lib br (UpdateScenarioStatus v # cs) = False"
| "run_trace lib br (c # cs) = run_trace lib br cs"

lemma set_phase_simps [simp]:
  "br_Meta (set_phase lib ph c br) = br_Meta br" "br_Spec (set_phase lib ph c br) = br_Spec br"
  "run_phase (set_phase lib ph c br) = ph"
  "st_StartedAt (br_Status (set_phase lib ph c br)) = st_StartedAt (br_Status br)"
  "st_EndedAt (br_Status (set_phase lib ph c br)) = st_EndedAt (br_Status br)"
  "endpoints_of (set_phase lib ph c br) = endpoints_of br"
  by (simp_all add: set_phase_def run_phase_def endpoints_of_def)

lemma stamp_endpoints_simps [simp]:
  "br_Meta (stamp_endpoints br) = br_Meta br" "br_Spec (stamp_endpoints br) = br_Spec br"
  "run_phase (stamp_endpoints br) = run_phase br"
  "run_name (stamp_endpoints br) = run_name br" "run_ns (stamp_endpoints br) = run_ns br"
  "st_StartedAt (br_Status (stamp_endpoints br)) = st_StartedAt (br_Status br)"
  "st_EndedAt (br_Status (stamp_endpoints br)) = st_EndedAt (br_Status br)"
  "endpoints_of (stamp_endpoints br) = run_endpoints br"
  by (simp_all add: stamp_endpoints_def run_phase_def run_name_def run_ns_def endpoints_of_def
      run_endpoints_def)

lemma endpoints_of_times [simp]:
  "endpoints_of (br\<lparr>br_Status := (br_Status br)\<lparr>st_StartedAt := t\<rparr>\<rparr>) = endpoints_of br"
  "endpoints_of (br\<lparr>br_Status := (br_Status br)\<lparr>st_EndedAt := t\<rparr>\<rparr>) = endpoints_of br"
  by (simp_all add: endpoints_of_def)

lemma podMeta_cong: "run_name br' = run_name br \<Longrightarrow> run_ns br' = run_ns br \<Longrightarrow> podMeta br' r = podMeta br r"
  by (simp add: podMeta_def)

lemma status_update_emits: "(\<And>e. Q [UpdateRunStatus br] (res, e)) \<Longrightarrow> emits (status_update api res br) Q"
  unfolding status_update_def by (intro emits_rules) simp

lemma first_error_emits:
  assumes "\<And>m. m \<in> set ms \<Longrightarrow> emits m (\<lambda>cs _. list_all P cs)"
  shows "emits (first_error ms) (\<lambda>cs _. list_all P cs)"
  using assms
proof (induction ms)
  case Nil
  then show ?case by (simp add: emits_done)
next
  case (Cons m ms)
  show ?case
    unfolding first_error.simps
  proof (rule emits_if_error)
    show "emits m (\<lambda>cs _. list_all P cs)" using Cons.prems by simp
    show "emits (done_with (Some e)) (\<lambda>ds _. list_all P (cs @ ds))" if "list_all P cs" for cs e
      using that by (simp add: emits_done)
    show "emits (first_error ms) (\<lambda>ds _. list_all P (cs @ ds))" if "list_all P cs" for cs
      using Cons that by (auto intro: emits_weaken)
  qed
qed

text \<open>The calls that create the objects of a run.\<close>

definition creates_for :: "kube_lib \<Rightarrow> BenchmarkRun \<Rightarrow> api_call \<Rightarrow> bool" where
  "creates_for lib br c \<longleftrightarrow>
     (case c of
        CreatePod p \<Rightarrow> (\<exists>role \<in> {roleOracle, roleSubmission, roleGateway, roleCoordinator}.
           SetControllerReference lib (br_Meta br) (podMeta br role) = Inr (pod_Meta p))
      | CreateService v \<Rightarrow> (\<exists>role \<in> {roleOracle, roleSubmission, roleGateway}.
           SetControllerReference lib (br_Meta br) (podMeta br role) = Inr (svc_Meta v))
      | _ \<Rightarrow> False)"

lemma run_trace_creates:
  assumes "list_all (creates_for lib br) cs" "run_live lib br" "run_phase br = ''ALLOCATING''"
  shows "run_trace lib br (cs @ ds) \<longleftrightarrow> run_trace lib br ds"
  using assms
proof (induction cs)
  case (Cons c cs)
  then show ?case by (cases c) (simp_all add: creates_for_def)
qed simp

lemma ensurePod_emits:
  assumes "pod_Meta pod = podMeta br role"
    and "role \<in> {roleOracle, roleSubmission, roleGateway, roleCoordinator}"
  shows "emits (ensurePod lib api br pod) (\<lambda>cs _. list_all (creates_for lib br) cs)"
proof (cases "SetControllerReference lib (br_Meta br) (pod_Meta pod)")
  case (Inl e)
  then show ?thesis by (simp add: ensurePod_def emits_done)
next
  case (Inr m)
  then have "creates_for lib br (CreatePod (pod\<lparr>pod_Meta := m\<rparr>))"
    using assms unfolding creates_for_def by auto
  then show ?thesis
    unfolding ensurePod_def Inr sum.case by (intro emits_rules) simp_all
qed

lemma ensureService_emits:
  assumes "role \<in> {roleOracle, roleSubmission, roleGateway}"
  shows "emits (ensureService lib api br role port) (\<lambda>cs _. list_all (creates_for lib br) cs)"
proof (cases "SetControllerReference lib (br_Meta br) (svc_Meta (run_service br role port))")
  case (Inl e)
  then show ?thesis by (simp add: ensureService_def emits_done)
next
  case (Inr m)
  then have "SetControllerReference lib (br_Meta br) (podMeta br role) = Inr m"
    by (simp add: run_service_def podMeta_def)
  then have "creates_for lib br (CreateService (run_service br role port\<lparr>svc_Meta := m\<rparr>))"
    using assms unfolding creates_for_def by auto
  then show ?thesis
    unfolding ensureService_def Let_def Inr sum.case by (intro emits_rules) simp_all
qed

lemma run_pods_emits:
  "emits (first_error (map (ensurePod lib api br) (run_pods br sub scn)))
     (\<lambda>cs _. list_all (creates_for lib br) cs)"
proof (rule first_error_emits)
  fix m
  assume "m \<in> set (map (ensurePod lib api br) (run_pods br sub scn))"
  then obtain pod where m: "m = ensurePod lib api br pod" and "pod \<in> set (run_pods br sub scn)" by auto
  then have "\<exists>role \<in> {roleOracle, roleSubmission, roleGateway, roleCoordinator}. pod_Meta pod = podMeta br role"
    by (auto simp: run_pods_def oracle_pod_def submission_pod_def gateway_pod_def coordinator_pod_def)
  then show "emits m (\<lambda>cs _. list_all (creates_for lib br) cs)"
    unfolding m using ensurePod_emits by blast
qed

lemma run_services_emits:
  "emits (first_error (map (\<lambda>(role, port). ensureService lib api br role port) run_services))
     (\<lambda>cs _. list_all (creates_for lib br) cs)"
  by (rule first_error_emits) (auto simp: run_services_def intro!: ensureService_emits)

lemma creates_for_stamp: "creates_for lib (stamp_endpoints br) = creates_for lib br"
proof (rule ext)
  show "creates_for lib (stamp_endpoints br) c = creates_for lib br c" for c
    using podMeta_cong [of "stamp_endpoints br" br] by (cases c) (simp_all add: creates_for_def)
qed

definition deletes_from :: "Pod list \<Rightarrow> api_call \<Rightarrow> bool" where
  "deletes_from ps c \<longleftrightarrow> (\<exists>p \<in> set ps. c = DeletePod p \<and> om_DeletionTimestamp (pod_Meta p) = None)"

lemma delete_pods_emits: "emits (delete_pods api ps) (\<lambda>cs _. list_all (deletes_from ps) cs)"
proof (induction ps)
  case Nil
  then show ?case by (simp add: emits_done)
next
  case (Cons p ps)
  have more: "deletes_from ps c \<Longrightarrow> deletes_from (p # ps) c" for c by (auto simp: deletes_from_def)
  then have rest: "emits (delete_pods api ps) (\<lambda>cs _. list_all (deletes_from (p # ps)) cs)"
    by (intro emits_weaken [OF Cons.IH]) (auto simp: list_all_iff)
  show ?case
  proof (cases "om_DeletionTimestamp (pod_Meta p) = None")
    case True
    then have one: "deletes_from (p # ps) (DeletePod p)" by (simp add: deletes_from_def)
    have "emits (if_error (api_call (write_reply api) (DeletePod p))
        (\<lambda>err. if is_not_found err then delete_pods api ps else done_with (Some err))
        (delete_pods api ps)) (\<lambda>cs _. list_all (deletes_from (p # ps)) cs)"
      by (rule emits_call_if_error) (auto intro!: emits_if emits_done simp: one rest)
    with True show ?thesis by simp
  next
    case False
    then show ?thesis using rest by (simp del: not_None_eq)
  qed
qed

lemma run_trace_deletes:
  assumes "list_all (deletes_from ps) cs" "om_DeletionTimestamp (br_Meta br) \<noteq> None"
  shows "run_trace lib br (cs @ ds) \<longleftrightarrow> run_trace lib br ds"
  using assms by (induction cs) (auto simp: deletes_from_def)

lemma allOwnedPodsReady_emits:
  "emits (allOwnedPodsReady api br) (\<lambda>cs _. cs = [ListPods (run_ns br) (run_name br)])"
  unfolding allOwnedPodsReady_def listOwnedPods_def by (intro emits_rules) simp_all

subsection \<open>Every handler stays within \<open>run_trace\<close>\<close>

lemmas handler_defs = toPending_def toInvalid_def toAllocating_def toPriming_def observePriming_def
  observeRunning_def toComplete_def listOwnedPods_def allOwnedPodsReady_def

lemma run_edge_set_phase:
  "phase_edge (run_phase br) ph \<Longrightarrow> ph \<notin> {''PRIMING'', ''RUNNING'', ''COMPLETE''} \<Longrightarrow>
     run_edge br (set_phase lib ph c br)"
  by (simp add: run_edge_def)

lemma toPriming_trace:
  assumes live: "run_live lib br" and ph: "run_phase br = ''ALLOCATING''"
  shows "emits (toPriming lib api br) (\<lambda>cs _. run_trace lib br cs)"
proof -
  let ?br1 = "stamp_endpoints br"
  note cr = run_trace_creates [OF _ live ph]
  have upd: "run_trace lib br [UpdateRunStatus (set_phase lib ''PRIMING'' c ?br1)]" for c
    using live ph phase_edge.intros(4) by (simp add: run_edge_def)
  have services: "emits (if_error (first_error (map (\<lambda>(role, port). ensureService lib api ?br1 role port) run_services))
       (\<lambda>err. done_with (no_requeue, Some err))
       (status_update api requeue_now (set_phase lib ''PRIMING'' c ?br1))) (\<lambda>cs _. run_trace lib br cs)" for c
    by (rule emits_if_error [OF run_services_emits])
      (use upd in \<open>auto simp: creates_for_stamp cr intro!: emits_done status_update_emits\<close>)
  have pods: "emits (if_error (first_error (map (ensurePod lib api ?br1) (run_pods ?br1 sub scn)))
       (\<lambda>err. done_with (no_requeue, Some err)) k) (\<lambda>cs _. run_trace lib br cs)"
    if "emits k (\<lambda>cs _. run_trace lib br cs)" for k :: "outcome act" and sub scn
    by (rule emits_if_error [OF run_pods_emits])
      (use that in \<open>auto simp: creates_for_stamp cr intro!: emits_done\<close>)
  show ?thesis
    unfolding toPriming_def Let_def
    by (intro emits_rules) (simp_all add: pods services)
qed

lemma on_phase_trace:
  assumes live: "run_live lib br"
  shows "emits (on_phase lib api br) (\<lambda>cs _. run_trace lib br cs)"
proof -
  let ?ph = "st_Phase (br_Status br)"
  have ph: "?ph = run_phase br" by (simp add: run_phase_def)
  have 1: "emits (toPending lib api br) (\<lambda>cs _. run_trace lib br cs)" if "?ph = []"
    using that live phase_edge.intros(1) unfolding toPending_def
    by (auto intro!: status_update_emits run_edge_set_phase simp: ph)
  have inv: "run_trace lib br [UpdateRunStatus (set_phase lib ''INVALID'' c br)]" if "?ph = ''PENDING''" for c
    using that live phase_edge.intros(3) by (auto intro!: run_edge_set_phase simp: ph)
  have 2: "emits (toAllocating lib api br) (\<lambda>cs _. run_trace lib br cs)" if "?ph = ''PENDING''"
    using that live phase_edge.intros(2) inv unfolding toAllocating_def toInvalid_def Let_def
    by (auto intro!: emits_rules status_update_emits run_edge_set_phase simp: ph)
  have 4: "emits (observePriming lib api br) (\<lambda>cs _. run_trace lib br cs)" if "?ph = ''PRIMING''"
    unfolding observePriming_def
    by (rule emits_or_else [OF allOwnedPodsReady_emits])
      (use that live phase_edge.intros(5) in
        \<open>auto intro!: emits_rules status_update_emits simp: ph run_edge_def\<close>)
  have 5: "emits (observeRunning lib api br) (\<lambda>cs _. run_trace lib br cs)" if "?ph = ''RUNNING''"
    using that live phase_edge.intros(6) unfolding observeRunning_def listOwnedPods_def
    by (auto intro!: emits_rules status_update_emits run_edge_set_phase simp: ph)
  have 6: "emits (toComplete lib api br) (\<lambda>cs _. run_trace lib br cs)" if "?ph = ''DRAINING''"
    using that live phase_edge.intros(7) unfolding toComplete_def
    by (auto intro!: emits_rules status_update_emits simp: ph run_edge_def)
  show ?thesis
    unfolding on_phase_def Let_def
    using 1 2 4 5 6 toPriming_trace [OF live] ph by (auto intro: emits_done)
qed

lemma handleDelete_trace:
  assumes "om_DeletionTimestamp (br_Meta br) \<noteq> None"
  shows "emits (handleDelete lib api br) (\<lambda>cs _. run_trace lib br cs)"
proof -
  have "emits (if_error (delete_pods api pods) (\<lambda>err. done_with (no_requeue, Some err))
      (done_with (requeue_after 2, None))) (\<lambda>cs _. run_trace lib br cs)" for pods
    by (rule emits_if_error [OF delete_pods_emits])
      (use run_trace_deletes [OF _ assms, of _ _ lib "[]"] in \<open>auto intro!: emits_done\<close>)
  then show ?thesis
    unfolding handleDelete_def listOwnedPods_def
    by (intro emits_rules) (use assms in auto)
qed

lemma reconcile_run_trace: "emits (reconcile_run lib api br) (\<lambda>cs _. run_trace lib br cs)"
proof -
  consider "om_DeletionTimestamp (br_Meta br) \<noteq> None"
    | "om_DeletionTimestamp (br_Meta br) = None" "\<not> ContainsFinalizer lib (br_Meta br) ironbookFinalizer"
    | "run_live lib br" unfolding run_live_def by metis
  then show ?thesis
  proof cases
    case 1
    then show ?thesis using handleDelete_trace by (simp add: reconcile_run_def)
  next
    case 2
    then have "emits (and_then (api_call (write_reply api)
        (UpdateRun (br\<lparr>br_Meta := AddFinalizer lib (br_Meta br) ironbookFinalizer\<rparr>)))
        (\<lambda>err. done_with (no_requeue, err))) (\<lambda>cs _. run_trace lib br cs)"
      by (intro emits_rules) simp
    with 2 show ?thesis by (simp add: reconcile_run_def)
  next
    case 3
    then show ?thesis using on_phase_trace by (simp add: reconcile_run_def run_live_def)
  qed
qed

text \<open>One whole reconcile: the read of the run, and then a trace of the run that was read.\<close>

lemma Reconcile_trace:
  assumes "Reconcile lib api req [] = (out, cs)"
  obtains e where "cs = [GetRun req]" "get_run api [GetRun req] = Inl e" "out = (no_requeue, IgnoreNotFound e)"
  | br ds where "get_run api [GetRun req] = Inr br" "cs = GetRun req # ds" "run_trace lib br ds"
      "reconcile_run lib api br [GetRun req] = (out, cs)"
proof (cases "get_run api [GetRun req]")
  case (Inl e)
  then show ?thesis
    using assms by (intro that(1) [of e])
      (auto simp: Reconcile_def or_else_def and_then_def api_call_def done_with_def)
next
  case (Inr br)
  then have run: "reconcile_run lib api br [GetRun req] = (out, cs)"
    using assms by (simp add: Reconcile_def or_else_def and_then_def api_call_def)
  obtain ds where "cs = [GetRun req] @ ds" "run_trace lib br ds"
    using reconcile_run_trace [of lib api br] run unfolding emits_def
    by (metis snd_conv)
  then show ?thesis using that(2) Inr run by simp
qed

end
