(* ===== verification/RunSystem.thy ===== *)
theory RunSystem
  imports RunController
begin

text \<open>
  What the BenchmarkRun controller guarantees: per reconcile, for every API server, from the traces
  of \<open>RunController\<close>; and over time, for a cluster that stores the object, serves reconciles from
  caches of any age, rejects writes based on an old version, and lets users edit everything but
  the status.
\<close>

subsection \<open>Single reconciles\<close>

lemma kube_lib_okD:
  assumes "kube_lib_ok lib"
  shows "ContainsFinalizer lib m f \<longleftrightarrow> f \<in> set (om_Finalizers m)"
    and "set (om_Finalizers (AddFinalizer lib m f)) = insert f (set (om_Finalizers m))"
    and "set (om_Finalizers (RemoveFinalizer lib m f)) = set (om_Finalizers m) - {f}"
    and "SetControllerReference lib ow m = Inr m' \<Longrightarrow>
           same_identity m' m \<and> (om_Name ow, True) \<in> set (om_OwnerReferences m')"
  using assms unfolding kube_lib_ok_def by simp_all

lemma run_trace_status:
  "run_trace lib br cs \<Longrightarrow> UpdateRunStatus br' \<in> set cs \<Longrightarrow>
     run_live lib br \<and> run_edge br br' \<and> (\<exists>ds. cs = ds @ [UpdateRunStatus br'] \<and> UpdateRunStatus br' \<notin> set ds)"
proof (induction cs)
  case (Cons c cs)
  show ?case
  proof (cases "c = UpdateRunStatus br'")
    case True
    then show ?thesis using Cons.prems by auto
  next
    case False
    then have "run_trace lib br cs" "UpdateRunStatus br' \<in> set cs"
      using Cons.prems by (cases c; auto)+
    then obtain ds where "run_live lib br" "run_edge br br'" "cs = ds @ [UpdateRunStatus br']"
      "UpdateRunStatus br' \<notin> set ds" using Cons.IH by blast
    then show ?thesis using False by (auto intro: exI [of _ "c # ds"])
  qed
qed simp

lemma run_trace_create:
  "run_trace lib br cs \<Longrightarrow> CreatePod p \<in> set cs \<Longrightarrow>
     run_live lib br \<and> run_phase br = ''ALLOCATING''
   \<and> (\<exists>role \<in> {roleOracle, roleSubmission, roleGateway, roleCoordinator}.
        SetControllerReference lib (br_Meta br) (podMeta br role) = Inr (pod_Meta p))"
proof (induction cs)
  case (Cons c cs)
  then show ?case by (cases c) auto
qed simp

lemma run_trace_update:
  "run_trace lib br cs \<Longrightarrow> UpdateRun br' \<in> set cs \<Longrightarrow>
     br_Spec br' = br_Spec br \<and> br_Status br' = br_Status br
   \<and> br_Meta br' = (if om_DeletionTimestamp (br_Meta br) = None
        then AddFinalizer lib (br_Meta br) ironbookFinalizer
        else RemoveFinalizer lib (br_Meta br) ironbookFinalizer)"
proof (induction cs)
  case (Cons c cs)
  then show ?case by (cases c) auto
qed simp

lemmas run_act_defs = or_else_def if_error_def and_then_def api_call_def done_with_def

lemma Reconcile_read:
  "get_run api [GetRun req] = Inr br \<Longrightarrow> Reconcile lib api req [] = reconcile_run lib api br [GetRun req]"
  by (simp add: Reconcile_def run_act_defs)

lemma reconcile_live: "run_live lib br \<Longrightarrow> reconcile_run lib api br = on_phase lib api br"
  by (simp add: reconcile_run_def run_live_def)

lemma on_phase_simps:
  "run_phase br = ''PENDING'' \<Longrightarrow> on_phase lib api br = toAllocating lib api br"
  "run_phase br = ''ALLOCATING'' \<Longrightarrow> on_phase lib api br = toPriming lib api br"
  "run_phase br = ''PRIMING'' \<Longrightarrow> on_phase lib api br = observePriming lib api br"
  "run_phase br = ''RUNNING'' \<Longrightarrow> on_phase lib api br = observeRunning lib api br"
  "run_phase br \<in> set terminal_phases \<Longrightarrow> on_phase lib api br = done_with (no_requeue, None)"
  by (auto simp: on_phase_def run_phase_def terminal_phases_def)

lemma status_update_run: "status_update api res br h = ((res, write_reply api (h @ [UpdateRunStatus br])), h @ [UpdateRunStatus br])"
  by (simp add: status_update_def run_act_defs)

lemma handleDelete_run:
  "list_pods api (h @ [ListPods (run_ns br) (run_name br)]) = Inr pods \<Longrightarrow> pods \<noteq> [] \<Longrightarrow>
     handleDelete lib api br h =
       if_error (delete_pods api pods) (\<lambda>err. done_with (no_requeue, Some err))
         (done_with (requeue_after 2, None)) (h @ [ListPods (run_ns br) (run_name br)])"
  by (simp add: handleDelete_def listOwnedPods_def or_else_def and_then_def api_call_def)

lemma Reconcile_status:
  assumes "Reconcile lib api req [] = (out, cs)" and "UpdateRunStatus br' \<in> set cs"
  obtains br ds where "get_run api [GetRun req] = Inr br" "run_edge br br'"
    "cs = ds @ [UpdateRunStatus br']" "UpdateRunStatus br' \<notin> set ds"
proof (cases rule: Reconcile_trace [OF assms(1)])
  case (1 e)
  then show ?thesis using assms(2) by simp
next
  case (2 br ds)
  then obtain es where "run_edge br br'" "ds = es @ [UpdateRunStatus br']" "UpdateRunStatus br' \<notin> set es"
    using run_trace_status [OF 2(3), of br'] assms(2) by auto
  then show ?thesis using that [of br "GetRun req # es"] 2(1,2) by auto
qed

lemma Reconcile_update:
  assumes "Reconcile lib api req [] = (out, cs)" and "UpdateRun br' \<in> set cs"
  obtains br ds where "get_run api [GetRun req] = Inr br" "run_trace lib br ds" "UpdateRun br' \<in> set ds"
proof (cases rule: Reconcile_trace [OF assms(1)])
  case (1 e)
  then show ?thesis using assms(2) by simp
next
  case (2 br ds)
  then show ?thesis using that [of br ds] assms(2) by auto
qed

text \<open>
  C4 (status_writes_follow_the_machine): whatever the API server answers, a reconcile writes the
  status at most once and as its last call; the write keeps metadata and spec and moves the phase
  of the run that was read along one edge of the state machine.
\<close>

theorem status_writes_follow_the_machine:
  assumes "Reconcile lib api req [] = (out, cs)" and "UpdateRunStatus br' \<in> set cs"
  shows "\<exists>br ds. get_run api [GetRun req] = Inr br \<and> run_edge br br'
       \<and> cs = ds @ [UpdateRunStatus br'] \<and> UpdateRunStatus br' \<notin> set ds"
proof -
  obtain br ds where "get_run api [GetRun req] = Inr br" "run_edge br br'"
    "cs = ds @ [UpdateRunStatus br']" "UpdateRunStatus br' \<notin> set ds"
    by (rule Reconcile_status [OF assms])
  then show ?thesis by blast
qed

text \<open>
  C32 (pods_only_while_allocating): a pod is created only for a run that was read as
  \<^verbatim>\<open>ALLOCATING\<close>, not being deleted and holding the finalizer; it is in the run's namespace,
  carries the run's label and has the run as its controller.
\<close>

theorem pods_only_while_allocating:
  assumes "Reconcile lib api req [] = (out, cs)" and "CreatePod p \<in> set cs" and "kube_lib_ok lib"
  shows "\<exists>br. get_run api [GetRun req] = Inr br \<and> run_phase br = ''ALLOCATING''
       \<and> om_DeletionTimestamp (br_Meta br) = None \<and> ironbookFinalizer \<in> set (om_Finalizers (br_Meta br))
       \<and> om_Namespace (pod_Meta p) = run_ns br \<and> label (om_Labels (pod_Meta p)) labelRun = run_name br
       \<and> (run_name br, True) \<in> set (om_OwnerReferences (pod_Meta p))"
proof (cases rule: Reconcile_trace [OF assms(1)])
  case (1 e)
  then show ?thesis using assms(2) by simp
next
  case (2 br ds)
  have "CreatePod p \<in> set ds" using assms(2) 2(2) by simp
  note tr = run_trace_create [OF 2(3) this]
  then obtain role where "SetControllerReference lib (br_Meta br) (podMeta br role) = Inr (pod_Meta p)"
    by blast
  from kube_lib_okD(4) [OF assms(3) this]
  have "same_identity (pod_Meta p) (podMeta br role)"
    "(om_Name (br_Meta br), True) \<in> set (om_OwnerReferences (pod_Meta p))" by blast+
  then have "om_Namespace (pod_Meta p) = run_ns br" "label (om_Labels (pod_Meta p)) labelRun = run_name br"
    "(run_name br, True) \<in> set (om_OwnerReferences (pod_Meta p))"
    by (simp_all add: same_identity_def podMeta_def object_meta_def label_defs run_name_def)
  moreover have "om_DeletionTimestamp (br_Meta br) = None" "ironbookFinalizer \<in> set (om_Finalizers (br_Meta br))"
    using tr kube_lib_okD(1) [OF assms(3)] by (simp_all add: run_live_def)
  ultimately show ?thesis using tr 2(1) by blast
qed

text \<open>
  C17 (finalizer_removed_after_pods): a write that takes the finalizer off the run happens only for a
  run being deleted, in the same reconcile in which the API server listed no pod of the run.
\<close>

theorem finalizer_removed_after_pods:
  assumes "Reconcile lib api req [] = (out, cs)" and "UpdateRun br' \<in> set cs"
    and "ironbookFinalizer \<notin> set (om_Finalizers (br_Meta br'))" and "kube_lib_ok lib"
  shows "\<exists>br. get_run api [GetRun req] = Inr br \<and> om_DeletionTimestamp (br_Meta br) \<noteq> None
       \<and> list_pods api [GetRun req, ListPods (run_ns br) (run_name br)] = Inr []"
proof (cases rule: Reconcile_trace [OF assms(1)])
  case (1 e)
  then show ?thesis using assms(2) by simp
next
  case (2 br ds)
  then have "br_Meta br' = (if om_DeletionTimestamp (br_Meta br) = None
        then AddFinalizer lib (br_Meta br) ironbookFinalizer
        else RemoveFinalizer lib (br_Meta br) ironbookFinalizer)"
    using run_trace_update [OF 2(3), of br'] assms(2) by auto
  then have del: "om_DeletionTimestamp (br_Meta br) \<noteq> None"
    using assms(3) kube_lib_okD(2) [OF assms(4)] by (cases "om_DeletionTimestamp (br_Meta br)") simp_all
  let ?h = "[GetRun req, ListPods (run_ns br) (run_name br)]"
  have run: "handleDelete lib api br [GetRun req] = (out, cs)"
    using 2(4) del by (simp add: reconcile_run_def)
  have "list_pods api ?h = Inr []"
  proof (cases "list_pods api ?h")
    case (Inl e)
    then have "cs = ?h"
      using run by (simp add: handleDelete_def listOwnedPods_def or_else_def and_then_def api_call_def done_with_def)
    then show ?thesis using assms(2) by simp
  next
    case (Inr pods)
    show ?thesis
    proof (cases pods)
      case (Cons p ps)
      have "emits (if_error (delete_pods api pods) (\<lambda>err. done_with (no_requeue, Some err))
          (done_with (requeue_after 2, None))) (\<lambda>cs _. list_all (deletes_from pods) cs)"
        by (rule emits_if_error [OF delete_pods_emits]) (auto intro: emits_done)
      then obtain es where es: "list_all (deletes_from pods) es"
        "snd (if_error (delete_pods api pods) (\<lambda>err. done_with (no_requeue, Some err))
          (done_with (requeue_after 2, None)) ?h) = ?h @ es"
        unfolding emits_def by blast
      have "cs = ?h @ es"
      proof -
        have "handleDelete lib api br [GetRun req]
            = if_error (delete_pods api pods) (\<lambda>err. done_with (no_requeue, Some err))
                (done_with (requeue_after 2, None)) ?h"
          using handleDelete_run [of api "[GetRun req]" br pods lib] Inr Cons
          by (simp del: delete_pods.simps)
        then show ?thesis using run es(2) by (metis snd_conv)
      qed
      with es(1)
      show ?thesis using assms(2) by (auto simp: list_all_iff deletes_from_def)
    qed (use Inr in simp)
  qed
  then show ?thesis using 2(1) del by blast
qed

text \<open>
  A live run in a terminal phase is left alone: the reconcile reads
  it, makes no other call, reports no error and asks for no requeue.
\<close>

theorem terminal_phases_are_final:
  assumes "get_run api [GetRun req] = Inr br" and "run_live lib br" and "run_phase br \<in> set terminal_phases"
  shows "Reconcile lib api req [] = ((no_requeue, None), [GetRun req])"
  by (simp add: Reconcile_read [OF assms(1)] reconcile_live [OF assms(2)] on_phase_simps(5) [OF assms(3)]
      done_with_def)

text \<open>
  For a \<^verbatim>\<open>PENDING\<close> run, any failure of the read of the submission, a
  timeout or a conflict as much as a missing object, writes the terminal phase \<^verbatim>\<open>INVALID\<close>.
\<close>

theorem any_error_invalidates:
  assumes "get_run api [GetRun req] = Inr br" and "run_live lib br" and "run_phase br = ''PENDING''"
    and "get_submission api [GetRun req, GetSubmission (run_ns br, brs_SubmissionRef (br_Spec br))] = Inl e"
  shows "\<exists>br' out. Reconcile lib api req []
           = (out, [GetRun req, GetSubmission (run_ns br, brs_SubmissionRef (br_Spec br)), UpdateRunStatus br'])
       \<and> run_phase br' = ''INVALID'' \<and> br_Spec br' = br_Spec br"
proof -
  have "Reconcile lib api req [] = toAllocating lib api br [GetRun req]"
    by (simp add: Reconcile_read [OF assms(1)] reconcile_live [OF assms(2)] on_phase_simps(1) [OF assms(3)])
  then show ?thesis
    using assms(4)
    by (simp add: toAllocating_def toInvalid_def or_else_def and_then_def api_call_def status_update_run Let_def)
qed

text \<open>
  A \<^verbatim>\<open>RUNNING\<close> run whose coordinator has not succeeded, be it
  running, missing or failed for good, is polled again in five seconds and never leaves the phase.
\<close>

theorem run_without_success_waits:
  assumes "get_run api [GetRun req] = Inr br" and "run_live lib br" and "run_phase br = ''RUNNING''"
    and "list_pods api [GetRun req, ListPods (run_ns br) (run_name br)] = Inr pods"
    and "\<forall>p \<in> set pods. pod_role p = roleCoordinator \<longrightarrow> pst_Phase (pod_Status p) \<noteq> ''Succeeded''"
  shows "Reconcile lib api req []
       = ((requeue_after 5, None), [GetRun req, ListPods (run_ns br) (run_name br)])"
proof -
  have "Reconcile lib api req [] = observeRunning lib api br [GetRun req]"
    by (simp add: Reconcile_read [OF assms(1)] reconcile_live [OF assms(2)] on_phase_simps(4) [OF assms(3)])
  moreover have "\<not> list_ex coordinator_succeeded pods"
    using assms(5) by (auto simp: list_ex_iff coordinator_succeeded_def)
  ultimately show ?thesis
    using assms(4) by (simp add: observeRunning_def listOwnedPods_def run_act_defs)
qed

text \<open>Creation when every object can be owned and the API server refuses no creation for good.\<close>

definition owned_pod :: "kube_lib \<Rightarrow> BenchmarkRun \<Rightarrow> Pod \<Rightarrow> Pod" where
  "owned_pod lib br p = p\<lparr>pod_Meta := projr (SetControllerReference lib (br_Meta br) (pod_Meta p))\<rparr>"

definition owned_service :: "kube_lib \<Rightarrow> BenchmarkRun \<Rightarrow> string \<times> i32 \<Rightarrow> Service" where
  "owned_service lib br rp =
     (let svc = run_service br (fst rp) (snd rp) in
      svc\<lparr>svc_Meta := projr (SetControllerReference lib (br_Meta br) (svc_Meta svc))\<rparr>)"

definition ownable :: "kube_lib \<Rightarrow> BenchmarkRun \<Rightarrow> bool" where
  "ownable lib br \<longleftrightarrow> (\<forall>m. \<exists>m'. SetControllerReference lib (br_Meta br) m = Inr m')"

definition creations_succeed :: "kube \<Rightarrow> bool" where
  "creations_succeed api \<longleftrightarrow>
     (\<forall>h c. case c of
        CreatePod p \<Rightarrow> pred_option is_already_exists (write_reply api (h @ [c]))
      | CreateService v \<Rightarrow> pred_option is_already_exists (write_reply api (h @ [c]))
      | _ \<Rightarrow> True)"

lemma creations_succeedD:
  assumes "creations_succeed api"
  shows "pred_option is_already_exists (write_reply api (h @ [CreatePod p]))"
    and "pred_option is_already_exists (write_reply api (h @ [CreateService v]))"
  using assms unfolding creations_succeed_def by (metis api_call.simps)+

lemma ensurePod_run:
  assumes "ownable lib br" "creations_succeed api"
  shows "ensurePod lib api br p h = (None, h @ [CreatePod (owned_pod lib br p)])"
proof -
  obtain m where m: "SetControllerReference lib (br_Meta br) (pod_Meta p) = Inr m"
    using assms(1) by (auto simp: ownable_def)
  show ?thesis
    using creations_succeedD(1) [OF assms(2), of h "p\<lparr>pod_Meta := m\<rparr>"]
    by (auto simp: ensurePod_def m run_act_defs owned_pod_def split: option.splits)
qed

lemma ensureService_run:
  assumes "ownable lib br" "creations_succeed api"
  shows "ensureService lib api br role port h = (None, h @ [CreateService (owned_service lib br (role, port))])"
proof -
  obtain m where m: "SetControllerReference lib (br_Meta br) (svc_Meta (run_service br role port)) = Inr m"
    using assms(1) by (auto simp: ownable_def)
  show ?thesis
    using creations_succeedD(2) [OF assms(2), of h "run_service br role port\<lparr>svc_Meta := m\<rparr>"]
    by (auto simp: ensureService_def m run_act_defs owned_service_def Let_def split: option.splits)
qed

lemma first_error_run:
  assumes "\<And>x h. x \<in> set xs \<Longrightarrow> f x h = (None, h @ [g x])"
  shows "first_error (map f xs) h = (None, h @ map g xs)"
  using assms by (induction xs arbitrary: h) (simp_all add: run_act_defs)

lemma toPriming_calls:
  assumes "h = [GetRun req, GetSubmission (run_ns br, brs_SubmissionRef (br_Spec br))]"
    and "get_submission api h = Inr sub"
    and "get_scenario api (h @ [GetScenario (run_ns br, brs_ScenarioRef (br_Spec br))]) = Inr scn"
    and "ownable lib br" and "creations_succeed api"
  shows "\<exists>out br'. toPriming lib api br [GetRun req] =
           (out, h @ [GetScenario (run_ns br, brs_ScenarioRef (br_Spec br))]
              @ map (\<lambda>p. CreatePod (owned_pod lib br p)) (run_pods (stamp_endpoints br) sub scn)
              @ map (\<lambda>rp. CreateService (owned_service lib br rp)) run_services
              @ [UpdateRunStatus br'])
       \<and> run_phase br' = ''PRIMING'' \<and> endpoints_of br' = run_endpoints br"
proof -
  let ?br1 = "stamp_endpoints br"
  have own: "ownable lib ?br1" using assms(4) by (simp add: ownable_def)
  have same: "owned_pod lib ?br1 = owned_pod lib br" "owned_service lib ?br1 = owned_service lib br"
    by (simp_all add: fun_eq_iff owned_pod_def owned_service_def run_service_def)
  have pods: "first_error (map (ensurePod lib api ?br1) ps) k
      = (None, k @ map (\<lambda>p. CreatePod (owned_pod lib br p)) ps)" for ps k
    by (rule first_error_run) (simp add: ensurePod_run [OF own assms(5)] same)
  have services: "first_error (map (\<lambda>(role, port). ensureService lib api ?br1 role port) rps) k
      = (None, k @ map (\<lambda>rp. CreateService (owned_service lib br rp)) rps)" for rps k
    by (rule first_error_run) (auto simp: ensureService_run [OF own assms(5)] same)
  show ?thesis
    using assms(1-3)
    by (simp add: toPriming_def run_act_defs pods services status_update_run Let_def)
qed

text \<open>
  An \<^verbatim>\<open>ALLOCATING\<close> run whose references can be read creates its four pods
  and three services and moves to \<^verbatim>\<open>PRIMING\<close>, whichever of the objects an interrupted reconcile
  had already created: an answer of \<^verbatim>\<open>AlreadyExists\<close> changes nothing in what follows.
\<close>

theorem allocation_resumes:
  assumes "get_run api [GetRun req] = Inr br" and "run_live lib br" and "run_phase br = ''ALLOCATING''"
    and "h = [GetRun req, GetSubmission (run_ns br, brs_SubmissionRef (br_Spec br))]"
    and "get_submission api h = Inr sub"
    and "get_scenario api (h @ [GetScenario (run_ns br, brs_ScenarioRef (br_Spec br))]) = Inr scn"
    and "ownable lib br" and "creations_succeed api"
  shows "\<exists>out br'. Reconcile lib api req [] =
           (out, h @ [GetScenario (run_ns br, brs_ScenarioRef (br_Spec br))]
              @ map (\<lambda>p. CreatePod (owned_pod lib br p)) (run_pods (stamp_endpoints br) sub scn)
              @ map (\<lambda>rp. CreateService (owned_service lib br rp)) run_services
              @ [UpdateRunStatus br'])
       \<and> run_phase br' = ''PRIMING'' \<and> endpoints_of br' = run_endpoints br"
  using toPriming_calls [OF assms(4-8)]
  by (simp only: Reconcile_read [OF assms(1)] reconcile_live [OF assms(2)] on_phase_simps(2) [OF assms(3)])

subsection \<open>The object over time\<close>

text \<open>
  The versions of one BenchmarkRun in the API server, the current one last.  A user may edit
  metadata and spec at will but not the name, the namespace or the status.  A reconcile, of any
  operator process and against any behaviour of the rest of the API server, reads some version
  from its cache; its write is accepted only if that version is still the current one, and a
  write of the object leaves the status alone as a write of the status leaves the rest.
\<close>

inductive store_step :: "kube_lib \<Rightarrow> BenchmarkRun list \<Rightarrow> BenchmarkRun list \<Rightarrow> bool" for lib where
  user_edit:
    "br_Status br' = br_Status (last vs) \<Longrightarrow> run_name br' = run_name (last vs) \<Longrightarrow>
     run_ns br' = run_ns (last vs) \<Longrightarrow> store_step lib vs (vs @ [br'])"
| status_written:
    "i < length vs \<Longrightarrow> get_run api [GetRun req] = Inr (vs ! i) \<Longrightarrow>
     Reconcile lib api req [] = (out, cs) \<Longrightarrow> UpdateRunStatus br' \<in> set cs \<Longrightarrow> Suc i = length vs \<Longrightarrow>
     store_step lib vs (vs @ [(last vs)\<lparr>br_Status := br_Status br'\<rparr>])"
| run_written:
    "i < length vs \<Longrightarrow> get_run api [GetRun req] = Inr (vs ! i) \<Longrightarrow>
     Reconcile lib api req [] = (out, cs) \<Longrightarrow> UpdateRun br' \<in> set cs \<Longrightarrow> Suc i = length vs \<Longrightarrow>
     store_step lib vs (vs @ [(last vs)\<lparr>br_Meta := br_Meta br', br_Spec := br_Spec br'\<rparr>])"
| write_refused: "store_step lib vs vs"

definition fresh_run :: "BenchmarkRun \<Rightarrow> bool" where
  "fresh_run br \<longleftrightarrow>
     run_phase br = [] \<and> st_StartedAt (br_Status br) = None \<and> st_EndedAt (br_Status br) = None"

inductive run_history :: "kube_lib \<Rightarrow> BenchmarkRun list \<Rightarrow> bool" for lib where
  created: "fresh_run br \<Longrightarrow> run_history lib [br]"
| stepped: "run_history lib vs \<Longrightarrow> store_step lib vs vs' \<Longrightarrow> run_history lib vs'"

text \<open>What holds of every version.\<close>

definition run_ok :: "BenchmarkRun \<Rightarrow> bool" where
  "run_ok br \<longleftrightarrow>
     run_phase br \<in> {[], ''PENDING'', ''ALLOCATING'', ''PRIMING'', ''RUNNING'', ''DRAINING'', ''COMPLETE'', ''INVALID''}
   \<and> (st_StartedAt (br_Status br) \<noteq> None \<longleftrightarrow> run_phase br \<in> {''RUNNING'', ''DRAINING'', ''COMPLETE''})
   \<and> (st_EndedAt (br_Status br) \<noteq> None \<longleftrightarrow> run_phase br = ''COMPLETE'')
   \<and> (run_phase br \<in> {''PRIMING'', ''RUNNING'', ''DRAINING'', ''COMPLETE''} \<longrightarrow> endpoints_of br = run_endpoints br)"

lemma run_ok_fresh: "fresh_run br \<Longrightarrow> run_ok br"
  by (simp add: fresh_run_def run_ok_def)

lemma run_endpoints_cong:
  "run_name br' = run_name br \<Longrightarrow> run_ns br' = run_ns br \<Longrightarrow> run_endpoints br' = run_endpoints br"
  by (simp add: run_endpoints_def endpoint_def)

lemma run_ok_same_status:
  "run_ok br \<Longrightarrow> br_Status br' = br_Status br \<Longrightarrow> run_name br' = run_name br \<Longrightarrow> run_ns br' = run_ns br \<Longrightarrow> run_ok br'"
  using run_endpoints_cong [of br' br] by (simp add: run_ok_def run_phase_def endpoints_of_def)

lemma run_ok_edge:
  assumes "run_ok br" "run_edge br br'"
  shows "run_ok br'"
proof -
  have "run_name br' = run_name br" "run_ns br' = run_ns br"
    using assms(2) by (simp_all add: run_edge_def run_name_def run_ns_def)
  note ep = run_endpoints_cong [OF this]
  have "phase_edge (run_phase br) (run_phase br')" using assms(2) by (simp add: run_edge_def)
  then show ?thesis
    using assms ep by (cases rule: phase_edge.cases) (simp_all add: run_edge_def run_ok_def)
qed

text \<open>The phases of consecutive versions are equal or an edge apart.\<close>

definition phase_path :: "BenchmarkRun list \<Rightarrow> bool" where
  "phase_path vs \<longleftrightarrow>
     (\<forall>i. Suc i < length vs \<longrightarrow> run_phase (vs ! Suc i) = run_phase (vs ! i)
        \<or> phase_edge (run_phase (vs ! i)) (run_phase (vs ! Suc i)))"

lemma phase_path_snoc:
  assumes "phase_path vs" "vs \<noteq> []"
    and "run_phase v = run_phase (last vs) \<or> phase_edge (run_phase (last vs)) (run_phase v)"
  shows "phase_path (vs @ [v])"
  unfolding phase_path_def
proof (intro allI impI)
  fix i
  assume i: "Suc i < length (vs @ [v])"
  show "run_phase ((vs @ [v]) ! Suc i) = run_phase ((vs @ [v]) ! i)
      \<or> phase_edge (run_phase ((vs @ [v]) ! i)) (run_phase ((vs @ [v]) ! Suc i))"
  proof (cases "Suc i < length vs")
    case True
    then show ?thesis using assms(1) by (simp add: phase_path_def nth_append)
  next
    case False
    then have e: "Suc i = length vs" using i by simp
    then have "vs ! i = last vs" using assms(2) by (metis diff_Suc_1 last_conv_nth)
    then show ?thesis using assms(3) e by (simp add: nth_append)
  qed
qed

lemma store_step_inv:
  assumes "store_step lib vs vs'" "kube_lib_ok lib" "vs \<noteq> []" "phase_path vs" "\<forall>v \<in> set vs. run_ok v"
  shows "vs' \<noteq> [] \<and> phase_path vs' \<and> (\<forall>v \<in> set vs'. run_ok v)"
  using assms(1)
proof (cases rule: store_step.cases)
  case (user_edit br')
  have "run_phase br' = run_phase (last vs)" using user_edit by (simp add: run_phase_def)
  moreover have "run_ok br'" using run_ok_same_status [of "last vs" br'] user_edit assms(3,5) by simp
  ultimately show ?thesis using user_edit(1) phase_path_snoc [OF assms(4,3)] assms(5) by simp
next
  case (status_written i api req out cs br')
  have lst: "vs ! i = last vs" using status_written(6) assms(3) by (metis diff_Suc_1 last_conv_nth)
  obtain br where "get_run api [GetRun req] = Inr br" "run_edge br br'"
    by (rule Reconcile_status [OF status_written(4,5)])
  then have edge: "run_edge (last vs) br'" using status_written(3) lst by simp
  then have new: "(last vs)\<lparr>br_Status := br_Status br'\<rparr> = br'" by (simp add: run_edge_def)
  have "run_ok br'" using run_ok_edge [OF _ edge] assms(3,5) by simp
  then show ?thesis
    using status_written(1) phase_path_snoc [OF assms(4,3), of br'] edge assms(5) new
    by (simp add: run_edge_def)
next
  case (run_written i api req out cs br')
  have lst: "vs ! i = last vs" using run_written(6) assms(3) by (metis diff_Suc_1 last_conv_nth)
  obtain br ds where "get_run api [GetRun req] = Inr br" "run_trace lib br ds" "UpdateRun br' \<in> set ds"
    by (rule Reconcile_update [OF run_written(4,5)])
  then have w: "br_Meta br' = AddFinalizer lib (br_Meta (last vs)) ironbookFinalizer
      \<or> br_Meta br' = RemoveFinalizer lib (br_Meta (last vs)) ironbookFinalizer"
    using run_trace_update [of lib br ds br'] run_written(3) lst by (auto split: if_splits)
  let ?v = "(last vs)\<lparr>br_Meta := br_Meta br', br_Spec := br_Spec br'\<rparr>"
  have "run_name ?v = run_name (last vs)" "run_ns ?v = run_ns (last vs)"
    using w assms(2) by (auto simp: kube_lib_ok_def same_identity_def run_name_def run_ns_def)
  then have "run_ok ?v" using run_ok_same_status [of "last vs" ?v] assms(3,5) by simp
  moreover have "run_phase ?v = run_phase (last vs)" by (simp add: run_phase_def)
  ultimately show ?thesis using run_written(1) phase_path_snoc [OF assms(4,3), of ?v] assms(5) by simp
next
  case write_refused
  then show ?thesis using assms by simp
qed

lemma run_history_inv:
  "run_history lib vs \<Longrightarrow> kube_lib_ok lib \<Longrightarrow> vs \<noteq> [] \<and> phase_path vs \<and> (\<forall>v \<in> set vs. run_ok v)"
proof (induction rule: run_history.induct)
  case (created br)
  then show ?case by (simp add: phase_path_def run_ok_fresh)
next
  case (stepped vs vs')
  then show ?case using store_step_inv by blast
qed

lemma phase_path_rank:
  assumes "phase_path vs" "i \<le> j" "j < length vs"
  shows "phase_rank (run_phase (vs ! i)) \<le> phase_rank (run_phase (vs ! j))
       \<and> (run_phase (vs ! i) \<in> set terminal_phases \<longrightarrow> run_phase (vs ! j) = run_phase (vs ! i))"
  using assms(2,3)
proof (induction j)
  case (Suc j)
  show ?case
  proof (cases "i = Suc j")
    case False
    then have IH: "phase_rank (run_phase (vs ! i)) \<le> phase_rank (run_phase (vs ! j))
       \<and> (run_phase (vs ! i) \<in> set terminal_phases \<longrightarrow> run_phase (vs ! j) = run_phase (vs ! i))"
      using Suc by simp
    have "run_phase (vs ! Suc j) = run_phase (vs ! j) \<or> phase_edge (run_phase (vs ! j)) (run_phase (vs ! Suc j))"
      using assms(1) Suc.prems(2) by (simp add: phase_path_def)
    then show ?thesis
    proof
      assume "run_phase (vs ! Suc j) = run_phase (vs ! j)"
      then show ?thesis using IH by simp
    next
      assume e: "phase_edge (run_phase (vs ! j)) (run_phase (vs ! Suc j))"
      then show ?thesis using IH phase_edge_rank [OF e] phase_edge_not_terminal [OF e] by auto
    qed
  qed simp
qed simp

text \<open>
  C10 (phases_are_one_way): along the versions of a run, through restarts, stale caches, refused
  writes and user edits, the phase only moves forward, and once it is terminal it never changes.
\<close>

theorem phases_are_one_way:
  assumes "run_history lib vs" and "kube_lib_ok lib" and "i \<le> j" and "j < length vs"
  shows "phase_rank (run_phase (vs ! i)) \<le> phase_rank (run_phase (vs ! j))
       \<and> (run_phase (vs ! i) \<in> set terminal_phases \<longrightarrow> run_phase (vs ! j) = run_phase (vs ! i))"
  using run_history_inv [OF assms(1,2)] phase_path_rank assms(3,4) by blast

text \<open>
  C25 (run_status_consistent): every version of a run has a start time exactly from \<^verbatim>\<open>RUNNING\<close> on, an
  end time exactly when \<^verbatim>\<open>COMPLETE\<close>, and from \<^verbatim>\<open>PRIMING\<close> on the endpoints that belong to its
  name; and its phase is never \<^verbatim>\<open>ABORTED\<close>, \<^verbatim>\<open>INSUFFICIENT_CAPACITY\<close> or \<^verbatim>\<open>GATEWAY_REJECT\<close>.
\<close>

theorem run_status_consistent:
  assumes "run_history lib vs" and "kube_lib_ok lib" and "br \<in> set vs"
  shows "run_ok br \<and> run_phase br \<notin> {''ABORTED'', ''INSUFFICIENT_CAPACITY'', ''GATEWAY_REJECT''}"
proof -
  have "run_ok br" using run_history_inv [OF assms(1,2)] assms(3) by blast
  moreover from this have
    "run_phase br \<in> {[], ''PENDING'', ''ALLOCATING'', ''PRIMING'', ''RUNNING'', ''DRAINING'', ''COMPLETE'', ''INVALID''}"
    by (simp only: run_ok_def)
  then have "run_phase br \<noteq> ''ABORTED''" "run_phase br \<noteq> ''INSUFFICIENT_CAPACITY''"
    "run_phase br \<noteq> ''GATEWAY_REJECT''"
    by (intro notI, simp)+
  ultimately show ?thesis by (simp only: insert_iff empty_iff simp_thms)
qed

subsection \<open>Concrete runs\<close>

definition sample_lib :: kube_lib where
  "sample_lib =
     \<lparr>ContainsFinalizer = (\<lambda>m f. f \<in> set (om_Finalizers m)),
      AddFinalizer = (\<lambda>m f. m\<lparr>om_Finalizers := om_Finalizers m @ [f]\<rparr>),
      RemoveFinalizer = (\<lambda>m f. m\<lparr>om_Finalizers := removeAll f (om_Finalizers m)\<rparr>),
      SetControllerReference = (\<lambda>ow m. Inr (m\<lparr>om_OwnerReferences := om_OwnerReferences m @ [(om_Name ow, True)]\<rparr>)),
      SetStatusCondition = (\<lambda>cs c. cs @ [c])\<rparr>"

lemma sample_lib_ok: "kube_lib_ok sample_lib"
  by (auto simp: kube_lib_ok_def sample_lib_def same_identity_def)

definition sample_run :: "string \<Rightarrow> int option \<Rightarrow> BenchmarkRun" where
  "sample_run ph del =
     \<lparr>br_Meta = (object_meta ''r'' ''n'' Map.empty)\<lparr>om_Finalizers := [ironbookFinalizer], om_DeletionTimestamp := del\<rparr>,
      br_Spec = \<lparr>brs_SubmissionRef = ''s'', brs_ScenarioRef = ''c'', brs_BotSwarmRef = ''b'', brs_Seed = 7\<rparr>,
      br_Status = \<lparr>st_Phase = ph, st_StartedAt = None, st_EndedAt = None, st_SubmissionEndpoint = [],
        st_OracleEndpoint = [], st_GatewayEndpoint = [], st_Conditions = []\<rparr>\<rparr>"

definition sample_submission_cr :: SubmissionCR where
  "sample_submission_cr =
     \<lparr>sub_Meta = object_meta ''s'' ''n'' Map.empty,
      sub_Spec = \<lparr>subs_Sha256 = ''ab'', subs_Language = ''go''\<rparr>,
      sub_Status = \<lparr>subst_Phase = ''READY'', subst_ImageDigest = ''reg/sub@sha256:ab'',
        subst_RejectReason = [], subst_Conditions = []\<rparr>\<rparr>"

definition sample_scenario :: Scenario where
  "sample_scenario =
     \<lparr>scn_Meta = object_meta ''c'' ''n'' Map.empty,
      scn_Spec = \<lparr>scs_YAMLSpec = ''x'', scs_Seed = 1, scs_DurationSeconds = 3,
        scs_Targets = \<lparr>tg_P50Us = 1, tg_P99Us = 1, tg_TPS = 1\<rparr>\<rparr>,
      scn_Status = \<lparr>scst_ContentHash = ''h'', scst_Conditions = []\<rparr>\<rparr>"

text \<open>An API server that answers with fixed objects; \<open>subm\<close> is its answer for the submission.\<close>

definition sample_kube :: "BenchmarkRun \<Rightarrow> SubmissionCR result \<Rightarrow> Pod list \<Rightarrow> kube" where
  "sample_kube br subm pods =
     \<lparr>get_run = (\<lambda>_. Inr br), get_submission = (\<lambda>_. subm), get_scenario = (\<lambda>_. Inr sample_scenario),
      get_botswarm = (\<lambda>_. Inl (NotFoundError ''botswarm'')), list_pods = (\<lambda>_. Inr pods),
      write_reply = (\<lambda>h. case last h of CreatePod p \<Rightarrow> Some (AlreadyExistsError ''pod'') | _ \<Rightarrow> None),
      clock_now = (\<lambda>_. 42)\<rparr>"

definition sample_swarm :: BotSwarm where
  "sample_swarm =
     \<lparr>bsw_Meta = object_meta ''b'' ''n'' Map.empty,
      bsw_Spec = \<lparr>bss_MaxWorkers = 4, bss_Protocols = [''http''],
        bss_OrderMix = \<lparr>om_LimitFraction = ''1'', om_IocFraction = ''0'', om_CancelFraction = ''0''\<rparr>\<rparr>,
      bsw_Conditions = []\<rparr>"

lemma sample_live: "run_live sample_lib (sample_run ph None)"
  by (simp add: run_live_def sample_lib_def sample_run_def object_meta_def)

lemma sample_kube_get: "get_run (sample_kube br s ps) h = Inr br"
  by (simp add: sample_kube_def)

lemmas sample_defs = sample_kube_def sample_run_def run_phase_def object_meta_def

lemma sample_first_reconcile:
  "Reconcile sample_lib (sample_kube (sample_run [] None) s ps) req []
     = ((requeue_now, None),
        [GetRun req, UpdateRunStatus (set_phase sample_lib ''PENDING''
           (condition ''Initialized'' True ''Created'' ''BenchmarkRun accepted'') (sample_run [] None))])"
proof -
  have "on_phase sample_lib api (sample_run [] None) = toPending sample_lib api (sample_run [] None)" for api
    by (simp add: on_phase_def sample_run_def)
  then show ?thesis
    by (simp add: Reconcile_read [OF sample_kube_get] reconcile_live [OF sample_live] toPending_def
        status_update_run) (simp add: sample_kube_def)
qed

abbreviation alloc_run :: BenchmarkRun where
  "alloc_run \<equiv> sample_run ''ALLOCATING'' None"

abbreviation alloc_kube :: kube where
  "alloc_kube \<equiv> sample_kube alloc_run (Inr sample_submission_cr) []"

lemma sample_alloc:
  "run_phase (sample_run ph d) = ph" "ownable sample_lib br" "creations_succeed alloc_kube"
  "get_submission alloc_kube h = Inr sample_submission_cr" "get_scenario alloc_kube h = Inr sample_scenario"
proof -
  show "run_phase (sample_run ph d) = ph" by (simp add: sample_defs)
  show "ownable sample_lib br" by (simp add: ownable_def sample_lib_def)
  show "creations_succeed alloc_kube"
    unfolding creations_succeed_def
  proof (intro allI)
    show "case c of CreatePod p \<Rightarrow> pred_option is_already_exists (write_reply alloc_kube (h @ [c]))
        | CreateService v \<Rightarrow> pred_option is_already_exists (write_reply alloc_kube (h @ [c]))
        | _ \<Rightarrow> True" for h c
      by (cases c) (simp_all add: sample_kube_def)
  qed
  show "get_submission alloc_kube h = Inr sample_submission_cr" "get_scenario alloc_kube h = Inr sample_scenario"
    by (simp_all add: sample_kube_def)
qed

theorem status_writes_follow_the_machine_witness:
  "\<exists>br br'. get_run (sample_kube (sample_run [] None) (Inr sample_submission_cr) []) [GetRun (''n'', ''r'')] = Inr br
     \<and> run_edge br br' \<and> run_phase br' = ''PENDING''"
proof -
  note run = sample_first_reconcile [of "Inr sample_submission_cr" "[]" "(''n'', ''r'')"]
  show ?thesis using status_writes_follow_the_machine [OF run list.set_intros(2) [OF list.set_intros(1)]]
    by (auto intro: set_phase_simps(3))
qed

theorem pods_only_while_allocating_witness:
  "\<exists>p cs out. Reconcile sample_lib alloc_kube (''n'', ''r'') [] = (out, cs) \<and> CreatePod p \<in> set cs
     \<and> om_Namespace (pod_Meta p) = run_ns alloc_run"
proof -
  obtain out br' where run: "toPriming sample_lib alloc_kube alloc_run [GetRun (''n'', ''r'')] =
       (out, [GetRun (''n'', ''r''), GetSubmission (run_ns alloc_run, brs_SubmissionRef (br_Spec alloc_run))]
          @ [GetScenario (run_ns alloc_run, brs_ScenarioRef (br_Spec alloc_run))]
          @ map (\<lambda>p. CreatePod (owned_pod sample_lib alloc_run p))
              (run_pods (stamp_endpoints alloc_run) sample_submission_cr sample_scenario)
          @ map (\<lambda>rp. CreateService (owned_service sample_lib alloc_run rp)) run_services
          @ [UpdateRunStatus br'])" (is "_ = (out, ?cs)")
    using toPriming_calls [OF refl sample_alloc(4) sample_alloc(5) sample_alloc(2) sample_alloc(3)] by blast
  have rec: "Reconcile sample_lib alloc_kube (''n'', ''r'') [] = (out, ?cs)"
    unfolding Reconcile_read [OF sample_kube_get] reconcile_live [OF sample_live]
      on_phase_simps(2) [OF sample_alloc(1)] by (rule run)
  have mem: "CreatePod (owned_pod sample_lib alloc_run (oracle_pod (stamp_endpoints alloc_run))) \<in> set ?cs"
    by (simp add: run_pods_def)
  show ?thesis
    using pods_only_while_allocating [OF rec mem sample_lib_ok] rec mem by (auto simp: sample_kube_get)
qed

theorem finalizer_removed_after_pods_witness:
  "\<exists>br' out cs. Reconcile sample_lib (sample_kube (sample_run ''RUNNING'' (Some 9)) (Inr sample_submission_cr) [])
       (''n'', ''r'') [] = (out, cs) \<and> UpdateRun br' \<in> set cs
     \<and> list_pods (sample_kube (sample_run ''RUNNING'' (Some 9)) (Inr sample_submission_cr) [])
         [GetRun (''n'', ''r''), ListPods ''n'' ''r''] = Inr []"
proof -
  let ?br = "sample_run ''RUNNING'' (Some 9)"
  let ?api = "sample_kube ?br (Inr sample_submission_cr) []"
  let ?br' = "?br\<lparr>br_Meta := RemoveFinalizer sample_lib (br_Meta ?br) ironbookFinalizer\<rparr>"
  have ns: "run_ns ?br = ''n''" "run_name ?br = ''r''" "om_DeletionTimestamp (br_Meta ?br) = Some 9"
    by (simp_all add: sample_run_def run_ns_def run_name_def object_meta_def)
  have lst: "list_pods ?api h = Inr []" for h by (simp add: sample_kube_def)
  have rec: "Reconcile sample_lib ?api (''n'', ''r'') []
      = ((no_requeue, None), [GetRun (''n'', ''r''), ListPods ''n'' ''r'', UpdateRun ?br'])"
    unfolding Reconcile_read [OF sample_kube_get] reconcile_run_def handleDelete_def listOwnedPods_def
      run_act_defs ns
    by (simp add: lst) (simp add: sample_kube_def)
  have gone: "ironbookFinalizer \<notin> set (om_Finalizers (br_Meta ?br'))"
    by (simp add: sample_lib_def)
  from finalizer_removed_after_pods [OF rec _ gone sample_lib_ok] rec show ?thesis
    by (auto simp: sample_kube_get ns)
qed

theorem terminal_phases_are_final_witness:
  "Reconcile sample_lib (sample_kube (sample_run ''INVALID'' None) (Inr sample_submission_cr) []) (''n'', ''r'') []
     = ((no_requeue, None), [GetRun (''n'', ''r'')])"
  by (rule terminal_phases_are_final [OF sample_kube_get sample_live])
    (simp add: sample_alloc(1) terminal_phases_def)

theorem any_error_invalidates_witness:
  "\<exists>br' out. Reconcile sample_lib (sample_kube (sample_run ''PENDING'' None) (Inl (GoError ''etcd timeout'')) [])
       (''n'', ''r'') [] = (out, [GetRun (''n'', ''r''), GetSubmission (''n'', ''s''), UpdateRunStatus br'])
     \<and> run_phase br' = ''INVALID''"
  using any_error_invalidates [OF sample_kube_get [where s = "Inl (GoError ''etcd timeout'')" and ps = "[]"]
      sample_live sample_alloc(1), of "(''n'', ''r'')" "GoError ''etcd timeout''"]
  by (auto simp: sample_kube_def sample_run_def run_ns_def object_meta_def)

definition sample_coordinator :: "string \<Rightarrow> Pod" where
  "sample_coordinator ph =
     \<lparr>pod_Meta = podMeta (sample_run [] None) roleCoordinator, pod_Spec = zero_pod_spec,
      pod_Status = \<lparr>pst_Phase = ph, pst_Conditions = [(''Ready'', ''True'')]\<rparr>\<rparr>"

theorem run_without_success_waits_witness:
  "Reconcile sample_lib (sample_kube (sample_run ''RUNNING'' None) (Inr sample_submission_cr)
       [sample_coordinator ''Failed'']) (''n'', ''r'') []
     = ((requeue_after 5, None), [GetRun (''n'', ''r''), ListPods ''n'' ''r''])"
proof -
  let ?br = "sample_run ''RUNNING'' None"
  have "run_ns ?br = ''n''" "run_name ?br = ''r''"
    by (simp_all add: sample_run_def run_ns_def run_name_def object_meta_def)
  then show ?thesis
    using run_without_success_waits [where br = ?br and pods = "[sample_coordinator ''Failed'']"
        and api = "sample_kube ?br (Inr sample_submission_cr) [sample_coordinator ''Failed'']"
        and req = "(''n'', ''r'')", OF sample_kube_get sample_live sample_alloc(1)]
    by (simp add: sample_kube_def sample_coordinator_def)
qed

theorem allocation_resumes_witness:
  "\<exists>out cs br'. Reconcile sample_lib alloc_kube (''n'', ''r'') [] = (out, cs)
     \<and> last cs = UpdateRunStatus br' \<and> run_phase br' = ''PRIMING'' \<and> length cs = 11"
proof -
  obtain out br' where "Reconcile sample_lib alloc_kube (''n'', ''r'') [] =
       (out, [GetRun (''n'', ''r''), GetSubmission (run_ns alloc_run, brs_SubmissionRef (br_Spec alloc_run))]
          @ [GetScenario (run_ns alloc_run, brs_ScenarioRef (br_Spec alloc_run))]
          @ map (\<lambda>p. CreatePod (owned_pod sample_lib alloc_run p))
              (run_pods (stamp_endpoints alloc_run) sample_submission_cr sample_scenario)
          @ map (\<lambda>rp. CreateService (owned_service sample_lib alloc_run rp)) run_services
          @ [UpdateRunStatus br'])" and "run_phase br' = ''PRIMING''"
    using allocation_resumes [OF sample_kube_get sample_live sample_alloc(1) refl sample_alloc(4)
        sample_alloc(5) sample_alloc(2) sample_alloc(3), of "(''n'', ''r'')"] by blast
  then show ?thesis by (auto simp: run_pods_def run_services_def)
qed

text \<open>A run just accepted: created, then moved to \<^verbatim>\<open>PENDING\<close> by its first reconcile.\<close>

definition accepted_run :: BenchmarkRun where
  "accepted_run = set_phase sample_lib ''PENDING''
     (condition ''Initialized'' True ''Created'' ''BenchmarkRun accepted'') (sample_run [] None)"

lemma sample_history: "run_history sample_lib [sample_run [] None, accepted_run]"
proof -
  have base: "run_history sample_lib [sample_run [] None]"
    by (rule run_history.created) (simp add: fresh_run_def sample_defs)
  have "store_step sample_lib [sample_run [] None]
      ([sample_run [] None] @ [(last [sample_run [] None])\<lparr>br_Status := br_Status accepted_run\<rparr>])"
    by (rule store_step.status_written
        [where i = 0 and req = "(''n'', ''r'')" and api = "sample_kube (sample_run [] None) (Inr sample_submission_cr) []",
          OF _ _ sample_first_reconcile])
      (simp_all add: sample_kube_get accepted_run_def)
  moreover have "(sample_run [] None)\<lparr>br_Status := br_Status accepted_run\<rparr> = accepted_run"
    by (simp add: accepted_run_def set_phase_def)
  ultimately show ?thesis using run_history.stepped [OF base] by simp
qed

theorem phases_are_one_way_witness:
  "phase_rank (run_phase (sample_run [] None)) \<le> phase_rank (run_phase accepted_run)"
  using phases_are_one_way [OF sample_history sample_lib_ok, of 0 1] by simp

theorem run_status_consistent_witness: "run_ok accepted_run"
  using run_status_consistent [OF sample_history sample_lib_ok, of accepted_run] by simp

end
