(* ===== verification/Policy.thy ===== *)
theory Policy
  imports KubeTypes
begin

text \<open>
  \<^verbatim>\<open>apps/admission-webhook\<close>: the policy on submission pods (\<^verbatim>\<open>policy/policy.go\<close>) and the webhook
  that applies it (\<^verbatim>\<open>main.go\<close>).  \<open>compliant\<close> is the policy as a predicate on pods; the properties
  relate \<^verbatim>\<open>Validate\<close> to it.
\<close>

subsection \<open>\<^verbatim>\<open>Validate\<close>\<close>

record PolicyResult =
  pr_Allowed :: bool
  pr_Reason :: string

definition reject :: "string \<Rightarrow> PolicyResult" where
  "reject reason = \<lparr>pr_Allowed = False, pr_Reason = reason\<rparr>"

definition allowed :: PolicyResult where
  "allowed = \<lparr>pr_Allowed = True, pr_Reason = []\<rparr>"

fun containsCap :: "string list \<Rightarrow> string \<Rightarrow> bool" where
  "containsCap [] want = False"
| "containsCap (c # cs) want = (if c = want then True else containsCap cs want)"

text \<open>\<^verbatim>\<open>strings.Contains\<close>.\<close>

fun str_contains :: "string \<Rightarrow> string \<Rightarrow> bool" where
  "str_contains [] sub = (sub = [])"
| "str_contains (c # cs) sub = (prefix sub (c # cs) \<or> str_contains cs sub)"

lemma str_contains_iff: "str_contains s sub \<longleftrightarrow> sublist sub s"
  by (induction s) (auto simp: sublist_Cons_right)

text \<open>The body of the loop over the containers: the reason of a rejection, if any.\<close>

definition check_container :: "bool \<Rightarrow> Container \<Rightarrow> string option" where
  "check_container isTest c =
     (if \<not> isTest \<and> \<not> str_contains (ct_Image c) ''@sha256:''
        then Some ''container images must be pinned by digest (@sha256:...)''
      else (case ct_SecurityContext c of
        None \<Rightarrow> Some ''container missing securityContext''
      | Some sc \<Rightarrow>
          if sc_AllowPrivilegeEscalation sc = None \<or> the (sc_AllowPrivilegeEscalation sc)
            then Some ''allowPrivilegeEscalation must be false''
          else if sc_ReadOnlyRootFilesystem sc = None \<or> \<not> the (sc_ReadOnlyRootFilesystem sc)
            then Some ''readOnlyRootFilesystem must be true''
          else if sc_CapabilitiesDrop sc = None \<or> \<not> containsCap (the (sc_CapabilitiesDrop sc)) ''ALL''
            then Some ''capabilities.drop must include ALL''
          else None))"

fun check_containers :: "bool \<Rightarrow> Container list \<Rightarrow> string option" where
  "check_containers isTest [] = None"
| "check_containers isTest (c # cs) =
     (case check_container isTest c of Some r \<Rightarrow> Some r | None \<Rightarrow> check_containers isTest cs)"

fun check_volumes :: "Volume list \<Rightarrow> string option" where
  "check_volumes [] = None"
| "check_volumes (v # vs) =
     (case vol_Source v of
        HostPath p \<Rightarrow> Some ''hostPath volumes are not allowed in submission pods''
      | _ \<Rightarrow> check_volumes vs)"

definition Validate :: "Pod \<Rightarrow> PolicyResult" where
  "Validate pod =
     (let ls = om_Labels (pod_Meta pod); spec = pod_Spec pod;
          isTest = (label ls ''ironbook.io/test'' = ''true'')
      in
        if label ls ''app'' \<noteq> ''submission'' then allowed
        else if om_Namespace (pod_Meta pod) \<noteq> ''submissions'' then
          reject ''submission pods must live in the `submissions` namespace''
        else if ps_HostNetwork spec then reject ''hostNetwork must be false''
        else if ps_HostPID spec then reject ''hostPID must be false''
        else if ps_HostIPC spec then reject ''hostIPC must be false''
        else if \<not> isTest \<and> (ps_RuntimeClassName spec = None \<or> the (ps_RuntimeClassName spec) \<noteq> ''gvisor'') then
          reject ''submission pods must use runtimeClassName: gvisor''
        else if ps_SecurityContext spec = None
              \<or> psc_RunAsNonRoot (the (ps_SecurityContext spec)) = None
              \<or> \<not> the (psc_RunAsNonRoot (the (ps_SecurityContext spec))) then
          reject ''pod-level securityContext.runAsNonRoot must be true''
        else if length (ps_Containers spec) = 0 then
          reject ''submission pod must declare at least one container''
        else (case check_containers isTest (ps_Containers spec) of
          Some r \<Rightarrow> reject r
        | None \<Rightarrow>
            (case check_volumes (ps_Volumes spec) of Some r \<Rightarrow> reject r | None \<Rightarrow> allowed)))"

subsection \<open>The webhook\<close>

record AdmissionRequest =
  ar_UID :: string
  ar_Object :: bytes

record AdmissionResponse =
  ap_UID :: string
  ap_Allowed :: bool
  ap_Result :: "(nat \<times> string) option"

datatype webhook_response = WebhookError nat string | WebhookReview AdmissionResponse

text \<open>
  Decoding of the review and of the pod inside it are the parameters: \<open>decode_review\<close> gives the
  \<^verbatim>\<open>Request\<close> pointer of the body.
\<close>

definition handle :: "(bytes \<Rightarrow> AdmissionRequest option result) \<Rightarrow> (bytes \<Rightarrow> Pod result)
    \<Rightarrow> string \<Rightarrow> bytes \<Rightarrow> webhook_response" where
  "handle decode_review decode_pod http_method body =
     (if http_method \<noteq> ''POST'' then WebhookError StatusMethodNotAllowed ''method not allowed''
      else (case decode_review body of
        Inl err \<Rightarrow> WebhookError StatusBadRequest (error_text err)
      | Inr None \<Rightarrow> WebhookError StatusBadRequest ''missing AdmissionRequest''
      | Inr (Some req) \<Rightarrow>
          (case decode_pod (ar_Object req) of
             Inl err \<Rightarrow>
               WebhookReview \<lparr>ap_UID = ar_UID req, ap_Allowed = False,
                 ap_Result = Some (StatusBadRequest, ''could not decode Pod: '' @ error_text err)\<rparr>
           | Inr pod \<Rightarrow>
               (let res = Validate pod in
                WebhookReview \<lparr>ap_UID = ar_UID req, ap_Allowed = pr_Allowed res,
                  ap_Result = (if pr_Allowed res then None else Some (StatusForbidden, pr_Reason res))\<rparr>))))"

definition envOr :: "(string \<Rightarrow> string) \<Rightarrow> string \<Rightarrow> string \<Rightarrow> string" where
  "envOr Getenv key def = (let v = Getenv key in if v \<noteq> [] then v else def)"

text \<open>The settings \<^verbatim>\<open>main\<close> starts the server with: address, certificate and key path.\<close>

definition webhook_settings :: "(string \<Rightarrow> string) \<Rightarrow> string \<times> string \<times> string" where
  "webhook_settings Getenv =
     (envOr Getenv ''IRONBOOK_ADDR'' '':8443'',
      envOr Getenv ''IRONBOOK_TLS_CERT'' ''/tls/tls.crt'',
      envOr Getenv ''IRONBOOK_TLS_KEY'' ''/tls/tls.key'')"

subsection \<open>The policy as a predicate\<close>

definition hardened :: "Container \<Rightarrow> bool" where
  "hardened c \<longleftrightarrow>
     (\<exists>sc. ct_SecurityContext c = Some sc
        \<and> sc_AllowPrivilegeEscalation sc = Some False
        \<and> sc_ReadOnlyRootFilesystem sc = Some True
        \<and> (\<exists>caps. sc_CapabilitiesDrop sc = Some caps \<and> ''ALL'' \<in> set caps))"

definition compliant :: "bool \<Rightarrow> Pod \<Rightarrow> bool" where
  "compliant isTest pod \<longleftrightarrow>
     (let spec = pod_Spec pod in
        om_Namespace (pod_Meta pod) = ''submissions''
      \<and> \<not> ps_HostNetwork spec \<and> \<not> ps_HostPID spec \<and> \<not> ps_HostIPC spec
      \<and> (isTest \<or> ps_RuntimeClassName spec = Some ''gvisor'')
      \<and> (\<exists>psc. ps_SecurityContext spec = Some psc \<and> psc_RunAsNonRoot psc = Some True)
      \<and> ps_Containers spec \<noteq> []
      \<and> list_all (\<lambda>c. (isTest \<or> str_contains (ct_Image c) ''@sha256:'') \<and> hardened c) (ps_Containers spec)
      \<and> list_all (\<lambda>v. \<forall>p. vol_Source v \<noteq> HostPath p) (ps_Volumes spec))"

definition is_test_pod :: "Pod \<Rightarrow> bool" where
  "is_test_pod pod \<longleftrightarrow> label (om_Labels (pod_Meta pod)) ''ironbook.io/test'' = ''true''"

definition is_submission_pod :: "Pod \<Rightarrow> bool" where
  "is_submission_pod pod \<longleftrightarrow> label (om_Labels (pod_Meta pod)) ''app'' = ''submission''"

lemma containsCap_iff: "containsCap cs w \<longleftrightarrow> w \<in> set cs"
  by (induction cs) auto

lemma option_bool_simps:
  "(x = None \<or> the x) \<longleftrightarrow> x \<noteq> Some False" "(x = None \<or> \<not> the x) \<longleftrightarrow> x \<noteq> Some True"
  by (cases x; simp)+

lemma check_container_None:
  "check_container t c = None \<longleftrightarrow> (t \<or> str_contains (ct_Image c) ''@sha256:'') \<and> hardened c"
  by (cases "ct_SecurityContext c")
    (auto simp: check_container_def hardened_def containsCap_iff option_bool_simps)

lemma check_containers_None:
  "check_containers t cs = None \<longleftrightarrow>
     list_all (\<lambda>c. (t \<or> str_contains (ct_Image c) ''@sha256:'') \<and> hardened c) cs"
proof (induction cs)
  case (Cons c cs)
  show ?case using check_container_None [of t c] Cons.IH by (cases "check_container t c") auto
qed simp

lemma check_volumes_None: "check_volumes vs = None \<longleftrightarrow> list_all (\<lambda>v. \<forall>p. vol_Source v \<noteq> HostPath p) vs"
  by (induction vs) (auto split: volume_source.splits)

lemma allowed_simps [simp]:
  "pr_Allowed allowed" "pr_Reason allowed = []" "\<not> pr_Allowed (reject r)" "pr_Reason (reject r) = r"
  by (simp_all add: allowed_def reject_def)

lemma allowed_if:
  "pr_Allowed (if b then reject r else y) \<longleftrightarrow> \<not> b \<and> pr_Allowed y"
  "pr_Allowed (if b then allowed else y) \<longleftrightarrow> b \<or> pr_Allowed y"
  "pr_Allowed (case x of Some r \<Rightarrow> reject r | None \<Rightarrow> y) \<longleftrightarrow> x = None \<and> pr_Allowed y"
  by (simp_all split: option.splits)

lemma Validate_allowed:
  "pr_Allowed (Validate pod) \<longleftrightarrow> (\<not> is_submission_pod pod \<or> compliant (is_test_pod pod) pod)"
proof -
  have opt: "(ps_SecurityContext s \<noteq> None \<and> psc_RunAsNonRoot (the (ps_SecurityContext s)) = Some True)
      \<longleftrightarrow> (\<exists>psc. ps_SecurityContext s = Some psc \<and> psc_RunAsNonRoot psc = Some True)" for s
    by auto
  have rc: "(x = None \<or> the x \<noteq> v) \<longleftrightarrow> x \<noteq> Some v" for x :: "string option" and v
    by (cases x) auto
  show ?thesis
    unfolding Validate_def Let_def allowed_if compliant_def is_submission_pod_def is_test_pod_def
      check_containers_None check_volumes_None rc option_bool_simps opt [symmetric] length_0_conv
    by (simp only: de_Morgan_disj not_not simp_thms allowed_simps) blast
qed






subsection \<open>Properties\<close>


text \<open>
  Marking a pod as a test pod never makes the policy reject it, and
  waives the runtime class and the image digest only: an admitted test pod still satisfies every
  other constraint.
\<close>

theorem test_label_only_relaxes:
  assumes "is_submission_pod pod" and "is_test_pod pod" and "pr_Allowed (Validate pod)"
  shows "om_Namespace (pod_Meta pod) = ''submissions''
       \<and> \<not> ps_HostNetwork (pod_Spec pod) \<and> \<not> ps_HostPID (pod_Spec pod) \<and> \<not> ps_HostIPC (pod_Spec pod)
       \<and> list_all hardened (ps_Containers (pod_Spec pod)) \<and> ps_Containers (pod_Spec pod) \<noteq> []"
  using assms by (auto simp: Validate_allowed compliant_def Let_def list_all_iff)

text \<open>
  The policy does not look at init containers: whatever they are,
  privileged or unpinned, they change nothing in its answer.
\<close>

theorem init_containers_unchecked:
  "Validate (pod\<lparr>pod_Spec := (pod_Spec pod)\<lparr>ps_InitContainers := cs\<rparr>\<rparr>) = Validate pod"
  by (simp add: Validate_def Let_def cong: option.case_cong)

text \<open>
  A pod labelled \<^verbatim>\<open>app=submission\<close> outside the namespace
  \<^verbatim>\<open>submissions\<close> is rejected, not allowed.
\<close>

theorem other_namespaces_rejected:
  assumes "is_submission_pod pod" and "om_Namespace (pod_Meta pod) \<noteq> ''submissions''"
  shows "Validate pod = reject ''submission pods must live in the `submissions` namespace''"
  using assms by (simp add: Validate_def Let_def is_submission_pod_def)

text \<open>
  Every review that decodes is answered with the request's own
  UID; the pod is allowed exactly when it decodes and the policy admits it, and every refusal
  carries a status, 403 with the policy's reason or 400 for a pod that does not decode.
\<close>

theorem webhook_answers_its_request:
  assumes "decode_review body = Inr (Some req)"
  shows "\<exists>resp. handle decode_review decode_pod ''POST'' body = WebhookReview resp
       \<and> ap_UID resp = ar_UID req
       \<and> ap_Allowed resp = (case decode_pod (ar_Object req) of Inl e \<Rightarrow> False | Inr pod \<Rightarrow> pr_Allowed (Validate pod))
       \<and> (ap_Result resp =
            (case decode_pod (ar_Object req) of
               Inl e \<Rightarrow> Some (400, ''could not decode Pod: '' @ error_text e)
             | Inr pod \<Rightarrow> if pr_Allowed (Validate pod) then None else Some (403, pr_Reason (Validate pod))))"
  using assms by (simp add: handle_def Let_def http_status_defs split: sum.splits)

definition sample_pod :: "string \<Rightarrow> Pod" where
  "sample_pod ns =
     \<lparr>pod_Meta = object_meta ''s'' ns [''app'' \<mapsto> ''submission'', ''ironbook.io/test'' \<mapsto> ''true''],
      pod_Spec = zero_pod_spec\<lparr>
        ps_SecurityContext := Some \<lparr>psc_RunAsNonRoot = Some True, psc_RunAsUser = None,
          psc_RunAsGroup = None, psc_SeccompProfile = None\<rparr>,
        ps_Containers := [zero_container\<lparr>ct_Image := ''busybox'', ct_SecurityContext := Some
          \<lparr>sc_AllowPrivilegeEscalation = Some False, sc_ReadOnlyRootFilesystem = Some True,
           sc_CapabilitiesDrop = Some [''ALL'']\<rparr>\<rparr>]\<rparr>,
      pod_Status = zero_pod_status\<rparr>"

theorem test_label_only_relaxes_witness:
  "list_all hardened (ps_Containers (pod_Spec (sample_pod ''submissions'')))"
  using test_label_only_relaxes [of "sample_pod ''submissions''"]
  by (simp add: sample_pod_def is_submission_pod_def is_test_pod_def Validate_def Let_def
      kube_zero_defs check_container_def)

theorem other_namespaces_rejected_witness:
  "Validate (sample_pod ''default'') = reject ''submission pods must live in the `submissions` namespace''"
  by (rule other_namespaces_rejected) (simp_all add: sample_pod_def is_submission_pod_def kube_zero_defs)

theorem webhook_answers_its_request_witness:
  "\<exists>resp. handle (\<lambda>_. Inr (Some \<lparr>ar_UID = ''u1'', ar_Object = []\<rparr>)) (\<lambda>_. Inr (sample_pod ''default''))
       ''POST'' [] = WebhookReview resp
     \<and> ap_UID resp = ''u1'' \<and> \<not> ap_Allowed resp"
  using webhook_answers_its_request [where decode_review = "\<lambda>_. Inr (Some \<lparr>ar_UID = ''u1'', ar_Object = []\<rparr>)"
      and body = "[]" and req = "\<lparr>ar_UID = ''u1'', ar_Object = []\<rparr>"
      and decode_pod = "\<lambda>_. Inr (sample_pod ''default'')"]
  by (auto simp: sample_pod_def Validate_def Let_def kube_zero_defs)

end
