(* ===== verification/Coordinator.thy ===== *)
theory Coordinator
  imports Codec Sha256 Strconv
begin

text \<open>
  \<^verbatim>\<open>apps/bot-coordinator\<close>: the schedule compiler (\<^verbatim>\<open>coordinator/schedule.go\<close>), the dispatcher
  (\<^verbatim>\<open>coordinator/dispatcher.go\<close>) and \<^verbatim>\<open>main.go\<close>.

  The generator behind \<^verbatim>\<open>rand.NewSource(seed)\<close> is a parameter: \<open>draws seed k\<close> is the \<open>k\<close>-th
  value of \<^verbatim>\<open>Int31()\<close>.  \<^verbatim>\<open>Intn\<close> is written out over it, with its rejection loop, so the number
  of draws an event costs is not fixed; \<open>None\<close> is a loop that never ends.  The state threaded
  through is the number of draws taken.
\<close>

subsection \<open>\<^verbatim>\<open>rand.Intn\<close>\<close>

type_synonym draws = "nat \<Rightarrow> nat"

partial_function (option) reject_loop :: "draws \<Rightarrow> nat \<Rightarrow> nat \<Rightarrow> (nat \<times> nat) option" where
  "reject_loop dr mx k = (if dr k \<le> mx then Some (dr k, Suc k) else reject_loop dr mx (Suc k))"

text \<open>\<^verbatim>\<open>Int31n\<close>: a mask for powers of two, otherwise draws above the last full multiple are rejected.\<close>

definition Intn :: "draws \<Rightarrow> nat \<Rightarrow> nat \<Rightarrow> (nat \<times> nat) option" where
  "Intn dr n k =
     (if n AND (n - 1) = 0 then Some (dr k AND (n - 1), Suc k)
      else (case reject_loop dr (2 ^ 31 - 1 - 2 ^ 31 mod n) k of
              None \<Rightarrow> None
            | Some (v, k') \<Rightarrow> Some (v mod n, k')))"

subsection \<open>The schedule\<close>

record OrderSpec =
  os_Side :: string
  os_OrderType :: string
  os_TIF :: string
  os_Qty :: u64
  os_Price :: i64

record Event =
  e_OffsetNs :: u64
  e_BotID :: u64
  e_Order :: OrderSpec

definition sides :: "string list" where
  "sides = [''bid'', ''ask'']"

text \<open>One iteration of the loop, its four draws in the order of the composite literal.\<close>

definition compile_slot :: "draws \<Rightarrow> nat \<Rightarrow> nat \<Rightarrow> (Event \<times> nat) option" where
  "compile_slot dr i k0 =
     (case Intn dr 8 k0 of None \<Rightarrow> None | Some (b, k1) \<Rightarrow>
      (case Intn dr 2 k1 of None \<Rightarrow> None | Some (s, k2) \<Rightarrow>
      (case Intn dr 20 k2 of None \<Rightarrow> None | Some (q, k3) \<Rightarrow>
      (case Intn dr 20 k3 of None \<Rightarrow> None | Some (p, k4) \<Rightarrow>
         Some (\<lparr>e_OffsetNs = of_nat i * 1000000,
                e_BotID = of_nat (b + 1),
                e_Order = \<lparr>os_Side = sides ! s, os_OrderType = ''limit'', os_TIF = ''gtc'',
                  os_Qty = of_nat (1 + q), os_Price = 90 + of_nat p\<rparr>\<rparr>, k4)))))"

text \<open>The loop from slot \<open>i\<close> on, for \<open>n\<close> slots.\<close>

fun compile_loop :: "draws \<Rightarrow> nat \<Rightarrow> nat \<Rightarrow> nat \<Rightarrow> Event list option" where
  "compile_loop dr i 0 k = Some []"
| "compile_loop dr i (Suc n) k =
     (case compile_slot dr i k of
        None \<Rightarrow> None
      | Some (e, k') \<Rightarrow> map_option ((#) e) (compile_loop dr (Suc i) n k'))"

definition total_slots :: "i64 \<Rightarrow> nat" where
  "total_slots durationSec = nat (sint (durationSec * 1000))"

definition Compile :: "(i64 \<Rightarrow> draws) \<Rightarrow> string \<Rightarrow> i64 \<Rightarrow> i64 \<Rightarrow> Event list option" where
  "Compile draws yamlSpec seed durationSec = compile_loop (draws seed) 0 (total_slots durationSec) 0"

definition event_bytes :: "Event \<Rightarrow> bytes" where
  "event_bytes e =
     le64 (e_OffsetNs e) @ le64 (e_BotID e) @ le64 (os_Qty (e_Order e)) @ le64 (os_Price (e_Order e))
     @ text_bytes (os_Side (e_Order e)) @ text_bytes (os_OrderType (e_Order e)) @ text_bytes (os_TIF (e_Order e))"

definition ScheduleHash :: "Event list \<Rightarrow> string" where
  "ScheduleHash es = sha256_hex (concat (map event_bytes es))"

subsection \<open>The dispatcher\<close>

text \<open>
  What the run meets at event \<open>i\<close>: the clock when it is reached, whether a wait for it is ended
  by the context, the error of the post, and the state of the context after it.
\<close>

record dispatch_env =
  start_at :: int
  reached_at :: "nat \<Rightarrow> int"
  wait_cancelled :: "nat \<Rightarrow> go_error option"
  post_error :: "nat \<Rightarrow> go_error option"
  ctx_error :: "nat \<Rightarrow> go_error option"

datatype json_value = JNum int | JStr string

text \<open>The body of one post, by the keys of its map.\<close>

definition post_body :: "Event \<Rightarrow> (string \<times> json_value) list" where
  "post_body e =
     [(''bot_id'', JNum (uint (e_BotID e))),
      (''local_seq'', JNum (uint (e_OffsetNs e))),
      (''side'', JStr (os_Side (e_Order e))),
      (''qty'', JNum (uint (os_Qty (e_Order e)))),
      (''price'', JNum (sint (os_Price (e_Order e)))),
      (''order_type'', JStr (os_OrderType (e_Order e))),
      (''tif'', JStr (os_TIF (e_Order e)))]"

fun dispatch_from :: "dispatch_env \<Rightarrow> nat \<Rightarrow> Event list
    \<Rightarrow> go_error option \<times> (string \<times> json_value) list list" where
  "dispatch_from ev i [] = (None, [])"
| "dispatch_from ev i (e # es) =
     (let dt = start_at ev + sint (e_OffsetNs e) - reached_at ev i in
      if 0 < dt \<and> wait_cancelled ev i \<noteq> None then (wait_cancelled ev i, [])
      else if post_error ev i \<noteq> None \<and> ctx_error ev i \<noteq> None then (ctx_error ev i, [post_body e])
      else (let (err, posts) = dispatch_from ev (Suc i) es in (err, post_body e # posts)))"

definition Run :: "string \<Rightarrow> dispatch_env \<Rightarrow> Event list
    \<Rightarrow> go_error option \<times> (string \<times> json_value) list list" where
  "Run GatewayURL ev es =
     (if GatewayURL = [] then (Some (GoError ''dispatcher: GatewayURL is required''), [])
      else dispatch_from ev 0 es)"

subsection \<open>\<^verbatim>\<open>main\<close>\<close>

text \<open>
  How the process ends: \<open>Fatal\<close> is a non-zero exit with its message, \<open>Finished\<close> exit 0 with the
  posts that were made.  \<open>ctx_end\<close> is \<^verbatim>\<open>ctx.Err()\<close> after the run.
\<close>

datatype main_exit = Fatal string | Finished "(string \<times> json_value) list list"

definition coordinator_main :: "(i64 \<Rightarrow> draws) \<Rightarrow> (string \<Rightarrow> string) \<Rightarrow> dispatch_env
    \<Rightarrow> go_error option \<Rightarrow> main_exit option" where
  "coordinator_main draws Getenv ev ctx_end =
     (case ParseInt (Getenv ''IRONBOOK_SCENARIO_SEED'') of
        Inl err \<Rightarrow> Some (Fatal (''IRONBOOK_SCENARIO_SEED: '' @ error_text err))
      | Inr seed \<Rightarrow>
     (case ParseInt (Getenv ''IRONBOOK_DURATION_SECONDS'') of
        Inl err \<Rightarrow> Some (Fatal (''IRONBOOK_DURATION_SECONDS: '' @ error_text err))
      | Inr dur \<Rightarrow>
     (if Getenv ''IRONBOOK_GATEWAY_URL'' = [] then Some (Fatal ''IRONBOOK_GATEWAY_URL is required'')
      else (case Compile draws (Getenv ''IRONBOOK_SCENARIO_YAML'') seed dur of
        None \<Rightarrow> None
      | Some events \<Rightarrow>
          (case Run (Getenv ''IRONBOOK_GATEWAY_URL'') ev events of
             (Some err, posts) \<Rightarrow>
               if ctx_end = None then Some (Fatal (''dispatcher: '' @ error_text err)) else Some (Finished posts)
           | (None, posts) \<Rightarrow> Some (Finished posts))))))"

subsection \<open>Draws\<close>

text \<open>What is asked of the generator for the rejection loop to end: it keeps producing small values.\<close>

definition accepts_often :: "draws \<Rightarrow> bool" where
  "accepts_often dr \<longleftrightarrow> (\<forall>k. \<exists>j \<ge> k. dr j \<le> 2147483639)"

lemma reject_loop_now: "dr k \<le> mx \<Longrightarrow> reject_loop dr mx k = Some (dr k, Suc k)"
  by (subst reject_loop.simps) simp

lemma reject_loop_later: "\<not> dr k \<le> mx \<Longrightarrow> reject_loop dr mx k = reject_loop dr mx (Suc k)"
  by (subst reject_loop.simps) simp

lemma reject_loop_ends:
  assumes "k \<le> j" "dr j \<le> mx"
  shows "\<exists>v k'. reject_loop dr mx k = Some (v, k')"
  using assms(1)
proof (induction "j - k" arbitrary: k)
  case 0
  then have "k = j" by simp
  then show ?case using assms(2) reject_loop_now by auto
next
  case (Suc d)
  show ?case
  proof (cases "dr k \<le> mx")
    case True
    then show ?thesis using reject_loop_now by auto
  next
    case False
    then have "k \<noteq> j" using assms(2) by auto
    then show ?thesis using Suc.hyps(1) [of "Suc k"] Suc.hyps(2) Suc.prems False
      by (simp add: reject_loop_later)
  qed
qed

lemma Intn_pow2: "Intn dr 2 k = Some (dr k mod 2, Suc k)" "Intn dr 8 k = Some (dr k mod 8, Suc k)"
proof -
  have "dr k AND 1 = dr k mod 2" by (simp add: and_one_eq)
  moreover have "dr k AND 7 = dr k mod 8"
    using take_bit_eq_mask [of 3 "dr k"] by (simp add: take_bit_eq_mod mask_eq_exp_minus_1)
  ultimately show "Intn dr 2 k = Some (dr k mod 2, Suc k)" "Intn dr 8 k = Some (dr k mod 8, Suc k)"
    by (simp_all add: Intn_def)
qed

lemma Intn_20: "Intn dr 20 k = (case reject_loop dr 2147483639 k of None \<Rightarrow> None | Some (v, k') \<Rightarrow> Some (v mod 20, k'))"
  by (simp add: Intn_def)

lemma Intn_20_bound: "Intn dr 20 k = Some (v, k') \<Longrightarrow> v < 20"
  by (auto simp: Intn_20 split: option.splits)

lemma Intn_20_ends: "accepts_often dr \<Longrightarrow> \<exists>v k'. Intn dr 20 k = Some (v, k')"
  using reject_loop_ends [of k _ dr 2147483639] unfolding accepts_often_def Intn_20
  by (metis case_prod_conv option.simps(5))

subsection \<open>Compiled events\<close>

definition slot_event :: "nat \<Rightarrow> Event \<Rightarrow> bool" where
  "slot_event i e \<longleftrightarrow>
     e_OffsetNs e = of_nat i * 1000000
   \<and> (\<exists>b < 8. e_BotID e = of_nat (b + 1))
   \<and> os_Side (e_Order e) \<in> set sides \<and> os_OrderType (e_Order e) = ''limit'' \<and> os_TIF (e_Order e) = ''gtc''
   \<and> (\<exists>q < 20. os_Qty (e_Order e) = of_nat (1 + q))
   \<and> (\<exists>p < 20. os_Price (e_Order e) = 90 + of_nat p)"

definition tradable :: "Event \<Rightarrow> bool" where
  "tradable e \<longleftrightarrow>
     unat (e_BotID e) \<in> {1..8} \<and> os_Side (e_Order e) \<in> {''bid'', ''ask''}
   \<and> unat (os_Qty (e_Order e)) \<in> {1..20} \<and> sint (os_Price (e_Order e)) \<in> {90..109}"

lemma compile_slot_event: "compile_slot dr i k = Some (e, k') \<Longrightarrow> slot_event i e"
proof -
  assume "compile_slot dr i k = Some (e, k')"
  then obtain q k3 p where q: "Intn dr 20 (Suc (Suc k)) = Some (q, k3)" and p: "Intn dr 20 k3 = Some (p, k')"
    and e: "e = \<lparr>e_OffsetNs = of_nat i * 1000000, e_BotID = of_nat (dr k mod 8 + 1),
        e_Order = \<lparr>os_Side = sides ! (dr (Suc k) mod 2), os_OrderType = ''limit'', os_TIF = ''gtc'',
          os_Qty = of_nat (1 + q), os_Price = 90 + of_nat p\<rparr>\<rparr>"
    by (auto simp: compile_slot_def Intn_pow2 split: option.splits)
  have "sides ! (dr (Suc k) mod 2) \<in> set sides"
    by (intro nth_mem) (simp add: sides_def)
  then show ?thesis
    using Intn_20_bound [OF q] Intn_20_bound [OF p]
    unfolding slot_event_def e by (auto intro: exI [of _ "dr k mod 8"])
qed

lemma compile_loop_events:
  "compile_loop dr i n k = Some es \<Longrightarrow> length es = n \<and> (\<forall>j < n. slot_event (i + j) (es ! j))"
proof (induction n arbitrary: i k es)
  case (Suc n)
  then obtain e k' fs where e: "compile_slot dr i k = Some (e, k')"
    and fs: "compile_loop dr (Suc i) n k' = Some fs" "es = e # fs"
    by (auto split: option.splits)
  have "slot_event (i + j) (es ! j)" if "j < Suc n" for j
    using that Suc.IH [OF fs(1)] compile_slot_event [OF e] fs(2) by (cases j) auto
  then show ?case using Suc.IH [OF fs(1)] fs(2) by simp
qed simp

lemma compile_loop_ends: "accepts_often dr \<Longrightarrow> \<exists>es. compile_loop dr i n k = Some es"
proof (induction n arbitrary: i k)
  case (Suc n)
  obtain q k3 where "Intn dr 20 (Suc (Suc k)) = Some (q, k3)" using Intn_20_ends [OF Suc.prems] by blast
  moreover obtain p k4 where "Intn dr 20 k3 = Some (p, k4)" using Intn_20_ends [OF Suc.prems] by blast
  ultimately show ?case using Suc.IH [OF Suc.prems, of "Suc i" k4]
    by (auto simp: compile_slot_def Intn_pow2)
qed simp

lemma compile_loop_prefix:
  "compile_loop dr i (n + m) k = Some es \<Longrightarrow> compile_loop dr i n k = Some (take n es)"
proof (induction n arbitrary: i k es)
  case (Suc n)
  then show ?case by (auto split: option.splits)
qed simp

lemma slot_offset: "slot_event i e \<Longrightarrow> i * 1000000 < 2 ^ 64 \<Longrightarrow> unat (e_OffsetNs e) = i * 1000000"
proof -
  assume "slot_event i e" and lt: "i * 1000000 < 2 ^ 64"
  then have "e_OffsetNs e = of_nat (i * 1000000)" by (simp add: slot_event_def)
  with lt show ?thesis by (simp only: unat_of_nat) simp
qed

lemma slots_fit:
  assumes "total_slots dur \<le> 2147483647000" "i < total_slots dur"
  shows "i * 1000000 < 2 ^ 63"
  using assms by simp

subsection \<open>The hash\<close>

lemma event_bytes_inj:
  assumes "slot_event i a" "slot_event j b" "event_bytes a = event_bytes b"
  shows "a = b"
proof -
  have ty: "os_OrderType (e_Order a) = os_OrderType (e_Order b)" "os_TIF (e_Order a) = os_TIF (e_Order b)"
    using assms(1,2) by (simp_all add: slot_event_def)
  have len: "length (text_bytes (os_Side (e_Order a))) = length (text_bytes (os_Side (e_Order b)))"
    using assms(1,2) by (auto simp: slot_event_def sides_def)
  have eq: "e_OffsetNs a = e_OffsetNs b" "e_BotID a = e_BotID b" "os_Qty (e_Order a) = os_Qty (e_Order b)"
    "os_Price (e_Order a) = os_Price (e_Order b)" "text_bytes (os_Side (e_Order a)) = text_bytes (os_Side (e_Order b))"
    using assms(3) append_eq_same_length [OF len] by (simp_all add: event_bytes_def le64.enc_append_inj ty)
  then have "e_Order a = e_Order b" using ty by (simp add: text_bytes_inj)
  then show ?thesis using eq by simp
qed

definition block43 :: "Event \<Rightarrow> bytes" where
  "block43 e = (if \<exists>i. slot_event i e then event_bytes e else replicate 43 0)"

lemma block43_length: "length (block43 e) = 43"
  by (auto simp: block43_def event_bytes_def slot_event_def sides_def)

lemma schedule_bytes_inj:
  assumes "\<forall>e \<in> set as. \<exists>i. slot_event i e" "\<forall>e \<in> set bs. \<exists>i. slot_event i e"
    and "concat (map event_bytes as) = concat (map event_bytes bs)"
  shows "as = bs"
proof -
  have m: "map event_bytes as = map block43 as" "map event_bytes bs = map block43 bs"
    using assms(1,2) by (simp_all add: block43_def)
  have "map block43 as = map block43 bs"
    using concat_blocks_inj [of block43 43 as bs] block43_length assms(3) m by simp
  then have "map event_bytes as = map event_bytes bs" using m by simp
  moreover have "inj_on event_bytes (set as \<union> set bs)"
    using event_bytes_inj assms(1,2) by (intro inj_onI) blast
  ultimately show ?thesis by (simp add: inj_on_map_eq_map)
qed

lemma Compile_events:
  assumes "Compile draws yaml seed dur = Some es"
  shows "length es = total_slots dur" and "\<And>j. j < total_slots dur \<Longrightarrow> slot_event j (es ! j)"
  using compile_loop_events [of "draws seed" 0 "total_slots dur" 0 es] assms by (simp_all add: Compile_def)

lemma Compile_slots: "Compile draws yaml seed dur = Some es \<Longrightarrow> \<forall>e \<in> set es. \<exists>i. slot_event i e"
  using Compile_events by (metis in_set_conv_nth)

subsection \<open>Dispatching\<close>

lemma dispatch_prefix: "\<exists>n \<le> length es. snd (dispatch_from ev i es) = map post_body (take n es)"
proof (induction es arbitrary: i)
  case (Cons e es)
  obtain n where n: "n \<le> length es" "snd (dispatch_from ev (Suc i) es) = map post_body (take n es)"
    using Cons.IH by blast
  have "\<exists>m \<le> Suc (length es). snd (dispatch_from ev i (e # es)) = map post_body (take m (e # es))"
  proof (cases "0 < start_at ev + sint (e_OffsetNs e) - reached_at ev i \<and> wait_cancelled ev i \<noteq> None")
    case True
    then show ?thesis by (auto simp: Let_def intro: exI [of _ 0])
  next
    case w: False
    show ?thesis
    proof (cases "post_error ev i \<noteq> None \<and> ctx_error ev i \<noteq> None")
      case True
      with w show ?thesis by (auto simp: Let_def intro: exI [of _ 1])
    next
      case False
      with w n have "snd (dispatch_from ev i (e # es)) = map post_body (take (Suc n) (e # es))"
        by (auto simp: Let_def case_prod_unfold)
      then show ?thesis using n(1) by blast
    qed
  qed
  then show ?case by simp
qed simp

lemma dispatch_error:
  "fst (dispatch_from ev i es) = Some err \<Longrightarrow> \<exists>j. wait_cancelled ev j = Some err \<or> ctx_error ev j = Some err"
proof (induction es arbitrary: i)
  case (Cons e es)
  then show ?case by (auto simp: Let_def case_prod_unfold split: if_splits)
qed simp

lemma dispatch_all:
  "\<forall>j. wait_cancelled ev j = None \<and> ctx_error ev j = None \<Longrightarrow> dispatch_from ev i es = (None, map post_body es)"
  by (induction es arbitrary: i) (simp_all add: Let_def)

subsection \<open>Properties\<close>

text \<open>
  C27 (schedule_is_well_formed): for any duration an \<^verbatim>\<open>int32\<close> of seconds allows, and a generator whose
  rejection loop ends, the compiler returns one event per millisecond slot, at strictly increasing
  offsets, with bot ids 1 to 8, quantities 1 to 20, prices 90 to 109 and both sides only (\<open>tradable\<close>).
\<close>

theorem schedule_is_well_formed:
  assumes "accepts_often (draws seed)" and "total_slots dur \<le> 2147483647000"
  shows "\<exists>es. Compile draws yaml seed dur = Some es \<and> length es = total_slots dur
       \<and> sorted_wrt (\<lambda>a b. e_OffsetNs a < e_OffsetNs b) es
       \<and> list_all tradable es"
proof -
  obtain es where c: "Compile draws yaml seed dur = Some es"
    using compile_loop_ends [OF assms(1)] unfolding Compile_def by blast
  note ev = Compile_events [OF c]
  have off: "unat (e_OffsetNs (es ! j)) = j * 1000000" if "j < length es" for j
    using slot_offset [OF ev(2)] slots_fit [OF assms(2)] that ev(1) by fastforce
  have "sorted_wrt (\<lambda>a b. e_OffsetNs a < e_OffsetNs b) es"
    unfolding sorted_wrt_iff_nth_less by (auto simp: word_less_nat_alt off)
  moreover have "tradable e" if sl: "slot_event i e" for i e
  proof -
    obtain b where b: "b < 8" "e_BotID e = of_nat (b + 1)" using sl by (auto simp: slot_event_def)
    obtain q where q: "q < 20" "os_Qty (e_Order e) = of_nat (1 + q)" using sl by (auto simp: slot_event_def)
    obtain p where p: "p < 20" "os_Price (e_Order e) = 90 + of_nat p" using sl by (auto simp: slot_event_def)
    have "unat (e_BotID e) = b + 1" using b by (simp only: unat_of_nat) simp
    moreover have "unat (os_Qty (e_Order e)) = 1 + q" using q by (simp only: unat_of_nat) simp
    moreover have "sint (os_Price (e_Order e)) = 90 + int p"
    proof -
      have "os_Price (e_Order e) = word_of_int (90 + int p)" using p(2) by simp
      then show ?thesis using p(1) by (simp only: signed_of_int) (simp add: signed_take_bit_int_eq_self)
    qed
    moreover have "os_Side (e_Order e) \<in> {''bid'', ''ask''}" using sl by (simp add: slot_event_def sides_def)
    ultimately show ?thesis unfolding tradable_def using b(1) q(1) p(1) by simp
  qed
  ultimately show ?thesis
    using c ev(1) Compile_slots [OF c] by (auto simp: list_all_iff)
qed

text \<open>
  A longer run with the same seed starts with the events of the shorter one,
  whatever the scenario documents are: the schedule is a function of seed and duration alone.
\<close>

theorem schedule_extends:
  assumes "Compile draws yaml seed long = Some es" and "total_slots short \<le> total_slots long"
  shows "Compile draws yaml' seed short = Some (take (total_slots short) es)"
proof -
  obtain m where "total_slots long = total_slots short + m" using assms(2) le_Suc_ex by blast
  then show ?thesis using assms(1) compile_loop_prefix by (simp add: Compile_def)
qed

text \<open>
  The hashes of two compiled schedules, of any seeds and durations,
  are equal exactly when the schedules are, unless SHA-256 collides.
\<close>

theorem schedule_hash_identifies:
  assumes "Compile draws yaml seed dur = Some as" and "Compile draws' yaml' seed' dur' = Some bs"
  shows "ScheduleHash as = ScheduleHash bs \<longleftrightarrow>
     as = bs \<or> sha256_collision (concat (map event_bytes as)) (concat (map event_bytes bs))"
proof -
  have "concat (map event_bytes as) = concat (map event_bytes bs) \<longleftrightarrow> as = bs"
    using schedule_bytes_inj [OF Compile_slots [OF assms(1)] Compile_slots [OF assms(2)]] by auto
  then show ?thesis
    using sha256_hex_eqD [of "concat (map event_bytes as)" "concat (map event_bytes bs)"]
    by (auto simp: ScheduleHash_def sha256_collision_def sha256_hex_def)
qed

text \<open>
  The encoding that is hashed is not injective on events in general:
  the strings of an order are written without lengths, so moving characters between side and type,
  in any event of any schedule, does not change the hash.
\<close>

definition with_strings :: "Event \<Rightarrow> string \<Rightarrow> string \<Rightarrow> Event" where
  "with_strings e s t = e\<lparr>e_Order := (e_Order e)\<lparr>os_Side := s, os_OrderType := t\<rparr>\<rparr>"

theorem schedule_hash_is_ambiguous:
  assumes "s @ t = s' @ t'"
  shows "ScheduleHash (xs @ with_strings e s t # ys) = ScheduleHash (xs @ with_strings e s' t' # ys)"
proof -
  have "text_bytes s @ text_bytes t = text_bytes s' @ text_bytes t'"
    using assms by (metis text_bytes_append)
  then have "event_bytes (with_strings e s t) = event_bytes (with_strings e s' t')"
    unfolding event_bytes_def with_strings_def by simp
  then show ?thesis by (simp add: ScheduleHash_def)
qed

text \<open>
  The dispatcher posts events in schedule order without skipping one, up to
  where it stops; it stops early only with the error of its context, and without one it posts every
  event, however the gateway answers.
\<close>

theorem dispatch_in_order:
  assumes "url \<noteq> []"
  shows "(\<exists>n \<le> length es. snd (Run url ev es) = map post_body (take n es))
       \<and> (\<forall>err. fst (Run url ev es) = Some err \<longrightarrow> (\<exists>j. wait_cancelled ev j = Some err \<or> ctx_error ev j = Some err))
       \<and> ((\<forall>j. wait_cancelled ev j = None \<and> ctx_error ev j = None) \<longrightarrow> Run url ev es = (None, map post_body es))"
  using assms dispatch_prefix [of es ev 0] dispatch_error [of ev 0 es] dispatch_all [of ev 0 es]
  by (simp add: Run_def)

text \<open>
  A coordinator told to terminate in the middle of its schedule exits
  with status 0, as one that has dispatched everything does: here without a single post.
\<close>

theorem cancelled_run_exits_zero:
  assumes "ParseInt (Getenv ''IRONBOOK_SCENARIO_SEED'') = Inr seed"
    and "ParseInt (Getenv ''IRONBOOK_DURATION_SECONDS'') = Inr dur"
    and "Getenv ''IRONBOOK_GATEWAY_URL'' \<noteq> []"
    and "Compile draws (Getenv ''IRONBOOK_SCENARIO_YAML'') seed dur = Some (e # es)"
    and "reached_at ev 0 < start_at ev + sint (e_OffsetNs e)" and "wait_cancelled ev 0 = Some err"
  shows "coordinator_main draws Getenv ev (Some err) = Some (Finished [])"
  using assms by (simp add: coordinator_main_def Run_def Let_def)

definition sample_draws :: "i64 \<Rightarrow> draws" where
  "sample_draws seed k = k mod 100"

lemma sample_accepts: "accepts_often (sample_draws seed)"
proof -
  have "sample_draws seed k \<le> 2147483639" for k
    unfolding sample_draws_def by (rule order_trans [of _ 99]) simp_all
  then show ?thesis by (auto simp: accepts_often_def)
qed

lemma sample_slots: "total_slots 2 = 2000" "total_slots 1 = 1000"
  by (simp_all add: total_slots_def sint_word_ariths)

theorem schedule_is_well_formed_witness:
  "\<exists>es. Compile sample_draws ''any'' 7 2 = Some es \<and> length es = 2000"
  using schedule_is_well_formed [where draws = sample_draws and seed = 7 and dur = 2 and yaml = "''any''",
      OF sample_accepts] sample_slots by auto

theorem schedule_extends_witness:
  "\<exists>es. Compile sample_draws ''a'' 7 2 = Some es \<and> Compile sample_draws ''b'' 7 1 = Some (take 1000 es)"
proof -
  obtain es where es: "Compile sample_draws ''a'' 7 2 = Some es"
    using compile_loop_ends [OF sample_accepts] unfolding Compile_def by blast
  then show ?thesis using schedule_extends [OF es, of 1 "''b''"] sample_slots by auto
qed

theorem schedule_hash_identifies_witness:
  "\<exists>as bs. Compile sample_draws ''a'' 7 1 = Some as \<and> Compile sample_draws ''b'' 8 2 = Some bs
     \<and> (ScheduleHash as = ScheduleHash bs \<longleftrightarrow>
          as = bs \<or> sha256_collision (concat (map event_bytes as)) (concat (map event_bytes bs)))"
proof -
  obtain as where as: "Compile sample_draws ''a'' 7 1 = Some as"
    using compile_loop_ends [OF sample_accepts] unfolding Compile_def by blast
  obtain bs where bs: "Compile sample_draws ''b'' 8 2 = Some bs"
    using compile_loop_ends [OF sample_accepts] unfolding Compile_def by blast
  show ?thesis using as bs schedule_hash_identifies [OF as bs] by blast
qed

theorem schedule_hash_is_ambiguous_witness:
  "\<forall>e. ScheduleHash [with_strings e ''bid'' ''limit''] = ScheduleHash [with_strings e ''bidl'' ''imit'']
     \<and> with_strings e ''bid'' ''limit'' \<noteq> with_strings e ''bidl'' ''imit''"
proof (intro allI conjI)
  fix e
  show "ScheduleHash [with_strings e ''bid'' ''limit''] = ScheduleHash [with_strings e ''bidl'' ''imit'']"
    using schedule_hash_is_ambiguous [of "''bid''" "''limit''" "''bidl''" "''imit''" "[]" e "[]"] by simp
  have "os_Side (e_Order (with_strings e ''bid'' ''limit'')) \<noteq> os_Side (e_Order (with_strings e ''bidl'' ''imit''))"
    by (simp add: with_strings_def)
  then show "with_strings e ''bid'' ''limit'' \<noteq> with_strings e ''bidl'' ''imit''" by metis
qed

definition sample_dispatch :: dispatch_env where
  "sample_dispatch =
     \<lparr>start_at = 5, reached_at = (\<lambda>_. 4), wait_cancelled = (\<lambda>_. Some (GoError ''context canceled'')),
      post_error = (\<lambda>_. None), ctx_error = (\<lambda>_. None)\<rparr>"

theorem dispatch_in_order_witness:
  "\<exists>n \<le> 1. snd (Run ''http://g'' sample_dispatch
      [\<lparr>e_OffsetNs = 0, e_BotID = 1, e_Order = \<lparr>os_Side = ''bid'', os_OrderType = ''limit'', os_TIF = ''gtc'',
        os_Qty = 1, os_Price = 90\<rparr>\<rparr>]) =
     map post_body (take n [\<lparr>e_OffsetNs = 0, e_BotID = 1, e_Order = \<lparr>os_Side = ''bid'', os_OrderType = ''limit'', os_TIF = ''gtc'',
        os_Qty = 1, os_Price = 90\<rparr>\<rparr>])"
  using dispatch_in_order [of "''http://g''" "[\<lparr>e_OffsetNs = 0, e_BotID = 1, e_Order = \<lparr>os_Side = ''bid'',
      os_OrderType = ''limit'', os_TIF = ''gtc'', os_Qty = 1, os_Price = 90\<rparr>\<rparr>]" sample_dispatch]
  by simp

definition sample_env :: "string \<Rightarrow> string" where
  "sample_env k = (if k = ''IRONBOOK_SCENARIO_SEED'' then ''7'' else if k = ''IRONBOOK_DURATION_SECONDS'' then ''1''
     else ''http://g'')"

theorem cancelled_run_exits_zero_witness:
  "coordinator_main sample_draws sample_env sample_dispatch (Some (GoError ''context canceled'')) = Some (Finished [])"
proof -
  have one: "ParseInt ''7'' = Inr 7" "ParseInt ''1'' = Inr 1"
    by (simp_all add: ParseInt_def parse_uint_def digit_value_def digits_def)
  obtain es where es: "Compile sample_draws ''http://g'' 7 1 = Some es"
    using compile_loop_ends [OF sample_accepts] unfolding Compile_def by blast
  note ev = Compile_events [OF es]
  obtain e fs where c: "es = e # fs" using ev(1) sample_slots by (cases es) simp_all
  have "slot_event 0 e" using ev(2) [of 0] sample_slots c by simp
  then have "e_OffsetNs e = 0" by (simp add: slot_event_def)
  then show ?thesis
    using es c one
    by (intro cancelled_run_exits_zero [where seed = 7 and dur = 1 and e = e and es = fs])
      (simp_all add: sample_env_def sample_dispatch_def)
qed

end
