(* ===== verification/Identity.thy ===== *)
theory Identity
  imports Codec Sha256
begin

text \<open>
  \<^verbatim>\<open>apps/fairness-gateway/gateway/identity.go\<close>: the session token that stands for a bot, and the
  128-bit client order id.
\<close>

definition SessionTokenFor :: "u64 \<Rightarrow> bytes \<Rightarrow> bytes" where
  "SessionTokenFor botID runSecret = sha256 (be64 botID @ runSecret)"

definition PackClientOrderID :: "u64 \<Rightarrow> u64 \<Rightarrow> bytes" where
  "PackClientOrderID botID localSeq = be64 botID @ be64 localSeq"

lemma PackClientOrderID_length: "length (PackClientOrderID b l) = 16"
  by (simp add: PackClientOrderID_def be64.enc_length)

lemma SessionTokenFor_length: "length (SessionTokenFor b s) = 32"
  by (simp add: SessionTokenFor_def sha256_length)

subsection \<open>Properties\<close>

text \<open>
  The 16 bytes are the big-endian form of the 128-bit number with the
  bot id in its high and the local sequence number in its low half, as the matching engine's
  \<^verbatim>\<open>ClientOrderId(u128)\<close> reads them, and both can be read back: the pair is unique to the id.
\<close>

theorem client_order_id_is_u128:
  "length (PackClientOrderID b l) = 16
   \<and> unat (un_be (PackClientOrderID b l) :: 128 word) = unat b * 2 ^ 64 + unat l
   \<and> un_be (take 8 (PackClientOrderID b l)) = b
   \<and> un_be (drop 8 (PackClientOrderID b l)) = l
   \<and> (PackClientOrderID b l = PackClientOrderID b' l' \<longleftrightarrow> b = b' \<and> l = l')"
  using be64.enc_append_inj [of b "be64 l" b' "be64 l'"]
  by (simp add: PackClientOrderID_def unat_be_pair be64.dec_enc be64.enc_inj)

text \<open>
  Two session tokens are equal only for the same bot under the same
  run secret, unless the two hashed messages are a collision of SHA-256.
\<close>

theorem session_token_separates:
  "SessionTokenFor b s = SessionTokenFor b' s' \<longleftrightarrow>
     (b = b' \<and> s = s') \<or> sha256_collision (be64 b @ s) (be64 b' @ s')"
  using be64.enc_append_inj [of b s b' s'] sha256_eqD [of "be64 b @ s" "be64 b' @ s'"]
  by (auto simp: SessionTokenFor_def sha256_collision_def)

end
