(* ===== verification/TimeService.thy ===== *)
theory TimeService
  imports Prelude
begin

text \<open>
  The time-service (\<^verbatim>\<open>crates/time-service\<close>): the issuer of the \<^verbatim>\<open>(platform_seq, platform_ts_ns)\<close>
  stamps that the fairness-gateway's \<^verbatim>\<open>Stamper\<close> hands out.  \<open>clock\<close> is \<^verbatim>\<open>Clock\<close>, \<open>reserve\<close> its
  atomic reservation, \<open>next_stamps\<close> the RPC, \<open>ts_step\<close> the process with its periodic
  persistence of the high-watermark and its restart.  The messages are those of
  \<^verbatim>\<open>time.proto\<close>.

  The locale \<open>stamp_issuer\<close> is what a client may rely on: contiguous blocks, in order, of at
  least one and at most \<open>batch_max\<close> numbers, while the 64-bit counter has room.  It is
  interpreted on \<open>next_stamps\<close>.
\<close>

subsection \<open>Messages of \<^verbatim>\<open>time.proto\<close>\<close>

record NextStampsResponse =
  first_seq :: u64
  first_ts_ns :: u64
  step_ns :: u64
  batch_size :: u32

subsection \<open>\<^verbatim>\<open>Clock\<close>\<close>

text \<open>
  The atomic counter and the wall-clock reading taken at construction.  The monotonic
  \<^verbatim>\<open>Instant\<close> is not stored: what is read from it, the nanoseconds elapsed since construction,
  is an input of each call.
\<close>

record clock =
  next_seq :: u64
  boot_ts_ns :: u64

text \<open>\<^verbatim>\<open>u64::try_from(n).unwrap_or(u64::MAX)\<close> and \<^verbatim>\<open>u64::saturating_add\<close>.\<close>

definition u64_or_max :: "nat \<Rightarrow> u64" where
  "u64_or_max n = (if n < 2 ^ 64 then of_nat n else - 1)"

definition saturating_add :: "u64 \<Rightarrow> u64 \<Rightarrow> u64" where
  "saturating_add a b = (if unat a + unat b < 2 ^ 64 then a + b else - 1)"

text \<open>\<open>since_epoch\<close>: \<^verbatim>\<open>SystemTime::now().duration_since(UNIX_EPOCH)\<close>, \<open>None\<close> on a clock set before it.\<close>

definition clock_new :: "u64 \<Rightarrow> nat option \<Rightarrow> clock" where
  "clock_new starting_seq since_epoch =
     \<lparr>next_seq = starting_seq,
      boot_ts_ns = (case since_epoch of None \<Rightarrow> 0 | Some d \<Rightarrow> u64_or_max d)\<rparr>"

definition reserve :: "clock \<Rightarrow> u64 \<Rightarrow> nat \<Rightarrow> (u64 \<times> u64) \<times> clock" where
  "reserve c n elapsed_ns =
     ((next_seq c, saturating_add (boot_ts_ns c) (u64_or_max elapsed_ns)),
      c\<lparr>next_seq := next_seq c + n\<rparr>)"

definition high_watermark :: "clock \<Rightarrow> u64" where
  "high_watermark c = next_seq c"

subsection \<open>The RPC\<close>

definition batch_max :: u32 where "batch_max = 65535"
definition safety_gap :: u64 where "safety_gap = 10000"

definition clamp_batch :: "u32 \<Rightarrow> u32" where
  "clamp_batch n = (if n < 1 then 1 else if batch_max < n then batch_max else n)"

definition next_stamps :: "clock \<Rightarrow> u32 \<Rightarrow> nat \<Rightarrow> NextStampsResponse \<times> clock" where
  "next_stamps c req elapsed_ns =
     (let n = clamp_batch req;
          ((fs, ts), c') = reserve c (ucast n) elapsed_ns
      in (\<lparr>first_seq = fs, first_ts_ns = ts, step_ns = 100, batch_size = n\<rparr>, c'))"

lemma clamp_batch_bounds: "1 \<le> unat (clamp_batch n)" "unat (clamp_batch n) \<le> 65535"
proof -
  show "1 \<le> unat (clamp_batch n)"
  proof (cases "n < 1")
    case False
    then have "n \<noteq> 0" by auto
    then have "0 < unat n" by (simp add: unat_gt_0)
    then show ?thesis by (simp add: clamp_batch_def batch_max_def)
  qed (simp add: clamp_batch_def)
  show "unat (clamp_batch n) \<le> 65535"
    by (auto simp: clamp_batch_def batch_max_def word_less_nat_alt not_less)
qed

lemma clamp_batch_id: "1 \<le> n \<Longrightarrow> n \<le> batch_max \<Longrightarrow> clamp_batch n = n"
  by (auto simp: clamp_batch_def)

lemma unat_ucast_u32_u64: "unat (ucast (n :: u32) :: u64) = unat n"
proof -
  have "unat n < 2 ^ 32" using unsigned_less [of n] by simp
  then show ?thesis by (simp add: unsigned_ucast_eq take_bit_nat_eq_self)
qed

lemma next_stamps_fields:
  "next_stamps c req e = (r, c') \<Longrightarrow>
     first_seq r = next_seq c \<and> batch_size r = clamp_batch req
   \<and> next_seq c' = next_seq c + ucast (batch_size r) \<and> boot_ts_ns c' = boot_ts_ns c
   \<and> first_ts_ns r = saturating_add (boot_ts_ns c) (u64_or_max e)"
  by (auto simp: next_stamps_def reserve_def Let_def)

subsection \<open>The interface\<close>

locale stamp_issuer =
  fixes issue :: "'srv \<Rightarrow> u32 \<Rightarrow> 'env \<Rightarrow> NextStampsResponse \<times> 'srv"
    and frontier :: "'srv \<Rightarrow> nat"
    and grant_max :: nat
  assumes frontier_start:
      "issue s n e = (r, s') \<Longrightarrow> unat (first_seq r) = frontier s"
    and frontier_next:
      "issue s n e = (r, s') \<Longrightarrow> frontier s + grant_max < 2 ^ 64
        \<Longrightarrow> frontier s' = frontier s + unat (batch_size r)"
    and grant_bounds:
      "issue s n e = (r, s') \<Longrightarrow> 1 \<le> unat (batch_size r) \<and> unat (batch_size r) \<le> grant_max"
begin

lemma frontier_grows:
  "issue s n e = (r, s') \<Longrightarrow> frontier s + grant_max < 2 ^ 64 \<Longrightarrow>
     frontier s < frontier s' \<and> frontier s' \<le> frontier s + grant_max"
  using frontier_next grant_bounds by fastforce

text \<open>The window \<^verbatim>\<open>[first_seq, first_seq + batch_size)\<close> as the client computes it in 64 bits.\<close>

lemma window_end:
  assumes "issue s n e = (r, s')" "frontier s + grant_max < 2 ^ 64"
  shows "unat (first_seq r + ucast (batch_size r)) = frontier s'"
proof -
  have "unat (first_seq r) + unat (ucast (batch_size r) :: u64) < 2 ^ 64"
    using frontier_start [OF assms(1)] grant_bounds [OF assms(1)] assms(2)
    by (simp add: unat_ucast_u32_u64)
  then have "unat (first_seq r + ucast (batch_size r)) = unat (first_seq r) + unat (batch_size r)"
    by (simp add: unat_word_ariths unat_ucast_u32_u64)
  with frontier_start [OF assms(1)] frontier_next [OF assms] show ?thesis by simp
qed

end

definition clock_frontier :: "clock \<Rightarrow> nat" where
  "clock_frontier c = unat (next_seq c)"

interpretation ts: stamp_issuer next_stamps clock_frontier 65535
proof unfold_locales
  fix s n e r s'
  assume iss: "next_stamps s n e = (r, s')"
  then show "unat (first_seq r) = clock_frontier s"
    by (auto simp: clock_frontier_def dest: next_stamps_fields)
  show "1 \<le> unat (batch_size r) \<and> unat (batch_size r) \<le> 65535"
    using next_stamps_fields [OF iss] clamp_batch_bounds [of n] by simp
  assume room: "clock_frontier s + 65535 < 2 ^ 64"
  have "unat (batch_size r) \<le> 65535"
    using next_stamps_fields [OF iss] clamp_batch_bounds [of n] by simp
  with room have "unat (next_seq s) + unat (batch_size r) < 2 ^ 64"
    by (simp add: clock_frontier_def)
  then show "clock_frontier s' = clock_frontier s + unat (batch_size r)"
    using next_stamps_fields [OF iss]
    by (simp add: clock_frontier_def unat_word_ariths unat_ucast_u32_u64)
qed

subsection \<open>The process: persistence and restart\<close>

text \<open>
  \<^verbatim>\<open>main\<close> reads the high-watermark file (\<open>hwm_file\<close>: the number it parses to, \<open>None\<close> when it is
  missing or does not parse), starts the clock \<^verbatim>\<open>SAFETY_GAP\<close> above it, and from then on writes
  the current watermark once a second, ignoring write errors.  Between two writes any number of
  RPCs may be served, and the process may be killed and restarted at any moment.
  \<^verbatim>\<open>std::fs::write\<close> truncates the file and then fills it: a write may succeed, fail before it
  touched the file, or be cut short (\<open>PersistTorn\<close>) and leave whatever its remains parse to.
\<close>

record ts_process =
  ts_clock :: clock
  hwm_file :: "u64 option"

datatype ts_event =
    Serve u32 nat
  | PersistOk
  | PersistFail
  | PersistTorn "u64 option"
  | Restart "nat option"

definition hwm_value :: "u64 option \<Rightarrow> u64" where
  "hwm_value f = (case f of None \<Rightarrow> 0 | Some v \<Rightarrow> v)"

definition ts_boot :: "u64 option \<Rightarrow> nat option \<Rightarrow> ts_process" where
  "ts_boot f since_epoch =
     \<lparr>ts_clock = clock_new (saturating_add (hwm_value f) safety_gap) since_epoch, hwm_file = f\<rparr>"

fun ts_step :: "ts_process \<Rightarrow> ts_event \<Rightarrow> ts_process" where
  "ts_step p (Serve n e) = p\<lparr>ts_clock := snd (next_stamps (ts_clock p) n e)\<rparr>"
| "ts_step p PersistOk = p\<lparr>hwm_file := Some (high_watermark (ts_clock p))\<rparr>"
| "ts_step p PersistFail = p"
| "ts_step p (PersistTorn v) = p\<lparr>hwm_file := v\<rparr>"
| "ts_step p (Restart t) = ts_boot (hwm_file p) t"

text \<open>The numbers handed out along a run, in order.\<close>

fun ts_issued :: "ts_process \<Rightarrow> ts_event list \<Rightarrow> nat list" where
  "ts_issued p [] = []"
| "ts_issued p (Serve n e # evs) =
     (let r = fst (next_stamps (ts_clock p) n e)
      in [unat (first_seq r) ..< unat (first_seq r) + unat (batch_size r)]
         @ ts_issued (ts_step p (Serve n e)) evs)"
| "ts_issued p (ev # evs) = ts_issued (ts_step p ev) evs"

text \<open>
  \<open>within_gap k evs\<close>: with the counter at most \<open>d\<close> above the persisted watermark (\<open>k = Some d\<close>),
  or the file torn (\<open>None\<close>), no restart along \<open>evs\<close> happens while the file is torn or the
  counter more than \<^verbatim>\<open>SAFETY_GAP\<close> above the watermark.
\<close>

fun within_gap :: "nat option \<Rightarrow> ts_event list \<Rightarrow> bool" where
  "within_gap k [] = True"
| "within_gap (Some d) (Serve n e # evs) = within_gap (Some (d + unat (clamp_batch n))) evs"
| "within_gap None (Serve n e # evs) = within_gap None evs"
| "within_gap k (PersistOk # evs) = within_gap (Some 0) evs"
| "within_gap k (PersistFail # evs) = within_gap k evs"
| "within_gap k (PersistTorn v # evs) = within_gap None evs"
| "within_gap (Some d) (Restart t # evs) =
     (d \<le> unat safety_gap \<and> within_gap (Some (unat safety_gap)) evs)"
| "within_gap None (Restart t # evs) = False"

lemma saturating_add_exact:
  "unat a + unat b < 2 ^ 64 \<Longrightarrow> unat (saturating_add a b) = unat a + unat b"
  by (simp add: saturating_add_def unat_word_ariths)

lemma safety_gap_value [simp]: "unat safety_gap = 10000"
  by (simp add: safety_gap_def)

lemma ts_boot_frontier:
  "unat (hwm_value f) + 10000 < 2 ^ 64 \<Longrightarrow>
     clock_frontier (ts_clock (ts_boot f t)) = unat (hwm_value f) + 10000"
  by (simp add: ts_boot_def clock_new_def clock_frontier_def saturating_add_exact)

text \<open>The counter is where \<open>k\<close> says it is, relative to the file.\<close>

definition gap_ok :: "nat option \<Rightarrow> ts_process \<Rightarrow> bool" where
  "gap_ok k p \<longleftrightarrow> (case k of None \<Rightarrow> True
     | Some d \<Rightarrow> clock_frontier (ts_clock p) = unat (hwm_value (hwm_file p)) + d)"

lemma ts_issued_increasing:
  assumes "within_gap k evs" and "gap_ok k p"
    and "clock_frontier (ts_clock p) + 65535 * length evs < 2 ^ 64"
  shows "sorted_wrt (<) (ts_issued p evs)
       \<and> list_all (\<lambda>s. clock_frontier (ts_clock p) \<le> s) (ts_issued p evs)"
  using assms
proof (induction evs arbitrary: k p)
  case Nil
  then show ?case by simp
next
  case (Cons ev evs)
  let ?p' = "ts_step p ev"
  have room: "clock_frontier (ts_clock p) + 65535 < 2 ^ 64" using Cons.prems(3) by simp
  show ?case
  proof (cases ev)
    case (Serve n e)
    obtain r c' where ns: "next_stamps (ts_clock p) n e = (r, c')" by fastforce
    have granted: "batch_size r = clamp_batch n" using next_stamps_fields [OF ns] by simp
    have front: "clock_frontier (ts_clock ?p') = clock_frontier (ts_clock p) + unat (batch_size r)"
      using ts.frontier_next [OF ns room] ns Serve by simp
    have "within_gap (map_option (\<lambda>d. d + unat (clamp_batch n)) k) evs"
      using Cons.prems(1) Serve by (cases k) simp_all
    moreover have "gap_ok (map_option (\<lambda>d. d + unat (clamp_batch n)) k) ?p'"
      using Cons.prems(2) front granted Serve by (cases k) (simp_all add: gap_ok_def)
    moreover have "clock_frontier (ts_clock ?p') + 65535 * length evs < 2 ^ 64"
      using front Cons.prems(3) ts.grant_bounds [OF ns] by simp
    ultimately have IH: "sorted_wrt (<) (ts_issued ?p' evs)
        \<and> list_all (\<lambda>s. clock_frontier (ts_clock ?p') \<le> s) (ts_issued ?p' evs)"
      by (rule Cons.IH)
    have first: "unat (first_seq r) = clock_frontier (ts_clock p)" by (rule ts.frontier_start [OF ns])
    show ?thesis
      using IH front first ns Serve by (auto simp: sorted_wrt_append list_all_iff)
  next
    case PersistOk
    have "within_gap (Some 0) evs" using Cons.prems(1) PersistOk by simp
    moreover have "gap_ok (Some 0) ?p'"
      by (simp add: PersistOk gap_ok_def high_watermark_def clock_frontier_def hwm_value_def)
    ultimately show ?thesis using Cons.IH [of "Some 0" ?p'] Cons.prems(3) PersistOk by simp
  next
    case PersistFail
    then show ?thesis using Cons.IH [of k ?p'] Cons.prems by simp
  next
    case (PersistTorn v)
    then show ?thesis using Cons.IH [of None ?p'] Cons.prems by (simp add: gap_ok_def)
  next
    case (Restart t)
    then obtain d where d: "k = Some d" "d \<le> 10000" "within_gap (Some 10000) evs"
      using Cons.prems(1) by (cases k) simp_all
    have at: "clock_frontier (ts_clock p) = unat (hwm_value (hwm_file p)) + d"
      using Cons.prems(2) d(1) by (simp add: gap_ok_def)
    then have "unat (hwm_value (hwm_file p)) + 10000 < 2 ^ 64" using Cons.prems(3) by simp
    then have front: "clock_frontier (ts_clock ?p') = unat (hwm_value (hwm_file p)) + 10000"
      by (simp add: Restart ts_boot_frontier)
    have kept: "hwm_file ?p' = hwm_file p" by (simp add: Restart ts_boot_def)
    have "sorted_wrt (<) (ts_issued ?p' evs)
        \<and> list_all (\<lambda>s. clock_frontier (ts_clock ?p') \<le> s) (ts_issued ?p' evs)"
      using d(3) front kept at Cons.prems(3) by (intro Cons.IH [of "Some 10000"]) (simp_all add: gap_ok_def)
    then show ?thesis using front at d(2) Restart by (auto simp: list_all_iff)
  qed
qed

subsection \<open>Properties\<close>

text \<open>
  C13 (restart_never_reuses): along any run of the time-service from a boot, with RPCs, failed and
  successful persists and restarts in any order, the numbers handed out are strictly increasing,
  so none is handed out twice, as long as no restart happens while the counter is more than
  \<^verbatim>\<open>SAFETY_GAP\<close> above the persisted high-watermark or the file is torn, and the 64-bit counter
  has room.
\<close>

theorem restart_never_reuses:
  assumes "within_gap (Some (unat safety_gap)) evs"
    and "unat (hwm_value f) + 10000 + 65535 * length evs < 2 ^ 64"
  shows "sorted_wrt (<) (ts_issued (ts_boot f t) evs)"
proof -
  have "clock_frontier (ts_clock (ts_boot f t)) = unat (hwm_value f) + 10000"
    using assms(2) by (intro ts_boot_frontier) simp
  then show ?thesis
    using ts_issued_increasing [OF assms(1), of "ts_boot f t"] assms(2)
    by (simp add: ts_boot_def gap_ok_def)
qed

theorem restart_never_reuses_witness:
  "sorted_wrt (<) (ts_issued (ts_boot None None)
     [PersistOk, Serve 3 5, Serve 2 9, Restart (Some 7), PersistOk, Serve 4 1])"
  by (rule restart_never_reuses)
    (simp_all add: clamp_batch_def batch_max_def hwm_value_def)

text \<open>
  The gap is exact.  If the numbers served since the last persist
  reach past \<^verbatim>\<open>SAFETY_GAP\<close> and the process restarts before the next persist, the next number it
  hands out was handed out before.  A single batch of 10001 and up within the second between two
  persists is enough.
\<close>

theorem restart_reuses_beyond_gap:
  assumes "10000 < unat (clamp_batch n)"
    and "clock_frontier (ts_clock p) + 65535 < 2 ^ 64"
  shows "\<not> distinct (ts_issued p [PersistOk, Serve n e, Restart t, Serve m d])"
proof -
  let ?p1 = "ts_step p PersistOk"
  obtain r c' where ns: "next_stamps (ts_clock p) n e = (r, c')" by fastforce
  have r: "unat (first_seq r) = clock_frontier (ts_clock p)" "batch_size r = clamp_batch n"
    using next_stamps_fields [OF ns] by (auto simp: clock_frontier_def)
  let ?p3 = "ts_step (ts_step ?p1 (Serve n e)) (Restart t)"
  have kept: "unat (hwm_value (hwm_file ?p1)) = clock_frontier (ts_clock p)"
    by (simp add: hwm_value_def high_watermark_def clock_frontier_def)
  then have again: "clock_frontier (ts_clock ?p3) = clock_frontier (ts_clock p) + 10000"
    using ts_boot_frontier [of "hwm_file ?p1" t] assms(2) by simp
  obtain r' c'' where ns': "next_stamps (ts_clock ?p3) m d = (r', c'')" by fastforce
  let ?x = "clock_frontier (ts_clock p) + 10000"
  have "?x \<in> set [unat (first_seq r) ..< unat (first_seq r) + unat (batch_size r)]"
    using r assms(1) by simp
  moreover have "?x \<in> set [unat (first_seq r') ..< unat (first_seq r') + unat (batch_size r')]"
    using ts.frontier_start [OF ns'] ts.grant_bounds [OF ns'] again by simp
  ultimately show ?thesis
    using ns ns' by auto
qed

theorem restart_reuses_beyond_gap_witness:
  "\<not> distinct (ts_issued (ts_boot None None)
     [PersistOk, Serve 20000 0, Restart None, Serve 1 0])"
  by (rule restart_reuses_beyond_gap)
    (simp_all add: clamp_batch_def batch_max_def ts_boot_frontier hwm_value_def)

text \<open>
  A write of the watermark cut short by the death of the process, which
  leaves an empty file, makes the next process start over: it hands out the very numbers the
  first one did, whatever was persisted before.
\<close>

theorem torn_watermark_reuses:
  "\<not> distinct (ts_issued (ts_boot None t)
     [Serve n e, PersistOk, PersistTorn None, Restart t', Serve m d])"
proof -
  let ?p = "ts_boot None t"
  let ?p' = "foldl ts_step ?p [Serve n e, PersistOk, PersistTorn None, Restart t']"
  obtain r c where ns: "next_stamps (ts_clock ?p) n e = (r, c)" by fastforce
  obtain r' c' where ns': "next_stamps (ts_clock ?p') m d = (r', c')" by fastforce
  have "clock_frontier (ts_clock ?p) = 10000" "clock_frontier (ts_clock ?p') = 10000"
    by (simp_all add: ts_boot_frontier hwm_value_def)
  then have "10000 \<in> set [unat (first_seq r) ..< unat (first_seq r) + unat (batch_size r)]"
    and "10000 \<in> set [unat (first_seq r') ..< unat (first_seq r') + unat (batch_size r')]"
    using ts.frontier_start [OF ns] ts.grant_bounds [OF ns]
      ts.frontier_start [OF ns'] ts.grant_bounds [OF ns'] by simp_all
  then show ?thesis using ns ns' by auto
qed

end
