(* ===== verification/Stamper.thy ===== *)
theory Stamper
  imports TimeService
begin

text \<open>
  \<^verbatim>\<open>apps/fairness-gateway/gateway/stamper.go\<close>: the gateway's local window of stamps.  \<open>Next\<close> is
  one call under the mutex, so concurrent callers are a sequence of calls.  Its environment is
  explicit: the RPC as a function of the requested batch size, and the two readings of the
  local monotonic clock (nanoseconds).

  \<open>stamp_step\<close> is the composition: any number of gateways over one issuer, calls in any order,
  RPCs that fail before or after the issuer served them.  Its invariant \<open>stamp_inv\<close> and its
  consequences are proved inside the locale \<open>stamp_issuer\<close>, from the issuer's contract alone.
\<close>

subsection \<open>The type and its operations\<close>

record Stamper =
  batchSize :: u32
  nextSeq :: u64
  endSeq :: u64
  originTs :: u64
  originAt :: int

text \<open>The zero \<^verbatim>\<open>time.Time\<close> of a fresh stamper is never read: the first call refills.\<close>

definition NewStamper :: "u32 \<Rightarrow> Stamper" where
  "NewStamper batch =
     \<lparr>batchSize = (if batch = 0 then 10000 else batch),
      nextSeq = 0, endSeq = 0, originTs = 0, originAt = 0\<rparr>"

text \<open>\<^verbatim>\<open>time.Since(t).Nanoseconds()\<close>: a \<^verbatim>\<open>Duration\<close> is an \<^verbatim>\<open>int64\<close> and saturates.\<close>

definition since_ns :: "int \<Rightarrow> int \<Rightarrow> int" where
  "since_ns now t = max (- (2 ^ 63)) (min (2 ^ 63 - 1) (now - t))"

type_synonym rpc = "u32 \<Rightarrow> NextStampsResponse result"

definition refill :: "Stamper \<Rightarrow> NextStampsResponse \<Rightarrow> int \<Rightarrow> Stamper" where
  "refill s resp now =
     s\<lparr>nextSeq := first_seq resp,
       endSeq := first_seq resp + ucast (batch_size resp),
       originTs := first_ts_ns resp,
       originAt := now\<rparr>"

definition take_stamp :: "Stamper \<Rightarrow> int \<Rightarrow> (u64 \<times> u64) \<times> Stamper" where
  "take_stamp s now =
     ((nextSeq s, originTs s + word_of_int (since_ns now (originAt s))),
      s\<lparr>nextSeq := nextSeq s + 1\<rparr>)"

definition window_empty :: "Stamper \<Rightarrow> bool" where
  "window_empty s \<longleftrightarrow> endSeq s \<le> nextSeq s"

definition Next :: "Stamper \<Rightarrow> rpc \<Rightarrow> int \<Rightarrow> int \<Rightarrow> (u64 \<times> u64) result \<times> Stamper" where
  "Next s NextStamps t_recv t_now =
     (if window_empty s then
        (case NextStamps (batchSize s) of
           Inl err \<Rightarrow> (Inl err, s)
         | Inr resp \<Rightarrow> (let (st, s') = take_stamp (refill s resp t_recv) t_now in (Inr st, s')))
      else (let (st, s') = take_stamp s t_now in (Inr st, s')))"

lemma NewStamper_batch_pos: "batchSize (NewStamper b) \<noteq> 0"
  by (simp add: NewStamper_def)

lemma NewStamper_empty: "window_empty (NewStamper b)"
  by (simp add: NewStamper_def window_empty_def)

lemma Next_error_keeps: "Next s f r n = (Inl e, s') \<Longrightarrow> s' = s"
  by (auto simp: Next_def take_stamp_def Let_def split: if_splits sum.splits)

lemma Next_in_window:
  "\<not> window_empty s \<Longrightarrow> Next s f r n = (Inr (fst (take_stamp s n)), snd (take_stamp s n))"
  by (simp add: Next_def take_stamp_def)

lemma Next_refill:
  "window_empty s \<Longrightarrow> f (batchSize s) = Inr resp \<Longrightarrow>
     Next s f r n = (Inr (fst (take_stamp (refill s resp r) n)), snd (take_stamp (refill s resp r) n))"
  by (simp add: Next_def take_stamp_def)

lemma Next_refill_error:
  "window_empty s \<Longrightarrow> f (batchSize s) = Inl e \<Longrightarrow> Next s f r n = (Inl e, s)"
  by (simp add: Next_def)

lemma Next_batchSize: "batchSize (snd (Next s f r n)) = batchSize s"
  by (simp add: Next_def take_stamp_def refill_def Let_def split: sum.splits)

subsection \<open>Gateways over one issuer\<close>

text \<open>
  What can happen to the RPC of a refill: it is served and answered, it never reaches the
  issuer, or it is served and the answer is lost.  In the last case the issuer has moved on and
  the block is wasted.
\<close>

datatype rpc_fate = Answered | NotServed | AnswerLost

datatype ('g, 'env) stamp_event =
  StampCall (caller: 'g) (fate: rpc_fate) (rpc_env: 'env) (recv_at: int) (now_at: int)

record ('g, 'srv) stamp_sys =
  issuer :: 'srv
  stampers :: "'g \<Rightarrow> Stamper"
  stamped :: "('g \<times> u64 \<times> u64) list"

definition rpc_error :: go_error where
  "rpc_error = GoError ''rpc error''"

definition rpc_of ::
    "('srv \<Rightarrow> u32 \<Rightarrow> 'env \<Rightarrow> NextStampsResponse \<times> 'srv) \<Rightarrow> 'srv \<Rightarrow> rpc_fate \<Rightarrow> 'env \<Rightarrow> rpc" where
  "rpc_of issue srv ft e =
     (\<lambda>n. case ft of Answered \<Rightarrow> Inr (fst (issue srv n e)) | _ \<Rightarrow> Inl rpc_error)"

definition issuer_after ::
    "('srv \<Rightarrow> u32 \<Rightarrow> 'env \<Rightarrow> NextStampsResponse \<times> 'srv) \<Rightarrow> 'srv \<Rightarrow> Stamper \<Rightarrow> rpc_fate \<Rightarrow> 'env \<Rightarrow> 'srv" where
  "issuer_after issue srv s ft e =
     (if window_empty s \<and> ft \<noteq> NotServed then snd (issue srv (batchSize s) e) else srv)"

fun stamp_step ::
    "('srv \<Rightarrow> u32 \<Rightarrow> 'env \<Rightarrow> NextStampsResponse \<times> 'srv)
      \<Rightarrow> ('g, 'srv) stamp_sys \<Rightarrow> ('g, 'env) stamp_event \<Rightarrow> ('g, 'srv) stamp_sys" where
  "stamp_step issue sys (StampCall g ft e r n) =
     (let s = stampers sys g;
          (res, s') = Next s (rpc_of issue (issuer sys) ft e) r n
      in \<lparr>issuer = issuer_after issue (issuer sys) s ft e,
          stampers = (stampers sys)(g := s'),
          stamped = (case res of Inl _ \<Rightarrow> stamped sys
                     | Inr (sq, ts) \<Rightarrow> stamped sys @ [(g, sq, ts)])\<rparr>)"

definition stamp_run ::
    "('srv \<Rightarrow> u32 \<Rightarrow> 'env \<Rightarrow> NextStampsResponse \<times> 'srv)
      \<Rightarrow> ('g, 'srv) stamp_sys \<Rightarrow> ('g, 'env) stamp_event list \<Rightarrow> ('g, 'srv) stamp_sys" where
  "stamp_run issue sys evs = foldl (stamp_step issue) sys evs"

definition stamp_init :: "'srv \<Rightarrow> ('g \<Rightarrow> u32) \<Rightarrow> ('g, 'srv) stamp_sys" where
  "stamp_init srv batches =
     \<lparr>issuer = srv, stampers = (\<lambda>g. NewStamper (batches g)), stamped = []\<rparr>"

subsection \<open>The allocation of numbers, abstractly\<close>

text \<open>
  What a run of the system amounts to: every holder \<open>g\<close> has a set \<open>W g\<close> of numbers it may still
  hand out, \<open>L\<close> lists the numbers handed out so far with who did, and everything lies below the
  frontier.  The three lemmas are the three things that can happen.
\<close>

record 'g allocation =
  holds :: "'g \<Rightarrow> nat set"
  handed_out :: "('g \<times> nat) list"

definition alloc_inv :: "nat \<Rightarrow> 'g allocation \<Rightarrow> bool" where
  "alloc_inv n a \<longleftrightarrow>
     (\<forall>g x. x \<in> holds a g \<longrightarrow> x < n)
   \<and> (\<forall>g h x. x \<in> holds a g \<longrightarrow> x \<in> holds a h \<longrightarrow> g = h)
   \<and> (\<forall>g x. (g, x) \<in> set (handed_out a) \<longrightarrow> x < n)
   \<and> (\<forall>g x h. (g, x) \<in> set (handed_out a) \<longrightarrow> x \<notin> holds a h)
   \<and> (\<forall>g x y. (g, x) \<in> set (handed_out a) \<longrightarrow> y \<in> holds a g \<longrightarrow> x < y)
   \<and> distinct (map snd (handed_out a))
   \<and> (\<forall>g. sorted_wrt (<) (map snd (filter (\<lambda>p. fst p = g) (handed_out a))))"

lemma alloc_invI:
  assumes "\<And>g x. x \<in> holds a g \<Longrightarrow> x < n"
    and "\<And>g h x. x \<in> holds a g \<Longrightarrow> x \<in> holds a h \<Longrightarrow> g = h"
    and "\<And>g x. (g, x) \<in> set (handed_out a) \<Longrightarrow> x < n"
    and "\<And>g x h. (g, x) \<in> set (handed_out a) \<Longrightarrow> x \<notin> holds a h"
    and "\<And>g x y. (g, x) \<in> set (handed_out a) \<Longrightarrow> y \<in> holds a g \<Longrightarrow> x < y"
    and "distinct (map snd (handed_out a))"
    and "\<And>g. sorted_wrt (<) (map snd (filter (\<lambda>p. fst p = g) (handed_out a)))"
  shows "alloc_inv n a"
  unfolding alloc_inv_def using assms by (intro conjI allI impI) blast+

lemma alloc_invD:
  assumes "alloc_inv n a"
  shows "\<And>g x. x \<in> holds a g \<Longrightarrow> x < n"
    and "\<And>g h x. x \<in> holds a g \<Longrightarrow> x \<in> holds a h \<Longrightarrow> g = h"
    and "\<And>g x. (g, x) \<in> set (handed_out a) \<Longrightarrow> x < n"
    and "\<And>g x h. (g, x) \<in> set (handed_out a) \<Longrightarrow> x \<notin> holds a h"
    and "\<And>g x y. (g, x) \<in> set (handed_out a) \<Longrightarrow> y \<in> holds a g \<Longrightarrow> x < y"
    and "distinct (map snd (handed_out a))"
    and "\<And>g. sorted_wrt (<) (map snd (filter (\<lambda>p. fst p = g) (handed_out a)))"
  using assms by (simp_all add: alloc_inv_def)

lemma alloc_inv_empty: "alloc_inv n \<lparr>holds = (\<lambda>_. {}), handed_out = []\<rparr>"
  by (simp add: alloc_inv_def)

lemma alloc_inv_grant:
  assumes inv: "alloc_inv n a" and empty: "holds a g = {}"
    and B: "B \<subseteq> {n ..< m}" and nm: "n \<le> m"
  shows "alloc_inv m (a\<lparr>holds := (holds a)(g := B)\<rparr>)"
proof -
  note D = alloc_invD [OF inv]
  let ?a = "a\<lparr>holds := (holds a)(g := B)\<rparr>"
  have Bn: "x \<in> B \<Longrightarrow> n \<le> x" and Bm: "x \<in> B \<Longrightarrow> x < m" for x using B by auto
  have old: "x \<in> holds ?a f \<Longrightarrow> x \<in> B \<and> f = g \<or> x \<in> holds a f" for f x
    by (auto split: if_splits)
  show ?thesis
  proof (rule alloc_invI)
    fix f x
    assume "x \<in> holds ?a f"
    then show "x < m" using old [of x f] Bm [of x] D(1) [of x f] nm by auto
  next
    fix f h x
    assume "x \<in> holds ?a f" "x \<in> holds ?a h"
    then show "f = h"
      using old [of x f] old [of x h] D(1) [of x f] D(1) [of x h] D(2) [of x f h] Bn [of x] by auto
  next
    fix f x
    assume "(f, x) \<in> set (handed_out ?a)"
    then have "x < n" using D(3) [of f x] by simp
    then show "x < m" using nm by simp
  next
    fix f x h
    assume "(f, x) \<in> set (handed_out ?a)"
    then have m: "(f, x) \<in> set (handed_out a)" by simp
    show "x \<notin> holds ?a h"
      using old [of x h] D(3) [OF m] D(4) [OF m, of h] Bn [of x] by linarith
  next
    fix f x y
    assume "(f, x) \<in> set (handed_out ?a)" "y \<in> holds ?a f"
    then show "x < y" using old [of y f] D(3) [of f x] D(5) [of f x y] Bn [of y] by auto
  qed (use D(6,7) in simp_all)
qed

lemma alloc_inv_hand_out:
  assumes inv: "alloc_inv n a" and split: "holds a g = insert x B"
    and least: "\<forall>y \<in> B. x < y"
  shows "alloc_inv n (a\<lparr>holds := (holds a)(g := B), handed_out := handed_out a @ [(g, x)]\<rparr>)"
proof -
  note D = alloc_invD [OF inv]
  let ?a = "a\<lparr>holds := (holds a)(g := B), handed_out := handed_out a @ [(g, x)]\<rparr>"
  have xg: "x \<in> holds a g" and xB: "x \<notin> B" using split least by auto
  have old: "y \<in> holds ?a f \<Longrightarrow> y \<in> holds a f" and new: "y \<in> holds ?a g \<Longrightarrow> x < y" for f y
    using split least by (auto split: if_splits)
  have notx: "x \<notin> holds ?a f" for f using D(2) [OF xg] xB by (auto split: if_splits)
  have fresh: "x \<notin> set (map snd (handed_out a))" using D(4) xg by fastforce
  have above: "(g, y) \<in> set (handed_out a) \<Longrightarrow> y < x" for y using D(5) xg by blast
  have log: "(f, y) \<in> set (handed_out ?a) \<Longrightarrow> (f, y) \<in> set (handed_out a) \<or> f = g \<and> y = x" for f y
    by auto
  show ?thesis
  proof (rule alloc_invI)
    show "distinct (map snd (handed_out ?a))" using D(6) fresh by simp
    show "sorted_wrt (<) (map snd (filter (\<lambda>p. fst p = h) (handed_out ?a)))" for h
      using D(7) [of h] above by (auto simp: sorted_wrt_append)
    show "y \<in> holds ?a f \<Longrightarrow> y < n" for f y using old D(1) by blast
    show "y \<in> holds ?a f \<Longrightarrow> y \<in> holds ?a h \<Longrightarrow> f = h" for f h y using old D(2) by blast
    show "(f, y) \<in> set (handed_out ?a) \<Longrightarrow> y < n" for f y using log D(1) [OF xg] D(3) by blast
    show "(f, y) \<in> set (handed_out ?a) \<Longrightarrow> y \<notin> holds ?a h" for f y h
      using log old D(4) notx by blast
    show "(f, y) \<in> set (handed_out ?a) \<Longrightarrow> z \<in> holds ?a f \<Longrightarrow> y < z" for f y z
      using log old new D(5) by blast
  qed
qed

subsection \<open>The invariant\<close>

text \<open>The numbers a gateway still holds, and the allocation a system state stands for.\<close>

definition window :: "Stamper \<Rightarrow> nat set" where
  "window s = {unat (nextSeq s) ..< unat (endSeq s)}"

definition allocation_of :: "('g, 'srv) stamp_sys \<Rightarrow> 'g allocation" where
  "allocation_of sys =
     \<lparr>holds = (\<lambda>g. window (stampers sys g)),
      handed_out = map (\<lambda>(g, sq, ts). (g, unat sq)) (stamped sys)\<rparr>"

lemma window_take:
  assumes "\<not> window_empty s"
  shows "window s = insert (unat (nextSeq s)) (window (snd (take_stamp s n)))"
    and "\<forall>x \<in> window (snd (take_stamp s n)). unat (nextSeq s) < x"
proof -
  have lt: "unat (nextSeq s) < unat (endSeq s)"
    using assms by (simp add: window_empty_def not_le word_less_nat_alt)
  have "unat (endSeq s) < 2 ^ 64" using unsigned_less [of "endSeq s"] by simp
  then have "unat (nextSeq s + 1) = unat (nextSeq s) + 1"
    using lt by (simp add: unat_word_ariths)
  then have w: "window (snd (take_stamp s n)) = {Suc (unat (nextSeq s)) ..< unat (endSeq s)}"
    by (simp add: window_def take_stamp_def)
  show "window s = insert (unat (nextSeq s)) (window (snd (take_stamp s n)))"
    unfolding w using lt by (auto simp: window_def)
  show "\<forall>x \<in> window (snd (take_stamp s n)). unat (nextSeq s) < x" by (simp add: w)
qed

lemma window_empty_iff: "window_empty s \<longleftrightarrow> window s = {}"
  by (simp add: window_empty_def window_def word_le_nat_alt not_less)

definition stamp_inv :: "nat \<Rightarrow> ('g, 'srv) stamp_sys \<Rightarrow> bool" where
  "stamp_inv n sys \<longleftrightarrow> alloc_inv n (allocation_of sys)"

lemma stamp_inv_init: "stamp_inv n (stamp_init srv batches)"
proof -
  have "allocation_of (stamp_init srv batches) = \<lparr>holds = (\<lambda>_. {}), handed_out = []\<rparr>"
    by (auto simp: allocation_of_def stamp_init_def window_def NewStamper_def)
  then show ?thesis by (simp add: stamp_inv_def alloc_inv_empty)
qed

lemma stamp_inv_refill:
  assumes "stamp_inv n sys" "window (stampers sys g) = {}"
    and "window s' \<subseteq> {n ..< m}" "n \<le> m"
  shows "stamp_inv m \<lparr>issuer = i', stampers = (stampers sys)(g := s'), stamped = stamped sys\<rparr>"
proof -
  have "allocation_of \<lparr>issuer = i', stampers = (stampers sys)(g := s'), stamped = stamped sys\<rparr>
      = (allocation_of sys)\<lparr>holds := (holds (allocation_of sys))(g := window s')\<rparr>"
    by (simp add: allocation_of_def fun_eq_iff)
  then show ?thesis
    using alloc_inv_grant [of n "allocation_of sys" g "window s'" m] assms
    by (simp add: stamp_inv_def allocation_of_def)
qed

lemma stamp_inv_take:
  assumes "stamp_inv n sys" and ne: "\<not> window_empty (stampers sys g)"
  shows "stamp_inv n \<lparr>issuer = i',
           stampers = (stampers sys)(g := snd (take_stamp (stampers sys g) t)),
           stamped = stamped sys @ [(g, nextSeq (stampers sys g), ts)]\<rparr>"
proof -
  let ?s = "stampers sys g"
  have "allocation_of \<lparr>issuer = i', stampers = (stampers sys)(g := snd (take_stamp ?s t)),
           stamped = stamped sys @ [(g, nextSeq ?s, ts)]\<rparr>
      = (allocation_of sys)\<lparr>holds := (holds (allocation_of sys))(g := window (snd (take_stamp ?s t))),
           handed_out := handed_out (allocation_of sys) @ [(g, unat (nextSeq ?s))]\<rparr>"
    by (simp add: allocation_of_def fun_eq_iff)
  then show ?thesis
    using alloc_inv_hand_out [of n "allocation_of sys" g "unat (nextSeq ?s)" "window (snd (take_stamp ?s t))"]
      assms(1) window_take [OF ne, of t]
    by (simp add: stamp_inv_def allocation_of_def)
qed

subsection \<open>Preservation, for any issuer\<close>

context stamp_issuer
begin

lemma stamp_step_inv:
  assumes inv: "stamp_inv (frontier (issuer sys)) sys"
    and room: "frontier (issuer sys) + grant_max < 2 ^ 64"
    and sys': "sys' = stamp_step issue sys ev"
  shows "stamp_inv (frontier (issuer sys')) sys'
       \<and> frontier (issuer sys') \<le> frontier (issuer sys) + grant_max"
proof (cases ev)
  case (StampCall g ft e r n)
  let ?s = "stampers sys g" and ?srv = "issuer sys"
  show ?thesis
  proof (cases "window_empty ?s")
    case False
    then show ?thesis
      using stamp_inv_take [OF inv False] StampCall sys'
      by (simp add: Next_in_window issuer_after_def take_stamp_def Let_def)
  next
    case True
    obtain resp srv' where iss: "issue ?srv (batchSize ?s) e = (resp, srv')" by fastforce
    note grow = frontier_grows [OF iss room]
    let ?w = "refill ?s resp r"
    have win: "window ?w = {frontier ?srv ..< frontier srv'}"
      using frontier_start [OF iss] window_end [OF iss room] by (simp add: window_def refill_def)
    have empty: "window ?s = {}" using True by (simp add: window_empty_iff)
    let ?mid = "\<lparr>issuer = srv', stampers = (stampers sys)(g := ?w), stamped = stamped sys\<rparr>"
    have mid: "stamp_inv (frontier srv') ?mid"
      by (rule stamp_inv_refill [OF inv empty]) (use win grow in auto)
    have ne: "\<not> window_empty (stampers ?mid g)"
      using win grow by (simp add: window_empty_iff)
    have lost: "stamp_inv (frontier srv')
        \<lparr>issuer = srv', stampers = (stampers sys)(g := ?s), stamped = stamped sys\<rparr>"
      by (rule stamp_inv_refill [OF inv empty]) (use empty grow in auto)
    show ?thesis
    proof (cases ft)
      case Answered
      then show ?thesis
        using stamp_inv_take [OF mid ne, of srv' n] StampCall sys' True iss grow
        by (simp add: Next_refill rpc_of_def issuer_after_def take_stamp_def Let_def)
    next
      case NotServed
      then have "sys' = sys"
        using StampCall sys' True
        by (simp add: Next_refill_error rpc_of_def issuer_after_def Let_def)
      then show ?thesis using inv by simp
    next
      case AnswerLost
      then show ?thesis
        using StampCall sys' True iss grow lost
        by (simp add: Next_refill_error rpc_of_def issuer_after_def Let_def)
    qed
  qed
qed

lemma stamp_run_inv:
  assumes "stamp_inv (frontier (issuer sys)) sys"
    and "frontier (issuer sys) + grant_max * length evs < 2 ^ 64"
  shows "stamp_inv (frontier (issuer (stamp_run issue sys evs))) (stamp_run issue sys evs)"
  using assms
proof (induction evs arbitrary: sys)
  case Nil
  then show ?case by (simp add: stamp_run_def)
next
  case (Cons ev evs)
  let ?sys' = "stamp_step issue sys ev"
  have "frontier (issuer sys) + grant_max < 2 ^ 64" using Cons.prems(2) by simp
  from stamp_step_inv [OF Cons.prems(1) this refl]
  have "stamp_inv (frontier (issuer ?sys')) ?sys'"
    and "frontier (issuer ?sys') \<le> frontier (issuer sys) + grant_max" by blast+
  with Cons.IH [of ?sys'] Cons.prems(2) show ?case by (simp add: stamp_run_def)
qed

text \<open>No number is handed out twice, and each caller sees its numbers increase.\<close>

lemma stamps_unique:
  fixes batches :: "'g \<Rightarrow> u32"
  assumes "frontier srv + grant_max * length evs < 2 ^ 64"
    and sys: "sys = stamp_run issue (stamp_init srv batches) evs"
  shows "distinct (map (\<lambda>(g, sq, ts). sq) (stamped sys))"
    and "\<And>g. sorted_wrt (<) (map (\<lambda>(h, sq, ts). sq) (filter (\<lambda>(h, sq, ts). h = g) (stamped sys)))"
proof -
  have "issuer (stamp_init srv batches :: ('g, 'srv) stamp_sys) = srv"
    by (simp add: stamp_init_def)
  then have "stamp_inv (frontier (issuer sys)) sys"
    unfolding sys using stamp_run_inv [of "stamp_init srv batches" evs] stamp_inv_init assms(1)
    by metis
  note D = alloc_invD(6,7) [OF this [unfolded stamp_inv_def]]
  have fst_eq: "map snd (handed_out (allocation_of sys)) = map unat (map (\<lambda>(g, sq, ts). sq) (stamped sys))"
    by (simp add: allocation_of_def case_prod_unfold)
  show "distinct (map (\<lambda>(g, sq, ts). sq) (stamped sys))"
    using D(1) unfolding fst_eq by (simp only: distinct_map)
  fix g
  have "map snd (filter (\<lambda>p. fst p = g) (handed_out (allocation_of sys)))
      = map unat (map (\<lambda>(h, sq, ts). sq) (filter (\<lambda>(h, sq, ts). h = g) (stamped sys)))"
    by (simp add: allocation_of_def filter_map case_prod_unfold o_def)
  with D(2) [of g]
  show "sorted_wrt (<) (map (\<lambda>(h, sq, ts). sq) (filter (\<lambda>(h, sq, ts). h = g) (stamped sys)))"
    by (simp add: sorted_wrt_map word_less_nat_alt)
qed

end

subsection \<open>Timestamps\<close>

text \<open>
  One gateway's calls with their real time: when the issuer read its clock, when the reply was
  received, when the stamp was computed.  The gateway's monotonic clock is the time scale, and
  \<open>c\<close> is the issuer's clock minus the gateway's, constant when both run at one rate.
\<close>

record timed_call =
  answer :: "NextStampsResponse result"
  served_at :: int
  received_at :: int
  stamped_at :: int

fun clocked :: "int \<Rightarrow> int \<Rightarrow> timed_call list \<Rightarrow> bool" where
  "clocked c t [] = True"
| "clocked c t (k # ks) =
     (t \<le> served_at k \<and> served_at k \<le> received_at k \<and> received_at k \<le> stamped_at k
      \<and> 0 \<le> served_at k + c \<and> stamped_at k + c < 2 ^ 64
      \<and> (case answer k of Inl _ \<Rightarrow> True | Inr r \<Rightarrow> uint (first_ts_ns r) = served_at k + c)
      \<and> clocked c (stamped_at k) ks)"

fun stamp_times :: "Stamper \<Rightarrow> timed_call list \<Rightarrow> int list" where
  "stamp_times s [] = []"
| "stamp_times s (k # ks) =
     (let (res, s') = Next s (\<lambda>_. answer k) (received_at k) (stamped_at k)
      in (case res of Inl _ \<Rightarrow> [] | Inr (sq, ts) \<Rightarrow> [uint ts]) @ stamp_times s' ks)"

text \<open>The origin of a window is no later than real time, and \<open>l\<close> bounds the stamps so far.\<close>

definition origin_ok :: "int \<Rightarrow> Stamper \<Rightarrow> int \<Rightarrow> int \<Rightarrow> bool" where
  "origin_ok c s t l \<longleftrightarrow>
     l \<le> t + c \<and>
     (\<not> window_empty s \<longrightarrow>
        originAt s \<le> t \<and> uint (originTs s) \<le> originAt s + c
      \<and> l \<le> uint (originTs s) + since_ns t (originAt s))"

lemma since_ns_props:
  "t \<le> now \<Longrightarrow> 0 \<le> since_ns now t" "t \<le> now \<Longrightarrow> since_ns now t \<le> now - t"
  "now \<le> now' \<Longrightarrow> since_ns now t \<le> since_ns now' t"
  by (auto simp: since_ns_def)

lemma take_stamp_time:
  assumes "originAt s \<le> now" "uint (originTs s) \<le> originAt s + c" "now + c < 2 ^ 64"
  shows "uint (snd (fst (take_stamp s now))) = uint (originTs s) + since_ns now (originAt s)"
proof -
  have "0 \<le> uint (originTs s) + since_ns now (originAt s)"
    using since_ns_props(1) [OF assms(1)] by simp
  moreover have "uint (originTs s) + since_ns now (originAt s) < 2 ^ 64"
    using since_ns_props(2) [OF assms(1)] assms(2,3) by linarith
  ultimately show ?thesis
    by (simp add: take_stamp_def uint_word_ariths uint_word_of_int mod_add_right_eq)
qed

lemma take_stamp_origin_ok:
  assumes "originAt s \<le> now" "uint (originTs s) \<le> originAt s + c" "now + c < 2 ^ 64"
  shows "origin_ok c (snd (take_stamp s now)) now (uint (snd (fst (take_stamp s now))))"
  using take_stamp_time [OF assms] since_ns_props(2) [OF assms(1)] assms(1,2)
  by (auto simp: origin_ok_def take_stamp_def)

lemma stamp_times_sorted_from:
  assumes "clocked c t ks" "origin_ok c s t l"
  shows "sorted (stamp_times s ks) \<and> list_all (\<lambda>x. l \<le> x) (stamp_times s ks)"
  using assms
proof (induction ks arbitrary: s t l)
  case Nil
  then show ?case by simp
next
  case (Cons k ks)
  let ?n = "stamped_at k" and ?f = "\<lambda>_ :: u32. answer k"
  have time: "t \<le> served_at k" "served_at k \<le> received_at k" "received_at k \<le> ?n" "?n + c < 2 ^ 64"
    and rest: "clocked c ?n ks" using Cons.prems(1) by simp_all
  have later: "origin_ok c s ?n l" if "window_empty s"
    using Cons.prems(2) time that by (auto simp: origin_ok_def)
  have issue: ?case if nxt: "Next s ?f (received_at k) ?n = (Inr (fst (take_stamp w ?n)), snd (take_stamp w ?n))"
    and w: "originAt w \<le> ?n" "uint (originTs w) \<le> originAt w + c"
    and l: "l \<le> uint (originTs w) + since_ns ?n (originAt w)" for w
  proof -
    let ?ts = "uint (snd (fst (take_stamp w ?n)))"
    have "l \<le> ?ts" using take_stamp_time [OF w time(4)] l by simp
    moreover have "sorted (stamp_times (snd (take_stamp w ?n)) ks)
        \<and> list_all (\<lambda>x. ?ts \<le> x) (stamp_times (snd (take_stamp w ?n)) ks)"
      using Cons.IH [OF rest take_stamp_origin_ok [OF w time(4)]] .
    ultimately show ?thesis
      using nxt by (auto simp: case_prod_unfold list_all_iff)
  qed
  show ?case
  proof (cases "window_empty s")
    case False
    then have w: "originAt s \<le> t" "uint (originTs s) \<le> originAt s + c"
      "l \<le> uint (originTs s) + since_ns t (originAt s)"
      using Cons.prems(2) by (simp_all add: origin_ok_def)
    show ?thesis
    proof (rule issue [OF Next_in_window [OF False]])
      show "originAt s \<le> ?n" "uint (originTs s) \<le> originAt s + c" using w time by simp_all
      show "l \<le> uint (originTs s) + since_ns ?n (originAt s)"
        using w(3) since_ns_props(3) [of t ?n "originAt s"] time by linarith
    qed
  next
    case True
    show ?thesis
    proof (cases "answer k")
      case (Inl e)
      then have "Next s ?f (received_at k) ?n = (Inl e, s)"
        using Next_refill_error [OF True, of ?f e] by simp
      then show ?thesis using Cons.IH [OF rest later [OF True]] by simp
    next
      case (Inr r)
      then have r: "uint (first_ts_ns r) = served_at k + c" using Cons.prems(1) by simp
      have le: "l \<le> t + c" using Cons.prems(2) by (simp add: origin_ok_def)
      show ?thesis
      proof (rule issue [OF Next_refill [OF True]])
        show "answer k = Inr r" by (rule Inr)
        show "originAt (refill s r (received_at k)) \<le> ?n"
          "uint (originTs (refill s r (received_at k))) \<le> originAt (refill s r (received_at k)) + c"
          using r time by (simp_all add: refill_def)
        show "l \<le> uint (originTs (refill s r (received_at k)))
            + since_ns ?n (originAt (refill s r (received_at k)))"
          using r time le since_ns_props(1) [of "received_at k" ?n] by (simp add: refill_def)
      qed
    qed
  qed
qed

subsection \<open>Contiguity and cost\<close>

definition answered_by :: "'g \<Rightarrow> ('g, 'env) stamp_event \<Rightarrow> bool" where
  "answered_by g ev \<longleftrightarrow> caller ev = g \<and> fate ev = Answered"

definition rpcs_needed :: "nat \<Rightarrow> nat \<Rightarrow> nat" where
  "rpcs_needed b n = (n + b - 1) div b"

lemma rpcs_needed_step: "0 < b \<Longrightarrow> rpcs_needed b (Suc m) = Suc (rpcs_needed b (Suc m - b))"
proof -
  assume b: "0 < b"
  show ?thesis
  proof (cases "b \<le> Suc m")
    case True
    then have "Suc m + b - 1 = (Suc m - b + b - 1) + b" using b by linarith
    then have "(Suc m + b - 1) div b = ((Suc m - b + b - 1) + b) div b" by (rule arg_cong)
    also have "\<dots> = Suc ((Suc m - b + b - 1) div b)" using b by (simp only: div_add_self2)
    finally show ?thesis by (simp only: rpcs_needed_def)
  next
    case False
    then have "Suc m + b - 1 = b + m" "m < b" by simp_all
    moreover from this(2) have "(b + m) div b = 1" using b by (subst div_add_self1) auto
    ultimately have "(Suc m + b - 1) div b = 1" by (simp only:)
    then show ?thesis using b False by (simp add: rpcs_needed_def)
  qed
qed

text \<open>Gateway \<open>g\<close>, asking for batches of \<open>b\<close>, holds the last \<open>r\<close> numbers issued.\<close>

definition holds_last :: "'g \<Rightarrow> u32 \<Rightarrow> nat \<Rightarrow> ('g, clock) stamp_sys \<Rightarrow> bool" where
  "holds_last g b r sys \<longleftrightarrow>
     (let s = stampers sys g in
        batchSize s = b \<and> 1 \<le> b \<and> b \<le> batch_max
      \<and> r = unat (endSeq s) - unat (nextSeq s)
      \<and> (0 < r \<longrightarrow> unat (endSeq s) = clock_frontier (issuer sys)))"

definition seqs_out :: "('g, 'srv) stamp_sys \<Rightarrow> nat list" where
  "seqs_out sys = map (\<lambda>(h, sq, ts). unat sq) (stamped sys)"

lemma holds_last_take:
  assumes "holds_last g b (Suc r) sys" "answered_by g ev"
  shows "holds_last g b r (stamp_step next_stamps sys ev)
       \<and> issuer (stamp_step next_stamps sys ev) = issuer sys
       \<and> seqs_out (stamp_step next_stamps sys ev) = seqs_out sys @ [clock_frontier (issuer sys) - Suc r]"
proof -
  obtain e t n where ev: "ev = StampCall g Answered e t n"
    using assms(2) by (cases ev) (auto simp: answered_by_def)
  let ?s = "stampers sys g"
  have h: "batchSize ?s = b" "1 \<le> b" "b \<le> batch_max" "Suc r = unat (endSeq ?s) - unat (nextSeq ?s)"
      "unat (endSeq ?s) = clock_frontier (issuer sys)"
    using assms(1) by (simp_all add: holds_last_def Let_def)
  have ne: "\<not> window_empty ?s" using h(4) by (simp add: window_empty_def word_le_nat_alt)
  have lt: "unat (nextSeq ?s) < unat (endSeq ?s)" using h(4) by simp
  moreover have "unat (endSeq ?s) < 2 ^ 64" using unsigned_less [of "endSeq ?s"] by simp
  ultimately have "unat (nextSeq ?s + 1) = Suc (unat (nextSeq ?s))"
    by (simp add: unat_word_ariths)
  then show ?thesis
    using h lt by (simp add: ev Next_in_window [OF ne] issuer_after_def ne holds_last_def take_stamp_def seqs_out_def Let_def)
qed

lemma holds_last_refill:
  assumes "holds_last g b 0 sys" "answered_by g ev" "clock_frontier (issuer sys) + 65535 < 2 ^ 64"
  shows "holds_last g b (unat b - 1) (stamp_step next_stamps sys ev)
       \<and> clock_frontier (issuer (stamp_step next_stamps sys ev)) = clock_frontier (issuer sys) + unat b
       \<and> seqs_out (stamp_step next_stamps sys ev) = seqs_out sys @ [clock_frontier (issuer sys)]"
proof -
  obtain e t n where ev: "ev = StampCall g Answered e t n"
    using assms(2) by (cases ev) (auto simp: answered_by_def)
  let ?s = "stampers sys g"
  have h: "batchSize ?s = b" "1 \<le> b" "b \<le> batch_max" "unat (endSeq ?s) \<le> unat (nextSeq ?s)"
    using assms(1) by (simp_all add: holds_last_def Let_def)
  have em: "window_empty ?s" using h(4) by (simp add: window_empty_def word_le_nat_alt)
  obtain resp srv' where iss: "next_stamps (issuer sys) b e = (resp, srv')" by fastforce
  have bs: "batch_size resp = b"
    using next_stamps_fields [OF iss] clamp_batch_id [OF h(2,3)] by simp
  note first = ts.frontier_start [OF iss]
  note fr = ts.frontier_next [OF iss assms(3), unfolded bs]
  note we = ts.window_end [OF iss assms(3), unfolded bs]
  have "unat b \<le> 65535" using h(3) by (simp add: batch_max_def word_le_nat_alt)
  then have sm: "clock_frontier (issuer sys) + 1 < 2 ^ 64" using assms(3) by simp
  have suc: "unat (first_seq resp + 1) = Suc (clock_frontier (issuer sys))"
    using first sm by (simp add: unat_word_ariths)
  have bpos: "0 < unat b" using h(2) by (simp add: word_le_nat_alt)
  let ?sys = "stamp_step next_stamps sys ev"
  have nxt: "Next ?s (rpc_of next_stamps (issuer sys) Answered e) t n
      = (Inr (fst (take_stamp (refill ?s resp t) n)), snd (take_stamp (refill ?s resp t) n))"
    by (rule Next_refill [OF em]) (simp add: rpc_of_def h(1) iss)
  have sys': "stampers ?sys g = snd (take_stamp (refill ?s resp t) n)" "issuer ?sys = srv'"
    "seqs_out ?sys = seqs_out sys @ [unat (first_seq resp)]"
    using nxt by (simp_all add: ev issuer_after_def em h(1) iss seqs_out_def take_stamp_def refill_def Let_def)
  show ?thesis
    unfolding holds_last_def sys' Let_def
    using h we suc fr first bs bpos by (simp add: take_stamp_def refill_def)
qed

lemma contiguous_from:
  assumes "list_all (answered_by g) evs" "holds_last g b r sys"
    and "r \<le> clock_frontier (issuer sys)"
    and "clock_frontier (issuer sys) + 65535 * length evs < 2 ^ 64"
  shows "seqs_out (stamp_run next_stamps sys evs)
       = seqs_out sys @ [clock_frontier (issuer sys) - r ..< clock_frontier (issuer sys) - r + length evs]
     \<and> clock_frontier (issuer (stamp_run next_stamps sys evs))
       = clock_frontier (issuer sys) + unat b * rpcs_needed (unat b) (length evs - r)"
  using assms
proof (induction evs arbitrary: sys r)
  case Nil
  have "1 \<le> b" using Nil.prems(2) by (simp add: holds_last_def Let_def)
  then have "0 < unat b" by (simp add: word_le_nat_alt)
  then show ?case by (simp add: stamp_run_def rpcs_needed_def)
next
  case (Cons ev evs)
  let ?sys = "stamp_step next_stamps sys ev" and ?F = "clock_frontier (issuer sys)"
  have rest: "list_all (answered_by g) evs" and ans: "answered_by g ev" using Cons.prems(1) by simp_all
  have run: "stamp_run next_stamps sys (ev # evs) = stamp_run next_stamps ?sys evs"
    by (simp add: stamp_run_def)
  show ?case
  proof (cases r)
    case (Suc r')
    note st = holds_last_take [OF Cons.prems(2) [unfolded Suc] ans]
    have "[?F - Suc r' ..< ?F - Suc r' + length (ev # evs)]
        = (?F - Suc r') # [?F - r' ..< ?F - r' + length evs]"
      using Cons.prems(3) Suc by (subst upt_conv_Cons) (simp_all add: Suc_diff_Suc)
    then show ?thesis
      using Cons.IH [OF rest, of r' ?sys] st Cons.prems(3,4)
      by (simp add: run Suc)
  next
    case 0
    have b: "1 \<le> b" "b \<le> batch_max" using Cons.prems(2) by (simp_all add: holds_last_def Let_def)
    have bb: "0 < unat b" "unat b \<le> 65535"
      using b by (simp_all add: word_le_nat_alt batch_max_def)
    have "?F + 65535 < 2 ^ 64" using Cons.prems(4) by simp
    note st = holds_last_refill [OF Cons.prems(2) [unfolded 0] ans this]
    have IH: "seqs_out (stamp_run next_stamps ?sys evs)
       = seqs_out ?sys @ [?F + unat b - (unat b - 1) ..< ?F + unat b - (unat b - 1) + length evs]
     \<and> clock_frontier (issuer (stamp_run next_stamps ?sys evs))
       = ?F + unat b + unat b * rpcs_needed (unat b) (length evs - (unat b - 1))"
      using Cons.IH [OF rest, of "unat b - 1" ?sys] st bb Cons.prems(4) by simp
    have one: "?F + unat b - (unat b - 1) = Suc ?F" using bb by simp
    have "rpcs_needed (unat b) (Suc (length evs))
        = Suc (rpcs_needed (unat b) (length evs - (unat b - 1)))"
      using rpcs_needed_step [OF bb(1), of "length evs"] bb(1) by simp
    moreover have "[?F ..< ?F + length (ev # evs)] = ?F # [Suc ?F ..< Suc ?F + length evs]"
      by (subst upt_conv_Cons) simp_all
    ultimately show ?thesis
      using IH st unfolding run 0 one by simp
  qed
qed

subsection \<open>Properties\<close>

text \<open>
  C2 (platform_seq_unique): any number of gateways over one time-service, their calls in any order,
  RPCs failing before or after they were served: no \<^verbatim>\<open>platform_seq\<close> is ever handed out twice, as
  long as the 64-bit counter has room for the calls.
\<close>

theorem platform_seq_unique:
  assumes "unat (next_seq c) + 65535 * length evs < 2 ^ 64"
  shows "distinct (map (\<lambda>(g, sq, ts). sq)
           (stamped (stamp_run next_stamps (stamp_init c batches) evs)))"
  using ts.stamps_unique(1) [of c evs _ batches] assms by (simp add: clock_frontier_def)

text \<open>
  In the same system, each gateway hands its numbers out in strictly
  increasing order.
\<close>

theorem platform_seq_increasing:
  assumes "unat (next_seq c) + 65535 * length evs < 2 ^ 64"
  shows "sorted_wrt (<) (map (\<lambda>(h, sq, ts). sq)
           (filter (\<lambda>(h, sq, ts). h = g)
             (stamped (stamp_run next_stamps (stamp_init c batches) evs))))"
  using ts.stamps_unique(2) [of c evs _ batches g] assms by (simp add: clock_frontier_def)

text \<open>
  With one gateway and no failed RPC, \<open>n\<close> calls hand out exactly the next
  \<open>n\<close> numbers of the time-service, and cost one RPC for every full or started batch: the
  service's counter moves by \<open>b\<close> for each of \<open>\<lceil>n / b\<rceil>\<close> requests.
\<close>

theorem stamps_contiguous:
  assumes "list_all (answered_by g) evs"
    and "b = batchSize (NewStamper (batches g))" "b \<le> batch_max"
    and "unat (next_seq c) + 65535 * length evs < 2 ^ 64"
    and "sys = stamp_run next_stamps (stamp_init c batches) evs"
  shows "seqs_out sys = [unat (next_seq c) ..< unat (next_seq c) + length evs]
       \<and> clock_frontier (issuer sys)
           = unat (next_seq c) + unat b * rpcs_needed (unat b) (length evs)"
proof -
  have "b \<noteq> 0" using assms(2) NewStamper_batch_pos by simp
  then have "1 \<le> b" by (simp add: word_le_nat_alt Suc_le_eq unat_gt_0)
  moreover have "unat (endSeq (NewStamper (batches g))) - unat (nextSeq (NewStamper (batches g))) = 0"
    by (simp add: NewStamper_def)
  ultimately have "holds_last g b 0 (stamp_init c batches)"
    using assms(2,3) by (simp add: holds_last_def stamp_init_def Let_def)
  then show ?thesis
    using contiguous_from [OF assms(1), of b 0 "stamp_init c batches"] assms(4)
    by (simp add: assms(5) stamp_init_def seqs_out_def clock_frontier_def)
qed

text \<open>
  \<^verbatim>\<open>platform_ts_ns\<close> never goes backwards at one gateway, across refills
  included, when the service's timestamps are real times of its clock and both clocks run at the
  same rate.
\<close>

theorem timestamps_monotone:
  assumes "clocked c t ks"
  shows "sorted (stamp_times (NewStamper b) ks)"
  using stamp_times_sorted_from [OF assms, of "NewStamper b" "t + c"] NewStamper_empty [of b]
  by (simp add: origin_ok_def)

definition sample_calls :: "(nat, nat) stamp_event list" where
  "sample_calls =
     [StampCall 0 Answered 5 10 12, StampCall 1 AnswerLost 7 0 0, StampCall 1 Answered 9 20 25,
      StampCall 0 NotServed 0 0 0, StampCall 0 Answered 30 40 41]"

definition sample_clock :: clock where
  "sample_clock = \<lparr>next_seq = 10000, boot_ts_ns = 77\<rparr>"

theorem platform_seq_unique_witness:
  "distinct (map (\<lambda>(g, sq, ts). sq)
     (stamped (stamp_run next_stamps (stamp_init sample_clock (\<lambda>_. 1)) sample_calls)))"
  by (rule platform_seq_unique) (simp add: sample_clock_def sample_calls_def)

theorem platform_seq_increasing_witness:
  "sorted_wrt (<) (map (\<lambda>(h, sq, ts). sq) (filter (\<lambda>(h, sq, ts). h = 0)
     (stamped (stamp_run next_stamps (stamp_init sample_clock (\<lambda>_. 1)) sample_calls))))"
  by (rule platform_seq_increasing) (simp add: sample_clock_def sample_calls_def)

theorem stamps_contiguous_witness:
  "seqs_out (stamp_run next_stamps (stamp_init sample_clock (\<lambda>_. 2))
      (replicate 5 (StampCall (0 :: nat) Answered (7 :: nat) 1 2))) = [10000, 10001, 10002, 10003, 10004]
   \<and> clock_frontier (issuer (stamp_run next_stamps (stamp_init sample_clock (\<lambda>_. 2))
      (replicate 5 (StampCall (0 :: nat) Answered (7 :: nat) 1 2)))) = 10006"
  using stamps_contiguous [where g = "0 :: nat" and b = 2 and batches = "\<lambda>_. 2" and c = sample_clock
      and evs = "replicate 5 (StampCall 0 Answered (7 :: nat) 1 2)", OF _ _ _ _ refl]
  by (simp add: list_all_iff answered_by_def NewStamper_def batch_max_def sample_clock_def rpcs_needed_def upt_rec)

theorem timestamps_monotone_witness:
  "sorted (stamp_times (NewStamper 1)
     [\<lparr>answer = Inr \<lparr>first_seq = 10000, first_ts_ns = 105, step_ns = 100, batch_size = 1\<rparr>,
        served_at = 5, received_at = 9, stamped_at = 10\<rparr>,
      \<lparr>answer = Inr \<lparr>first_seq = 10001, first_ts_ns = 111, step_ns = 100, batch_size = 1\<rparr>,
        served_at = 11, received_at = 12, stamped_at = 15\<rparr>])"
  by (rule timestamps_monotone [of 100 0]) simp

end
