(* ===== verification/Wire.thy ===== *)
theory Wire
  imports Prelude
begin

text \<open>
  The messages of \<^verbatim>\<open>orders.proto\<close> and \<^verbatim>\<open>order_intake.proto\<close> as the generated Go code has them
  (\<^verbatim>\<open>pkg/proto/ironbook/v1\<close>), with the getters the gateway uses.  A message is handled through
  a pointer: \<^const>\<open>None\<close> is nil, and every getter is safe on it.  The enums are open \<^verbatim>\<open>int32\<close>s on
  the wire; the constructors here are the values the generated code declares.
\<close>

subsection \<open>Enums\<close>

datatype Side = SIDE_UNSPECIFIED | SIDE_BID | SIDE_ASK

datatype OrderType = ORDER_TYPE_UNSPECIFIED | ORDER_TYPE_LIMIT | ORDER_TYPE_MARKET

datatype TimeInForce =
  TIME_IN_FORCE_UNSPECIFIED | TIME_IN_FORCE_GTC | TIME_IN_FORCE_IOC | TIME_IN_FORCE_FOK

subsection \<open>Messages\<close>

record NormalizedOrder =
  no_PlatformSeq :: u64
  no_PlatformTsNs :: u64
  no_ClientOrderId :: bytes
  no_SessionToken :: bytes
  no_Side :: Side
  no_Qty :: u64
  no_Price :: i64
  no_OrderType :: OrderType
  no_Tif :: TimeInForce

record Ack =
  ack_PlatformSeq :: u64
  ack_AckTsNs :: u64
  ack_Status :: u32
  ack_Message :: string

record Fill =
  fill_TradeId :: u64
  fill_PlatformSeqTaker :: u64
  fill_PlatformSeqMaker :: u64
  fill_Price :: i64
  fill_Qty :: u64
  fill_TsNs :: u64

record Reply =
  reply_Ack :: "Ack option"
  reply_Fills :: "Fill option list"

subsection \<open>Getters\<close>

definition or_zero :: "('a \<Rightarrow> 'b) \<Rightarrow> 'b \<Rightarrow> 'a option \<Rightarrow> 'b" where
  "or_zero get z x = (case x of None \<Rightarrow> z | Some v \<Rightarrow> get v)"

lemma or_zero_simps [simp]: "or_zero get z None = z" "or_zero get z (Some v) = get v"
  by (simp_all add: or_zero_def)

definition Reply_GetAck :: "Reply option \<Rightarrow> Ack option" where
  "Reply_GetAck = or_zero reply_Ack None"

definition Reply_GetFills :: "Reply option \<Rightarrow> Fill option list" where
  "Reply_GetFills = or_zero reply_Fills []"

definition Ack_GetPlatformSeq :: "Ack option \<Rightarrow> u64" where
  "Ack_GetPlatformSeq = or_zero ack_PlatformSeq 0"

definition Ack_GetAckTsNs :: "Ack option \<Rightarrow> u64" where
  "Ack_GetAckTsNs = or_zero ack_AckTsNs 0"

definition Ack_GetStatus :: "Ack option \<Rightarrow> u32" where
  "Ack_GetStatus = or_zero ack_Status 0"

definition Ack_GetMessage :: "Ack option \<Rightarrow> string" where
  "Ack_GetMessage = or_zero ack_Message []"

definition Fill_GetTradeId :: "Fill option \<Rightarrow> u64" where
  "Fill_GetTradeId = or_zero fill_TradeId 0"

definition Fill_GetPlatformSeqMaker :: "Fill option \<Rightarrow> u64" where
  "Fill_GetPlatformSeqMaker = or_zero fill_PlatformSeqMaker 0"

definition Fill_GetPrice :: "Fill option \<Rightarrow> i64" where
  "Fill_GetPrice = or_zero fill_Price 0"

definition Fill_GetQty :: "Fill option \<Rightarrow> u64" where
  "Fill_GetQty = or_zero fill_Qty 0"

definition Fill_GetTsNs :: "Fill option \<Rightarrow> u64" where
  "Fill_GetTsNs = or_zero fill_TsNs 0"

lemmas getter_defs =
  Reply_GetAck_def Reply_GetFills_def Ack_GetPlatformSeq_def Ack_GetAckTsNs_def Ack_GetStatus_def
  Ack_GetMessage_def Fill_GetTradeId_def Fill_GetPlatformSeqMaker_def Fill_GetPrice_def
  Fill_GetQty_def Fill_GetTsNs_def

subsection \<open>The intake client\<close>

text \<open>
  \<^verbatim>\<open>orderIntakeClient.Submit\<close>: gRPC's \<^verbatim>\<open>Invoke\<close> (the parameter) either fails or fills the fresh
  \<^verbatim>\<open>Reply\<close> it was given, so a successful call never returns a nil reply.
\<close>

definition Submit :: "(NormalizedOrder \<Rightarrow> Reply result) \<Rightarrow> NormalizedOrder
    \<Rightarrow> Reply option \<times> go_error option" where
  "Submit Invoke o1 =
     (case Invoke o1 of Inl err \<Rightarrow> (None, Some err) | Inr out \<Rightarrow> (Some out, None))"

end
