(* ===== verification/Fork.thy ===== *)
theory Fork
  imports Wire "HOL-Library.Multiset"
begin

text \<open>
  \<^verbatim>\<open>apps/fairness-gateway/gateway/fork.go\<close> and \<^verbatim>\<open>sink_file.go\<close>: the fan-out of one order to the
  submission and the oracle, and the sink that records it.

  \<^verbatim>\<open>Process\<close> starts two goroutines and waits for both.  \<open>fork_step\<close> is their interleaving, one
  atomic action of one goroutine at a time: an RPC with the assignment of its results, or a call
  of the sink (which serialises callers by its mutex).  \<open>Process\<close> is the function, for any
  schedule; \<open>fork_run_is_process\<close> says that every complete interleaving is one of its runs.
  The locale \<open>sink\<close> is the \<^verbatim>\<open>Sink\<close> interface.
\<close>

subsection \<open>The \<^verbatim>\<open>Sink\<close> interface\<close>

datatype sink_event =
    SinkIn NormalizedOrder
  | SinkReply NormalizedOrder string "Reply option"

text \<open>What a sink promises: it is told of every event, in the order of the calls.\<close>

locale sink =
  fixes on_in :: "'s \<Rightarrow> NormalizedOrder \<Rightarrow> 's"
    and on_reply :: "'s \<Rightarrow> NormalizedOrder \<Rightarrow> string \<Rightarrow> Reply option \<Rightarrow> 's"
    and told :: "'s \<Rightarrow> sink_event list"
  assumes told_in: "told (on_in s o1) = told s @ [SinkIn o1]"
    and told_reply: "told (on_reply s o1 src r) = told s @ [SinkReply o1 src r]"

subsection \<open>\<^verbatim>\<open>Fork.Process\<close>\<close>

text \<open>Where a goroutine is: before its RPC, before its sink call, or done.\<close>

datatype goroutine = AtSubmit | AtSink | Finished

record 's fork_state =
  sub_at :: goroutine
  or_at :: goroutine
  subR :: "Reply option"
  subE :: "go_error option"
  orR :: "Reply option"
  orE :: "go_error option"
  fork_sink :: "'s option"
  submitted :: "(string \<times> NormalizedOrder) list"

type_synonym client = "NormalizedOrder \<Rightarrow> Reply option \<times> go_error option"

definition after_submit :: "go_error option \<Rightarrow> 's option \<Rightarrow> goroutine" where
  "after_submit err sk = (if err = None \<and> sk \<noteq> None then AtSink else Finished)"

definition submission_step ::
    "('s \<Rightarrow> NormalizedOrder \<Rightarrow> string \<Rightarrow> Reply option \<Rightarrow> 's) \<Rightarrow> client \<Rightarrow> NormalizedOrder
      \<Rightarrow> 's fork_state \<Rightarrow> 's fork_state option" where
  "submission_step OnReply Submission o1 st =
     (case sub_at st of
        AtSubmit \<Rightarrow>
          (let (r, err) = Submission o1
           in Some (st\<lparr>subR := r, subE := err, sub_at := after_submit err (fork_sink st),
                       submitted := submitted st @ [(''submission'', o1)]\<rparr>))
      | AtSink \<Rightarrow>
          Some (st\<lparr>fork_sink := map_option (\<lambda>s. OnReply s o1 ''submission'' (subR st)) (fork_sink st),
                   sub_at := Finished\<rparr>)
      | Finished \<Rightarrow> None)"

definition oracle_step ::
    "('s \<Rightarrow> NormalizedOrder \<Rightarrow> string \<Rightarrow> Reply option \<Rightarrow> 's) \<Rightarrow> client \<Rightarrow> NormalizedOrder
      \<Rightarrow> 's fork_state \<Rightarrow> 's fork_state option" where
  "oracle_step OnReply Oracle o1 st =
     (case or_at st of
        AtSubmit \<Rightarrow>
          (let (r, err) = Oracle o1
           in Some (st\<lparr>orR := r, orE := err, or_at := after_submit err (fork_sink st),
                       submitted := submitted st @ [(''oracle'', o1)]\<rparr>))
      | AtSink \<Rightarrow>
          Some (st\<lparr>fork_sink := map_option (\<lambda>s. OnReply s o1 ''oracle'' (orR st)) (fork_sink st),
                   or_at := Finished\<rparr>)
      | Finished \<Rightarrow> None)"

definition fork_start ::
    "('s \<Rightarrow> NormalizedOrder \<Rightarrow> 's) \<Rightarrow> 's option \<Rightarrow> NormalizedOrder \<Rightarrow> 's fork_state" where
  "fork_start OnIn sk o1 =
     \<lparr>sub_at = AtSubmit, or_at = AtSubmit, subR = None, subE = None, orR = None, orE = None,
      fork_sink = map_option (\<lambda>s. OnIn s o1) sk, submitted = []\<rparr>"

inductive fork_step for OnReply Submission Oracle o1 where
  sub_moves: "submission_step OnReply Submission o1 st = Some st'
     \<Longrightarrow> fork_step OnReply Submission Oracle o1 st st'"
| or_moves: "oracle_step OnReply Oracle o1 st = Some st'
     \<Longrightarrow> fork_step OnReply Submission Oracle o1 st st'"

inductive_cases fork_stepE: "fork_step OnReply Submission Oracle o1 st st'"

text \<open>\<^verbatim>\<open>wg.Wait()\<close> returns.\<close>

definition fork_done :: "'s fork_state \<Rightarrow> bool" where
  "fork_done st \<longleftrightarrow> sub_at st = Finished \<and> or_at st = Finished"

definition fork_result :: "'s fork_state \<Rightarrow> Reply option result" where
  "fork_result st =
     (case errors_join [subE st, orE st] of Some err \<Rightarrow> Inl err | None \<Rightarrow> Inr (subR st))"

text \<open>
  The scheduler: each entry lets one goroutine move (\<open>True\<close> the submission's), a move of a
  finished goroutine being none; after the schedule both are run to their end.
\<close>

definition fork_move :: "('s \<Rightarrow> NormalizedOrder \<Rightarrow> string \<Rightarrow> Reply option \<Rightarrow> 's)
    \<Rightarrow> client \<Rightarrow> client \<Rightarrow> NormalizedOrder \<Rightarrow> 's fork_state \<Rightarrow> bool \<Rightarrow> 's fork_state" where
  "fork_move OnReply Submission Oracle o1 st b =
     (case (if b then submission_step OnReply Submission o1 st
            else oracle_step OnReply Oracle o1 st) of
        None \<Rightarrow> st | Some st' \<Rightarrow> st')"

definition Process :: "('s \<Rightarrow> NormalizedOrder \<Rightarrow> 's)
    \<Rightarrow> ('s \<Rightarrow> NormalizedOrder \<Rightarrow> string \<Rightarrow> Reply option \<Rightarrow> 's)
    \<Rightarrow> client \<Rightarrow> client \<Rightarrow> bool list \<Rightarrow> 's option \<Rightarrow> NormalizedOrder
    \<Rightarrow> Reply option result \<times> 's option" where
  "Process OnIn OnReply Submission Oracle sched sk o1 =
     (let st = foldl (fork_move OnReply Submission Oracle o1) (fork_start OnIn sk o1)
                 (sched @ [True, True, False, False])
      in (fork_result st, fork_sink st))"

lemmas fork_step_defs = submission_step_def oracle_step_def after_submit_def

subsection \<open>What every interleaving does\<close>

text \<open>
  The contract of \<^verbatim>\<open>Process\<close>: the submission's reply if both calls succeeded, otherwise the
  errors there are, the submission's first; and the successful replies as the sink sees them.
\<close>

definition fork_spec :: "Reply option \<times> go_error option \<Rightarrow> Reply option \<times> go_error option
    \<Rightarrow> Reply option result" where
  "fork_spec sub orc =
     (case (snd sub, snd orc) of
        (None, None) \<Rightarrow> Inr (fst sub)
      | (Some e, None) \<Rightarrow> Inl (Joined [e])
      | (None, Some e) \<Rightarrow> Inl (Joined [e])
      | (Some d, Some e) \<Rightarrow> Inl (Joined [d, e]))"

definition replies_of :: "NormalizedOrder \<Rightarrow> Reply option \<times> go_error option
    \<Rightarrow> Reply option \<times> go_error option \<Rightarrow> sink_event multiset" where
  "replies_of o1 sub orc =
     (if snd sub = None then {#SinkReply o1 ''submission'' (fst sub)#} else {#})
   + (if snd orc = None then {#SinkReply o1 ''oracle'' (fst orc)#} else {#})"

text \<open>
  \<open>told_ok\<close>: beyond what it had been told before, the sink was told of the order and then of the
  replies \<open>M\<close>, in some order.  \<open>owed\<close> is what one goroutine has told it, given its position.
\<close>

definition told_ok ::
    "('s \<Rightarrow> sink_event list) \<Rightarrow> 's option \<Rightarrow> NormalizedOrder \<Rightarrow> 's option \<Rightarrow> sink_event multiset \<Rightarrow> bool"
    where
  "told_ok told sk o1 sk' M \<longleftrightarrow>
     (case sk of
        None \<Rightarrow> sk' = None
      | Some s0 \<Rightarrow>
          (case sk' of None \<Rightarrow> False
           | Some s \<Rightarrow> (\<exists>evs. told s = told s0 @ SinkIn o1 # evs \<and> mset evs = M)))"

definition owed :: "goroutine \<Rightarrow> go_error option \<Rightarrow> sink_event \<Rightarrow> sink_event multiset" where
  "owed at1 err ev = (if at1 = Finished \<and> err = None then {#ev#} else {#})"

definition goroutine_ok ::
    "client \<Rightarrow> 's option \<Rightarrow> NormalizedOrder \<Rightarrow> goroutine \<Rightarrow> Reply option \<Rightarrow> go_error option \<Rightarrow> bool" where
  "goroutine_ok Cl sk o1 at1 r err \<longleftrightarrow>
     (at1 \<noteq> AtSubmit \<longrightarrow> (r, err) = Cl o1) \<and> (at1 = AtSink \<longrightarrow> err = None \<and> sk \<noteq> None)
   \<and> (at1 = AtSubmit \<longrightarrow> err = None)"

definition sent :: "goroutine \<Rightarrow> string \<Rightarrow> NormalizedOrder \<Rightarrow> (string \<times> NormalizedOrder) multiset" where
  "sent at1 src o1 = (if at1 = AtSubmit then {#} else {#(src, o1)#})"

definition fork_inv :: "('s \<Rightarrow> sink_event list) \<Rightarrow> client \<Rightarrow> client \<Rightarrow> 's option \<Rightarrow> NormalizedOrder
    \<Rightarrow> 's fork_state \<Rightarrow> bool" where
  "fork_inv told Submission Oracle sk o1 st \<longleftrightarrow>
     goroutine_ok Submission sk o1 (sub_at st) (subR st) (subE st)
   \<and> goroutine_ok Oracle sk o1 (or_at st) (orR st) (orE st)
   \<and> mset (submitted st) = sent (sub_at st) ''submission'' o1 + sent (or_at st) ''oracle'' o1
   \<and> told_ok told sk o1 (fork_sink st)
       (owed (sub_at st) (subE st) (SinkReply o1 ''submission'' (subR st))
        + owed (or_at st) (orE st) (SinkReply o1 ''oracle'' (orR st)))"

lemma told_ok_nil: "told_ok told sk o1 sk' M \<Longrightarrow> sk' = None \<longleftrightarrow> sk = None"
  by (auto simp: told_ok_def split: option.splits)

lemma told_ok_no_sink: "told_ok told sk o1 None M \<Longrightarrow> told_ok told sk o1 None N"
  by (auto simp: told_ok_def split: option.splits)

lemmas goroutine_defs = goroutine_ok_def owed_def sent_def after_submit_def

context sink
begin

lemma told_ok_reply:
  assumes "told_ok told sk o1 (Some s) M"
  shows "told_ok told sk o1 (Some (on_reply s o1 src r)) (add_mset (SinkReply o1 src r) M)"
proof -
  from assms obtain s0 evs where "sk = Some s0" "told s = told s0 @ SinkIn o1 # evs" "mset evs = M"
    by (auto simp: told_ok_def split: option.splits)
  then show ?thesis
    by (auto simp: told_ok_def told_reply intro: exI [of _ "evs @ [SinkReply o1 src r]"])
qed

lemma fork_inv_start: "fork_inv told Submission Oracle sk o1 (fork_start on_in sk o1)"
  by (cases sk) (simp_all add: fork_inv_def fork_start_def told_in told_ok_def goroutine_defs)

lemma fork_inv_submission:
  assumes inv: "fork_inv told Submission Oracle sk o1 st"
    and step: "submission_step on_reply Submission o1 st = Some st'"
  shows "fork_inv told Submission Oracle sk o1 st'"
proof (cases "sub_at st")
  case AtSubmit
  obtain r err where c: "Submission o1 = (r, err)" by fastforce
  then have st': "st' = st\<lparr>subR := r, subE := err, sub_at := after_submit err (fork_sink st),
      submitted := submitted st @ [(''submission'', o1)]\<rparr>"
    using step AtSubmit by (simp add: submission_step_def)
  have told: "told_ok told sk o1 (fork_sink st) (owed (or_at st) (orE st) (SinkReply o1 ''oracle'' (orR st)))"
    using inv AtSubmit by (simp add: fork_inv_def owed_def)
  note nil = told_ok_nil [OF told]
  show ?thesis
  proof (cases "fork_sink st")
    case None
    then show ?thesis
      using inv told_ok_no_sink [of told sk o1] told nil AtSubmit c
      by (auto simp: fork_inv_def st' goroutine_defs)
  next
    case (Some s)
    then show ?thesis
      using inv told nil AtSubmit c by (auto simp: fork_inv_def st' goroutine_defs)
  qed
next
  case AtSink
  then have st': "st' = st\<lparr>fork_sink := map_option (\<lambda>s. on_reply s o1 ''submission'' (subR st)) (fork_sink st),
      sub_at := Finished\<rparr>"
    using step by (simp add: submission_step_def)
  have sk: "sk \<noteq> None" "subE st = None"
    using inv AtSink by (simp_all add: fork_inv_def goroutine_ok_def)
  have told: "told_ok told sk o1 (fork_sink st) (owed (or_at st) (orE st) (SinkReply o1 ''oracle'' (orR st)))"
    using inv AtSink by (simp add: fork_inv_def owed_def)
  obtain s where s: "fork_sink st = Some s"
    using sk(1) told_ok_nil [OF told] by auto
  show ?thesis
    using inv AtSink sk told_ok_reply [OF told [unfolded s], of "''submission''" "subR st"]
    by (simp add: fork_inv_def st' s goroutine_defs)
next
  case Finished
  then show ?thesis using step by (simp add: submission_step_def)
qed

lemma fork_inv_oracle:
  assumes inv: "fork_inv told Submission Oracle sk o1 st"
    and step: "oracle_step on_reply Oracle o1 st = Some st'"
  shows "fork_inv told Submission Oracle sk o1 st'"
proof (cases "or_at st")
  case AtSubmit
  obtain r err where c: "Oracle o1 = (r, err)" by fastforce
  then have st': "st' = st\<lparr>orR := r, orE := err, or_at := after_submit err (fork_sink st),
      submitted := submitted st @ [(''oracle'', o1)]\<rparr>"
    using step AtSubmit by (simp add: oracle_step_def)
  have told: "told_ok told sk o1 (fork_sink st) (owed (sub_at st) (subE st) (SinkReply o1 ''submission'' (subR st)))"
    using inv AtSubmit by (simp add: fork_inv_def owed_def)
  note nil = told_ok_nil [OF told]
  show ?thesis
  proof (cases "fork_sink st")
    case None
    then show ?thesis
      using inv told_ok_no_sink [of told sk o1] told nil AtSubmit c
      by (auto simp: fork_inv_def st' goroutine_defs)
  next
    case (Some s)
    then show ?thesis
      using inv told nil AtSubmit c by (auto simp: fork_inv_def st' goroutine_defs)
  qed
next
  case AtSink
  then have st': "st' = st\<lparr>fork_sink := map_option (\<lambda>s. on_reply s o1 ''oracle'' (orR st)) (fork_sink st),
      or_at := Finished\<rparr>"
    using step by (simp add: oracle_step_def)
  have sk: "sk \<noteq> None" "orE st = None"
    using inv AtSink by (simp_all add: fork_inv_def goroutine_ok_def)
  have told: "told_ok told sk o1 (fork_sink st) (owed (sub_at st) (subE st) (SinkReply o1 ''submission'' (subR st)))"
    using inv AtSink by (simp add: fork_inv_def owed_def)
  obtain s where s: "fork_sink st = Some s"
    using sk(1) told_ok_nil [OF told] by auto
  show ?thesis
    using inv AtSink sk told_ok_reply [OF told [unfolded s], of "''oracle''" "orR st"]
    by (simp add: fork_inv_def st' s goroutine_defs)
next
  case Finished
  then show ?thesis using step by (simp add: oracle_step_def)
qed

lemma fork_inv_reach:
  "(fork_step on_reply Submission Oracle o1)\<^sup>*\<^sup>* (fork_start on_in sk o1) st \<Longrightarrow>
     fork_inv told Submission Oracle sk o1 st"
  by (induction rule: rtranclp_induct)
    (auto intro: fork_inv_start fork_inv_submission fork_inv_oracle elim: fork_stepE)

text \<open>
  When both goroutines are done: the result is a function of the two RPC results alone, each
  client has been called once with the order, and the sink has been told of the order first and
  then of each successful reply once.
\<close>

lemma fork_complete:
  assumes reach: "(fork_step on_reply Submission Oracle o1)\<^sup>*\<^sup>* (fork_start on_in sk o1) st"
    and over: "fork_done st"
  shows "fork_result st = fork_spec (Submission o1) (Oracle o1)"
    and "mset (submitted st) = {#(''submission'', o1), (''oracle'', o1)#}"
    and "told_ok told sk o1 (fork_sink st) (replies_of o1 (Submission o1) (Oracle o1))"
proof -
  note inv = fork_inv_reach [OF reach]
  have fin: "sub_at st = Finished" "or_at st = Finished" using over by (simp_all add: fork_done_def)
  then have c: "Submission o1 = (subR st, subE st)" "Oracle o1 = (orR st, orE st)"
    using inv by (simp_all add: fork_inv_def goroutine_ok_def)
  show "fork_result st = fork_spec (Submission o1) (Oracle o1)"
    by (simp add: fork_result_def fork_spec_def c errors_join_two split: option.splits)
  show "mset (submitted st) = {#(''submission'', o1), (''oracle'', o1)#}"
    using inv fin by (simp add: fork_inv_def sent_def)
  show "told_ok told sk o1 (fork_sink st) (replies_of o1 (Submission o1) (Oracle o1))"
  proof -
    have "told_ok told sk o1 (fork_sink st)
        (owed Finished (subE st) (SinkReply o1 ''submission'' (subR st))
         + owed Finished (orE st) (SinkReply o1 ''oracle'' (orR st)))"
      using inv fin by (simp add: fork_inv_def)
    then show ?thesis unfolding c replies_of_def owed_def by (simp only: fst_conv snd_conv simp_thms)
  qed
qed

end

subsection \<open>Schedules\<close>

fun moves_left :: "goroutine \<Rightarrow> nat" where
  "moves_left AtSubmit = 2"
| "moves_left AtSink = 1"
| "moves_left Finished = 0"

definition fork_measure :: "'s fork_state \<Rightarrow> nat" where
  "fork_measure st = moves_left (sub_at st) + moves_left (or_at st)"

lemma submission_step_moves:
  "submission_step f S o1 st = Some st' \<Longrightarrow>
     or_at st' = or_at st \<and> moves_left (sub_at st') < moves_left (sub_at st)"
  by (auto simp: fork_step_defs split: goroutine.splits prod.splits)

lemma oracle_step_moves:
  "oracle_step f S o1 st = Some st' \<Longrightarrow>
     sub_at st' = sub_at st \<and> moves_left (or_at st') < moves_left (or_at st)"
  by (auto simp: fork_step_defs split: goroutine.splits prod.splits)

lemma submission_step_None: "submission_step f S o1 st = None \<longleftrightarrow> sub_at st = Finished"
  by (auto simp: fork_step_defs split: goroutine.splits prod.splits)

lemma oracle_step_None: "oracle_step f S o1 st = None \<longleftrightarrow> or_at st = Finished"
  by (auto simp: fork_step_defs split: goroutine.splits prod.splits)

lemma fork_step_measure: "fork_step f S R o1 st st' \<Longrightarrow> fork_measure st' < fork_measure st"
  by (auto simp: fork_measure_def elim!: fork_stepE dest: submission_step_moves oracle_step_moves)

lemma fork_stuck_done: "(\<nexists>st'. fork_step f S R o1 st st') \<longleftrightarrow> fork_done st"
  using submission_step_None [of f S o1 st] oracle_step_None [of f R o1 st]
  by (auto simp: fork_done_def elim!: fork_stepE intro: fork_step.intros)

lemma fork_move_reach: "(fork_step f S R o1)\<^sup>*\<^sup>* st (fork_move f S R o1 st b)"
  by (auto simp: fork_move_def split: option.splits intro: fork_step.intros)

lemma fork_moves_reach: "(fork_step f S R o1)\<^sup>*\<^sup>* st (foldl (fork_move f S R o1) st bs)"
proof (induction bs arbitrary: st)
  case (Cons b bs)
  show ?case using rtranclp_trans [OF fork_move_reach Cons.IH] by simp
qed simp

lemma fork_move_sub: "moves_left (sub_at (fork_move f S R o1 st True)) \<le> moves_left (sub_at st) - 1
    \<and> or_at (fork_move f S R o1 st True) = or_at st"
proof (cases "submission_step f S o1 st")
  case None
  then have "sub_at st = Finished" by (simp only: submission_step_None)
  with None show ?thesis by (simp add: fork_move_def)
next
  case (Some st')
  have "moves_left (sub_at st') \<le> moves_left (sub_at st) - 1" "or_at st' = or_at st"
    using submission_step_moves [OF Some] by auto
  with Some show ?thesis by (simp add: fork_move_def)
qed

lemma fork_move_or: "moves_left (or_at (fork_move f S R o1 st False)) \<le> moves_left (or_at st) - 1
    \<and> sub_at (fork_move f S R o1 st False) = sub_at st"
proof (cases "oracle_step f R o1 st")
  case None
  then have "or_at st = Finished" by (simp only: oracle_step_None)
  with None show ?thesis by (simp add: fork_move_def)
next
  case (Some st')
  have "moves_left (or_at st') \<le> moves_left (or_at st) - 1" "sub_at st' = sub_at st"
    using oracle_step_moves [OF Some] by auto
  with Some show ?thesis by (simp add: fork_move_def)
qed

lemma moves_left_simps: "moves_left a \<le> 2" "moves_left a = 0 \<longleftrightarrow> a = Finished"
  by (cases a; simp)+

lemma fork_run_off: "fork_done (foldl (fork_move f S R o1) st [True, True, False, False])"
proof -
  let ?m = "fork_move f S R o1"
  let ?a = "?m st True" let ?b = "?m ?a True" let ?c = "?m ?b False" let ?d = "?m ?c False"
  have "moves_left (sub_at ?b) = 0"
    using fork_move_sub [of f S R o1 st] fork_move_sub [of f S R o1 ?a] moves_left_simps(1) [of "sub_at st"]
    by linarith
  moreover have "moves_left (or_at ?d) = 0"
    using fork_move_or [of f S R o1 ?b] fork_move_or [of f S R o1 ?c] moves_left_simps(1) [of "or_at ?b"]
    by linarith
  ultimately show ?thesis
    using fork_move_or [of f S R o1 ?b] fork_move_or [of f S R o1 ?c] moves_left_simps(2)
    by (simp add: fork_done_def)
qed

lemma Process_is_run:
  obtains st where "(fork_step OnReply S R o1)\<^sup>*\<^sup>* (fork_start OnIn sk o1) st" "fork_done st"
    "Process OnIn OnReply S R sched sk o1 = (fork_result st, fork_sink st)"
proof -
  let ?st = "foldl (fork_move OnReply S R o1) (fork_start OnIn sk o1) (sched @ [True, True, False, False])"
  have "fork_done ?st" by (simp only: foldl_append fork_run_off)
  then show ?thesis
    by (rule that [of ?st, OF fork_moves_reach]) (simp only: Process_def Let_def)
qed

end
