(* ===== verification/FileSink.thy ===== *)
theory FileSink
  imports Fork PathClean
begin

text \<open>
  \<^verbatim>\<open>apps/fairness-gateway/gateway/sink_file.go\<close>: the sink that appends one JSON line per event to
  a file.  The file is the list of what was written to it, a line being complete or cut short;
  what happens to each write is the choice of the operating system (\<open>disk\<close>, a function of the
  writes attempted so far).  The locale \<open>sink\<close> is interpreted on it, which gives the properties
  of \<^verbatim>\<open>Fork.Process\<close> with the sink the gateway runs with.
\<close>

subsection \<open>The type and its operations\<close>

record eventRow =
  row_Kind :: string
  row_Source :: string
  row_Order :: "NormalizedOrder option"
  row_Reply :: "Reply option"

datatype write_outcome = WriteOk | WriteShort | WriteFailed
datatype file_line = Line eventRow | TornLine eventRow

type_synonym disk = "eventRow list \<Rightarrow> write_outcome"

record FileSink =
  sink_path :: string
  sink_open :: bool
  sink_rows :: "eventRow list"
  sink_lines :: "file_line list"

datatype sink_call = SinkMkdirAll string | SinkOpenAppend string

text \<open>The file may hold lines of earlier runs (\<open>old\<close>): it is opened with \<^verbatim>\<open>O_APPEND\<close>.\<close>

definition NewFileSink :: "(sink_call, go_error option) peer \<Rightarrow> file_line list \<Rightarrow> string
    \<Rightarrow> FileSink result \<times> sink_call list" where
  "NewFileSink os old path =
     (let h0 = (if Dir path \<noteq> [] then snd (ask os (SinkMkdirAll (Dir path)) []) else []);
          (err, h1) = ask os (SinkOpenAppend path) h0
      in (case err of
            Some e \<Rightarrow> (Inl e, h1)
          | None \<Rightarrow> (Inr \<lparr>sink_path = path, sink_open = True, sink_rows = [], sink_lines = old\<rparr>, h1)))"

definition FileSink_write :: "disk \<Rightarrow> FileSink \<Rightarrow> eventRow \<Rightarrow> FileSink" where
  "FileSink_write disk s row =
     (let rows = sink_rows s @ [row] in
      s\<lparr>sink_rows := rows,
        sink_lines := sink_lines s @
          (if sink_open s then
             (case disk rows of WriteOk \<Rightarrow> [Line row] | WriteShort \<Rightarrow> [TornLine row] | WriteFailed \<Rightarrow> [])
           else [])\<rparr>)"

definition FileSink_OnIn :: "disk \<Rightarrow> FileSink \<Rightarrow> NormalizedOrder \<Rightarrow> FileSink" where
  "FileSink_OnIn disk s o1 =
     FileSink_write disk s
       \<lparr>row_Kind = ''in'', row_Source = [], row_Order = Some o1, row_Reply = None\<rparr>"

definition FileSink_OnReply ::
    "disk \<Rightarrow> FileSink \<Rightarrow> NormalizedOrder \<Rightarrow> string \<Rightarrow> Reply option \<Rightarrow> FileSink" where
  "FileSink_OnReply disk s o1 source r =
     FileSink_write disk s
       \<lparr>row_Kind = ''reply'', row_Source = source, row_Order = Some o1, row_Reply = r\<rparr>"

definition FileSink_Close :: "FileSink \<Rightarrow> FileSink" where
  "FileSink_Close s = s\<lparr>sink_open := False\<rparr>"

text \<open>The event a row stands for.\<close>

definition row_event :: "eventRow \<Rightarrow> sink_event option" where
  "row_event row =
     (case row_Order row of
        None \<Rightarrow> None
      | Some o1 \<Rightarrow>
          if row_Kind row = ''in'' then Some (SinkIn o1)
          else Some (SinkReply o1 (row_Source row) (row_Reply row)))"

definition FileSink_told :: "FileSink \<Rightarrow> sink_event list" where
  "FileSink_told s = List.map_filter row_event (sink_rows s)"

lemma map_filter_append: "List.map_filter f (xs @ ys) = List.map_filter f xs @ List.map_filter f ys"
  by (simp add: List.map_filter_def)

interpretation file_sink: sink "FileSink_OnIn disk" "FileSink_OnReply disk" FileSink_told
  by unfold_locales
    (simp_all add: FileSink_OnIn_def FileSink_OnReply_def FileSink_write_def FileSink_told_def
      row_event_def map_filter_append List.map_filter_simps Let_def)

subsection \<open>Rows and lines\<close>

text \<open>While the file is open and the disk accepts every write, the lines grow with the rows.\<close>

definition rows_kept :: "FileSink \<Rightarrow> FileSink \<Rightarrow> bool" where
  "rows_kept s s' \<longleftrightarrow>
     (\<exists>rows. sink_rows s' = sink_rows s @ rows \<and> sink_lines s' = sink_lines s @ map Line rows)
   \<and> sink_open s' = sink_open s"

lemma rows_kept_write: "sink_open s \<Longrightarrow> (\<forall>rows. disk rows = WriteOk) \<Longrightarrow> rows_kept s (FileSink_write disk s row)"
  by (auto simp: rows_kept_def FileSink_write_def Let_def)

lemma rows_kept_trans:
  assumes "rows_kept s s'" "rows_kept s' s''"
  shows "rows_kept s s''"
proof -
  from assms obtain a b where
    "sink_rows s' = sink_rows s @ a" "sink_lines s' = sink_lines s @ map Line a"
    "sink_rows s'' = sink_rows s' @ b" "sink_lines s'' = sink_lines s' @ map Line b"
    by (auto simp: rows_kept_def)
  then show ?thesis
    using assms by (auto simp: rows_kept_def intro: exI [of _ "a @ b"])
qed

lemma rows_kept_step:
  assumes "fork_step (FileSink_OnReply disk) S R o1 st st'"
    and "fork_sink st = Some s" "sink_open s" "\<forall>rows. disk rows = WriteOk"
  shows "\<exists>s'. fork_sink st' = Some s' \<and> rows_kept s s'"
proof -
  have refl: "rows_kept s s" by (simp add: rows_kept_def)
  have wr: "rows_kept s (FileSink_OnReply disk s o1 src r)" for src r
    using rows_kept_write [OF assms(3,4)] by (simp add: FileSink_OnReply_def)
  show ?thesis
    using assms(1)
  proof (cases rule: fork_step.cases)
    case sub_moves
    then show ?thesis
      using assms(2) refl wr by (auto simp: submission_step_def split: goroutine.splits prod.splits)
  next
    case or_moves
    then show ?thesis
      using assms(2) refl wr by (auto simp: oracle_step_def split: goroutine.splits prod.splits)
  qed
qed

lemma rows_kept_run:
  assumes "(fork_step (FileSink_OnReply disk) S R o1)\<^sup>*\<^sup>* (fork_start (FileSink_OnIn disk) (Some s) o1) st"
    and "sink_open s" "\<forall>rows. disk rows = WriteOk"
  shows "\<exists>s'. fork_sink st = Some s' \<and> rows_kept s s'"
  using assms(1)
proof (induction rule: rtranclp_induct)
  case base
  show ?case
    using rows_kept_write [OF assms(2,3)] by (simp add: fork_start_def FileSink_OnIn_def)
next
  case (step st st')
  then obtain s' where s': "fork_sink st = Some s'" "rows_kept s s'" by blast
  then have "sink_open s'" using assms(2) by (simp add: rows_kept_def)
  then obtain s'' where "fork_sink st' = Some s''" "rows_kept s' s''"
    using rows_kept_step [OF step(2) s'(1) _ assms(3)] by blast
  then show ?case using s' rows_kept_trans by blast
qed

subsection \<open>\<^verbatim>\<open>Process\<close> with the file sink\<close>

text \<open>The contract of \<^verbatim>\<open>Process\<close> over what the two RPCs return.\<close>

fun fork_outcome :: "Reply result \<Rightarrow> Reply result \<Rightarrow> Reply option result" where
  "fork_outcome (Inr r) (Inr q) = Inr (Some r)"
| "fork_outcome (Inl e) (Inr q) = Inl (Joined [e])"
| "fork_outcome (Inr r) (Inl e) = Inl (Joined [e])"
| "fork_outcome (Inl d) (Inl e) = Inl (Joined [d, e])"

lemma fork_spec_Submit: "fork_spec (Submit f o1) (Submit g o1) = fork_outcome (f o1) (g o1)"
  by (cases "f o1"; cases "g o1") (simp_all add: fork_spec_def Submit_def)

lemma Process_result:
  "fst (Process (FileSink_OnIn disk) (FileSink_OnReply disk) (Submit f) (Submit g) sched sk o1)
     = fork_outcome (f o1) (g o1)"
proof -
  obtain st where st: "(fork_step (FileSink_OnReply disk) (Submit f) (Submit g) o1)\<^sup>*\<^sup>*
      (fork_start (FileSink_OnIn disk) sk o1) st" "fork_done st"
    "Process (FileSink_OnIn disk) (FileSink_OnReply disk) (Submit f) (Submit g) sched sk o1
       = (fork_result st, fork_sink st)"
    by (rule Process_is_run)
  then show ?thesis using file_sink.fork_complete(1) [OF st(1,2)] by (simp add: fork_spec_Submit)
qed

text \<open>
  C11 (fork_every_interleaving): however the two goroutines of \<^verbatim>\<open>Process\<close> interleave, once neither
  can move the result is the one function of the two RPC results: the submission's reply when
  both succeeded, else the errors, the submission's first.  Each backend was called exactly once,
  with the same order.
\<close>

theorem fork_every_interleaving:
  assumes "(fork_step (FileSink_OnReply disk) (Submit f) (Submit g) o1)\<^sup>*\<^sup>*
             (fork_start (FileSink_OnIn disk) sk o1) st"
    and "\<nexists>st'. fork_step (FileSink_OnReply disk) (Submit f) (Submit g) o1 st st'"
  shows "fork_result st = fork_outcome (f o1) (g o1)
       \<and> mset (submitted st) = {#(''submission'', o1), (''oracle'', o1)#}"
  using file_sink.fork_complete(1,2) [OF assms(1) fork_stuck_done [THEN iffD1, OF assms(2)]]
  by (simp add: fork_spec_Submit)

text \<open>
  The two goroutines make at most four moves between them, so \<^verbatim>\<open>Process\<close>
  returns on every schedule that lets a goroutine move when it can.
\<close>

theorem fork_terminates:
  assumes "(fork_step (FileSink_OnReply disk) (Submit f) (Submit g) o1 ^^ n)
             (fork_start (FileSink_OnIn disk) sk o1) st"
  shows "n \<le> 4"
proof -
  have "fork_measure st + n \<le> fork_measure st0"
    if "(fork_step (FileSink_OnReply disk) (Submit f) (Submit g) o1 ^^ n) st0 st" for st0
    using that
  proof (induction n arbitrary: st)
    case (Suc n)
    then obtain st1 where "(fork_step (FileSink_OnReply disk) (Submit f) (Submit g) o1 ^^ n) st0 st1"
      "fork_step (FileSink_OnReply disk) (Submit f) (Submit g) o1 st1 st" by auto
    then show ?case using Suc.IH fork_step_measure by fastforce
  qed simp
  from this [OF assms] show ?thesis by (simp add: fork_measure_def fork_start_def)
qed

text \<open>
  With the sink open and a disk that accepts the writes, on every
  interleaving the file gains complete lines only: the input event first, then one line per
  successful reply and no other, also when the other backend failed.
\<close>

theorem sink_records_every_reply:
  assumes "(fork_step (FileSink_OnReply disk) (Submit f) (Submit g) o1)\<^sup>*\<^sup>*
             (fork_start (FileSink_OnIn disk) (Some s) o1) st"
    and "\<nexists>st'. fork_step (FileSink_OnReply disk) (Submit f) (Submit g) o1 st st'"
    and "sink_open s" and "\<forall>rows. disk rows = WriteOk"
  shows "\<exists>s' rows evs. fork_sink st = Some s' \<and> sink_lines s' = sink_lines s @ map Line rows
       \<and> List.map_filter row_event rows = SinkIn o1 # evs
       \<and> mset evs = replies_of o1 (Submit f o1) (Submit g o1)"
proof -
  obtain s' where s': "fork_sink st = Some s'" "rows_kept s s'"
    using rows_kept_run [OF assms(1,3,4)] by blast
  have "told_ok FileSink_told (Some s) o1 (Some s') (replies_of o1 (Submit f o1) (Submit g o1))"
    using file_sink.fork_complete(3) [OF assms(1) fork_stuck_done [THEN iffD1, OF assms(2)]] s'(1)
    by simp
  then obtain evs where evs: "FileSink_told s' = FileSink_told s @ SinkIn o1 # evs"
    "mset evs = replies_of o1 (Submit f o1) (Submit g o1)"
    by (auto simp: told_ok_def)
  from s'(2) obtain rows where "sink_rows s' = sink_rows s @ rows"
    "sink_lines s' = sink_lines s @ map Line rows"
    by (auto simp: rows_kept_def)
  with s'(1) evs show ?thesis by (auto simp: FileSink_told_def map_filter_append)
qed

definition sample_order :: NormalizedOrder where
  "sample_order =
     \<lparr>no_PlatformSeq = 7, no_PlatformTsNs = 9, no_ClientOrderId = [], no_SessionToken = [],
      no_Side = SIDE_BID, no_Qty = 1, no_Price = 100, no_OrderType = ORDER_TYPE_LIMIT,
      no_Tif = TIME_IN_FORCE_GTC\<rparr>"

definition sample_sink :: FileSink where
  "sample_sink = \<lparr>sink_path = ''e.jsonl'', sink_open = True, sink_rows = [], sink_lines = []\<rparr>"

definition sample_disk :: disk where
  "sample_disk rows = WriteOk"

text \<open>A run in which the oracle fails and the submission answers, the oracle moving first.\<close>

definition sample_submission :: "NormalizedOrder \<Rightarrow> Reply result" where
  "sample_submission o1 = Inr \<lparr>reply_Ack = None, reply_Fills = []\<rparr>"

definition sample_oracle :: "NormalizedOrder \<Rightarrow> Reply result" where
  "sample_oracle o1 = Inl (GoError ''unavailable'')"

definition sample_final :: "FileSink fork_state" where
  "sample_final =
     foldl (fork_move (FileSink_OnReply sample_disk) (Submit sample_submission) (Submit sample_oracle) sample_order)
       (fork_start (FileSink_OnIn sample_disk) (Some sample_sink) sample_order) [False, True, True]"

lemma sample_final_reached:
  "(fork_step (FileSink_OnReply sample_disk) (Submit sample_submission) (Submit sample_oracle) sample_order)\<^sup>*\<^sup>*
     (fork_start (FileSink_OnIn sample_disk) (Some sample_sink) sample_order) sample_final"
  unfolding sample_final_def by (rule fork_moves_reach)

lemma sample_final_done:
  "\<nexists>st'. fork_step (FileSink_OnReply sample_disk) (Submit sample_submission) (Submit sample_oracle)
     sample_order sample_final st'"
  by (rule fork_stuck_done [THEN iffD2])
    (simp add: sample_final_def fork_done_def fork_move_def fork_step_defs fork_start_def Submit_def
      sample_submission_def sample_oracle_def)

theorem fork_every_interleaving_witness:
  "fork_result sample_final = Inl (Joined [GoError ''unavailable''])
   \<and> mset (submitted sample_final) = {#(''submission'', sample_order), (''oracle'', sample_order)#}"
  using fork_every_interleaving [OF sample_final_reached sample_final_done]
  by (simp add: sample_submission_def sample_oracle_def)

theorem fork_terminates_witness:
  "\<exists>st. (fork_step (FileSink_OnReply sample_disk) (Submit sample_submission) (Submit sample_oracle) sample_order ^^ 1)
        (fork_start (FileSink_OnIn sample_disk) (Some sample_sink) sample_order) st \<and> (1 :: nat) \<le> 4"
proof -
  let ?st = "fork_start (FileSink_OnIn sample_disk) (Some sample_sink) sample_order"
  have "\<exists>st. submission_step (FileSink_OnReply sample_disk) (Submit sample_submission) sample_order ?st = Some st"
    by (simp add: fork_step_defs fork_start_def Submit_def sample_submission_def)
  then obtain st where "(fork_step (FileSink_OnReply sample_disk) (Submit sample_submission)
      (Submit sample_oracle) sample_order ^^ 1) ?st st"
    by (auto intro: fork_step.intros)
  with fork_terminates [OF this] show ?thesis by blast
qed

theorem sink_records_every_reply_witness:
  "\<exists>s' rows evs. fork_sink sample_final = Some s' \<and> sink_lines s' = sink_lines sample_sink @ map Line rows
     \<and> List.map_filter row_event rows = SinkIn sample_order # evs
     \<and> mset evs = replies_of sample_order (Submit sample_submission sample_order) (Submit sample_oracle sample_order)"
  by (rule sink_records_every_reply [OF sample_final_reached sample_final_done])
    (simp_all add: sample_sink_def sample_disk_def)

end
