(* ===== verification/GatewayServer.thy ===== *)
theory GatewayServer
  imports Identity Stamper FileSink
begin

text \<open>
  \<^verbatim>\<open>apps/fairness-gateway\<close>: \<^verbatim>\<open>gateway/server.go\<close>, \<^verbatim>\<open>transport/ws.go\<close>, \<^verbatim>\<open>config/config.go\<close> and
  \<^verbatim>\<open>main.go\<close>.  The state of a running gateway is its stamper and its sink.  What one request
  meets outside the process is a \<open>gw_env\<close>: the stamp RPC, the clock, the two backends, the
  schedule of the two goroutines of the fork and the disk.  Decoding of JSON is a parameter (\<open>OrderJson\<close> fills it in): a
  function from the bytes to a \<open>RESTOrder\<close> or an error.
\<close>

subsection \<open>JSON shapes\<close>

record RESTOrder =
  ro_BotID :: u64
  ro_LocalSeq :: u64
  ro_Side :: string
  ro_Qty :: u64
  ro_Price :: i64
  ro_OrderType :: string
  ro_TIF :: string

record RESTFill =
  rf_TradeID :: u64
  rf_PlatformSeqMaker :: u64
  rf_Price :: i64
  rf_Qty :: u64
  rf_TsNs :: u64

record RESTReply =
  rr_PlatformSeq :: u64
  rr_AckTsNs :: u64
  rr_Status :: u32
  rr_Message :: string
  rr_Fills :: "RESTFill list"

definition sideFromString :: "string \<Rightarrow> Side" where
  "sideFromString s = (if s = ''ask'' then SIDE_ASK else SIDE_BID)"

definition orderTypeFromString :: "string \<Rightarrow> OrderType" where
  "orderTypeFromString s = (if s = ''market'' then ORDER_TYPE_MARKET else ORDER_TYPE_LIMIT)"

definition tifFromString :: "string \<Rightarrow> TimeInForce" where
  "tifFromString s =
     (if s = ''ioc'' then TIME_IN_FORCE_IOC
      else if s = ''fok'' then TIME_IN_FORCE_FOK
      else TIME_IN_FORCE_GTC)"

definition toRESTReply :: "Reply option \<Rightarrow> RESTReply" where
  "toRESTReply r =
     (let out = \<lparr>rr_PlatformSeq = 0, rr_AckTsNs = 0, rr_Status = 0, rr_Message = [], rr_Fills = []\<rparr>;
          a = Reply_GetAck r;
          out' = (if a \<noteq> None then
                    out\<lparr>rr_PlatformSeq := Ack_GetPlatformSeq a, rr_AckTsNs := Ack_GetAckTsNs a,
                        rr_Status := Ack_GetStatus a, rr_Message := Ack_GetMessage a\<rparr>
                  else out)
      in out'\<lparr>rr_Fills := rr_Fills out' @
           map (\<lambda>f. \<lparr>rf_TradeID = Fill_GetTradeId f, rf_PlatformSeqMaker = Fill_GetPlatformSeqMaker f,
                     rf_Price = Fill_GetPrice f, rf_Qty = Fill_GetQty f, rf_TsNs = Fill_GetTsNs f\<rparr>)
             (Reply_GetFills r)\<rparr>)"

subsection \<open>\<^verbatim>\<open>Server\<close>\<close>

record gateway =
  gw_stamper :: Stamper
  gw_sink :: "FileSink option"

record gw_env =
  ev_stamps :: rpc
  ev_recv :: int
  ev_now :: int
  ev_submission :: "NormalizedOrder \<Rightarrow> Reply result"
  ev_oracle :: "NormalizedOrder \<Rightarrow> Reply result"
  ev_sched :: "bool list"
  ev_disk :: disk

text \<open>The composite literal of \<^verbatim>\<open>Handle\<close>.\<close>

definition normalise :: "bytes \<Rightarrow> RESTOrder \<Rightarrow> u64 \<times> u64 \<Rightarrow> NormalizedOrder" where
  "normalise RunSecret ro stamp =
     (let coid = PackClientOrderID (ro_BotID ro) (ro_LocalSeq ro);
          token = SessionTokenFor (ro_BotID ro) RunSecret
      in \<lparr>no_PlatformSeq = fst stamp, no_PlatformTsNs = snd stamp,
          no_ClientOrderId = coid, no_SessionToken = token,
          no_Side = sideFromString (ro_Side ro), no_Qty = ro_Qty ro, no_Price = ro_Price ro,
          no_OrderType = orderTypeFromString (ro_OrderType ro),
          no_Tif = tifFromString (ro_TIF ro)\<rparr>)"

definition Handle :: "bytes \<Rightarrow> gw_env \<Rightarrow> RESTOrder \<Rightarrow> gateway
    \<Rightarrow> (RESTReply option \<times> nat \<times> go_error option) \<times> gateway" where
  "Handle RunSecret ev ro g =
     (case Next (gw_stamper g) (ev_stamps ev) (ev_recv ev) (ev_now ev) of
        (Inl err, s) \<Rightarrow> ((None, StatusBadGateway, Some err), g\<lparr>gw_stamper := s\<rparr>)
      | (Inr stamp, s) \<Rightarrow>
          (let n = normalise RunSecret ro stamp;
               (res, sk) = Process (FileSink_OnIn (ev_disk ev)) (FileSink_OnReply (ev_disk ev))
                             (Submit (ev_submission ev)) (Submit (ev_oracle ev)) (ev_sched ev)
                             (gw_sink g) n;
               g' = \<lparr>gw_stamper = s, gw_sink = sk\<rparr>
           in (case res of
                 Inl err \<Rightarrow> ((None, StatusBadGateway, Some err), g')
               | Inr rep \<Rightarrow> ((Some (toRESTReply rep), StatusOK, None), g'))))"

subsection \<open>The transports\<close>

datatype http_response = HttpError nat string | HttpJSON "RESTReply option"

definition HandleOrder :: "(bytes \<Rightarrow> RESTOrder result) \<Rightarrow> bytes \<Rightarrow> gw_env \<Rightarrow> string \<Rightarrow> bytes
    \<Rightarrow> gateway \<Rightarrow> http_response \<times> gateway" where
  "HandleOrder decode RunSecret ev http_method body g =
     (if http_method \<noteq> ''POST'' then (HttpError StatusMethodNotAllowed ''method not allowed'', g)
      else (case decode body of
        Inl err \<Rightarrow> (HttpError StatusBadRequest (''bad json: '' @ error_text err), g)
      | Inr ro \<Rightarrow>
          (case Handle RunSecret ev ro g of
             ((rep, status, Some err), g') \<Rightarrow> (HttpError status (error_text err), g')
           | ((rep, status, None), g') \<Rightarrow> (HttpJSON rep, g'))))"

text \<open>
  The WebSocket loop: each read is a frame or an error, and each text frame has the environment
  its order meets.  The body of a reply frame is the JSON of a reply, or of an \<^verbatim>\<open>error\<close> member.
\<close>

datatype ws_type = MessageText | MessageBinary
datatype ws_read = WsFrame ws_type bytes gw_env | WsReadError
datatype ws_reply = WsJSON "RESTReply option" | WsErrorJSON string

fun ws_loop :: "(bytes \<Rightarrow> RESTOrder result) \<Rightarrow> bytes \<Rightarrow> ws_read list \<Rightarrow> gateway
    \<Rightarrow> ws_reply list \<times> gateway" where
  "ws_loop unmarshal RunSecret [] g = ([], g)"
| "ws_loop unmarshal RunSecret (WsReadError # rs) g = ([], g)"
| "ws_loop unmarshal RunSecret (WsFrame typ data ev # rs) g =
     (if typ \<noteq> MessageText then ws_loop unmarshal RunSecret rs g
      else
        (case unmarshal data of
           Inl err \<Rightarrow>
             (let (out, g') = ws_loop unmarshal RunSecret rs g
              in (WsErrorJSON ''bad json'' # out, g'))
         | Inr ro \<Rightarrow>
             (case Handle RunSecret ev ro g of
                ((rep, status, Some err), g1) \<Rightarrow>
                  (let (out, g') = ws_loop unmarshal RunSecret rs g1
                   in (WsErrorJSON (error_text err) # out, g'))
              | ((rep, status, None), g1) \<Rightarrow>
                  (let (out, g') = ws_loop unmarshal RunSecret rs g1
                   in (WsJSON rep # out, g')))))"

definition WSHandler :: "(bytes \<Rightarrow> RESTOrder result) \<Rightarrow> bytes \<Rightarrow> bool \<Rightarrow> ws_read list \<Rightarrow> gateway
    \<Rightarrow> ws_reply list \<times> gateway" where
  "WSHandler unmarshal RunSecret accepted rs g =
     (if \<not> accepted then ([], g) else ws_loop unmarshal RunSecret rs g)"

subsection \<open>Configuration and start\<close>

record GatewayConfig =
  gc_HTTPAddr :: string
  gc_TimeService :: string
  gc_SubmissionEnd :: string
  gc_OracleEnd :: string
  gc_StampBatchSize :: u32
  gc_EventLogPath :: string
  gc_RunSecret :: string

text \<open>\<^verbatim>\<open>envconfig.Process\<close> and \<^verbatim>\<open>rand.Read\<close> of 32 bytes are the parameters.\<close>

definition gateway_Load :: "GatewayConfig result \<Rightarrow> bytes result \<Rightarrow> GatewayConfig result" where
  "gateway_Load env random =
     (case env of
        Inl err \<Rightarrow> Inl err
      | Inr c \<Rightarrow>
          if gc_RunSecret c = [] then
            (case random of
               Inl err \<Rightarrow> Inl (Wrapf ''generate run secret'' err)
             | Inr buf \<Rightarrow> Inr (c\<lparr>gc_RunSecret := hex_encode buf\<rparr>))
          else Inr c)"

text \<open>
  \<^verbatim>\<open>main\<close> up to \<^verbatim>\<open>ListenAndServe\<close>: the run secret and the initial state, or the error the process
  exits with.  \<open>dial\<close> is \<^verbatim>\<open>grpc.NewClient\<close>.
\<close>

definition gateway_main :: "GatewayConfig result \<Rightarrow> bytes result \<Rightarrow> (string \<Rightarrow> go_error option)
    \<Rightarrow> (sink_call, go_error option) peer \<Rightarrow> file_line list \<Rightarrow> (bytes \<times> gateway) result" where
  "gateway_main env random dial os old =
     (case gateway_Load env random of
        Inl err \<Rightarrow> Inl (Wrapf ''config'' err)
      | Inr cfg \<Rightarrow>
          (case dial (gc_TimeService cfg) of
             Some err \<Rightarrow> Inl (Wrapf (''dial '' @ gc_TimeService cfg) err)
           | None \<Rightarrow>
          (case dial (gc_SubmissionEnd cfg) of
             Some err \<Rightarrow> Inl (Wrapf (''dial '' @ gc_SubmissionEnd cfg) err)
           | None \<Rightarrow>
          (case dial (gc_OracleEnd cfg) of
             Some err \<Rightarrow> Inl (Wrapf (''dial '' @ gc_OracleEnd cfg) err)
           | None \<Rightarrow>
          (case fst (NewFileSink os old (gc_EventLogPath cfg)) of
             Inl err \<Rightarrow> Inl (Wrapf ''file sink'' err)
           | Inr sk \<Rightarrow>
          (case hex_decode (gc_RunSecret cfg) of
             Inl err \<Rightarrow> Inl (Wrapf ''decode run secret'' err)
           | Inr secret \<Rightarrow>
               Inr (secret, \<lparr>gw_stamper = NewStamper (gc_StampBatchSize cfg), gw_sink = Some sk\<rparr>)))))))"

subsection \<open>Lemmas\<close>

lemma enum_from_string_specified:
  "sideFromString s \<noteq> SIDE_UNSPECIFIED" "orderTypeFromString s \<noteq> ORDER_TYPE_UNSPECIFIED"
  "tifFromString s \<noteq> TIME_IN_FORCE_UNSPECIFIED"
  by (simp_all add: sideFromString_def orderTypeFromString_def tifFromString_def)

lemma Handle_stamp_error:
  "Next (gw_stamper g) (ev_stamps ev) (ev_recv ev) (ev_now ev) = (Inl e, s) \<Longrightarrow>
     Handle sec ev ro g = ((None, StatusBadGateway, Some e), g\<lparr>gw_stamper := s\<rparr>)"
  by (simp add: Handle_def)

text \<open>What the bot gets, once the order has its stamp.\<close>

definition answer_of :: "Reply option result \<Rightarrow> RESTReply option \<times> nat \<times> go_error option" where
  "answer_of res =
     (case res of Inl err \<Rightarrow> (None, StatusBadGateway, Some err)
      | Inr rep \<Rightarrow> (Some (toRESTReply rep), StatusOK, None))"

lemma Handle_stamped:
  assumes "Next (gw_stamper g) (ev_stamps ev) (ev_recv ev) (ev_now ev) = (Inr stamp, s)"
  shows "fst (Handle sec ev ro g)
       = answer_of (fork_outcome (ev_submission ev (normalise sec ro stamp))
                                 (ev_oracle ev (normalise sec ro stamp)))"
    and "gw_stamper (snd (Handle sec ev ro g)) = s"
proof -
  obtain res sk where pr: "Process (FileSink_OnIn (ev_disk ev)) (FileSink_OnReply (ev_disk ev))
      (Submit (ev_submission ev)) (Submit (ev_oracle ev)) (ev_sched ev) (gw_sink g)
      (normalise sec ro stamp) = (res, sk)" by fastforce
  then have "res = fork_outcome (ev_submission ev (normalise sec ro stamp))
                                (ev_oracle ev (normalise sec ro stamp))"
    using Process_result [of "ev_disk ev" "ev_submission ev" "ev_oracle ev" "ev_sched ev"
        "gw_sink g" "normalise sec ro stamp"] by simp
  with pr show "fst (Handle sec ev ro g)
       = answer_of (fork_outcome (ev_submission ev (normalise sec ro stamp))
                                 (ev_oracle ev (normalise sec ro stamp)))"
    and "gw_stamper (snd (Handle sec ev ro g)) = s"
    by (auto simp: Handle_def assms answer_of_def Let_def split: sum.splits)
qed

lemma Handle_shape:
  obtains err g' where "Handle sec ev ro g = ((None, StatusBadGateway, Some err), g')"
  | rep g' where "Handle sec ev ro g = ((Some rep, StatusOK, None), g')"
proof -
  obtain res s where n: "Next (gw_stamper g) (ev_stamps ev) (ev_recv ev) (ev_now ev) = (res, s)"
    by fastforce
  have "(\<exists>err. fst (Handle sec ev ro g) = (None, StatusBadGateway, Some err))
      \<or> (\<exists>rep. fst (Handle sec ev ro g) = (Some rep, StatusOK, None))"
  proof (cases res)
    case (Inl e)
    then show ?thesis using n Handle_stamp_error [of g ev e s sec ro] by simp
  next
    case (Inr stamp)
    then show ?thesis
      using n Handle_stamped(1) [of g ev stamp s sec ro] by (simp add: answer_of_def split: sum.splits)
  qed
  then show ?thesis using that by (cases "Handle sec ev ro g") auto
qed

lemma answer_of_ok: "answer_of res = (Some rep, StatusOK, None) \<longleftrightarrow> (\<exists>r. res = Inr r \<and> rep = toRESTReply r)"
  by (auto simp: answer_of_def split: sum.splits)

lemma fork_outcome_ok: "fork_outcome a b = Inr r \<longleftrightarrow> (\<exists>x y. a = Inr x \<and> b = Inr y \<and> r = Some x)"
  by (cases a; cases b) auto

lemma prod3_eq: "fst x = (a, b, c) \<Longrightarrow> \<exists>y. x = ((a, b, c), y)"
  by (cases x) auto

subsection \<open>Properties\<close>

text \<open>
  C23 (handle_reply): a bot gets a reply exactly when the order was stamped and both the submission
  and the oracle accepted it, and then it is the submission's reply; everything else is a 502.
\<close>

theorem handle_reply:
  "fst (Handle sec ev ro g) =
     (case fst (Next (gw_stamper g) (ev_stamps ev) (ev_recv ev) (ev_now ev)) of
        Inl e \<Rightarrow> (None, StatusBadGateway, Some e)
      | Inr stamp \<Rightarrow>
          (case (ev_submission ev (normalise sec ro stamp), ev_oracle ev (normalise sec ro stamp)) of
             (Inr r, Inr q) \<Rightarrow> (Some (toRESTReply (Some r)), StatusOK, None)
           | (Inl d, Inl e) \<Rightarrow> (None, StatusBadGateway, Some (Joined [d, e]))
           | (Inl d, Inr q) \<Rightarrow> (None, StatusBadGateway, Some (Joined [d]))
           | (Inr r, Inl e) \<Rightarrow> (None, StatusBadGateway, Some (Joined [e]))))"
proof -
  obtain res s where n: "Next (gw_stamper g) (ev_stamps ev) (ev_recv ev) (ev_now ev) = (res, s)"
    by fastforce
  show ?thesis
  proof (cases res)
    case (Inl e)
    then show ?thesis using n Handle_stamp_error [of g ev e s sec ro] by simp
  next
    case (Inr stamp)
    then show ?thesis
      using n Handle_stamped(1) [of g ev stamp s sec ro]
      by (simp add: answer_of_def split: sum.splits)
  qed
qed

text \<open>
  Every order the gateway forwards carries the bot's id in the clear,
  as the first eight bytes of its client order id, next to the session token that is meant to
  hide it.
\<close>

theorem bot_identity_is_forwarded:
  "un_be (take 8 (no_ClientOrderId (normalise sec ro stamp))) = ro_BotID ro"
  by (simp add: normalise_def PackClientOrderID_def be64.dec_enc)

text \<open>
  What both backends receive: the stamp, a 16-byte order id, a 32-byte token
  that depends on the bot and the run secret only, quantity and price as sent, and enums that are
  never \<^verbatim>\<open>UNSPECIFIED\<close>, an unknown string being a limit GTC bid.
\<close>

theorem forwarded_order:
  "let n = normalise sec ro stamp in
     no_PlatformSeq n = fst stamp \<and> no_PlatformTsNs n = snd stamp
   \<and> length (no_ClientOrderId n) = 16 \<and> length (no_SessionToken n) = 32
   \<and> no_SessionToken n = sha256 (be64 (ro_BotID ro) @ sec)
   \<and> no_Qty n = ro_Qty ro \<and> no_Price n = ro_Price ro
   \<and> no_Side n = (if ro_Side ro = ''ask'' then SIDE_ASK else SIDE_BID)
   \<and> (no_OrderType n = ORDER_TYPE_MARKET \<longleftrightarrow> ro_OrderType ro = ''market'')
   \<and> no_OrderType n \<noteq> ORDER_TYPE_UNSPECIFIED \<and> no_Tif n \<noteq> TIME_IN_FORCE_UNSPECIFIED"
  by (simp add: normalise_def Let_def PackClientOrderID_def SessionTokenFor_def sideFromString_def
      orderTypeFromString_def tifFromString_def sha256_length)

text \<open>
  A request that is not a POST, or whose body does not decode, is
  answered 405 or 400 without taking a stamp, calling a backend or telling the sink.
\<close>

theorem bad_requests_touch_nothing:
  assumes "m \<noteq> ''POST'' \<or> decode body = Inl err"
  shows "snd (HandleOrder decode sec ev m body g) = g
       \<and> fst (HandleOrder decode sec ev m body g)
           = (if m \<noteq> ''POST'' then HttpError 405 ''method not allowed''
              else HttpError 400 (''bad json: '' @ error_text err))"
  using assms by (auto simp: HandleOrder_def http_status_defs)

theorem bad_requests_touch_nothing_witness:
  "snd (HandleOrder (\<lambda>_. Inl (GoError ''EOF'')) [1]
          \<lparr>ev_stamps = (\<lambda>_. Inl (GoError ''down'')), ev_recv = 0, ev_now = 0,
           ev_submission = sample_submission, ev_oracle = sample_oracle, ev_sched = [],
           ev_disk = sample_disk\<rparr> ''POST'' []
          \<lparr>gw_stamper = NewStamper 5, gw_sink = Some sample_sink\<rparr>)
     = \<lparr>gw_stamper = NewStamper 5, gw_sink = Some sample_sink\<rparr>"
  using bad_requests_touch_nothing [where m = "''POST''" and decode = "\<lambda>_. Inl (GoError ''EOF'')"
      and err = "GoError ''EOF''" and body = "[]"] by blast

text \<open>
  An order that was stamped but whose fan-out failed is answered
  502 and its stamp is spent: the gateway's next stamp is a later one, never the same.
\<close>

theorem failed_order_keeps_its_stamp:
  assumes "Next (gw_stamper g) (ev_stamps ev) (ev_recv ev) (ev_now ev) = (Inr (sq, ts), s)"
    and "fork_outcome (ev_submission ev (normalise sec ro (sq, ts)))
           (ev_oracle ev (normalise sec ro (sq, ts))) = Inl e"
    and "unat sq + 1 < 2 ^ 64"
  shows "fst (Handle sec ev ro g) = (None, 502, Some e)
       \<and> nextSeq (gw_stamper (snd (Handle sec ev ro g))) = sq + 1
       \<and> sq < nextSeq (gw_stamper (snd (Handle sec ev ro g)))"
proof -
  have "nextSeq s = sq + 1"
    using assms(1) by (auto simp: Next_def take_stamp_def Let_def split: if_splits sum.splits)
  moreover have "sq < sq + 1"
    using assms(3) by (simp add: word_less_nat_alt unat_word_ariths)
  ultimately show ?thesis
    using Handle_stamped [OF assms(1), of sec ro] assms(2)
    by (simp add: answer_of_def http_status_defs)
qed

theorem failed_order_keeps_its_stamp_witness:
  "fst (Handle [1]
          \<lparr>ev_stamps = (\<lambda>n. Inr \<lparr>first_seq = 10000, first_ts_ns = 5, step_ns = 100, batch_size = 4\<rparr>),
           ev_recv = 3, ev_now = 8, ev_submission = sample_oracle, ev_oracle = sample_submission,
           ev_sched = [], ev_disk = sample_disk\<rparr>
          \<lparr>ro_BotID = 3, ro_LocalSeq = 4, ro_Side = ''ask'', ro_Qty = 1, ro_Price = 2,
           ro_OrderType = [], ro_TIF = ''ioc''\<rparr>
          \<lparr>gw_stamper = NewStamper 4, gw_sink = Some sample_sink\<rparr>)
   = (None, 502, Some (Joined [GoError ''unavailable'']))"
  using failed_order_keeps_its_stamp [where sq = 10000 and ts = 10 and sec = "[1]" and e = "Joined [GoError ''unavailable'']"
      and ev = "\<lparr>ev_stamps = (\<lambda>n. Inr \<lparr>first_seq = 10000, first_ts_ns = 5, step_ns = 100, batch_size = 4\<rparr>),
           ev_recv = 3, ev_now = 8, ev_submission = sample_oracle, ev_oracle = sample_submission,
           ev_sched = [], ev_disk = sample_disk\<rparr>"
      and g = "\<lparr>gw_stamper = NewStamper 4, gw_sink = Some sample_sink\<rparr>"]
  by (simp add: Next_def NewStamper_def window_empty_def refill_def take_stamp_def since_ns_def
      sample_oracle_def sample_submission_def)

text \<open>
  A WebSocket session as REST requests: one POST per text frame, in order, until the first read
  error; other frames are skipped.  \<open>ws_of_http\<close> is how the answers differ in form.
\<close>

definition ws_of_http :: "http_response \<Rightarrow> ws_reply" where
  "ws_of_http resp =
     (case resp of
        HttpError status text \<Rightarrow> WsErrorJSON (if status = 400 then ''bad json'' else text)
      | HttpJSON rep \<Rightarrow> WsJSON rep)"

fun rest_session :: "(bytes \<Rightarrow> RESTOrder result) \<Rightarrow> bytes \<Rightarrow> ws_read list \<Rightarrow> gateway
    \<Rightarrow> ws_reply list \<times> gateway" where
  "rest_session decode sec (WsFrame MessageText data ev # rs) g =
     (let (resp, g1) = HandleOrder decode sec ev ''POST'' data g;
          (out, g') = rest_session decode sec rs g1
      in (ws_of_http resp # out, g'))"
| "rest_session decode sec (WsFrame MessageBinary data ev # rs) g = rest_session decode sec rs g"
| "rest_session decode sec (WsReadError # rs) g = ([], g)"
| "rest_session decode sec [] g = ([], g)"

text \<open>
  The WebSocket transport does to the gateway, and answers, exactly what the REST
  endpoint does for the same orders one after the other.
\<close>

theorem ws_is_rest:
  "ws_loop decode sec rs g = rest_session decode sec rs g"
proof (induction decode sec rs g rule: rest_session.induct)
  case (1 decode sec data ev rs g)
  show ?case
  proof (cases "decode data")
    case (Inl e)
    then have "HandleOrder decode sec ev ''POST'' data g
        = (HttpError StatusBadRequest (''bad json: '' @ error_text e), g)"
      by (simp add: HandleOrder_def)
    with Inl show ?thesis
      using "1.IH" [OF _ refl] by (simp add: ws_of_http_def StatusBadRequest_def)
  next
    case (Inr ro)
    show ?thesis
    proof (cases rule: Handle_shape [of sec ev ro g])
      case (1 err g')
      then have "HandleOrder decode sec ev ''POST'' data g
          = (HttpError StatusBadGateway (error_text err), g')"
        using Inr by (simp add: HandleOrder_def)
      with Inr 1 show ?thesis
        using "1.IH" [OF _ refl] by (simp add: ws_of_http_def StatusBadGateway_def)
    next
      case (2 rep g')
      then have "HandleOrder decode sec ev ''POST'' data g = (HttpJSON (Some rep), g')"
        using Inr by (simp add: HandleOrder_def)
      with Inr 2 show ?thesis using "1.IH" [OF _ refl] by (simp add: ws_of_http_def)
    qed
  qed
qed simp_all

text \<open>
  With no \<^verbatim>\<open>RUN_SECRET\<close> set, the secret a gateway runs with is
  exactly the random bytes that were drawn: the hex form \<^verbatim>\<open>Load\<close> puts in the configuration
  decodes, and to the same bytes.
\<close>

theorem run_secret_survives_config:
  assumes "env = Inr cfg" "gc_RunSecret cfg = []" "\<forall>addr. dial addr = None"
    and "fst (NewFileSink os old (gc_EventLogPath cfg)) = Inr sk"
  shows "gateway_main env (Inr buf) dial os old
       = Inr (buf, \<lparr>gw_stamper = NewStamper (gc_StampBatchSize cfg), gw_sink = Some sk\<rparr>)"
  using assms by (simp add: gateway_main_def gateway_Load_def hex_decode_encode)

theorem run_secret_survives_config_witness:
  "gateway_main
     (Inr \<lparr>gc_HTTPAddr = '':8080'', gc_TimeService = ''t'', gc_SubmissionEnd = ''s'', gc_OracleEnd = ''o'',
           gc_StampBatchSize = 7, gc_EventLogPath = ''e.jsonl'', gc_RunSecret = []\<rparr>)
     (Inr [1, 255]) (\<lambda>_. None) (\<lambda>_. None) []
   = Inr ([1, 255], \<lparr>gw_stamper = NewStamper 7, gw_sink = Some sample_sink\<rparr>)"
  by (subst run_secret_survives_config [OF refl])
    (simp_all add: NewFileSink_def sample_sink_def Let_def)

end
