(* ===== verification/Pipeline.thy ===== *)
theory Pipeline
  imports SubmissionMain BuildRunner RunSystem Policy Coordinator GatewayServer
begin

text \<open>
  Where the components meet: the environment of a pod as the process in it reads it, the address of a
  service, and the JSON body of an order as the gateway decodes it.  The properties over these are in
  the root theory.
\<close>

subsection \<open>Environments\<close>

definition env_value :: "EnvVar list \<Rightarrow> string \<Rightarrow> string option" where
  "env_value es n = map_option env_Value (List.find (\<lambda>e. env_Name e = n) es)"

lemma env_value_Nil [simp]: "env_value [] n = None"
  by (simp add: env_value_def)

lemma env_value_Cons [simp]:
  "env_value (e # es) n = (if env_Name e = n then Some (env_Value e) else env_value es n)"
  by (simp add: env_value_def)

lemma env_var_simps [simp]: "env_Name (env_var n v) = n" "env_Value (env_var n v) = v"
  by (simp_all add: env_var_def)

lemma envFromSecret_simps [simp]:
  "env_Name (envFromSecret n s k) = n" "env_SecretKeyRef (envFromSecret n s k) = Some \<lparr>sk_Name = s, sk_Key = k\<rparr>"
  by (simp_all add: envFromSecret_def)

text \<open>\<^verbatim>\<open>os.Getenv\<close> in the first container of a pod.\<close>

definition pod_getenv :: "PodSpec \<Rightarrow> string \<Rightarrow> string" where
  "pod_getenv spec n =
     (case env_value (ct_Env (hd (ps_Containers spec))) n of None \<Rightarrow> [] | Some v \<Rightarrow> v)"

text \<open>
  What \<^verbatim>\<open>envconfig.Process("ironbook", &c)\<close> documents for variables that are set: each field of the
  build-runner's configuration has the value of its variable.
\<close>

definition configured_by :: "PodSpec \<Rightarrow> BuildConfig \<Rightarrow> bool" where
  "configured_by spec cfg \<longleftrightarrow>
     (let get = pod_getenv spec in
       bc_SubmissionID cfg = get ''IRONBOOK_SUBMISSION_ID''
     \<and> bc_SubmissionSha256 cfg = get ''IRONBOOK_SUBMISSION_SHA256''
     \<and> bc_Language cfg = get ''IRONBOOK_SUBMISSION_LANGUAGE''
     \<and> bc_MinIOBucket cfg = get ''IRONBOOK_MINIO_BUCKET''
     \<and> bc_Registry cfg = get ''IRONBOOK_REGISTRY''
     \<and> bc_WorkDir cfg = get ''IRONBOOK_WORK_DIR'')"

text \<open>The required fields of the struct, by their tags.\<close>

definition required_settings :: "string list" where
  "required_settings =
     [''SUBMISSION_ID'', ''SUBMISSION_SHA256'', ''SUBMISSION_LANGUAGE'', ''MINIO_ENDPOINT'',
      ''MINIO_ACCESS_KEY'', ''MINIO_SECRET_KEY'', ''POSTGRES_DSN'']"

lemma job_pod:
  "ct_Env (hd (ps_Containers (job_Template (build_job d i)))) = job_env i"
  by (simp add: build_job_def runner_container_def)

lemma configured_by_job:
  assumes "configured_by (job_Template (row_job d r)) cfg"
  shows "bc_SubmissionID cfg = row_id r" "bc_SubmissionSha256 cfg = hex_encode (row_sha256 r)"
    "bc_Language cfg = row_language r" "bc_MinIOBucket cfg = ''submissions''"
    "bc_Registry cfg = ''registry.ironbook.svc.cluster.local:5000''"
  using assms
  by (simp_all add: configured_by_def row_job_def pod_getenv_def job_pod job_env_def dispatch_inputs_def Let_def)

subsection \<open>Services\<close>

text \<open>The pods a service sends traffic to, and the cluster address of its port.\<close>

definition selects :: "Service \<Rightarrow> Pod \<Rightarrow> bool" where
  "selects svc p \<longleftrightarrow>
     om_Namespace (svc_Meta svc) = om_Namespace (pod_Meta p) \<and> svc_Selector svc \<subseteq>\<^sub>m om_Labels (pod_Meta p)"

definition service_address :: "Service \<Rightarrow> string" where
  "service_address svc =
     om_Name (svc_Meta svc) @ ''.'' @ om_Namespace (svc_Meta svc) @ ''.svc:''
     @ format_int (sint (sp_Port (hd (svc_Ports svc))))"

definition pod_ports :: "Pod \<Rightarrow> i32 list" where
  "pod_ports p = map snd (concat (map ct_Ports (ps_Containers (pod_Spec p))))"

lemma selects_role:
  "selects (run_service br role port) p \<longleftrightarrow>
     om_Namespace (pod_Meta p) = run_ns br \<and> om_Labels (pod_Meta p) labelRun = Some (run_name br)
   \<and> om_Labels (pod_Meta p) labelRole = Some role"
proof -
  have ne: "labelRun \<noteq> labelRole" by (simp add: label_defs)
  have le: "[labelRun \<mapsto> n, labelRole \<mapsto> role] \<subseteq>\<^sub>m ls \<longleftrightarrow> ls labelRun = Some n \<and> ls labelRole = Some role" for n and ls :: labels
  proof -
    have "dom [labelRun \<mapsto> n, labelRole \<mapsto> role] = {labelRole, labelRun}" by simp
    moreover have "[labelRun \<mapsto> n, labelRole \<mapsto> role] labelRun = Some n"
      "[labelRun \<mapsto> n, labelRole \<mapsto> role] labelRole = Some role" using ne by simp_all
    ultimately show ?thesis unfolding map_le_def by (metis insert_iff singletonD)
  qed
  have parts: "om_Namespace (svc_Meta (run_service br role port)) = run_ns br"
    "svc_Selector (run_service br role port) = [labelRun \<mapsto> run_name br, labelRole \<mapsto> role]"
    by (simp_all only: run_service_def object_meta_def Service.simps ObjectMeta.simps)
  show ?thesis unfolding selects_def parts le by metis
qed

lemma port_texts: "format_int 7080 = ''7080''" "format_int 7777 = ''7777''" "format_int 8080 = ''8080''"
  by (simp_all add: format_int_def format_nat.simps digit_char_def digits_def)

subsection \<open>Orders\<close>

text \<open>The gateway's reading of a JSON object by the tags of \<^verbatim>\<open>RESTOrder\<close>.\<close>

definition json_num :: "(string \<times> json_value) list \<Rightarrow> string \<Rightarrow> int" where
  "json_num obj k = (case map_of obj k of Some (JNum n) \<Rightarrow> n | _ \<Rightarrow> 0)"

definition json_str :: "(string \<times> json_value) list \<Rightarrow> string \<Rightarrow> string" where
  "json_str obj k = (case map_of obj k of Some (JStr s) \<Rightarrow> s | _ \<Rightarrow> [])"

definition decode_order :: "(string \<times> json_value) list \<Rightarrow> RESTOrder" where
  "decode_order obj =
     \<lparr>ro_BotID = word_of_int (json_num obj ''bot_id''), ro_LocalSeq = word_of_int (json_num obj ''local_seq''),
      ro_Side = json_str obj ''side'', ro_Qty = word_of_int (json_num obj ''qty''),
      ro_Price = word_of_int (json_num obj ''price''), ro_OrderType = json_str obj ''order_type'',
      ro_TIF = json_str obj ''tif''\<rparr>"

lemma decode_post_body:
  "decode_order (post_body e) =
     \<lparr>ro_BotID = e_BotID e, ro_LocalSeq = e_OffsetNs e, ro_Side = os_Side (e_Order e), ro_Qty = os_Qty (e_Order e),
      ro_Price = os_Price (e_Order e), ro_OrderType = os_OrderType (e_Order e), ro_TIF = os_TIF (e_Order e)\<rparr>"
  by (simp add: decode_order_def post_body_def json_num_def json_str_def)

lemma client_order_id_inj:
  "PackClientOrderID b l = PackClientOrderID b' l' \<longleftrightarrow> b = b' \<and> l = l'"
  using be64.enc_append_inj [of b "be64 l" b' "be64 l'"] by (simp add: PackClientOrderID_def be64.enc_inj)

lemma offsets_distinct:
  assumes "Compile draws yaml seed dur = Some es" "total_slots dur \<le> 2147483647000"
  shows "distinct (map e_OffsetNs es)"
proof -
  note ev = Compile_events [OF assms(1)]
  have "unat (e_OffsetNs (es ! j)) = j * 1000000" if "j < length es" for j
    using slot_offset [OF ev(2)] slots_fit [OF assms(2)] that ev(1) by fastforce
  then have "e_OffsetNs (es ! i) \<noteq> e_OffsetNs (es ! j)" if "i < length es" "j < length es" "i \<noteq> j" for i j
    using that by (metis mult_cancel2 zero_neq_numeral)
  then show ?thesis by (simp add: distinct_conv_nth)
qed

lemma total_slots_i32:
  "total_slots (scast (n :: i32)) = 1000 * nat (sint n)"
proof -
  have n: "- (2 ^ 31) \<le> sint n" "sint n < 2 ^ 31" using sint_greater_eq [of n] sint_less [of n] by simp_all
  have "scast n * 1000 = (word_of_int (sint n * 1000) :: i64)" by simp
  then have "sint (scast n * 1000 :: i64) = sint n * 1000"
    using n by (simp only: signed_of_int) (simp add: signed_take_bit_int_eq_self)
  then show ?thesis by (simp add: total_slots_def nat_mult_distrib)
qed

end
