(* ===== verification/RunVersions.thy ===== *)
theory RunVersions
  imports RunSystem
begin

text \<open>
  The versions of a run that one reconcile after the other leaves in the API server, for any behaviour of the server.
\<close>

subsection \<open>The next version\<close>

text \<open>
  The version in the store after one reconcile of \<open>br\<close>: the write it ends with, if the API server
  accepts it.
\<close>

definition served :: "kube \<Rightarrow> BenchmarkRun \<Rightarrow> kube" where
  "served api br = api\<lparr>get_run := \<lambda>h. Inr br\<rparr>"

definition next_version :: "kube_lib \<Rightarrow> kube \<Rightarrow> object_key \<Rightarrow> BenchmarkRun \<Rightarrow> BenchmarkRun" where
  "next_version lib api req br =
     (let cs = snd (Reconcile lib (served api br) req []) in
      case last cs of
        UpdateRunStatus br' \<Rightarrow> if write_reply api cs = None then br' else br
      | UpdateRun br' \<Rightarrow> if write_reply api cs = None then br' else br
      | _ \<Rightarrow> br)"

primrec version :: "kube_lib \<Rightarrow> (nat \<Rightarrow> kube) \<Rightarrow> object_key \<Rightarrow> BenchmarkRun \<Rightarrow> nat \<Rightarrow> BenchmarkRun" where
  "version lib apis req br 0 = br"
| "version lib apis req br (Suc k) = next_version lib (apis k) req (version lib apis req br k)"

subsection \<open>One reconcile\<close>

lemma served_simps [simp]:
  "get_run (served api br) h = Inr br" "get_submission (served api br) = get_submission api"
  "get_scenario (served api br) = get_scenario api" "get_botswarm (served api br) = get_botswarm api"
  "list_pods (served api br) = list_pods api" "write_reply (served api br) = write_reply api"
  "clock_now (served api br) = clock_now api"
  by (simp_all add: served_def)

text \<open>A reconcile leaves the run alone, moves it along an edge, or adds the finalizer.\<close>

lemma next_version_cases:
  assumes "om_DeletionTimestamp (br_Meta br) = None"
  obtains "next_version lib api req br = br"
    | br' where "next_version lib api req br = br'" "run_live lib br" "run_edge br br'"
        "UpdateRunStatus br' \<in> set (snd (Reconcile lib (served api br) req []))"
    | br' where "next_version lib api req br = br'" "br_Status br' = br_Status br"
        "br_Meta br' = AddFinalizer lib (br_Meta br) ironbookFinalizer"
proof -
  obtain out cs where rec: "Reconcile lib (served api br) req [] = (out, cs)" by (metis surj_pair)
  obtain ds where cs: "cs = GetRun req # ds" and tr: "run_trace lib br ds"
    by (cases rule: Reconcile_trace [OF rec]) simp_all
  have nxt: "next_version lib api req br = (case last cs of
      UpdateRunStatus br' \<Rightarrow> if write_reply api cs = None then br' else br
    | UpdateRun br' \<Rightarrow> if write_reply api cs = None then br' else br | _ \<Rightarrow> br)"
    by (simp add: next_version_def rec)
  have mem: "c \<in> set ds" if "last cs = c" "c \<noteq> GetRun req" for c
  proof -
    have "ds \<noteq> []" using cs that by (cases ds) simp_all
    then have "last ds = c" using cs that(1) by simp
    then show ?thesis using last_in_set [OF \<open>ds \<noteq> []\<close>] by simp
  qed
  show ?thesis
  proof (cases "last cs")
    case (UpdateRunStatus br')
    have ds: "UpdateRunStatus br' \<in> set ds" using mem [OF UpdateRunStatus] by simp
    then have cs': "UpdateRunStatus br' \<in> set (snd (Reconcile lib (served api br) req []))"
      by (simp add: rec cs)
    have "run_live lib br" "run_edge br br'" using run_trace_status [OF tr ds] by blast+
    note * = cs' this
    show ?thesis
    proof (cases "write_reply api cs = None")
      case True
      then have "next_version lib api req br = br'" by (simp add: nxt UpdateRunStatus)
      from that(2) [OF this *(2,3,1)] show ?thesis .
    next
      case False
      then have "next_version lib api req br = br" by (simp add: nxt UpdateRunStatus del: not_None_eq)
      from that(1) [OF this] show ?thesis .
    qed
  next
    case (UpdateRun br')
    have ds: "UpdateRun br' \<in> set ds" using mem [OF UpdateRun] by simp
    note up = run_trace_update [OF tr ds]
    have up: "br_Status br' = br_Status br" "br_Meta br' = AddFinalizer lib (br_Meta br) ironbookFinalizer"
      using up assms by simp_all
    show ?thesis
    proof (cases "write_reply api cs = None")
      case True
      then have "next_version lib api req br = br'" by (simp add: nxt UpdateRun)
      from that(3) [OF this up] show ?thesis .
    next
      case False
      then have "next_version lib api req br = br" by (simp add: nxt UpdateRun del: not_None_eq)
      from that(1) [OF this] show ?thesis .
    qed
  qed (use that(1) nxt in simp_all)
qed

text \<open>An API server where everything but the submission is there.\<close>

definition well_kube :: kube where
  "well_kube = (sample_kube (sample_run [] None) (Inr sample_submission_cr) [sample_coordinator ''Succeeded''])
     \<lparr>get_botswarm := (\<lambda>_. Inr sample_swarm)\<rparr>"

end
