(* ===== verification/StatusControllers.thy ===== *)
theory StatusControllers
  imports OperatorApi Codec Sha256
begin

text \<open>
  The three small reconcilers of \<^verbatim>\<open>apps/benchmark-operator/internal/controller\<close>: Scenario, which
  stamps the content hash, Submission, which moves a new object to \<^verbatim>\<open>PENDING\<close>, and BotSwarm, which
  does nothing.  The first two share a contract, the locale \<open>settling_reconciler\<close>: they read the
  object, write its status at most once, and leave an object they have written alone.
\<close>

subsection \<open>The contract\<close>

text \<open>
  \<open>get\<close> and \<open>put\<close> are the read and the status write, \<open>fetch\<close> the API server's answer to the
  read, \<open>settle\<close> the new object if there is something to write.
\<close>

locale settling_reconciler =
  fixes recon :: "kube \<Rightarrow> object_key \<Rightarrow> outcome act"
    and fetch :: "kube \<Rightarrow> api_call list \<Rightarrow> 'o result"
    and get :: "object_key \<Rightarrow> api_call"
    and put :: "'o \<Rightarrow> api_call"
    and settle :: "'o \<Rightarrow> 'o option"
  assumes gone:
      "fetch api (h @ [get req]) = Inl e \<Longrightarrow>
         recon api req h = ((no_requeue, IgnoreNotFound e), h @ [get req])"
    and settled:
      "fetch api (h @ [get req]) = Inr ob \<Longrightarrow> settle ob = None \<Longrightarrow>
         recon api req h = ((no_requeue, None), h @ [get req])"
    and unsettled:
      "fetch api (h @ [get req]) = Inr ob \<Longrightarrow> settle ob = Some ob' \<Longrightarrow>
         recon api req h = ((no_requeue, write_reply api (h @ [get req, put ob'])), h @ [get req, put ob'])"
    and settle_once: "settle ob = Some ob' \<Longrightarrow> settle ob' = None"
begin

text \<open>A reconcile of the object it would write does nothing, whatever the API server answers.\<close>

lemma writes_then_rests:
  assumes "fetch api (h @ [get req]) = Inr ob" and "settle ob = Some ob'"
    and "fetch api' (h' @ [get req]) = Inr ob'"
  shows "snd (recon api req h) = h @ [get req, put ob']"
    and "recon api' req h' = ((no_requeue, None), h' @ [get req])"
  using unsettled [OF assms(1,2)] settled [OF assms(3) settle_once [OF assms(2)]] by simp_all

text \<open>A sequence of reconciles against a store that keeps the object makes one write at most.\<close>

fun stored_run :: "'o \<Rightarrow> nat \<Rightarrow> 'o \<times> nat" where
  "stored_run ob 0 = (ob, 0)"
| "stored_run ob (Suc n) =
     (case settle ob of None \<Rightarrow> stored_run ob n | Some ob' \<Rightarrow> (let (r, k) = stored_run ob' n in (r, Suc k)))"

lemma stored_run_settled: "settle ob = None \<Longrightarrow> stored_run ob n = (ob, 0)"
  by (induction n) simp_all

lemma stored_run_once: "snd (stored_run ob n) \<le> 1"
  by (cases n; cases "settle ob") (auto simp: stored_run_settled settle_once)

lemma stored_run_final:
  "stored_run ob (Suc n) = (case settle ob of None \<Rightarrow> (ob, 0) | Some ob' \<Rightarrow> (ob', 1))"
  by (cases "settle ob") (auto simp: stored_run_settled settle_once)

end

subsection \<open>Scenario\<close>

text \<open>\<^verbatim>\<open>sha256(yamlSpec || seed_le)\<close>, in hex.\<close>

definition content_hash :: "ScenarioSpec \<Rightarrow> string" where
  "content_hash spec = sha256_hex (text_bytes (scs_YAMLSpec spec) @ le64 (scs_Seed spec))"

definition stamp_hash :: "Scenario \<Rightarrow> Scenario" where
  "stamp_hash s = s\<lparr>scn_Status := (scn_Status s)\<lparr>scst_ContentHash := content_hash (scn_Spec s)\<rparr>\<rparr>"

definition ScenarioReconcile :: "kube \<Rightarrow> object_key \<Rightarrow> outcome act" where
  "ScenarioReconcile api req =
     or_else (api_call (get_scenario api) (GetScenario req))
       (\<lambda>err. done_with (no_requeue, IgnoreNotFound err))
       (\<lambda>s. if scst_ContentHash (scn_Status s) \<noteq> [] then done_with (no_requeue, None)
             else if_error (api_call (write_reply api) (UpdateScenarioStatus (stamp_hash s)))
                (\<lambda>err. done_with (no_requeue, Some err))
                (done_with (no_requeue, None)))"

definition scenario_settle :: "Scenario \<Rightarrow> Scenario option" where
  "scenario_settle s = (if scst_ContentHash (scn_Status s) \<noteq> [] then None else Some (stamp_hash s))"

lemmas act_defs = or_else_def if_error_def and_then_def api_call_def done_with_def

interpretation scenario_rec: settling_reconciler
  ScenarioReconcile get_scenario GetScenario UpdateScenarioStatus scenario_settle
  by unfold_locales
    (auto simp: ScenarioReconcile_def act_defs scenario_settle_def stamp_hash_def content_hash_def
      split: if_splits option.splits)

subsection \<open>Submission\<close>

definition accept_submission :: "kube_lib \<Rightarrow> SubmissionCR \<Rightarrow> SubmissionCR" where
  "accept_submission lib sub =
     sub\<lparr>sub_Status := (sub_Status sub)\<lparr>subst_Phase := ''PENDING'',
         subst_Conditions := SetStatusCondition lib (subst_Conditions (sub_Status sub))
           \<lparr>cond_Type = ''Initialized'', cond_Status = True, cond_Reason = ''Created'',
            cond_Message = ''Submission accepted; awaiting build''\<rparr>\<rparr>\<rparr>"

definition SubmissionReconcile :: "kube_lib \<Rightarrow> kube \<Rightarrow> object_key \<Rightarrow> outcome act" where
  "SubmissionReconcile lib api req =
     or_else (api_call (get_submission api) (GetSubmission req))
       (\<lambda>err. done_with (no_requeue, IgnoreNotFound err))
       (\<lambda>sub. if subst_Phase (sub_Status sub) \<noteq> [] then done_with (no_requeue, None)
             else if_error (api_call (write_reply api) (UpdateSubmissionStatus (accept_submission lib sub)))
                (\<lambda>err. done_with (no_requeue, Some err))
                (done_with (no_requeue, None)))"

definition submission_settle :: "kube_lib \<Rightarrow> SubmissionCR \<Rightarrow> SubmissionCR option" where
  "submission_settle lib sub =
     (if subst_Phase (sub_Status sub) \<noteq> [] then None else Some (accept_submission lib sub))"

interpretation submission_rec: settling_reconciler
  "SubmissionReconcile lib" get_submission GetSubmission UpdateSubmissionStatus "submission_settle lib"
  by unfold_locales
    (auto simp: SubmissionReconcile_def act_defs submission_settle_def accept_submission_def
      split: if_splits option.splits)

subsection \<open>BotSwarm\<close>

definition BotSwarmReconcile :: "kube \<Rightarrow> object_key \<Rightarrow> outcome act" where
  "BotSwarmReconcile api req = done_with (no_requeue, None)"

subsection \<open>Properties\<close>

text \<open>
  Two scenario specs have the same content hash exactly when their
  YAML and seed agree, unless SHA-256 collides: the seed is a fixed-width suffix, so no other pair
  of specs hashes the same bytes.
\<close>

theorem content_hash_identifies:
  "content_hash a = content_hash b \<longleftrightarrow>
     (scs_YAMLSpec a = scs_YAMLSpec b \<and> scs_Seed a = scs_Seed b)
   \<or> sha256_collision (text_bytes (scs_YAMLSpec a) @ le64 (scs_Seed a))
       (text_bytes (scs_YAMLSpec b) @ le64 (scs_Seed b))"
proof -
  have "text_bytes (scs_YAMLSpec a) @ le64 (scs_Seed a) = text_bytes (scs_YAMLSpec b) @ le64 (scs_Seed b)
      \<longleftrightarrow> scs_YAMLSpec a = scs_YAMLSpec b \<and> scs_Seed a = scs_Seed b"
    by (simp add: append_eq_append_conv text_bytes_inj le64.enc_inj)
  then show ?thesis
    using sha256_hex_eqD [of "text_bytes (scs_YAMLSpec a) @ le64 (scs_Seed a)"
        "text_bytes (scs_YAMLSpec b) @ le64 (scs_Seed b)"]
    by (auto simp: content_hash_def sha256_collision_def sha256_hex_def)
qed

text \<open>
  The first reconcile of a scenario without a hash writes the hash
  of its spec and nothing else; a reconcile of the written object, by any operator and after any
  history, only reads.
\<close>

theorem scenario_hash_written_once:
  assumes "get_scenario api (h @ [GetScenario req]) = Inr s" and "scst_ContentHash (scn_Status s) = []"
    and "get_scenario api' (h' @ [GetScenario req]) = Inr (stamp_hash s)"
  shows "snd (ScenarioReconcile api req h) = h @ [GetScenario req, UpdateScenarioStatus (stamp_hash s)]
       \<and> scst_ContentHash (scn_Status (stamp_hash s)) = content_hash (scn_Spec s)
       \<and> scn_Spec (stamp_hash s) = scn_Spec s
       \<and> ScenarioReconcile api' req h' = ((no_requeue, None), h' @ [GetScenario req])"
  using scenario_rec.writes_then_rests [OF assms(1) _ assms(3)] assms(2)
  by (simp add: scenario_settle_def stamp_hash_def)

text \<open>
  A scenario edited after its first reconcile keeps the hash of
  its old spec: the reconciler reads it and writes nothing, however the spec was changed.
\<close>

theorem edited_scenario_keeps_its_hash:
  assumes "s' = (stamp_hash s)\<lparr>scn_Spec := spec'\<rparr>" and "get_scenario api (h @ [GetScenario req]) = Inr s'"
  shows "ScenarioReconcile api req h = ((no_requeue, None), h @ [GetScenario req])
       \<and> scst_ContentHash (scn_Status s') = content_hash (scn_Spec s)"
proof -
  have "scenario_settle s' = None"
    by (simp add: assms(1) scenario_settle_def stamp_hash_def content_hash_def)
  then show ?thesis
    using scenario_rec.settled [OF assms(2)] assms(1) by (auto simp: stamp_hash_def)
qed

text \<open>
  A new submission is moved to \<^verbatim>\<open>PENDING\<close> by one status write; once it
  has a phase, whatever it is, the reconciler never writes it again.
\<close>

theorem submission_accepted_once:
  assumes "get_submission api (h @ [GetSubmission req]) = Inr sub"
  shows "snd (SubmissionReconcile lib api req h) =
           (if subst_Phase (sub_Status sub) = []
            then h @ [GetSubmission req, UpdateSubmissionStatus (accept_submission lib sub)]
            else h @ [GetSubmission req])
       \<and> subst_Phase (sub_Status (accept_submission lib sub)) = ''PENDING''
       \<and> sub_Spec (accept_submission lib sub) = sub_Spec sub"
proof (cases "subst_Phase (sub_Status sub) = []")
  case True
  then have "submission_settle lib sub = Some (accept_submission lib sub)" by (simp add: submission_settle_def)
  from submission_rec.unsettled [OF assms this] True show ?thesis by (simp add: accept_submission_def)
next
  case False
  then have "submission_settle lib sub = None" by (simp add: submission_settle_def)
  from submission_rec.settled [OF assms this] False show ?thesis by (simp add: accept_submission_def)
qed

definition plain_scenario :: Scenario where
  "plain_scenario =
     \<lparr>scn_Meta = object_meta ''c'' ''n'' Map.empty,
      scn_Spec = \<lparr>scs_YAMLSpec = ''x'', scs_Seed = 1, scs_DurationSeconds = 3,
        scs_Targets = \<lparr>tg_P50Us = 1, tg_P99Us = 1, tg_TPS = 1\<rparr>\<rparr>,
      scn_Status = \<lparr>scst_ContentHash = [], scst_Conditions = []\<rparr>\<rparr>"

definition plain_submission :: SubmissionCR where
  "plain_submission =
     \<lparr>sub_Meta = object_meta ''s'' ''n'' Map.empty,
      sub_Spec = \<lparr>subs_Sha256 = ''ab'', subs_Language = ''go''\<rparr>,
      sub_Status = \<lparr>subst_Phase = [], subst_ImageDigest = [], subst_RejectReason = [], subst_Conditions = []\<rparr>\<rparr>"

definition serving :: "Scenario \<Rightarrow> kube" where
  "serving s =
     \<lparr>get_run = (\<lambda>_. Inl (NotFoundError ''run'')), get_submission = (\<lambda>_. Inr plain_submission),
      get_scenario = (\<lambda>_. Inr s), get_botswarm = (\<lambda>_. Inl (NotFoundError ''swarm'')),
      list_pods = (\<lambda>_. Inr []), write_reply = (\<lambda>_. None), clock_now = (\<lambda>_. 0)\<rparr>"

theorem scenario_hash_written_once_witness:
  "snd (ScenarioReconcile (serving plain_scenario) (''n'', ''c'') [])
     = [GetScenario (''n'', ''c''), UpdateScenarioStatus (stamp_hash plain_scenario)]
   \<and> snd (ScenarioReconcile (serving (stamp_hash plain_scenario)) (''n'', ''c'') []) = [GetScenario (''n'', ''c'')]"
  using scenario_hash_written_once [where api = "serving plain_scenario" and s = plain_scenario
      and api' = "serving (stamp_hash plain_scenario)" and h = "[]" and h' = "[]" and req = "(''n'', ''c'')"]
  by (simp add: serving_def plain_scenario_def)

theorem edited_scenario_keeps_its_hash_witness:
  "ScenarioReconcile (serving ((stamp_hash plain_scenario)\<lparr>scn_Spec := (scn_Spec plain_scenario)\<lparr>scs_Seed := 2\<rparr>\<rparr>))
     (''n'', ''c'') [] = ((no_requeue, None), [GetScenario (''n'', ''c'')])"
  using edited_scenario_keeps_its_hash [OF refl, where s = plain_scenario and h = "[]" and req = "(''n'', ''c'')"
      and spec' = "(scn_Spec plain_scenario)\<lparr>scs_Seed := 2\<rparr>"
      and api = "serving ((stamp_hash plain_scenario)\<lparr>scn_Spec := (scn_Spec plain_scenario)\<lparr>scs_Seed := 2\<rparr>\<rparr>)"]
  by (simp add: serving_def)

definition keep_conditions :: kube_lib where
  "keep_conditions =
     \<lparr>ContainsFinalizer = (\<lambda>m f. f \<in> set (om_Finalizers m)), AddFinalizer = (\<lambda>m f. m),
      RemoveFinalizer = (\<lambda>m f. m), SetControllerReference = (\<lambda>ow m. Inr m),
      SetStatusCondition = (\<lambda>cs c. cs @ [c])\<rparr>"

theorem submission_accepted_once_witness:
  "snd (SubmissionReconcile keep_conditions (serving plain_scenario) (''n'', ''s'') [])
     = [GetSubmission (''n'', ''s''), UpdateSubmissionStatus (accept_submission keep_conditions plain_submission)]"
  using submission_accepted_once [where api = "serving plain_scenario" and sub = plain_submission and h = "[]"
      and req = "(''n'', ''s'')" and lib = keep_conditions]
  by (simp add: serving_def plain_submission_def)

end
