(* ===== verification/SubmissionGate.thy ===== *)
theory SubmissionGate
  imports RunVersions StatusControllers
begin

text \<open>
  Submission resources and the runs that wait for them.  A run leaves \<^verbatim>\<open>PENDING\<close> only when its
  submission is \<^verbatim>\<open>READY\<close>; of the programs modelled here, only the submission controller writes the
  status of a submission.
\<close>

text \<open>
  The versions of a Submission in the API server: created without a status (a status subresource is
  dropped on creation), edited by users in metadata and spec, written by the submission controller.
\<close>

inductive submission_version :: "kube_lib \<Rightarrow> SubmissionCR \<Rightarrow> bool" for lib where
  created: "subst_Phase (sub_Status s) = [] \<Longrightarrow> submission_version lib s"
| edited: "submission_version lib s \<Longrightarrow> sub_Status s' = sub_Status s \<Longrightarrow> submission_version lib s'"
| written:
    "submission_version lib s \<Longrightarrow> get_submission api [GetSubmission req] = Inr s \<Longrightarrow>
     SubmissionReconcile lib api req [] = (out, cs) \<Longrightarrow> UpdateSubmissionStatus s' \<in> set cs \<Longrightarrow>
     submission_version lib (s\<lparr>sub_Status := sub_Status s'\<rparr>)"

lemma SubmissionReconcile_writes:
  assumes "get_submission api [GetSubmission req] = Inr s" and "SubmissionReconcile lib api req [] = (out, cs)"
    and "UpdateSubmissionStatus s' \<in> set cs"
  shows "s' = accept_submission lib s"
proof (cases "submission_settle lib s")
  case None
  then show ?thesis using submission_rec.settled [of api "[]" req s lib] assms by auto
next
  case (Some s1)
  then have "cs = [GetSubmission req, UpdateSubmissionStatus s1]"
    using submission_rec.unsettled [of api "[]" req s lib s1] assms(1,2) by auto
  then have "s' = s1" using assms(3) by simp
  then show ?thesis using Some by (simp add: submission_settle_def split: if_splits)
qed

lemma submission_phase: "submission_version lib s \<Longrightarrow> subst_Phase (sub_Status s) \<in> {[], ''PENDING''}"
proof (induction rule: submission_version.induct)
  case (written s api req out cs s')
  then have "s' = accept_submission lib s" by (intro SubmissionReconcile_writes)
  then show ?case by (simp add: accept_submission_def)
qed simp_all

lemma pending_needs_ready:
  assumes "run_live lib br" "run_phase br = ''PENDING''"
    and "UpdateRunStatus br' \<in> set (snd (Reconcile lib (served api br) req []))"
    and "\<And>h s. get_submission api h = Inr s \<Longrightarrow> subst_Phase (sub_Status s) \<noteq> ''READY''"
  shows "run_phase br' = ''INVALID''"
proof -
  have run: "Reconcile lib (served api br) req [] = toAllocating lib (served api br) br [GetRun req]"
    by (simp add: Reconcile_read reconcile_live [OF assms(1)] on_phase_simps(1) [OF assms(2)])
  let ?h = "[GetRun req, GetSubmission (run_ns br, brs_SubmissionRef (br_Spec br))]"
  show ?thesis
  proof (cases "get_submission api ?h")
    case (Inl e)
    then show ?thesis
      using assms(3) unfolding run toAllocating_def toInvalid_def
      by (simp add: run_act_defs Let_def status_update_run)
  next
    case (Inr s)
    then show ?thesis
      using assms(3) assms(4) [OF Inr] unfolding run toAllocating_def
      by (simp add: run_act_defs Let_def)
  qed
qed

definition unstarted :: "BenchmarkRun \<Rightarrow> bool" where
  "unstarted br \<longleftrightarrow>
     om_DeletionTimestamp (br_Meta br) = None \<and> run_phase br \<in> {[], ''PENDING'', ''INVALID''}"

lemma next_unstarted:
  assumes "kube_lib_ok lib" "unstarted br"
    and "\<And>h s. get_submission api h = Inr s \<Longrightarrow> submission_version lib s"
  shows "unstarted (next_version lib api req br)"
proof -
  have del: "om_DeletionTimestamp (br_Meta br) = None" using assms(2) by (simp add: unstarted_def)
  have no: "subst_Phase (sub_Status s) \<noteq> ''READY''" if "get_submission api h = Inr s" for h s
    using submission_phase [OF assms(3) [OF that]] by auto
  show ?thesis
  proof (cases rule: next_version_cases [OF del, of lib api req])
    case 1
    then show ?thesis using assms(2) by simp
  next
    case (2 br')
    have edge: "phase_edge (run_phase br) (run_phase br')" "br_Meta br' = br_Meta br"
      using 2(3) by (simp_all add: run_edge_def)
    have "run_phase br' \<in> {[], ''PENDING'', ''INVALID''}"
    proof (cases "run_phase br = ''PENDING''")
      case True
      show ?thesis using pending_needs_ready [OF 2(2) True 2(4) no] by simp
    next
      case False
      show ?thesis using edge(1) False assms(2) by (cases rule: phase_edge.cases) (simp_all add: unstarted_def)
    qed
    then show ?thesis using 2(1) edge(2) del by (simp add: unstarted_def)
  next
    case (3 br')
    have "om_DeletionTimestamp (br_Meta br') = None"
      using 3(3) del assms(1) unfolding kube_lib_ok_def same_identity_def by simp
    then show ?thesis using 3(1,2) assms(2) by (simp add: unstarted_def run_phase_def)
  qed
qed

text \<open>
  C34 (runs_wait_for_a_patch): composition of the submission and the run controllers.  As long as
  submissions are written by users and by their controller only, no reconcile, against any behaviour
  of the rest of the API server, ever starts a run: it stays \<^verbatim>\<open>PENDING\<close>, or turns \<^verbatim>\<open>INVALID\<close>.
\<close>

theorem runs_wait_for_a_patch:
  assumes "kube_lib_ok lib" and "om_DeletionTimestamp (br_Meta br) = None" and "run_phase br = []"
    and "\<And>k h s. get_submission (apis k) h = Inr s \<Longrightarrow> submission_version lib s"
  shows "run_phase (version lib apis req br n) \<in> {[], ''PENDING'', ''INVALID''}"
proof -
  have "unstarted (version lib apis req br n)"
  proof (induction n)
    case 0
    then show ?case using assms(2,3) by (simp add: unstarted_def)
  next
    case (Suc n)
    then show ?case using next_unstarted [OF assms(1) Suc assms(4)] by simp
  qed
  then show ?thesis by (simp add: unstarted_def)
qed

lemma plain_submission_version: "submission_version lib (accept_submission lib plain_submission)"
proof -
  have base: "submission_version lib plain_submission"
    by (rule submission_version.created) (simp add: plain_submission_def)
  have get: "get_submission (serving plain_scenario) [GetSubmission (''n'', ''s'')] = Inr plain_submission"
    by (simp add: serving_def)
  have "submission_settle lib plain_submission = Some (accept_submission lib plain_submission)"
    by (simp add: submission_settle_def plain_submission_def)
  from submission_rec.unsettled [of "serving plain_scenario" "[]", OF _ this, of "(''n'', ''s'')"] get
  have rec: "SubmissionReconcile lib (serving plain_scenario) (''n'', ''s'') [] =
      ((no_requeue, write_reply (serving plain_scenario) [GetSubmission (''n'', ''s''),
          UpdateSubmissionStatus (accept_submission lib plain_submission)]),
       [GetSubmission (''n'', ''s''), UpdateSubmissionStatus (accept_submission lib plain_submission)])"
    by simp
  have "submission_version lib
      (plain_submission\<lparr>sub_Status := sub_Status (accept_submission lib plain_submission)\<rparr>)"
    by (rule submission_version.written [OF base get rec]) simp
  moreover have "plain_submission\<lparr>sub_Status := sub_Status (accept_submission lib plain_submission)\<rparr>
      = accept_submission lib plain_submission"
    by (simp add: accept_submission_def)
  ultimately show ?thesis by simp
qed

theorem runs_wait_for_a_patch_witness:
  "run_phase (version sample_lib
     (\<lambda>k. well_kube\<lparr>get_submission := (\<lambda>_. Inr (accept_submission sample_lib plain_submission))\<rparr>)
     (''n'', ''r'') (sample_run [] None) 100) \<in> {[], ''PENDING'', ''INVALID''}"
proof (rule runs_wait_for_a_patch [OF sample_lib_ok])
  show "om_DeletionTimestamp (br_Meta (sample_run [] None)) = None" by (simp add: sample_run_def)
  show "run_phase (sample_run [] None) = []" by (rule sample_alloc(1))
qed (use plain_submission_version in simp)

end
