(* ===== verification/RunWorld.thy ===== *)
theory RunWorld
  imports RunSystem
begin

text \<open>
  A benchmark run together with the pods and services the API server holds for it.  A reconcile of
  \<open>RunController\<close> is a component step: its calls change the store.  Between reconciles the environment steps: pods
  may be lost, the kubelet reports statuses, and whether a call goes through is up to the API server.
\<close>

subsection \<open>The cluster\<close>

text \<open>
  A call goes through; or it is turned down with an error; or it takes effect and its answer is lost.
\<close>

datatype call_fate = Goes_through | Turned_down string | Answer_lost string

text \<open>
  What one reconcile meets: the answers for the three references, the error of a list if it fails, the fate of
  each call that writes, the status the kubelet gives each pod, the pods that are still there, and the clock.
\<close>

record cluster =
  cl_submission :: "api_call list \<Rightarrow> SubmissionCR result"
  cl_scenario :: "api_call list \<Rightarrow> Scenario result"
  cl_botswarm :: "api_call list \<Rightarrow> BotSwarm result"
  cl_lists :: "go_error option"
  cl_fate :: "api_call \<Rightarrow> call_fate"
  cl_kubelet :: "Pod \<Rightarrow> PodStatus"
  cl_keeps :: "Pod \<Rightarrow> bool"
  cl_clock :: int

record run_world =
  rw_run :: BenchmarkRun
  rw_pods :: "Pod list"
  rw_services :: "Service list"

definition pod_key :: "Pod \<Rightarrow> object_key" where
  "pod_key p = (om_Namespace (pod_Meta p), om_Name (pod_Meta p))"

definition service_key :: "Service \<Rightarrow> object_key" where
  "service_key v = (om_Namespace (svc_Meta v), om_Name (svc_Meta v))"

definition write_answer :: "cluster \<Rightarrow> run_world \<Rightarrow> api_call \<Rightarrow> go_error option" where
  "write_answer c w call =
     (case cl_fate c call of
        Turned_down e \<Rightarrow> Some (GoError e)
      | Answer_lost e \<Rightarrow> Some (GoError e)
      | Goes_through \<Rightarrow>
          (case call of
             CreatePod p \<Rightarrow>
               if pod_key p \<in> pod_key ` set (rw_pods w) then Some (AlreadyExistsError ''pods'') else None
           | CreateService v \<Rightarrow>
               if service_key v \<in> service_key ` set (rw_services w) then Some (AlreadyExistsError ''services'') else None
           | _ \<Rightarrow> None))"

text \<open>
  What a call leaves.  A write of the object leaves its status alone, as a write of the status leaves the rest.
  The run here is never deleted, so no pod is either, by the operator.
\<close>

definition apply_call :: "cluster \<Rightarrow> run_world \<Rightarrow> api_call \<Rightarrow> run_world" where
  "apply_call c w call =
     (if (case cl_fate c call of Turned_down e \<Rightarrow> True | _ \<Rightarrow> False) then w
      else case call of
        CreatePod p \<Rightarrow> if pod_key p \<in> pod_key ` set (rw_pods w) then w else w\<lparr>rw_pods := rw_pods w @ [p]\<rparr>
      | CreateService v \<Rightarrow>
          if service_key v \<in> service_key ` set (rw_services w) then w else w\<lparr>rw_services := rw_services w @ [v]\<rparr>
      | UpdateRun br' \<Rightarrow> w\<lparr>rw_run := (rw_run w)\<lparr>br_Meta := br_Meta br', br_Spec := br_Spec br'\<rparr>\<rparr>
      | UpdateRunStatus br' \<Rightarrow> w\<lparr>rw_run := (rw_run w)\<lparr>br_Status := br_Status br'\<rparr>\<rparr>
      | _ \<Rightarrow> w)"

definition world_after :: "cluster \<Rightarrow> run_world \<Rightarrow> api_call list \<Rightarrow> run_world" where
  "world_after c w h = foldl (apply_call c) w h"

text \<open>A list answers the stored pods with the namespace and the label asked for, with their statuses.\<close>

definition listed :: "cluster \<Rightarrow> run_world \<Rightarrow> api_call \<Rightarrow> Pod list" where
  "listed c w call =
     (case call of
        ListPods ns n \<Rightarrow>
          map (\<lambda>p. p\<lparr>pod_Status := cl_kubelet c p\<rparr>)
            (filter (\<lambda>p. om_Namespace (pod_Meta p) = ns \<and> om_Labels (pod_Meta p) labelRun = Some n) (rw_pods w))
      | _ \<Rightarrow> [])"

definition cluster_api :: "cluster \<Rightarrow> run_world \<Rightarrow> kube" where
  "cluster_api c w =
     \<lparr>get_run = (\<lambda>h. Inr (rw_run (world_after c w h))),
      get_submission = cl_submission c, get_scenario = cl_scenario c, get_botswarm = cl_botswarm c,
      list_pods = (\<lambda>h. case cl_lists c of Some e \<Rightarrow> Inl e | None \<Rightarrow> Inr (listed c (world_after c w h) (last h))),
      write_reply = (\<lambda>h. write_answer c (world_after c w (butlast h)) (last h)),
      clock_now = (\<lambda>h. cl_clock c)\<rparr>"

text \<open>One round: some pods are lost, then the run is reconciled.\<close>

definition survivors :: "cluster \<Rightarrow> run_world \<Rightarrow> run_world" where
  "survivors c w = w\<lparr>rw_pods := filter (cl_keeps c) (rw_pods w)\<rparr>"

definition next_world :: "kube_lib \<Rightarrow> object_key \<Rightarrow> cluster \<Rightarrow> run_world \<Rightarrow> run_world" where
  "next_world lib req c w =
     (let w1 = survivors c w in world_after c w1 (snd (Reconcile lib (cluster_api c w1) req [])))"

primrec world :: "kube_lib \<Rightarrow> object_key \<Rightarrow> (nat \<Rightarrow> cluster) \<Rightarrow> run_world \<Rightarrow> nat \<Rightarrow> run_world" where
  "world lib req cs w 0 = w"
| "world lib req cs w (Suc k) = next_world lib req (cs k) (world lib req cs w k)"

subsection \<open>The pods of a run\<close>

definition run_roles :: "string list" where
  "run_roles = [roleOracle, roleSubmission, roleGateway, roleCoordinator]"

definition role_key :: "BenchmarkRun \<Rightarrow> string \<Rightarrow> object_key" where
  "role_key br role = (run_ns br, role @ ''-'' @ run_name br)"

definition run_pod :: "BenchmarkRun \<Rightarrow> string \<Rightarrow> Pod \<Rightarrow> bool" where
  "run_pod br role p \<longleftrightarrow>
     om_Namespace (pod_Meta p) = run_ns br \<and> om_Name (pod_Meta p) = role @ ''-'' @ run_name br
   \<and> om_Labels (pod_Meta p) labelRun = Some (run_name br) \<and> om_Labels (pod_Meta p) labelRole = Some role"

text \<open>A pod that the run's label or one of the names of its pods is on.\<close>

definition resembles :: "BenchmarkRun \<Rightarrow> Pod \<Rightarrow> bool" where
  "resembles br p \<longleftrightarrow>
     om_Namespace (pod_Meta p) = run_ns br \<and> om_Labels (pod_Meta p) labelRun = Some (run_name br)
   \<or> pod_key p \<in> role_key br ` set run_roles"

text \<open>A run just created, next to any pods that are not its own.\<close>

definition fresh_world :: "run_world \<Rightarrow> bool" where
  "fresh_world w \<longleftrightarrow>
     run_phase (rw_run w) = [] \<and> om_DeletionTimestamp (br_Meta (rw_run w)) = None
   \<and> distinct (map pod_key (rw_pods w)) \<and> (\<forall>p \<in> set (rw_pods w). \<not> resembles (rw_run w) p)"

definition pods_ok :: "BenchmarkRun \<Rightarrow> Pod list \<Rightarrow> bool" where
  "pods_ok br ps \<longleftrightarrow>
     distinct (map pod_key ps) \<and> (\<forall>p \<in> set ps. resembles br p \<longrightarrow> (\<exists>role \<in> set run_roles. run_pod br role p))"

definition world_ok :: "kube_lib \<Rightarrow> run_world \<Rightarrow> bool" where
  "world_ok lib w \<longleftrightarrow>
     om_DeletionTimestamp (br_Meta (rw_run w)) = None \<and> pods_ok (rw_run w) (rw_pods w)
   \<and> (run_phase (rw_run w) \<noteq> [] \<longrightarrow> run_live lib (rw_run w))"

lemma run_pod_key: "run_pod br role p \<Longrightarrow> pod_key p = role_key br role"
  by (simp add: run_pod_def pod_key_def role_key_def)

lemma role_key_inj: "role_key br r = role_key br r' \<longleftrightarrow> r = r'"
  by (simp add: role_key_def)

lemma run_roles_distinct: "distinct run_roles" "length run_roles = 4"
  by (simp_all add: run_roles_def role_defs)

lemma pods_of_cong:
  assumes "run_name br' = run_name br" "run_ns br' = run_ns br"
  shows "resembles br' p = resembles br p" "run_pod br' r p = run_pod br r p" "role_key br' r = role_key br r"
    "pods_ok br' ps = pods_ok br ps"
  using assms by (simp_all add: resembles_def run_pod_def role_key_def pods_ok_def)

lemma fresh_world_ok: "fresh_world w \<Longrightarrow> world_ok lib w"
  by (simp add: fresh_world_def world_ok_def pods_ok_def)

lemma made_run_pod:
  assumes "kube_lib_ok lib" "SetControllerReference lib (br_Meta br) (podMeta br role) = Inr (pod_Meta p)"
  shows "run_pod br role p"
proof -
  have "same_identity (pod_Meta p) (podMeta br role)" using kube_lib_okD(4) [OF assms] by blast
  then show ?thesis by (simp add: same_identity_def run_pod_def podMeta_def object_meta_def label_defs)
qed

subsection \<open>What a reconcile leaves\<close>

lemma world_after_simps [simp]:
  "world_after c w [] = w" "world_after c w (h @ g) = world_after c (world_after c w h) g"
  "world_after c w (x # h) = world_after c (apply_call c w x) h"
  by (simp_all add: world_after_def)

lemma cluster_api_simps [simp]:
  "get_run (cluster_api c w) h = Inr (rw_run (world_after c w h))"
  "get_submission (cluster_api c w) = cl_submission c" "get_scenario (cluster_api c w) = cl_scenario c"
  "get_botswarm (cluster_api c w) = cl_botswarm c"
  "list_pods (cluster_api c w) h = (case cl_lists c of Some e \<Rightarrow> Inl e | None \<Rightarrow> Inr (listed c (world_after c w h) (last h)))"
  "write_reply (cluster_api c w) h = write_answer c (world_after c w (butlast h)) (last h)"
  "clock_now (cluster_api c w) h = cl_clock c"
  by (simp_all add: cluster_api_def)

lemma apply_reads [simp]:
  "apply_call c w (GetRun k) = w" "apply_call c w (GetSubmission k) = w" "apply_call c w (GetScenario k) = w"
  "apply_call c w (GetBotSwarm k) = w" "apply_call c w (ListPods ns n) = w"
  by (simp_all add: apply_call_def)

lemma survivors_simps [simp]:
  "rw_run (survivors c w) = rw_run w" "rw_pods (survivors c w) = filter (cl_keeps c) (rw_pods w)"
  by (simp_all add: survivors_def)

lemma apply_keeps_pods: "set (rw_pods w) \<subseteq> set (rw_pods (apply_call c w x))"
  by (cases x) (auto simp: apply_call_def split: call_fate.splits)

lemma world_after_keeps_pods: "set (rw_pods w) \<subseteq> set (rw_pods (world_after c w h))"
proof (induction h arbitrary: w)
  case (Cons x h)
  then show ?case using apply_keeps_pods [of w c x] by fastforce
qed simp

text \<open>The run after a trace: as it was, along an edge, or with the finalizer.\<close>

definition moves :: "kube_lib \<Rightarrow> BenchmarkRun \<Rightarrow> api_call list \<Rightarrow> BenchmarkRun \<Rightarrow> bool" where
  "moves lib br ds br' \<longleftrightarrow>
     br' = br \<or> run_live lib br \<and> run_edge br br' \<and> UpdateRunStatus br' \<in> set ds
   \<or> br' = br\<lparr>br_Meta := AddFinalizer lib (br_Meta br) ironbookFinalizer\<rparr>"

lemma apply_trace:
  assumes lib: "kube_lib_ok lib" and del: "om_DeletionTimestamp (br_Meta (rw_run w)) = None"
    and tr: "run_trace lib (rw_run w) (x # ds)" and ok: "pods_ok (rw_run w) (rw_pods w)"
  shows "pods_ok (rw_run w) (rw_pods (apply_call c w x))"
    and "(ds = [] \<and> moves lib (rw_run w) [x] (rw_run (apply_call c w x)))
       \<or> (rw_run (apply_call c w x) = rw_run w \<and> run_trace lib (rw_run w) ds)"
proof -
  have create: "pods_ok (rw_run w) (rw_pods w @ [p])"
    if new: "pod_key p \<notin> pod_key ` set (rw_pods w)" and x: "x = CreatePod p" for p
  proof -
    obtain role where "role \<in> set run_roles"
      "SetControllerReference lib (br_Meta (rw_run w)) (podMeta (rw_run w) role) = Inr (pod_Meta p)"
      using tr x by (auto simp: run_roles_def)
    then show ?thesis using made_run_pod [OF lib] ok new by (auto simp: pods_ok_def)
  qed
  show "pods_ok (rw_run w) (rw_pods (apply_call c w x))"
    using ok create by (cases x) (auto simp: apply_call_def split: call_fate.splits)
  have status: "(rw_run w)\<lparr>br_Status := br_Status br'\<rparr> = br'" if "run_edge (rw_run w) br'" for br'
    using that by (simp add: run_edge_def)
  show "(ds = [] \<and> moves lib (rw_run w) [x] (rw_run (apply_call c w x)))
       \<or> (rw_run (apply_call c w x) = rw_run w \<and> run_trace lib (rw_run w) ds)"
    using tr del status by (cases x) (auto simp: apply_call_def moves_def split: call_fate.splits)
qed

lemma world_after_trace:
  assumes "kube_lib_ok lib" "om_DeletionTimestamp (br_Meta (rw_run w)) = None"
    and "run_trace lib (rw_run w) ds" "pods_ok (rw_run w) (rw_pods w)"
  shows "pods_ok (rw_run w) (rw_pods (world_after c w ds)) \<and> moves lib (rw_run w) ds (rw_run (world_after c w ds))"
  using assms(2-4)
proof (induction ds arbitrary: w)
  case (Cons x ds)
  note step = apply_trace [OF assms(1) Cons.prems, of c]
  from step(2) show ?case
  proof
    assume "ds = [] \<and> moves lib (rw_run w) [x] (rw_run (apply_call c w x))"
    then show ?thesis using step(1) by simp
  next
    assume same: "rw_run (apply_call c w x) = rw_run w \<and> run_trace lib (rw_run w) ds"
    then show ?thesis using Cons.IH [of "apply_call c w x"] Cons.prems(1) step(1) by (auto simp: moves_def)
  qed
qed (simp add: moves_def)

lemma moves_names:
  assumes "kube_lib_ok lib" "moves lib br ds br'"
  shows "run_name br' = run_name br" "run_ns br' = run_ns br"
    "om_DeletionTimestamp (br_Meta br') = om_DeletionTimestamp (br_Meta br)"
proof -
  have "same_identity (AddFinalizer lib m f) m" for m f using assms(1) by (simp add: kube_lib_ok_def)
  then show "run_name br' = run_name br" "run_ns br' = run_ns br"
    "om_DeletionTimestamp (br_Meta br') = om_DeletionTimestamp (br_Meta br)"
    using assms(2) unfolding moves_def run_edge_def same_identity_def run_name_def run_ns_def by auto
qed

lemma moves_live:
  assumes "kube_lib_ok lib" "moves lib br ds br'" "om_DeletionTimestamp (br_Meta br) = None"
    "run_phase br \<noteq> [] \<longrightarrow> run_live lib br"
  shows "run_phase br' \<noteq> [] \<longrightarrow> run_live lib br'" "run_live lib br \<longrightarrow> run_live lib br'"
proof -
  have "ContainsFinalizer lib (AddFinalizer lib m f) f" for m f using kube_lib_okD(1,2) [OF assms(1)] by simp
  then show "run_phase br' \<noteq> [] \<longrightarrow> run_live lib br'" "run_live lib br \<longrightarrow> run_live lib br'"
    using assms(2-4) moves_names(3) [OF assms(1,2)] unfolding moves_def run_edge_def run_live_def by auto
qed

lemma next_world_keeps:
  fixes req :: object_key and c :: cluster
  assumes lib: "kube_lib_ok lib" and ok: "world_ok lib w"
  defines "w' \<equiv> next_world lib req c w"
  shows "world_ok lib w'" "moves lib (rw_run w) (snd (Reconcile lib (cluster_api c (survivors c w)) req [])) (rw_run w')"
    "set (filter (cl_keeps c) (rw_pods w)) \<subseteq> set (rw_pods w')"
proof -
  let ?w1 = "survivors c w"
  obtain out cs where rec: "Reconcile lib (cluster_api c ?w1) req [] = (out, cs)" by fastforce
  obtain ds where cs: "cs = GetRun req # ds" and tr: "run_trace lib (rw_run ?w1) ds"
    by (cases rule: Reconcile_trace [OF rec]) simp_all
  have w': "w' = world_after c ?w1 ds" by (simp add: w'_def next_world_def rec cs Let_def)
  have w1: "om_DeletionTimestamp (br_Meta (rw_run ?w1)) = None" "pods_ok (rw_run ?w1) (rw_pods ?w1)"
    using ok by (auto simp: world_ok_def pods_ok_def distinct_map_filter)
  note after = world_after_trace [OF lib w1(1) tr w1(2), of c]
  then have mv: "moves lib (rw_run w) ds (rw_run w')" by (simp add: w')
  then show "moves lib (rw_run w) (snd (Reconcile lib (cluster_api c (survivors c w)) req [])) (rw_run w')"
    by (auto simp: rec cs moves_def)
  show "world_ok lib w'"
    using ok after pods_of_cong(4) [OF moves_names(1,2) [OF lib mv]] moves_live(1) [OF lib mv] moves_names(3) [OF lib mv]
    by (simp add: world_ok_def w')
  show "set (filter (cl_keeps c) (rw_pods w)) \<subseteq> set (rw_pods w')"
    using world_after_keeps_pods [of ?w1 c ds] by (simp add: w')
qed

lemma world_keeps:
  assumes "kube_lib_ok lib" "fresh_world w"
  shows "world_ok lib (world lib req cs w k)"
    and "run_name (rw_run (world lib req cs w k)) = run_name (rw_run w)"
    and "run_ns (rw_run (world lib req cs w k)) = run_ns (rw_run w)"
proof -
  have "world_ok lib (world lib req cs w k) \<and> run_name (rw_run (world lib req cs w k)) = run_name (rw_run w)
      \<and> run_ns (rw_run (world lib req cs w k)) = run_ns (rw_run w)"
  proof (induction k)
    case (Suc k)
    note step = next_world_keeps [OF assms(1) conjunct1 [OF Suc], where c = "cs k" and req = req]
    then show ?case using Suc moves_names(1,2) [OF assms(1) step(2)] by simp
  qed (simp add: fresh_world_ok [OF assms(2)])
  then show "world_ok lib (world lib req cs w k)"
    "run_name (rw_run (world lib req cs w k)) = run_name (rw_run w)"
    "run_ns (rw_run (world lib req cs w k)) = run_ns (rw_run w)" by blast+
qed

subsection \<open>The gate sees the pods of the run\<close>

definition pod_up :: "cluster \<Rightarrow> string \<Rightarrow> Pod \<Rightarrow> bool" where
  "pod_up c role p \<longleftrightarrow>
     (if role = roleCoordinator then pst_Phase (cl_kubelet c p) \<noteq> ''Pending''
      else (''Ready'', ''True'') \<in> set (pst_Conditions (cl_kubelet c p)))"

lemma gate_up:
  "run_pod br role p \<Longrightarrow> pod_gate (p\<lparr>pod_Status := cl_kubelet c p\<rparr>) \<longleftrightarrow> pod_up c role p"
  by (auto simp: pod_gate_def pod_role_def run_pod_def label_def podReady_def list_ex_iff pod_up_def)

lemma own_pods:
  assumes ok: "pods_ok br ps"
  defines "own \<equiv> filter (\<lambda>p. om_Namespace (pod_Meta p) = run_ns br \<and> om_Labels (pod_Meta p) labelRun = Some (run_name br)) ps"
  shows "p \<in> set own \<longleftrightarrow> p \<in> set ps \<and> (\<exists>role \<in> set run_roles. run_pod br role p)"
    and "4 \<le> length own \<longleftrightarrow> (\<forall>role \<in> set run_roles. \<exists>p \<in> set ps. run_pod br role p)"
proof -
  show mem: "p \<in> set own \<longleftrightarrow> p \<in> set ps \<and> (\<exists>role \<in> set run_roles. run_pod br role p)" for p
    using ok by (auto simp: own_def pods_ok_def resembles_def run_pod_def)
  let ?keys = "role_key br ` set run_roles"
  have card: "card ?keys = 4"
    using distinct_card [OF run_roles_distinct(1)] run_roles_distinct(2)
    by (subst card_image) (auto simp: inj_on_def role_key_inj)
  have d: "distinct (map pod_key own)" using ok unfolding own_def pods_ok_def by (auto intro: distinct_map_filter)
  then have len: "length own = card (pod_key ` set own)" using distinct_card [OF d] by simp
  have sub: "pod_key ` set own \<subseteq> ?keys" using mem run_pod_key by fastforce
  have "4 \<le> length own \<longleftrightarrow> pod_key ` set own = ?keys"
  proof
    assume "4 \<le> length own"
    then have "card (pod_key ` set own) = card ?keys" using card_mono [OF _ sub] by (simp add: card len)
    then show "pod_key ` set own = ?keys" by (intro card_subset_eq [OF _ sub]) simp_all
  next
    assume "pod_key ` set own = ?keys"
    then show "4 \<le> length own" using card by (simp add: len)
  qed
  also have "\<dots> \<longleftrightarrow> ?keys \<subseteq> pod_key ` set own" using sub by blast
  also have "\<dots> \<longleftrightarrow> (\<forall>role \<in> set run_roles. \<exists>p \<in> set own. pod_key p = role_key br role)"
    by (auto simp: image_subset_iff image_iff eq_commute)
  also have "\<dots> \<longleftrightarrow> (\<forall>role \<in> set run_roles. \<exists>p \<in> set ps. run_pod br role p)"
    using mem by (metis role_key_inj run_pod_key)
  finally show "4 \<le> length own \<longleftrightarrow> (\<forall>role \<in> set run_roles. \<exists>p \<in> set ps. run_pod br role p)" .
qed

lemma same_role_same_pod:
  assumes "pods_ok br ps" "p \<in> set ps" "q \<in> set ps" "run_pod br role p" "run_pod br role q"
  shows "p = q"
proof -
  have "inj_on pod_key (set ps)" using assms(1) by (simp add: pods_ok_def distinct_map)
  then show ?thesis using run_pod_key [OF assms(4)] run_pod_key [OF assms(5)] assms(2,3) by (metis inj_onD)
qed

lemma gate_sees:
  assumes "pods_ok br (rw_pods w)"
  shows "4 \<le> length (listed c w (ListPods (run_ns br) (run_name br)))
      \<and> list_all pod_gate (listed c w (ListPods (run_ns br) (run_name br)))
    \<longleftrightarrow> (\<forall>role \<in> set run_roles. \<exists>p \<in> set (rw_pods w). run_pod br role p \<and> pod_up c role p)"
proof -
  note own = own_pods [OF assms]
  have "list_all pod_gate (listed c w (ListPods (run_ns br) (run_name br)))
      \<longleftrightarrow> (\<forall>p \<in> set (filter (\<lambda>p. om_Namespace (pod_Meta p) = run_ns br
            \<and> om_Labels (pod_Meta p) labelRun = Some (run_name br)) (rw_pods w)).
            pod_gate (p\<lparr>pod_Status := cl_kubelet c p\<rparr>))"
    by (simp add: listed_def list_all_iff)
  also have "\<dots> \<longleftrightarrow> (\<forall>p \<in> set (rw_pods w). \<forall>role \<in> set run_roles. run_pod br role p \<longrightarrow> pod_up c role p)"
    using own(1) gate_up [of br _ _ c] by meson
  finally have "list_all pod_gate (listed c w (ListPods (run_ns br) (run_name br)))
      \<longleftrightarrow> (\<forall>p \<in> set (rw_pods w). \<forall>role \<in> set run_roles. run_pod br role p \<longrightarrow> pod_up c role p)" .
  moreover have "4 \<le> length (listed c w (ListPods (run_ns br) (run_name br)))
      \<longleftrightarrow> (\<forall>role \<in> set run_roles. \<exists>p \<in> set (rw_pods w). run_pod br role p)"
    using own(2) by (simp add: listed_def)
  moreover have "p = q" if "p \<in> set (rw_pods w)" "q \<in> set (rw_pods w)" "run_pod br role p" "run_pod br role q" for p q role
    using same_role_same_pod [OF assms that] .
  ultimately show ?thesis by blast
qed

end
