(* ===== verification/RunLiveness.thy ===== *)
theory RunLiveness
  imports RunWorld
begin

text \<open>
  Progress of a benchmark run in the world of \<open>RunWorld\<close>: one operator reconciling it again and again, while lists,
  creations and writes may fail or lose their answers for as long as they like, on a cluster that is healthy in
  the end; and what the gate between \<^verbatim>\<open>PRIMING\<close> and \<^verbatim>\<open>RUNNING\<close> lets through when pods may be lost as well.
\<close>

subsection \<open>What is asked of the cluster\<close>

definition refs_readable :: "cluster \<Rightarrow> bool" where
  "refs_readable c \<longleftrightarrow>
     (\<forall>h. (\<exists>s. cl_submission c h = Inr s) \<and> (\<exists>s. cl_scenario c h = Inr s) \<and> (\<exists>s. cl_botswarm c h = Inr s))"

text \<open>
  Healthy: the references are ready, calls are answered, and a pod that exists becomes ready, or, for the
  coordinator, ends well.
\<close>

definition healthy :: "cluster \<Rightarrow> bool" where
  "healthy c \<longleftrightarrow>
     refs_readable c
   \<and> (\<forall>h s. cl_submission c h = Inr s \<longrightarrow> subst_Phase (sub_Status s) = ''READY'')
   \<and> (\<forall>h s. cl_scenario c h = Inr s \<longrightarrow> scst_ContentHash (scn_Status s) \<noteq> [])
   \<and> cl_lists c = None \<and> (\<forall>call. cl_fate c call = Goes_through)
   \<and> (\<forall>p. if pod_role p = roleCoordinator then pst_Phase (cl_kubelet c p) = ''Succeeded''
          else (''Ready'', ''True'') \<in> set (pst_Conditions (cl_kubelet c p)))"

definition run_path :: "string list" where
  "run_path = [[], ''PENDING'', ''ALLOCATING'', ''PRIMING'', ''RUNNING'', ''DRAINING'', ''COMPLETE'']"

definition on_path :: "BenchmarkRun \<Rightarrow> bool" where
  "on_path br \<longleftrightarrow> om_DeletionTimestamp (br_Meta br) = None \<and> run_phase br \<in> set run_path"

lemma pathE:
  assumes "on_path br"
  obtains "run_phase br = []" | "run_phase br = ''PENDING''" | "run_phase br = ''ALLOCATING''"
    | "run_phase br = ''PRIMING''" | "run_phase br = ''RUNNING''" | "run_phase br = ''DRAINING''"
    | "run_phase br = ''COMPLETE''"
  using assms unfolding on_path_def run_path_def by auto

lemma path_rank: "on_path br \<Longrightarrow> phase_rank (run_phase br) \<le> 6"
  by (simp add: phase_rank_def)

lemma path_complete: "on_path br \<Longrightarrow> phase_rank (run_phase br) = 6 \<longleftrightarrow> run_phase br = ''COMPLETE''"
  by (cases rule: pathE [of br]) (simp_all add: phase_rank_def)

subsection \<open>Staying on the path\<close>

lemma pending_next:
  assumes "refs_readable c" "run_live lib (rw_run w)" "run_phase (rw_run w) = ''PENDING''"
    and "UpdateRunStatus br' \<in> set (snd (Reconcile lib (cluster_api c w) req []))"
  shows "run_phase br' = ''ALLOCATING''"
proof -
  let ?br = "rw_run w"
  have run: "Reconcile lib (cluster_api c w) req [] = toAllocating lib (cluster_api c w) ?br [GetRun req]"
    by (simp add: Reconcile_read [where br = ?br] reconcile_live [OF assms(2)] on_phase_simps(1) [OF assms(3)])
  let ?h1 = "[GetRun req, GetSubmission (run_ns ?br, brs_SubmissionRef (br_Spec ?br))]"
  let ?h2 = "?h1 @ [GetScenario (run_ns ?br, brs_ScenarioRef (br_Spec ?br))]"
  let ?h3 = "?h2 @ [GetBotSwarm (run_ns ?br, brs_BotSwarmRef (br_Spec ?br))]"
  obtain s d b where "cl_submission c ?h1 = Inr s" "cl_scenario c ?h2 = Inr d" "cl_botswarm c ?h3 = Inr b"
    using assms(1) unfolding refs_readable_def by meson
  then show ?thesis
    using assms(4) unfolding run toAllocating_def
    by (auto simp: run_act_defs Let_def status_update_run set_phase_def run_phase_def split: if_splits)
qed

lemma edge_on_path:
  assumes "run_edge br br'" "on_path br" "run_phase br' \<noteq> ''INVALID''"
  shows "on_path br' \<and> phase_rank (run_phase br') = Suc (phase_rank (run_phase br))"
proof -
  have e: "phase_edge (run_phase br) (run_phase br')" and m: "br_Meta br' = br_Meta br"
    using assms(1) by (simp_all add: run_edge_def)
  show ?thesis
    using e assms(2,3) by (cases rule: phase_edge.cases) (simp_all add: on_path_def m run_path_def phase_rank_def)
qed

text \<open>One round: the run is as it was, or one phase further by a status write, or it has got its finalizer.\<close>

lemma next_on_path:
  fixes req :: object_key
  assumes "refs_readable c" "kube_lib_ok lib" "world_ok lib w" "on_path (rw_run w)"
  defines "br' \<equiv> rw_run (next_world lib req c w)"
  shows "on_path br'" "run_live lib (rw_run w) \<longrightarrow> run_live lib br'"
    "run_phase br' = run_phase (rw_run w) \<or> phase_rank (run_phase br') = Suc (phase_rank (run_phase (rw_run w)))
       \<and> run_live lib (rw_run w) \<and> UpdateRunStatus br' \<in> set (snd (Reconcile lib (cluster_api c (survivors c w)) req []))"
proof -
  let ?br = "rw_run w" and ?cs = "snd (Reconcile lib (cluster_api c (survivors c w)) req [])"
  note mv = next_world_keeps(2) [OF assms(2,3), where req = req and c = c, folded br'_def]
  have w: "om_DeletionTimestamp (br_Meta ?br) = None" "run_phase ?br \<noteq> [] \<longrightarrow> run_live lib ?br"
    using assms(3) by (simp_all add: world_ok_def)
  show "run_live lib ?br \<longrightarrow> run_live lib br'" using moves_live(2) [OF assms(2) mv w] .
  have valid: "run_phase q \<noteq> ''INVALID''" if "run_live lib ?br" "run_edge ?br q" "UpdateRunStatus q \<in> set ?cs" for q
  proof
    assume inv: "run_phase q = ''INVALID''"
    have "phase_edge (run_phase ?br) (run_phase q)" using that(2) by (simp add: run_edge_def)
    then have "run_phase ?br = ''PENDING''" using inv by (cases rule: phase_edge.cases) simp_all
    from pending_next [OF assms(1), of lib "survivors c w", simplified, OF that(1) this that(3)] inv
    show False by simp
  qed
  have "on_path br' \<and> (run_phase br' = run_phase ?br \<or> phase_rank (run_phase br') = Suc (phase_rank (run_phase ?br))
       \<and> run_live lib ?br \<and> UpdateRunStatus br' \<in> set ?cs)"
    using mv unfolding moves_def
  proof (elim disjE conjE)
    assume "run_live lib ?br" "run_edge ?br br'" "UpdateRunStatus br' \<in> set ?cs"
    then show ?thesis using edge_on_path [OF _ assms(4)] valid by blast
  next
    assume "br' = ?br\<lparr>br_Meta := AddFinalizer lib (br_Meta ?br) ironbookFinalizer\<rparr>"
    then have "run_phase br' = run_phase ?br" by (simp add: run_phase_def)
    then show ?thesis using moves_names(3) [OF assms(2) mv] assms(4) by (simp add: on_path_def)
  qed (use assms(4) in simp)
  then show "on_path br'" "run_phase br' = run_phase ?br \<or> phase_rank (run_phase br') = Suc (phase_rank (run_phase ?br))
       \<and> run_live lib ?br \<and> UpdateRunStatus br' \<in> set ?cs" by blast+
qed

subsection \<open>A run that is priming has its pods\<close>

text \<open>\<^verbatim>\<open>ensurePod\<close> without an error: the pod has been created, or there was one under its name.\<close>

lemma ensurePod_creates:
  assumes lib: "kube_lib_ok lib" and run: "ensurePod lib (cluster_api c w) br p h = (None, h')"
  shows "(\<exists>cs. h' = h @ cs) \<and> pod_key p \<in> pod_key ` set (rw_pods (world_after c w h'))"
proof -
  obtain m where m: "SetControllerReference lib (br_Meta br) (pod_Meta p) = Inr m"
    using run by (cases "SetControllerReference lib (br_Meta br) (pod_Meta p)") (simp_all add: ensurePod_def done_with_def)
  let ?p = "p\<lparr>pod_Meta := m\<rparr>"
  have key: "pod_key ?p = pod_key p"
    using kube_lib_okD(4) [OF lib m] by (simp add: pod_key_def same_identity_def)
  have h': "h' = h @ [CreatePod ?p]" and
    ans: "write_answer c (world_after c w h) (CreatePod ?p) = None
      \<or> (\<exists>e. write_answer c (world_after c w h) (CreatePod ?p) = Some e \<and> is_already_exists e)"
    using run m by (auto simp: ensurePod_def run_act_defs split: option.splits if_splits)
  have "cl_fate c (CreatePod ?p) = Goes_through"
    using ans by (auto simp: write_answer_def split: call_fate.splits)
  then have "pod_key ?p \<in> pod_key ` set (rw_pods (world_after c w h'))"
    by (simp add: h' apply_call_def)
  then show ?thesis by (simp add: h' key)
qed

lemma ensurePods_create:
  assumes lib: "kube_lib_ok lib"
  shows "first_error (map (ensurePod lib (cluster_api c w) br) ps) h = (None, h') \<Longrightarrow>
    (\<exists>cs. h' = h @ cs) \<and> pod_key ` set ps \<subseteq> pod_key ` set (rw_pods (world_after c w h'))"
proof (induction ps arbitrary: h)
  case (Cons p ps)
  obtain h1 where one: "ensurePod lib (cluster_api c w) br p h = (None, h1)"
    and rest: "first_error (map (ensurePod lib (cluster_api c w) br) ps) h1 = (None, h')"
    using Cons.prems by (auto simp: run_act_defs split: prod.splits option.splits)
  note created = ensurePod_creates [OF lib one]
  obtain cs where h': "h' = h1 @ cs" using Cons.IH [OF rest] by blast
  have "pod_key p \<in> pod_key ` set (rw_pods (world_after c w h'))"
    using created world_after_keeps_pods [of "world_after c w h1" c cs] by (auto simp: h')
  then show ?case using created Cons.IH [OF rest] by auto
qed (simp add: done_with_def)

lemma emits_extends:
  assumes "emits m (\<lambda>cs _. list_all P cs)"
  shows "\<exists>cs. snd (m h) = h @ cs \<and> list_all P cs"
  using assms unfolding emits_def by blast

lemma priming_pods:
  assumes lib: "kube_lib_ok lib" and live: "run_live lib (rw_run w)" and ph: "run_phase (rw_run w) = ''ALLOCATING''"
    and upd: "UpdateRunStatus br' \<in> set (snd (Reconcile lib (cluster_api c w) req []))"
  shows "role_key (rw_run w) ` set run_roles
    \<subseteq> pod_key ` set (rw_pods (world_after c w (snd (Reconcile lib (cluster_api c w) req []))))"
proof -
  let ?br = "rw_run w" and ?A = "cluster_api c w"
  let ?br1 = "stamp_endpoints ?br"
  have run: "Reconcile lib ?A req [] = toPriming lib ?A ?br [GetRun req]"
    by (simp add: Reconcile_read [where br = ?br] reconcile_live [OF live] on_phase_simps(2) [OF ph])
  let ?h0 = "[GetRun req, GetSubmission (run_ns ?br, brs_SubmissionRef (br_Spec ?br))]"
  let ?h1 = "?h0 @ [GetScenario (run_ns ?br, brs_ScenarioRef (br_Spec ?br))]"
  obtain sub where sub: "cl_submission c ?h0 = Inr sub"
    using upd unfolding run toPriming_def by (cases "cl_submission c ?h0") (auto simp: run_act_defs)
  obtain scn where scn: "cl_scenario c ?h1 = Inr scn"
    using upd sub unfolding run toPriming_def by (cases "cl_scenario c ?h1") (auto simp: run_act_defs)
  let ?ps = "run_pods ?br1 sub scn"
  let ?services = "first_error (map (\<lambda>(role, port). ensureService lib ?A ?br1 role port) run_services)"
  obtain fe h2 where pods: "first_error (map (ensurePod lib ?A ?br1) ?ps) ?h1 = (fe, h2)" by fastforce
  obtain se h3 where services: "?services h2 = (se, h3)" by fastforce
  obtain g2 where g2: "h2 = ?h1 @ g2" "list_all (creates_for lib ?br1) g2"
    using emits_extends [OF run_pods_emits, of lib ?A ?br1 sub scn ?h1] pods by auto
  obtain g3 where g3: "h3 = h2 @ g3"
    using emits_extends [OF run_services_emits, of lib ?A ?br1 h2] services by auto
  have "fe = None"
  proof (rule ccontr)
    assume "fe \<noteq> None"
    then have "snd (Reconcile lib ?A req []) = h2"
      using pods sub scn unfolding run toPriming_def by (auto simp: run_act_defs Let_def)
    then show False using upd g2 by (auto simp: list_all_iff creates_for_def)
  qed
  then have made: "pod_key ` set ?ps \<subseteq> pod_key ` set (rw_pods (world_after c w h2))"
    using ensurePods_create [OF lib pods [unfolded \<open>fe = None\<close>]] by blast
  obtain g where "snd (Reconcile lib ?A req []) = h2 @ g"
    using pods sub scn services \<open>fe = None\<close> g3 unfolding run toPriming_def
    by (cases se) (auto simp: run_act_defs Let_def status_update_run)
  then have "pod_key ` set (rw_pods (world_after c w h2))
      \<subseteq> pod_key ` set (rw_pods (world_after c w (snd (Reconcile lib ?A req []))))"
    using world_after_keeps_pods [of "world_after c w h2" c g] by auto
  moreover have "pod_key ` set ?ps = role_key ?br ` set run_roles"
    by (simp add: run_pods_def run_roles_def pod_key_def role_key_def oracle_pod_def submission_pod_def gateway_pod_def
        coordinator_pod_def podMeta_def object_meta_def)
  ultimately show ?thesis using made by blast
qed

text \<open>While no pod is lost, a run from \<^verbatim>\<open>PRIMING\<close> on has a pod under each of its four names.\<close>

definition placed :: "run_world \<Rightarrow> bool" where
  "placed w \<longleftrightarrow> (3 \<le> phase_rank (run_phase (rw_run w)) \<longrightarrow>
     role_key (rw_run w) ` set run_roles \<subseteq> pod_key ` set (rw_pods w))"

lemma next_placed:
  assumes "refs_readable c" "\<And>p. cl_keeps c p" "kube_lib_ok lib" "world_ok lib w" "on_path (rw_run w)" "placed w"
  shows "placed (next_world lib req c w)"
proof -
  let ?w' = "next_world lib req c w"
  note keep = next_world_keeps [OF assms(3,4), where req = req and c = c]
  have same: "survivors c w = w" using assms(2) by (simp add: survivors_def)
  have names: "role_key (rw_run ?w') = role_key (rw_run w)"
    using pods_of_cong(3) [OF moves_names(1,2) [OF assms(3) keep(2)]] by (simp add: fun_eq_iff)
  have grows: "pod_key ` set (rw_pods w) \<subseteq> pod_key ` set (rw_pods ?w')" using keep(3) assms(2) by auto
  from next_on_path(3) [OF assms(1,3-5), where req = req] show ?thesis
  proof
    assume "run_phase (rw_run ?w') = run_phase (rw_run w)"
    then show ?thesis using assms(6) grows unfolding placed_def names by (metis order.trans)
  next
    assume step: "phase_rank (run_phase (rw_run ?w')) = Suc (phase_rank (run_phase (rw_run w))) \<and> run_live lib (rw_run w)
      \<and> UpdateRunStatus (rw_run ?w') \<in> set (snd (Reconcile lib (cluster_api c (survivors c w)) req []))"
    show ?thesis
    proof (cases "run_phase (rw_run w) = ''ALLOCATING''")
      case True
      have "role_key (rw_run w) ` set run_roles \<subseteq> pod_key ` set (rw_pods ?w')"
        using priming_pods [OF assms(3) _ True, of "rw_run ?w'" c req] step by (simp add: same next_world_def Let_def)
      then show ?thesis by (simp add: placed_def names)
    next
      case False
      then have "3 \<le> phase_rank (run_phase (rw_run ?w')) \<Longrightarrow> 3 \<le> phase_rank (run_phase (rw_run w))"
        using step by (cases rule: pathE [OF assms(5)]) (simp_all add: phase_rank_def)
      then show ?thesis using assms(6) grows unfolding placed_def names by (metis order.trans)
    qed
  qed
qed

lemma placed_pods:
  assumes "placed w" "pods_ok (rw_run w) (rw_pods w)" "3 \<le> phase_rank (run_phase (rw_run w))" "role \<in> set run_roles"
  shows "\<exists>p \<in> set (rw_pods w). run_pod (rw_run w) role p"
proof -
  obtain p where p: "p \<in> set (rw_pods w)" "pod_key p = role_key (rw_run w) role"
    using assms(1,3,4) by (force simp: placed_def)
  then have "resembles (rw_run w) p" using assms(4) by (auto simp: resembles_def)
  then obtain r where "run_pod (rw_run w) r p" using assms(2) p(1) by (auto simp: pods_ok_def)
  then show ?thesis using p run_pod_key role_key_inj by metis
qed

subsection \<open>A healthy round makes progress\<close>

lemma run_pod_role: "run_pod br role p \<Longrightarrow> pod_role p = role"
  by (simp add: run_pod_def pod_role_def label_def)

lemma healthy_up: "healthy c \<Longrightarrow> run_pod br role p \<Longrightarrow> pod_up c role p"
  using run_pod_role [of br role p] by (auto simp: healthy_def pod_up_def)

lemma healthy_creates:
  assumes "healthy c"
  shows "creations_succeed (cluster_api c w)"
  unfolding creations_succeed_def
proof (intro allI)
  show "case x of CreatePod p \<Rightarrow> pred_option is_already_exists (write_reply (cluster_api c w) (h @ [x]))
      | CreateService v \<Rightarrow> pred_option is_already_exists (write_reply (cluster_api c w) (h @ [x])) | _ \<Rightarrow> True" for h x
    using assms by (cases x) (simp_all add: healthy_def write_answer_def)
qed

lemma healthy_gate:
  assumes "healthy c" "placed w" "world_ok lib w" "3 \<le> phase_rank (run_phase (rw_run w))"
  shows "4 \<le> length (listed c w (ListPods (run_ns (rw_run w)) (run_name (rw_run w))))"
    "list_all pod_gate (listed c w (ListPods (run_ns (rw_run w)) (run_name (rw_run w))))"
    "list_ex coordinator_succeeded (listed c w (ListPods (run_ns (rw_run w)) (run_name (rw_run w))))"
proof -
  have ok: "pods_ok (rw_run w) (rw_pods w)" using assms(3) by (simp add: world_ok_def)
  note has = placed_pods [OF assms(2) ok assms(4)]
  show "4 \<le> length (listed c w (ListPods (run_ns (rw_run w)) (run_name (rw_run w))))"
    "list_all pod_gate (listed c w (ListPods (run_ns (rw_run w)) (run_name (rw_run w))))"
    using gate_sees [OF ok, of c] has healthy_up [OF assms(1)] by blast+
  obtain p where p: "p \<in> set (rw_pods w)" "run_pod (rw_run w) roleCoordinator p"
    using has [of roleCoordinator] by (auto simp: run_roles_def)
  have "pod_role p = roleCoordinator" by (rule run_pod_role [OF p(2)])
  then have "coordinator_succeeded (p\<lparr>pod_Status := cl_kubelet c p\<rparr>)"
    using assms(1) by (simp add: healthy_def coordinator_succeeded_def pod_role_def)
  then show "list_ex coordinator_succeeded (listed c w (ListPods (run_ns (rw_run w)) (run_name (rw_run w))))"
    using p by (auto simp: listed_def list_ex_iff run_pod_def)
qed

lemmas phase_step_defs = toPending_def toAllocating_def observePriming_def observeRunning_def
  toComplete_def allOwnedPodsReady_def listOwnedPods_def time_now_def

lemma healthy_step:
  assumes c: "healthy c" and live: "run_live lib (rw_run w)" and own: "ownable lib (rw_run w)"
    and path: "on_path (rw_run w)" and todo: "run_phase (rw_run w) \<noteq> ''COMPLETE''" and ok: "world_ok lib w" "placed w"
  shows "\<exists>out ds br'. Reconcile lib (cluster_api c w) req [] = (out, ds @ [UpdateRunStatus br'])
       \<and> phase_rank (run_phase br') = Suc (phase_rank (run_phase (rw_run w)))"
proof -
  let ?A = "cluster_api c w" and ?br = "rw_run w"
  have run: "Reconcile lib ?A req [] = on_phase lib ?A ?br [GetRun req]"
    by (simp add: Reconcile_read [where br = ?br] reconcile_live [OF live])
  note fresh = on_phase_def [of lib ?A ?br, folded run_phase_def] Let_def
  note acts = run_act_defs status_update_run phase_step_defs
  have lists: "cl_lists c = None" using c by (simp add: healthy_def)
  have refs: "\<exists>s. cl_submission c h = Inr s \<and> subst_Phase (sub_Status s) = ''READY''"
    "\<exists>s. cl_scenario c h = Inr s \<and> scst_ContentHash (scn_Status s) \<noteq> []" "\<exists>s. cl_botswarm c h = Inr s" for h
    using c unfolding healthy_def refs_readable_def by meson+
  have "\<exists>out ds br'. on_phase lib ?A ?br [GetRun req] = (out, ds @ [UpdateRunStatus br'])
       \<and> phase_rank (run_phase br') = Suc (phase_rank (run_phase ?br))"
    using path
  proof (cases rule: pathE)
    case 1
    then show ?thesis by (simp add: fresh acts phase_rank_def)
  next
    case 2
    let ?h1 = "[GetRun req, GetSubmission (run_ns ?br, brs_SubmissionRef (br_Spec ?br))]"
    let ?h2 = "?h1 @ [GetScenario (run_ns ?br, brs_ScenarioRef (br_Spec ?br))]"
    let ?h3 = "?h2 @ [GetBotSwarm (run_ns ?br, brs_BotSwarmRef (br_Spec ?br))]"
    obtain s d b where "cl_submission c ?h1 = Inr s" "subst_Phase (sub_Status s) = ''READY''"
      "cl_scenario c ?h2 = Inr d" "scst_ContentHash (scn_Status d) \<noteq> []" "cl_botswarm c ?h3 = Inr b"
      using refs by meson
    then show ?thesis using 2 by (simp add: on_phase_simps(1) acts Let_def phase_rank_def)
  next
    case 3
    let ?h1 = "[GetRun req, GetSubmission (run_ns ?br, brs_SubmissionRef (br_Spec ?br))]"
    obtain s d where s: "get_submission ?A ?h1 = Inr s"
      and d: "get_scenario ?A (?h1 @ [GetScenario (run_ns ?br, brs_ScenarioRef (br_Spec ?br))]) = Inr d"
      using refs by (metis cluster_api_simps(2,3))
    from toPriming_calls [OF refl s d own healthy_creates [OF c]] 3 show ?thesis
      by (fastforce simp: on_phase_simps(2) phase_rank_def)
  next
    case 4
    then show ?thesis
      using healthy_gate(1,2) [OF c ok(2,1)] lists by (simp add: on_phase_simps(3) acts phase_rank_def)
  next
    case 5
    then show ?thesis
      using healthy_gate(3) [OF c ok(2,1)] lists by (simp add: on_phase_simps(4) acts phase_rank_def)
  next
    case 6
    then show ?thesis by (simp add: fresh acts phase_rank_def)
  next
    case 7
    then show ?thesis using todo by simp
  qed
  then show ?thesis unfolding run .
qed

lemma healthy_adds_finalizer:
  assumes "healthy c" "kube_lib_ok lib" "om_DeletionTimestamp (br_Meta (rw_run w)) = None" "\<not> run_live lib (rw_run w)"
  shows "run_live lib (rw_run (world_after c w (snd (Reconcile lib (cluster_api c w) req []))))"
proof -
  let ?br = "rw_run w"
  have fin: "\<not> ContainsFinalizer lib (br_Meta ?br) ironbookFinalizer" using assms(3,4) by (simp add: run_live_def)
  let ?br' = "?br\<lparr>br_Meta := AddFinalizer lib (br_Meta ?br) ironbookFinalizer\<rparr>"
  have "snd (Reconcile lib (cluster_api c w) req []) = [GetRun req, UpdateRun ?br']"
    using assms(3) fin by (simp add: Reconcile_read [where br = ?br] reconcile_run_def run_act_defs)
  then show ?thesis
    using assms(1-3) by (simp add: apply_call_def healthy_def kube_lib_ok_def same_identity_def run_live_def)
qed

text \<open>The distance to \<^verbatim>\<open>COMPLETE\<close>: the phases ahead, and one for a finalizer not yet there.\<close>

definition steps_left :: "kube_lib \<Rightarrow> BenchmarkRun \<Rightarrow> nat" where
  "steps_left lib br = 6 - phase_rank (run_phase br) + (if run_live lib br then 0 else 1)"

text \<open>What a run keeps while its references can be read and its pods stay.\<close>

definition under_way :: "kube_lib \<Rightarrow> run_world \<Rightarrow> bool" where
  "under_way lib w \<longleftrightarrow> world_ok lib w \<and> on_path (rw_run w) \<and> placed w"

lemma under_way_next:
  assumes "refs_readable c" "\<And>p. cl_keeps c p" "kube_lib_ok lib" "under_way lib w"
  shows "under_way lib (next_world lib req c w)"
    "steps_left lib (rw_run (next_world lib req c w)) \<le> steps_left lib (rw_run w)"
proof -
  have w: "world_ok lib w" "on_path (rw_run w)" "placed w" using assms(4) by (simp_all add: under_way_def)
  note n = next_on_path [OF assms(1,3) w(1,2), where req = req]
  show "under_way lib (next_world lib req c w)"
    using next_world_keeps(1) [OF assms(3) w(1)] n(1) next_placed [OF assms(1-3) w] by (simp add: under_way_def)
  show "steps_left lib (rw_run (next_world lib req c w)) \<le> steps_left lib (rw_run w)"
    using n(2,3) by (auto simp: steps_left_def)
qed

lemma healthy_next:
  assumes c: "healthy c" and keeps: "\<And>p. cl_keeps c p" and lib: "kube_lib_ok lib" "\<And>b. ownable lib b"
    and w: "under_way lib w"
  shows "steps_left lib (rw_run (next_world lib req c w)) \<le> steps_left lib (rw_run w) - 1"
proof -
  have refs: "refs_readable c" using c by (simp add: healthy_def)
  have w': "world_ok lib w" "on_path (rw_run w)" "placed w" using w by (simp_all add: under_way_def)
  have same: "survivors c w = w" using keeps by (simp add: survivors_def)
  note n = next_on_path [OF refs lib(1) w'(1,2), where req = req]
  consider "\<not> run_live lib (rw_run w)" | "run_live lib (rw_run w)" "run_phase (rw_run w) \<noteq> ''COMPLETE''"
    | "run_live lib (rw_run w)" "run_phase (rw_run w) = ''COMPLETE''" by blast
  then show ?thesis
  proof cases
    case 1
    have "run_live lib (rw_run (next_world lib req c w))"
      using healthy_adds_finalizer [OF c lib(1) _ 1, of req] w'(1) by (simp add: world_ok_def next_world_def same Let_def)
    then show ?thesis using 1 n(3) by (auto simp: steps_left_def)
  next
    case 2
    obtain out ds br' where step: "Reconcile lib (cluster_api c w) req [] = (out, ds @ [UpdateRunStatus br'])"
      and rank: "phase_rank (run_phase br') = Suc (phase_rank (run_phase (rw_run w)))"
      using healthy_step [OF c 2(1) lib(2) w'(2) 2(2) w'(1,3)] by blast
    have "run_phase (rw_run (next_world lib req c w)) = run_phase br'"
      using c by (simp add: next_world_def same step apply_call_def healthy_def run_phase_def Let_def)
    then show ?thesis using rank n(2) 2(1) by (simp add: steps_left_def)
  next
    case 3
    then have "steps_left lib (rw_run w) = 0" by (simp add: steps_left_def phase_rank_def)
    then show ?thesis using under_way_next(2) [OF refs keeps lib(1) w, of req] by simp
  qed
qed

lemma world_under_way:
  assumes "kube_lib_ok lib" "fresh_world w" "\<And>k. refs_readable (cs k)" "\<And>k p. cl_keeps (cs k) p"
  shows "under_way lib (world lib req cs w k)"
proof (induction k)
  case 0
  then show ?case using fresh_world_ok [OF assms(2), of lib] assms(2)
    by (simp add: under_way_def placed_def on_path_def run_path_def fresh_world_def phase_rank_def)
next
  case (Suc k)
  then show ?case using under_way_next(1) [OF assms(3,4,1)] by simp
qed

lemma steps_left_bound:
  assumes lib: "kube_lib_ok lib" "\<And>b. ownable lib b" and "fresh_world w"
    and "\<And>k. refs_readable (cs k)" "\<And>k p. cl_keeps (cs k) p" "\<And>k. N \<le> k \<Longrightarrow> healthy (cs k)"
  shows "steps_left lib (rw_run (world lib req cs w (N + j))) \<le> 7 - j"
proof (induction j)
  case 0
  have "6 - r + (if b then 0 else 1) \<le> (7::nat)" for r :: nat and b by (cases b) arith+
  then show ?case unfolding steps_left_def by simp
next
  case (Suc j)
  have "under_way lib (world lib req cs w (N + j))" by (rule world_under_way [OF lib(1) assms(3)]) (rule assms(4,5))+
  then show ?case
    using healthy_next [OF assms(6) assms(5) lib, of "N + j" "world lib req cs w (N + j)" req] Suc by fastforce
qed

text \<open>
  C6 (run_completes): a run that has just been created, next to any other pods, and is reconciled again and
  again reaches \<^verbatim>\<open>COMPLETE\<close> and stays there, within seven reconciles of the moment the cluster turns healthy;
  its four pods have then been created.  Until that moment lists, creations and writes may be refused or lose
  their answers in any way, and pods that exist need not start; only the three references must stay readable
  (a failed read of one of them would send a \<^verbatim>\<open>PENDING\<close> run to \<^verbatim>\<open>INVALID\<close> for good) and no pod may be lost
  (none is created again).  Healthy means that calls are answered and that a pod, if it was created, becomes ready, or
  ends well if it is the coordinator.  \<^verbatim>\<open>COMPLETE\<close> here is what the code writes: it does not wait for a
  confirmation of the final flush, which the design asks for.
\<close>

theorem run_completes:
  assumes "kube_lib_ok lib" and "\<And>b. ownable lib b" and "fresh_world w"
    and "\<And>k. refs_readable (cs k)" and "\<And>k p. cl_keeps (cs k) p" and "\<And>k. N \<le> k \<Longrightarrow> healthy (cs k)"
    and "N + 7 \<le> n"
  shows "run_phase (rw_run (world lib req cs w n)) = ''COMPLETE''
    \<and> (\<forall>role \<in> {roleOracle, roleSubmission, roleGateway, roleCoordinator}. \<exists>p \<in> set (rw_pods (world lib req cs w n)).
         om_Namespace (pod_Meta p) = run_ns (rw_run w) \<and> om_Name (pod_Meta p) = role @ ''-'' @ run_name (rw_run w)
       \<and> om_Labels (pod_Meta p) labelRun = Some (run_name (rw_run w)) \<and> om_Labels (pod_Meta p) labelRole = Some role)"
proof -
  let ?w = "world lib req cs w n"
  have way: "under_way lib ?w" by (rule world_under_way [OF assms(1,3)]) (rule assms(4,5))+
  then have path: "on_path (rw_run ?w)" and ok: "pods_ok (rw_run ?w) (rw_pods ?w)" and placed: "placed ?w"
    by (simp_all add: under_way_def world_ok_def)
  have "steps_left lib (rw_run (world lib req cs w (N + (n - N)))) \<le> 7 - (n - N)"
    using assms(1-6) by (rule steps_left_bound)
  then have "6 \<le> phase_rank (run_phase (rw_run ?w))" using assms(7) by (simp add: steps_left_def)
  then have rank: "phase_rank (run_phase (rw_run ?w)) = 6" using path_rank [OF path] by simp
  have "\<exists>p \<in> set (rw_pods ?w). run_pod (rw_run ?w) role p" if "role \<in> set run_roles" for role
    using placed_pods [OF placed ok _ that] rank by simp
  then show ?thesis
    using rank path_complete [OF path] pods_of_cong(2) [OF world_keeps(2,3) [OF assms(1,3)]]
    unfolding run_pod_def [symmetric] run_roles_def by simp
qed

subsection \<open>The gate\<close>

lemma priming_calls:
  fixes c :: cluster
  assumes ok: "world_ok lib w" and ph: "run_phase (rw_run w) = ''PRIMING''"
  defines "up \<equiv> \<forall>role \<in> set run_roles. \<exists>p \<in> set (rw_pods w). run_pod (rw_run w) role p \<and> pod_up c role p"
  shows "\<exists>br'. run_phase br' = ''RUNNING'' \<and> snd (Reconcile lib (cluster_api c w) req []) =
    [GetRun req, ListPods (run_ns (rw_run w)) (run_name (rw_run w))]
      @ (if cl_lists c = None \<and> up then [UpdateRunStatus br'] else [])"
proof -
  let ?br = "rw_run w" and ?A = "cluster_api c w"
  have live: "run_live lib ?br" and pods: "pods_ok ?br (rw_pods w)" using ok ph by (simp_all add: world_ok_def)
  have "Reconcile lib ?A req [] = observePriming lib ?A ?br [GetRun req]"
    by (simp add: Reconcile_read [where br = ?br] reconcile_live [OF live] on_phase_simps(3) [OF ph])
  moreover let ?br' = "set_phase lib ''RUNNING'' (condition ''PodsReady'' True ''AllReady'' [])
      (?br\<lparr>br_Status := (br_Status ?br)\<lparr>st_StartedAt := Some (cl_clock c)\<rparr>\<rparr>)"
  have "snd (observePriming lib ?A ?br [GetRun req]) = [GetRun req, ListPods (run_ns ?br) (run_name ?br)]
      @ (if cl_lists c = None \<and> up then [UpdateRunStatus ?br'] else [])"
    unfolding observePriming_def allOwnedPodsReady_def listOwnedPods_def gate_sees [OF pods, of c, folded up_def, symmetric]
    by (cases "cl_lists c") (simp_all add: run_act_defs time_now_def status_update_run not_less)
  ultimately show ?thesis by (intro exI [of _ ?br']) simp
qed

text \<open>
  C29 (gate_opens_when_ready): in every history of a run, whatever fails and whatever pods are lost on
  the way, a run that is \<^verbatim>\<open>PRIMING\<close> becomes \<^verbatim>\<open>RUNNING\<close> only while its oracle, submission and gateway pods
  all exist and are ready and its coordinator pod exists and has left \<^verbatim>\<open>Pending\<close>; and as soon as that is so and
  the API server answers, it does.  Until then it stays \<^verbatim>\<open>PRIMING\<close>.
\<close>

theorem gate_opens_when_ready:
  assumes "kube_lib_ok lib" and "fresh_world w0"
    and "w = world lib req cs w0 k" and "run_phase (rw_run w) = ''PRIMING''" and "c = cs k"
  shows "let phase' = run_phase (rw_run (world lib req cs w0 (Suc k)));
             pod = \<lambda>role p. p \<in> set (rw_pods w) \<and> cl_keeps c p
               \<and> om_Namespace (pod_Meta p) = run_ns (rw_run w0) \<and> om_Name (pod_Meta p) = role @ ''-'' @ run_name (rw_run w0)
               \<and> om_Labels (pod_Meta p) labelRun = Some (run_name (rw_run w0)) \<and> om_Labels (pod_Meta p) labelRole = Some role;
             up = (\<forall>role \<in> {roleOracle, roleSubmission, roleGateway}.
                 \<exists>p. pod role p \<and> (''Ready'', ''True'') \<in> set (pst_Conditions (cl_kubelet c p)))
               \<and> (\<exists>p. pod roleCoordinator p \<and> pst_Phase (cl_kubelet c p) \<noteq> ''Pending'')
         in (phase' = ''RUNNING'' \<or> phase' = ''PRIMING'') \<and> (phase' = ''RUNNING'' \<longrightarrow> up)
          \<and> (up \<and> cl_lists c = None \<and> (\<forall>call. cl_fate c call = Goes_through) \<longrightarrow> phase' = ''RUNNING'')"
proof -
  let ?w1 = "survivors c w"
  note keep = world_keeps [OF assms(1,2), of req cs k, folded assms(3)]
  have ok: "world_ok lib ?w1" using keep(1) by (auto simp: world_ok_def pods_ok_def distinct_map_filter)
  have ph: "run_phase (rw_run ?w1) = ''PRIMING''" using assms(4) by simp
  define up where "up = (\<forall>role \<in> set run_roles. \<exists>p \<in> set (rw_pods ?w1). run_pod (rw_run ?w1) role p \<and> pod_up c role p)"
  obtain br' where br': "run_phase br' = ''RUNNING''" and calls: "snd (Reconcile lib (cluster_api c ?w1) req []) =
      [GetRun req, ListPods (run_ns (rw_run ?w1)) (run_name (rw_run ?w1))]
        @ (if cl_lists c = None \<and> up then [UpdateRunStatus br'] else [])"
    using priming_calls [OF ok ph, where c = c and req = req, folded up_def] by blast
  have next': "run_phase (rw_run (world lib req cs w0 (Suc k))) =
      (if cl_lists c = None \<and> up \<and> (\<forall>e. cl_fate c (UpdateRunStatus br') \<noteq> Turned_down e) then ''RUNNING'' else ''PRIMING'')"
    using br' assms(4) unfolding run_phase_def
    by (simp add: next_world_def Let_def assms(5) [symmetric] assms(3) [symmetric] calls apply_call_def split: call_fate.splits)
  have coord: "roleOracle \<noteq> roleCoordinator" "roleSubmission \<noteq> roleCoordinator" "roleGateway \<noteq> roleCoordinator"
    by (simp_all add: role_defs)
  show ?thesis
    unfolding Let_def next'
    using pods_of_cong(2) [OF keep(2,3)] coord
    by (auto simp: up_def run_roles_def pod_up_def run_pod_def)
qed

subsection \<open>A concrete cluster\<close>

text \<open>
  The API server first turns every write down, and once creates the run's pods without answering; then it is
  healthy.
\<close>

definition well_cluster :: cluster where
  "well_cluster =
     \<lparr>cl_submission = \<lambda>_. Inr sample_submission_cr, cl_scenario = \<lambda>_. Inr sample_scenario, cl_botswarm = \<lambda>_. Inr sample_swarm,
      cl_lists = None, cl_fate = \<lambda>_. Goes_through,
      cl_kubelet = \<lambda>p. if pod_role p = roleCoordinator then \<lparr>pst_Phase = ''Succeeded'', pst_Conditions = []\<rparr>
        else \<lparr>pst_Phase = ''Running'', pst_Conditions = [(''Ready'', ''True'')]\<rparr>,
      cl_keeps = \<lambda>_. True, cl_clock = 42\<rparr>"

definition sick_cluster :: cluster where
  "sick_cluster = well_cluster\<lparr>cl_lists := Some (GoError ''timeout''), cl_fate := \<lambda>_. Turned_down ''etcd timeout''\<rparr>"

definition sample_clusters :: "nat \<Rightarrow> cluster" where
  "sample_clusters k = (if k < 2 then sick_cluster else well_cluster)"

definition sample_world :: run_world where
  "sample_world = \<lparr>rw_run = sample_run [] None, rw_pods = [], rw_services = []\<rparr>"

lemma sample_fresh: "fresh_world sample_world"
  by (simp add: fresh_world_def sample_world_def sample_alloc(1)) (simp add: sample_run_def object_meta_def)

lemma sample_cluster_facts:
  "refs_readable (sample_clusters k)" "cl_keeps (sample_clusters k) p" "2 \<le> k \<Longrightarrow> healthy (sample_clusters k)"
  by (simp_all add: sample_clusters_def sick_cluster_def well_cluster_def refs_readable_def healthy_def
      sample_submission_cr_def sample_scenario_def)

theorem run_completes_witness:
  "run_phase (rw_run (world sample_lib (''n'', ''r'') sample_clusters sample_world 9)) = ''COMPLETE''"
  using run_completes [OF sample_lib_ok sample_alloc(2) sample_fresh sample_cluster_facts, where n = 9] by simp

text \<open>Healthy from the start, the third round makes the run \<^verbatim>\<open>PRIMING\<close>.\<close>

lemma sample_priming: "run_phase (rw_run (world sample_lib req (\<lambda>_. well_cluster) sample_world 3)) = ''PRIMING''"
proof -
  let ?w = "world sample_lib req (\<lambda>_. well_cluster) sample_world"
  have well: "healthy well_cluster" "refs_readable well_cluster" "cl_keeps well_cluster p" for p
    using sample_cluster_facts [of 2] by (simp_all add: sample_clusters_def)
  have way: "under_way sample_lib (?w j)" for j by (rule world_under_way [OF sample_lib_ok sample_fresh]) (simp_all add: well)
  have up: "phase_rank (run_phase (rw_run (?w j))) \<le> j" for j
  proof (induction j)
    case 0
    then show ?case by (simp add: sample_world_def sample_alloc(1) phase_rank_def)
  next
    case (Suc j)
    have "world_ok sample_lib (?w j)" "on_path (rw_run (?w j))" using way [of j] by (simp_all add: under_way_def)
    then show ?case using next_on_path(3) [OF well(2) sample_lib_ok, where w = "?w j" and req = req] Suc by auto
  qed
  have "steps_left sample_lib (rw_run (?w j)) \<le> 6 - j" for j
  proof (induction j)
    case 0
    then show ?case
      using sample_live [of "[]"] by (simp add: sample_world_def steps_left_def)
  next
    case (Suc j)
    then show ?case
      using healthy_next [OF well(1,3) sample_lib_ok sample_alloc(2) way [of j], of req] by simp
  qed
  from this [of 3] have "3 \<le> phase_rank (run_phase (rw_run (?w 3)))" by (simp add: steps_left_def)
  then have rank: "phase_rank (run_phase (rw_run (?w 3))) = 3" using up [of 3] by simp
  have "on_path (rw_run (?w 3))" using way [of 3] by (simp add: under_way_def)
  then show ?thesis using rank by (cases rule: pathE) (simp_all add: phase_rank_def del: world.simps)
qed

text \<open>There the gate stays shut if the coordinator pod is lost.\<close>

definition losing_cluster :: cluster where
  "losing_cluster = well_cluster\<lparr>cl_keeps := \<lambda>p. pod_role p \<noteq> roleCoordinator\<rparr>"

theorem gate_opens_when_ready_witness:
  "run_phase (rw_run (world sample_lib (''n'', ''r'') ((\<lambda>_. well_cluster)(3 := losing_cluster)) sample_world 4)) = ''PRIMING''"
proof -
  let ?cs = "(\<lambda>_. well_cluster)(3 := losing_cluster)"
  have same: "world sample_lib (''n'', ''r'') ?cs sample_world j = world sample_lib (''n'', ''r'') (\<lambda>_. well_cluster) sample_world j"
    if "j \<le> 3" for j using that by (induction j) simp_all
  have lost: "\<not> (cl_keeps losing_cluster p \<and> om_Labels (pod_Meta p) labelRole = Some roleCoordinator)" for p
    by (auto simp: losing_cluster_def pod_role_def label_def)
  have "run_phase (rw_run (world sample_lib (''n'', ''r'') ?cs sample_world 3)) = ''PRIMING''"
    unfolding same [OF order.refl] by (rule sample_priming)
  from gate_opens_when_ready [OF sample_lib_ok sample_fresh refl this refl, unfolded Let_def]
  have "run_phase (rw_run (world sample_lib (''n'', ''r'') ?cs sample_world (Suc 3))) = ''PRIMING''"
    using lost by (metis fun_upd_same)
  then show ?thesis by simp
qed

end
