(* ===== verification/GoFlags.thy ===== *)
theory GoFlags
  imports Prelude
begin

text \<open>
  What the program uses of Go's \<^verbatim>\<open>flag\<close> package: boolean and string flags set from the command line
  by \<^verbatim>\<open>flag.Parse\<close>.  Flags that other packages registered on the same command line are known by
  whether they are boolean and by the values they accept.
\<close>

datatype 'f flag_kind =
    StringFlag "string \<Rightarrow> 'f \<Rightarrow> 'f"
  | BoolFlag "bool \<Rightarrow> 'f \<Rightarrow> 'f"
  | ForeignFlag bool "string \<Rightarrow> bool"

text \<open>\<^verbatim>\<open>flag.Parse\<close> ends the process on \<^verbatim>\<open>-h\<close> (status 0) and on a bad command line (status 2).\<close>

datatype flag_end = FlagHelp | FlagBad

text \<open>\<^verbatim>\<open>strconv.ParseBool\<close>.\<close>

definition ParseBool :: "string \<Rightarrow> bool option" where
  "ParseBool s =
     (if s \<in> set [''1'', ''t'', ''T'', ''TRUE'', ''true'', ''True''] then Some True
      else if s \<in> set [''0'', ''f'', ''F'', ''FALSE'', ''false'', ''False''] then Some False
      else None)"

fun flag_is_bool :: "'f flag_kind \<Rightarrow> bool" where
  "flag_is_bool (StringFlag g) = False"
| "flag_is_bool (BoolFlag g) = True"
| "flag_is_bool (ForeignFlag b ok) = b"

fun flag_set :: "'f flag_kind \<Rightarrow> string \<Rightarrow> 'f \<Rightarrow> 'f option" where
  "flag_set (StringFlag g) v fs = Some (g v fs)"
| "flag_set (BoolFlag g) v fs = map_option (\<lambda>b. g b fs) (ParseBool v)"
| "flag_set (ForeignFlag b ok) v fs = (if ok v then Some fs else None)"

text \<open>An argument is a flag if it starts with a dash and has more; one dash or two make no difference.\<close>

definition is_flag :: "string \<Rightarrow> bool" where
  "is_flag a \<longleftrightarrow> 2 \<le> length a \<and> hd a = CHR ''-'' \<and> a \<noteq> ''--''"

definition flag_body :: "string \<Rightarrow> string" where
  "flag_body a = drop (if a ! 1 = CHR ''-'' then 2 else 1) a"

definition flag_name :: "string \<Rightarrow> string" where
  "flag_name a = takeWhile (\<lambda>c. c \<noteq> CHR ''='') (flag_body a)"

definition flag_value :: "string \<Rightarrow> string" where
  "flag_value a = tl (dropWhile (\<lambda>c. c \<noteq> CHR ''='') (flag_body a))"

text \<open>The value of a flag and the arguments left: after the equals sign, \<^verbatim>\<open>true\<close>, or the next argument.\<close>

definition flag_argument :: "'f flag_kind \<Rightarrow> string \<Rightarrow> string list \<Rightarrow> (string \<times> string list) option" where
  "flag_argument k a args =
     (if CHR ''='' \<in> set (flag_body a) then Some (flag_value a, args)
      else if flag_is_bool k then Some (''true'', args)
      else case args of [] \<Rightarrow> None | v # rest \<Rightarrow> Some (v, rest))"

lemma flag_argument_rest: "flag_argument k a args = Some (v, rest) \<Longrightarrow> rest = args \<or> rest = tl args"
  by (auto simp: flag_argument_def split: if_splits list.splits)

lemma flag_argument_set: "flag_argument k a args = Some (v, rest) \<Longrightarrow> set rest \<subseteq> set args"
  by (drule flag_argument_rest) (cases args; auto)

function parse_flags :: "(string \<Rightarrow> 'f flag_kind option) \<Rightarrow> string list \<Rightarrow> 'f \<Rightarrow> flag_end + 'f" where
  "parse_flags lookup [] fs = Inr fs"
| "parse_flags lookup (a # args) fs =
     (if \<not> is_flag a then Inr fs
      else if flag_body a = [] \<or> hd (flag_body a) \<in> {CHR ''-'', CHR ''=''} then Inl FlagBad
      else case lookup (flag_name a) of
        None \<Rightarrow> Inl (if flag_name a \<in> {''help'', ''h''} then FlagHelp else FlagBad)
      | Some k \<Rightarrow>
          (case flag_argument k a args of
             None \<Rightarrow> Inl FlagBad
           | Some (v, rest) \<Rightarrow>
               (case flag_set k v fs of None \<Rightarrow> Inl FlagBad | Some fs' \<Rightarrow> parse_flags lookup rest fs')))"
  by pat_completeness auto
termination
  by (relation "measure (\<lambda>(_, args, _). length args)") (auto dest!: flag_argument_rest)

text \<open>
  A flag that no argument names is never set, not even when its name is the value of another flag:
  what the flags outside \<open>X\<close> keep is kept.
\<close>

lemma parse_flags_keeps:
  assumes keeps: "\<And>n k v a b. lookup n = Some k \<Longrightarrow> n \<notin> X \<Longrightarrow> flag_set k v a = Some b \<Longrightarrow> P a \<Longrightarrow> P b"
  shows "parse_flags lookup args fs = Inr fs' \<Longrightarrow> \<forall>a \<in> set args. is_flag a \<longrightarrow> flag_name a \<notin> X \<Longrightarrow> P fs \<Longrightarrow> P fs'"
  using keeps
proof (induction lookup args fs rule: parse_flags.induct)
  case (2 lookup a args fs)
  show ?case
  proof (cases "is_flag a")
    case False
    then show ?thesis using "2.prems" by simp
  next
    case flag: True
    then have ok: "\<not> (flag_body a = [] \<or> hd (flag_body a) \<in> {CHR ''-'', CHR ''=''})"
      using "2.prems"(1) by (auto split: if_splits)
    then obtain k where k: "lookup (flag_name a) = Some k"
      using "2.prems"(1) flag by (cases "lookup (flag_name a)") (auto split: if_splits)
    then obtain v rest where arg: "flag_argument k a args = Some (v, rest)"
      using "2.prems"(1) flag ok by (cases "flag_argument k a args") auto
    then obtain fs1 where st: "flag_set k v fs = Some fs1"
      using "2.prems"(1) flag ok k by (cases "flag_set k v fs") auto
    have run: "parse_flags lookup rest fs1 = Inr fs'" using "2.prems"(1) flag ok k arg st by simp
    have sub: "\<forall>a \<in> set rest. is_flag a \<longrightarrow> flag_name a \<notin> X"
      using "2.prems"(2) flag_argument_set [OF arg] by auto
    have "P fs1" using "2.prems"(4) [OF k _ st "2.prems"(3)] "2.prems"(2) flag by simp
    show ?thesis
      using "2.IH" flag ok k arg st run sub \<open>P fs1\<close> "2.prems"(4) by simp
  qed
qed simp

end
