(* ===== verification/OperatorMain.thy ===== *)
theory OperatorMain
  imports GoFlags RunSystem StatusControllers
begin

text \<open>
  The start of benchmark-operator (\<^verbatim>\<open>apps/benchmark-operator/cmd/main.go\<close>): its command line, the options of
  its two servers, the four controllers it registers (each \<^verbatim>\<open>SetupWithManager\<close>), and the role their
  \<^verbatim>\<open>+kubebuilder:rbac\<close> markers ask for.
\<close>

subsection \<open>The command line\<close>

record Flags =
  metricsAddr :: string
  probeAddr :: string
  enableLeaderElection :: bool
  secureMetrics :: bool
  webhookCertPath :: string
  webhookCertName :: string
  webhookCertKey :: string
  metricsCertPath :: string
  metricsCertName :: string
  metricsCertKey :: string
  enableHTTP2 :: bool

definition default_flags :: Flags where
  "default_flags =
     \<lparr>metricsAddr = ''0'', probeAddr = '':8081'', enableLeaderElection = False, secureMetrics = True,
      webhookCertPath = [], webhookCertName = ''tls.crt'', webhookCertKey = ''tls.key'',
      metricsCertPath = [], metricsCertName = ''tls.crt'', metricsCertKey = ''tls.key'',
      enableHTTP2 = False\<rparr>"

definition operator_flags :: "(string \<times> Flags flag_kind) list" where
  "operator_flags =
     [(''metrics-bind-address'', StringFlag (\<lambda>v f. f\<lparr>metricsAddr := v\<rparr>)),
      (''health-probe-bind-address'', StringFlag (\<lambda>v f. f\<lparr>probeAddr := v\<rparr>)),
      (''leader-elect'', BoolFlag (\<lambda>b f. f\<lparr>enableLeaderElection := b\<rparr>)),
      (''metrics-secure'', BoolFlag (\<lambda>b f. f\<lparr>secureMetrics := b\<rparr>)),
      (''webhook-cert-path'', StringFlag (\<lambda>v f. f\<lparr>webhookCertPath := v\<rparr>)),
      (''webhook-cert-name'', StringFlag (\<lambda>v f. f\<lparr>webhookCertName := v\<rparr>)),
      (''webhook-cert-key'', StringFlag (\<lambda>v f. f\<lparr>webhookCertKey := v\<rparr>)),
      (''metrics-cert-path'', StringFlag (\<lambda>v f. f\<lparr>metricsCertPath := v\<rparr>)),
      (''metrics-cert-name'', StringFlag (\<lambda>v f. f\<lparr>metricsCertName := v\<rparr>)),
      (''metrics-cert-key'', StringFlag (\<lambda>v f. f\<lparr>metricsCertKey := v\<rparr>)),
      (''enable-http2'', BoolFlag (\<lambda>b f. f\<lparr>enableHTTP2 := b\<rparr>))]"

text \<open>
  \<open>foreign\<close> are the flags of zap and of controller-runtime on the same command line.
\<close>

definition operator_flag :: "(string \<Rightarrow> (bool \<times> (string \<Rightarrow> bool)) option) \<Rightarrow> string \<Rightarrow> Flags flag_kind option" where
  "operator_flag foreign n =
     (case map_of operator_flags n of
        Some k \<Rightarrow> Some k
      | None \<Rightarrow> map_option (\<lambda>(b, ok). ForeignFlag b ok) (foreign n))"

subsection \<open>The options of the servers\<close>

text \<open>The field of \<^verbatim>\<open>tls.Config\<close> the code writes, and the options of \<^verbatim>\<open>webhook\<close>, \<^verbatim>\<open>metricsserver\<close> and \<^verbatim>\<open>ctrl\<close>.\<close>

record TLSConfig =
  NextProtos :: "string list"

type_synonym tls_opt = "TLSConfig \<Rightarrow> TLSConfig"

definition disableHTTP2 :: tls_opt where
  "disableHTTP2 c = c\<lparr>NextProtos := [''http/1.1'']\<rparr>"

definition tlsOpts :: "Flags \<Rightarrow> tls_opt list" where
  "tlsOpts f = (if \<not> enableHTTP2 f then [disableHTTP2] else [])"

datatype filter_provider = WithAuthenticationAndAuthorization

record WebhookOptions =
  wo_TLSOpts :: "tls_opt list"
  wo_CertDir :: string
  wo_CertName :: string
  wo_KeyName :: string

record MetricsOptions =
  BindAddress :: string
  SecureServing :: bool
  mo_TLSOpts :: "tls_opt list"
  FilterProvider :: "filter_provider option"
  mo_CertDir :: string
  mo_CertName :: string
  mo_KeyName :: string

definition webhookServerOptions :: "Flags \<Rightarrow> WebhookOptions" where
  "webhookServerOptions f =
     (let wo = \<lparr>wo_TLSOpts = tlsOpts f, wo_CertDir = [], wo_CertName = [], wo_KeyName = []\<rparr> in
      if 0 < length (webhookCertPath f)
      then wo\<lparr>wo_CertDir := webhookCertPath f, wo_CertName := webhookCertName f, wo_KeyName := webhookCertKey f\<rparr>
      else wo)"

definition metricsServerOptions :: "Flags \<Rightarrow> MetricsOptions" where
  "metricsServerOptions f =
     (let mo = \<lparr>BindAddress = metricsAddr f, SecureServing = secureMetrics f, mo_TLSOpts = tlsOpts f,
                FilterProvider = None, mo_CertDir = [], mo_CertName = [], mo_KeyName = []\<rparr>;
          mo = (if secureMetrics f then mo\<lparr>FilterProvider := Some WithAuthenticationAndAuthorization\<rparr> else mo)
      in if 0 < length (metricsCertPath f)
         then mo\<lparr>mo_CertDir := metricsCertPath f, mo_CertName := metricsCertName f, mo_KeyName := metricsCertKey f\<rparr>
         else mo)"

record ManagerOptions =
  mg_Metrics :: MetricsOptions
  mg_WebhookServer :: WebhookOptions
  mg_HealthProbeBindAddress :: string
  mg_LeaderElection :: bool
  mg_LeaderElectionID :: string

definition manager_options :: "Flags \<Rightarrow> ManagerOptions" where
  "manager_options f =
     \<lparr>mg_Metrics = metricsServerOptions f, mg_WebhookServer = webhookServerOptions f,
      mg_HealthProbeBindAddress = probeAddr f, mg_LeaderElection = enableLeaderElection f,
      mg_LeaderElectionID = ''40648e4b.ironbook.io''\<rparr>"

text \<open>A server starts from some configuration and applies its options in order.\<close>

definition served_protos :: "tls_opt list \<Rightarrow> TLSConfig \<Rightarrow> string list" where
  "served_protos opts c = NextProtos (fold (\<lambda>f c. f c) opts c)"

subsection \<open>The controllers\<close>

text \<open>
  What a controller is built from: the kind it is for, the kinds it owns, its name, its reconciler,
  and the role its markers ask for.
\<close>

type_synonym role_rule = "string \<times> string \<times> string list"

record controller =
  ctl_For :: string
  ctl_Owns :: "string list"
  ctl_Named :: string
  ctl_Reconciler :: "kube \<Rightarrow> object_key \<Rightarrow> outcome act"
  ctl_Role :: "role_rule list"

definition ironbook_group :: string where
  "ironbook_group = ''ironbook.ironbook.io''"

definition all_verbs :: "string list" where
  "all_verbs = [''get'', ''list'', ''watch'', ''create'', ''update'', ''patch'', ''delete'']"

definition submission_role :: "role_rule list" where
  "submission_role =
     [(ironbook_group, ''submissions'', all_verbs),
      (ironbook_group, ''submissions/status'', [''get'', ''update'', ''patch'']),
      (ironbook_group, ''submissions/finalizers'', [''update''])]"

definition scenario_role :: "role_rule list" where
  "scenario_role =
     [(ironbook_group, ''scenarios'', all_verbs),
      (ironbook_group, ''scenarios/status'', [''get'', ''update'', ''patch'']),
      (ironbook_group, ''scenarios/finalizers'', [''update''])]"

definition botswarm_role :: "role_rule list" where
  "botswarm_role =
     [(ironbook_group, ''botswarms'', all_verbs),
      (ironbook_group, ''botswarms/status'', [''get'', ''update'', ''patch'']),
      (ironbook_group, ''botswarms/finalizers'', [''update''])]"

definition benchmarkrun_role :: "role_rule list" where
  "benchmarkrun_role =
     [(ironbook_group, ''benchmarkruns'', all_verbs),
      (ironbook_group, ''benchmarkruns/status'', [''get'', ''update'', ''patch'']),
      (ironbook_group, ''benchmarkruns/finalizers'', [''update'']),
      (ironbook_group, ''submissions'', [''get'', ''list'', ''watch'']),
      (ironbook_group, ''scenarios'', [''get'', ''list'', ''watch'']),
      (ironbook_group, ''botswarms'', [''get'', ''list'', ''watch'']),
      ([], ''pods'', all_verbs),
      ([], ''services'', all_verbs)]"

definition submission_controller :: "kube_lib \<Rightarrow> controller" where
  "submission_controller lib =
     \<lparr>ctl_For = ''Submission'', ctl_Owns = [], ctl_Named = ''submission'',
      ctl_Reconciler = SubmissionReconcile lib, ctl_Role = submission_role\<rparr>"

definition scenario_controller :: controller where
  "scenario_controller =
     \<lparr>ctl_For = ''Scenario'', ctl_Owns = [], ctl_Named = ''scenario'',
      ctl_Reconciler = ScenarioReconcile, ctl_Role = scenario_role\<rparr>"

definition botswarm_controller :: controller where
  "botswarm_controller =
     \<lparr>ctl_For = ''BotSwarm'', ctl_Owns = [], ctl_Named = ''botswarm'',
      ctl_Reconciler = BotSwarmReconcile, ctl_Role = botswarm_role\<rparr>"

definition benchmarkrun_controller :: "kube_lib \<Rightarrow> controller" where
  "benchmarkrun_controller lib =
     \<lparr>ctl_For = ''BenchmarkRun'', ctl_Owns = [''Pod'', ''Service''], ctl_Named = ''benchmarkrun'',
      ctl_Reconciler = Reconcile lib, ctl_Role = benchmarkrun_role\<rparr>"

definition operator_controllers :: "kube_lib \<Rightarrow> controller list" where
  "operator_controllers lib =
     [submission_controller lib, scenario_controller, botswarm_controller, benchmarkrun_controller lib]"

subsection \<open>The start\<close>

text \<open>The calls of \<^verbatim>\<open>main\<close> into controller-runtime that can fail.\<close>

datatype setup_call =
    NewManager ManagerOptions
  | CompleteController controller
  | AddHealthzCheck string
  | AddReadyzCheck string
  | StartManager

text \<open>
  The outside of the process: the flags of other packages, whether the two schemes can be registered
  (\<^verbatim>\<open>utilruntime.Must\<close> panics otherwise), whether \<^verbatim>\<open>GetConfigOrDie\<close> finds a cluster, and how each setup
  call is answered.
\<close>

record op_boot =
  bo_foreign :: "string \<Rightarrow> (bool \<times> (string \<Rightarrow> bool)) option"
  bo_schemes :: bool
  bo_cluster :: bool
  bo_setup :: "setup_call list \<Rightarrow> go_error option"

text \<open>A chain of \<^verbatim>\<open>if err := step(); err != nil { os.Exit(1) }\<close>.\<close>

fun exit_on_error :: "(setup_call list \<Rightarrow> go_error option) \<Rightarrow> setup_call list \<Rightarrow> setup_call list \<Rightarrow> nat \<times> setup_call list" where
  "exit_on_error peer [] h = (0, h)"
| "exit_on_error peer (c # cs) h =
     (case ask peer c h of (Some err, h') \<Rightarrow> (1, h') | (None, h') \<Rightarrow> exit_on_error peer cs h')"

definition setup_calls :: "kube_lib \<Rightarrow> Flags \<Rightarrow> setup_call list" where
  "setup_calls lib f =
     NewManager (manager_options f) # map CompleteController (operator_controllers lib)
     @ [AddHealthzCheck ''healthz'', AddReadyzCheck ''readyz'', StartManager]"

text \<open>The exit status and the setup calls made.\<close>

definition operator_main :: "kube_lib \<Rightarrow> op_boot \<Rightarrow> string list \<Rightarrow> nat \<times> setup_call list" where
  "operator_main lib boot args =
     (if \<not> bo_schemes boot then (2, [])
      else case parse_flags (operator_flag (bo_foreign boot)) args default_flags of
        Inl FlagHelp \<Rightarrow> (0, [])
      | Inl FlagBad \<Rightarrow> (2, [])
      | Inr f \<Rightarrow> if \<not> bo_cluster boot then (1, []) else exit_on_error (bo_setup boot) (setup_calls lib f) [])"

subsection \<open>What the start guarantees\<close>

lemma exit_on_error_prefix:
  assumes "exit_on_error peer cs h = (st, h')"
  shows "\<exists>ds. prefix ds cs \<and> h' = h @ ds
       \<and> (if st = 0 then ds = cs \<and> (cs \<noteq> [] \<longrightarrow> peer h' = None) else st = 1 \<and> peer h' \<noteq> None)"
  using assms
proof (induction cs arbitrary: h)
  case (Cons c cs)
  show ?case
  proof (cases "peer (h @ [c])")
    case None
    then have "exit_on_error peer cs (h @ [c]) = (st, h')" using Cons.prems by simp
    from Cons.IH [OF this] obtain ds where ds: "prefix ds cs" "h' = (h @ [c]) @ ds"
      "if st = 0 then ds = cs \<and> (cs \<noteq> [] \<longrightarrow> peer h' = None) else st = 1 \<and> peer h' \<noteq> None" by blast
    have "if st = 0 then c # ds = c # cs \<and> peer h' = None else st = 1 \<and> peer h' \<noteq> None"
      using ds(2,3) None by (cases cs; cases "st = 0") simp_all
    then have "if st = 0 then c # ds = c # cs \<and> (c # cs \<noteq> [] \<longrightarrow> peer h' = None) else st = 1 \<and> peer h' \<noteq> None"
      by (cases "st = 0") simp_all
    moreover have "prefix (c # ds) (c # cs)" "h' = h @ c # ds" using ds(1,2) by simp_all
    ultimately show ?thesis by blast
  next
    case (Some e)
    then show ?thesis using Cons.prems by (intro exI [of _ "[c]"]) auto
  qed
qed auto

lemma operator_main_calls:
  assumes "operator_main lib boot args = (st, cs)" and "cs \<noteq> []"
  obtains f where "parse_flags (operator_flag (bo_foreign boot)) args default_flags = Inr f"
    "exit_on_error (bo_setup boot) (setup_calls lib f) [] = (st, cs)"
  using assms unfolding operator_main_def
  by (auto split: if_splits sum.splits flag_end.splits)

lemma only_start_is_last:
  assumes "prefix ds (setup_calls lib f)" and "StartManager \<in> set ds"
  shows "ds = setup_calls lib f"
proof -
  have all: "setup_calls lib f = butlast (setup_calls lib f) @ [StartManager]"
    and no: "StartManager \<notin> set (butlast (setup_calls lib f))"
    by (simp_all add: setup_calls_def operator_controllers_def)
  then have "\<not> prefix ds (butlast (setup_calls lib f))"
    using assms(2) set_mono_prefix by blast
  then show ?thesis using assms(1) all by (metis prefix_snoc)
qed

text \<open>
  The manager is started only when every option, controller and probe
  before it was accepted, all four controllers and both probes with it; the process then exits with 0
  exactly if the manager stopped without an error.
\<close>

theorem operator_starts_complete:
  assumes "operator_main lib boot args = (st, cs)" and "StartManager \<in> set cs"
  shows "(\<exists>f. parse_flags (operator_flag (bo_foreign boot)) args default_flags = Inr f \<and> cs = setup_calls lib f)
       \<and> CompleteController ` set (operator_controllers lib) \<subseteq> set cs
       \<and> (st = 0 \<longleftrightarrow> bo_setup boot cs = None)"
proof -
  obtain f where f: "parse_flags (operator_flag (bo_foreign boot)) args default_flags = Inr f"
    and run: "exit_on_error (bo_setup boot) (setup_calls lib f) [] = (st, cs)"
    by (rule operator_main_calls [OF assms(1)]) (use assms(2) in auto)
  have pre: "prefix cs (setup_calls lib f)"
    and st: "if st = 0 then cs = setup_calls lib f \<and> (setup_calls lib f \<noteq> [] \<longrightarrow> bo_setup boot cs = None)
             else st = 1 \<and> bo_setup boot cs \<noteq> None"
    using exit_on_error_prefix [OF run] by auto
  have cs: "cs = setup_calls lib f" using only_start_is_last [OF pre assms(2)] .
  moreover have "setup_calls lib f \<noteq> []" by (simp add: setup_calls_def)
  ultimately have "st = 0 \<longleftrightarrow> bo_setup boot cs = None" using st by (metis one_neq_zero)
  moreover have "CompleteController ` set (operator_controllers lib) \<subseteq> set cs"
    unfolding cs setup_calls_def by auto
  ultimately show ?thesis using f cs by blast
qed

text \<open>No other flag touches the two that guard the servers.\<close>

definition guarded :: "Flags \<Rightarrow> bool" where
  "guarded f \<longleftrightarrow> \<not> enableHTTP2 f \<and> secureMetrics f"

lemma operator_flags_keep:
  "list_all (\<lambda>(n, k). n = ''enable-http2'' \<or> n = ''metrics-secure''
     \<or> (\<forall>v a b. flag_set k v a = Some b \<longrightarrow> guarded a \<longrightarrow> guarded b)) operator_flags"
proof -
  have s: "\<forall>v a b. flag_set (StringFlag g) v a = Some b \<longrightarrow> guarded a \<longrightarrow> guarded b"
    if "\<And>v f. guarded (g v f) = guarded f" for g using that by auto
  have b: "\<forall>v a b. flag_set (BoolFlag g) v a = Some b \<longrightarrow> guarded a \<longrightarrow> guarded b"
    if "\<And>v f. guarded (g v f) = guarded f" for g using that by auto
  show ?thesis
    unfolding operator_flags_def list.pred_inject split_conv
    by (intro conjI TrueI)
      ((rule disjI2, rule disjI2, (rule s | rule b), simp add: guarded_def; fail) | simp only: refl simp_thms list.pred_inject)+
qed

lemma operator_flag_keeps:
  assumes "operator_flag foreign n = Some k" "n \<notin> {''enable-http2'', ''metrics-secure''}"
    "flag_set k v a = Some b" "guarded a"
  shows "guarded b"
proof -
  consider "(n, k) \<in> set operator_flags" | bl ok where "k = ForeignFlag bl ok"
    using assms(1) unfolding operator_flag_def by (auto split: option.splits dest: map_of_SomeD)
  then show ?thesis
  proof cases
    case 1
    with operator_flags_keep have "n = ''enable-http2'' \<or> n = ''metrics-secure''
        \<or> (\<forall>v a b. flag_set k v a = Some b \<longrightarrow> guarded a \<longrightarrow> guarded b)"
      by (auto simp only: list_all_iff split_conv dest!: bspec)
    then show ?thesis using assms(2-4) by blast
  next
    case 2
    then show ?thesis using assms(3,4) by (auto split: if_splits)
  qed
qed

lemma guarded_servers:
  assumes "guarded f"
  shows "served_protos (wo_TLSOpts (mg_WebhookServer (manager_options f))) c = [''http/1.1'']"
    and "served_protos (mo_TLSOpts (mg_Metrics (manager_options f))) c = [''http/1.1'']"
    and "SecureServing (mg_Metrics (manager_options f))"
    and "FilterProvider (mg_Metrics (manager_options f)) = Some WithAuthenticationAndAuthorization"
  using assms
  by (simp_all add: guarded_def manager_options_def webhookServerOptions_def metricsServerOptions_def
      tlsOpts_def served_protos_def disableHTTP2_def Let_def)

text \<open>
  A manager created from a command line without \<^verbatim>\<open>enable-http2\<close> and
  \<^verbatim>\<open>metrics-secure\<close>, whatever else it says, negotiates HTTP/1.1 only on both servers and serves metrics over
  TLS to authenticated and authorized callers.
\<close>

theorem operator_serves_securely:
  assumes "operator_main lib boot args = (st, cs)" and "NewManager opts \<in> set cs"
    and "\<forall>a \<in> set args. is_flag a \<longrightarrow> flag_name a \<notin> {''enable-http2'', ''metrics-secure''}"
  shows "served_protos (wo_TLSOpts (mg_WebhookServer opts)) c = [''http/1.1'']
       \<and> served_protos (mo_TLSOpts (mg_Metrics opts)) c = [''http/1.1'']
       \<and> SecureServing (mg_Metrics opts)
       \<and> FilterProvider (mg_Metrics opts) = Some WithAuthenticationAndAuthorization"
proof -
  obtain f where f: "parse_flags (operator_flag (bo_foreign boot)) args default_flags = Inr f"
    and run: "exit_on_error (bo_setup boot) (setup_calls lib f) [] = (st, cs)"
    by (rule operator_main_calls [OF assms(1)]) (use assms(2) in auto)
  have "prefix cs (setup_calls lib f)" using exit_on_error_prefix [OF run] by auto
  then have "NewManager opts \<in> set (setup_calls lib f)" using assms(2) set_mono_prefix by blast
  then have opts: "opts = manager_options f" by (auto simp: setup_calls_def)
  have "guarded f"
    by (rule parse_flags_keeps [OF operator_flag_keeps f assms(3)]) (simp_all add: guarded_def default_flags_def)
  from guarded_servers [OF this] show ?thesis unfolding opts by blast
qed

subsection \<open>What the role grants\<close>

text \<open>
  What the API server asks for each call: reads go through a cache that lists and watches; a pod or a
  service is created with an owner reference that blocks the owner's deletion, which takes an update of
  the owner's finalizers.
\<close>

definition permits :: "role_rule list \<Rightarrow> string \<times> string \<times> string \<Rightarrow> bool" where
  "permits rules need = (case need of (g, r, v) \<Rightarrow> list_ex (\<lambda>(g', r', vs). g' = g \<and> r' = r \<and> v \<in> set vs) rules)"

definition read_needs :: "string \<Rightarrow> string \<Rightarrow> (string \<times> string \<times> string) list" where
  "read_needs g r = [(g, r, ''get''), (g, r, ''list''), (g, r, ''watch'')]"

fun call_needs :: "api_call \<Rightarrow> (string \<times> string \<times> string) list" where
  "call_needs (GetRun k) = read_needs ironbook_group ''benchmarkruns''"
| "call_needs (GetSubmission k) = read_needs ironbook_group ''submissions''"
| "call_needs (GetScenario k) = read_needs ironbook_group ''scenarios''"
| "call_needs (GetBotSwarm k) = read_needs ironbook_group ''botswarms''"
| "call_needs (ListPods ns r) = read_needs [] ''pods''"
| "call_needs (CreatePod p) =
     [([], ''pods'', ''create''), (ironbook_group, ''benchmarkruns/finalizers'', ''update'')]"
| "call_needs (CreateService v) =
     [([], ''services'', ''create''), (ironbook_group, ''benchmarkruns/finalizers'', ''update'')]"
| "call_needs (DeletePod p) = [([], ''pods'', ''delete'')]"
| "call_needs (UpdateRun b) = [(ironbook_group, ''benchmarkruns'', ''update'')]"
| "call_needs (UpdateRunStatus b) = [(ironbook_group, ''benchmarkruns/status'', ''update'')]"
| "call_needs (UpdateSubmissionStatus b) = [(ironbook_group, ''submissions/status'', ''update'')]"
| "call_needs (UpdateScenarioStatus b) = [(ironbook_group, ''scenarios/status'', ''update'')]"

text \<open>The resource whose objects a controller for, or an owner of, a kind lists and watches.\<close>

definition kind_resource :: "string \<Rightarrow> string \<times> string" where
  "kind_resource k =
     (if k = ''Pod'' then ([], ''pods'') else if k = ''Service'' then ([], ''services'')
      else if k = ''BenchmarkRun'' then (ironbook_group, ''benchmarkruns'')
      else if k = ''Submission'' then (ironbook_group, ''submissions'')
      else if k = ''Scenario'' then (ironbook_group, ''scenarios'')
      else (ironbook_group, ''botswarms''))"

definition granted :: "role_rule list \<Rightarrow> api_call \<Rightarrow> bool" where
  "granted rules c = list_all (permits rules) (call_needs c)"

lemmas role_eval = granted_def permits_def read_needs_def all_verbs_def ironbook_group_def
  submission_role_def scenario_role_def botswarm_role_def benchmarkrun_role_def

lemma run_role_grants: "run_trace lib br cs \<Longrightarrow> list_all (granted benchmarkrun_role) cs"
proof (induction cs)
  case (Cons c cs)
  then show ?case by (cases c) (auto simp: role_eval)
qed simp

lemma run_stays_in_role: "emits (Reconcile lib api req) (\<lambda>cs _. list_all (granted benchmarkrun_role) cs)"
proof -
  have "granted benchmarkrun_role (GetRun req)" by (simp add: role_eval)
  moreover have "emits (reconcile_run lib api br) (\<lambda>cs _. list_all (granted benchmarkrun_role) cs)" for br
    by (rule emits_weaken [OF reconcile_run_trace run_role_grants])
  ultimately show ?thesis
    unfolding Reconcile_def by (intro emits_rules) (simp_all add: emits_done emits_weaken)
qed

lemma scenario_stays_in_role: "emits (ScenarioReconcile api req) (\<lambda>cs _. list_all (granted scenario_role) cs)"
  unfolding ScenarioReconcile_def by (intro emits_rules) (simp_all add: role_eval)

lemma submission_stays_in_role:
  "emits (SubmissionReconcile lib api req) (\<lambda>cs _. list_all (granted submission_role) cs)"
  unfolding SubmissionReconcile_def by (intro emits_rules) (simp_all add: role_eval)

lemma botswarm_stays_in_role: "emits (BotSwarmReconcile api req) (\<lambda>cs _. list_all (granted botswarm_role) cs)"
  unfolding BotSwarmReconcile_def by (simp add: emits_done)

lemmas controller_defs = submission_controller_def scenario_controller_def botswarm_controller_def
  benchmarkrun_controller_def

text \<open>
  C33 (controllers_within_their_roles): whatever the API server answers, a registered controller makes
  only calls, and watches only kinds, that the role its own markers ask for allows.
\<close>

theorem controllers_within_their_roles:
  assumes "c \<in> set (operator_controllers lib)" and "ctl_Reconciler c api req [] = (out, cs)"
  shows "list_all (granted (ctl_Role c)) cs
       \<and> (\<forall>k \<in> set (ctl_For c # ctl_Owns c). case kind_resource k of (g, r) \<Rightarrow>
            permits (ctl_Role c) (g, r, ''list'') \<and> permits (ctl_Role c) (g, r, ''watch''))"
proof -
  have "emits (ctl_Reconciler c api req) (\<lambda>cs _. list_all (granted (ctl_Role c)) cs)"
  proof -
    consider "c = submission_controller lib" | "c = scenario_controller" | "c = botswarm_controller"
      | "c = benchmarkrun_controller lib" using assms(1) by (auto simp: operator_controllers_def)
    then show ?thesis
      by cases (simp_all add: controller_defs run_stays_in_role scenario_stays_in_role
          submission_stays_in_role botswarm_stays_in_role)
  qed
  from emitsD [OF this assms(2)] have "list_all (granted (ctl_Role c)) cs" .
  moreover have "\<forall>k \<in> set (ctl_For c # ctl_Owns c). case kind_resource k of (g, r) \<Rightarrow>
      permits (ctl_Role c) (g, r, ''list'') \<and> permits (ctl_Role c) (g, r, ''watch'')"
  proof -
    consider "c = submission_controller lib" | "c = scenario_controller" | "c = botswarm_controller"
      | "c = benchmarkrun_controller lib" using assms(1) by (auto simp: operator_controllers_def)
    then show ?thesis by cases (simp_all add: controller_defs kind_resource_def role_eval)
  qed
  ultimately show ?thesis ..
qed

subsection \<open>The deployed operator\<close>

text \<open>
  The command line of \<^verbatim>\<open>config/manager/manager.yaml\<close> with its metrics patch, in a cluster that accepts
  every setup call.
\<close>

definition deployed_args :: "string list" where
  "deployed_args = [''--metrics-bind-address=:8443'', ''--leader-elect'', ''--health-probe-bind-address=:8081'']"

definition deployed_boot :: op_boot where
  "deployed_boot =
     \<lparr>bo_foreign = Map.empty, bo_schemes = True, bo_cluster = True, bo_setup = (\<lambda>_. None)\<rparr>"

definition deployed_flags :: Flags where
  "deployed_flags = default_flags\<lparr>metricsAddr := '':8443'', enableLeaderElection := True, probeAddr := '':8081''\<rparr>"

lemma deployed_parse: "parse_flags (operator_flag Map.empty) deployed_args default_flags = Inr deployed_flags"
  by (simp add: deployed_args_def deployed_flags_def is_flag_def flag_body_def flag_name_def flag_value_def
      operator_flag_def operator_flags_def flag_argument_def ParseBool_def)

lemma exit_on_error_ok: "(\<And>h. peer h = None) \<Longrightarrow> exit_on_error peer cs h = (0, h @ cs)"
  by (induction cs arbitrary: h) simp_all

lemma deployed_main: "operator_main lib deployed_boot deployed_args = (0, setup_calls lib deployed_flags)"
  by (simp add: operator_main_def deployed_boot_def deployed_parse exit_on_error_ok)

theorem operator_starts_complete_witness:
  "bo_setup deployed_boot (setup_calls sample_lib deployed_flags) = None"
  using operator_starts_complete [OF deployed_main, of sample_lib] by (simp add: setup_calls_def)

theorem operator_serves_securely_witness:
  "served_protos (mo_TLSOpts (mg_Metrics (manager_options deployed_flags))) \<lparr>NextProtos = [''h2'']\<rparr> = [''http/1.1'']"
proof -
  have "NewManager (manager_options deployed_flags) \<in> set (setup_calls sample_lib deployed_flags)"
    by (simp add: setup_calls_def)
  moreover have "\<forall>a \<in> set deployed_args. is_flag a \<longrightarrow> flag_name a \<notin> {''enable-http2'', ''metrics-secure''}"
    by (simp add: deployed_args_def is_flag_def flag_body_def flag_name_def)
  ultimately show ?thesis using operator_serves_securely [OF deployed_main] by blast
qed

theorem controllers_within_their_roles_witness:
  "list_all (granted benchmarkrun_role) (snd (Reconcile sample_lib
     (sample_kube (sample_run [] None) (Inr sample_submission_cr) []) (''n'', ''r'') []))"
proof -
  have c: "benchmarkrun_controller sample_lib \<in> set (operator_controllers sample_lib)"
    by (simp add: operator_controllers_def)
  have run: "ctl_Reconciler (benchmarkrun_controller sample_lib) = Reconcile sample_lib"
    "ctl_Role (benchmarkrun_controller sample_lib) = benchmarkrun_role"
    by (simp_all add: benchmarkrun_controller_def)
  show ?thesis
    using controllers_within_their_roles [OF c, unfolded run, OF prod.collapse [symmetric]] by blast
qed

end
