(* ===== verification/GoHeap.thy ===== *)
theory GoHeap
  imports Prelude
begin

text \<open>
  Memory, for code that is about what shares it: a heap is the list of the cells allocated so far, an
  address an index into it.  A struct is a value; what it refers to (pointers, arrays behind slices) is
  in the heap.  A deep copy allocates everything the copy refers to.
\<close>

subsection \<open>Layouts and copiers\<close>

text \<open>
  A layout says of the values of a type when they are well formed in a heap, which addresses they
  refer to, directly or not, and what a reader sees.
\<close>

record ('x, 'c, 'v) layout =
  lay_ok :: "'c list \<Rightarrow> 'x \<Rightarrow> bool"
  lay_refs :: "'c list \<Rightarrow> 'x \<Rightarrow> nat set"
  lay_view :: "'c list \<Rightarrow> 'x \<Rightarrow> 'v"

type_synonym ('x, 'c) copier = "'x \<Rightarrow> 'c list \<Rightarrow> 'x \<times> 'c list"

text \<open>Two heaps agree on some addresses, which both have.\<close>

definition agree_on :: "nat set \<Rightarrow> 'c list \<Rightarrow> 'c list \<Rightarrow> bool" where
  "agree_on A h h' \<longleftrightarrow> (\<forall>a \<in> A. a < length h \<and> a < length h' \<and> h' ! a = h ! a)"

definition sound_layout :: "('x, 'c, 'v) layout \<Rightarrow> bool" where
  "sound_layout L \<longleftrightarrow>
     (\<forall>h x. lay_ok L h x \<longrightarrow> lay_refs L h x \<subseteq> {..<length h})
   \<and> (\<forall>h h' x. lay_ok L h x \<longrightarrow> agree_on (lay_refs L h x) h h' \<longrightarrow>
        lay_ok L h' x \<and> lay_refs L h' x = lay_refs L h x \<and> lay_view L h' x = lay_view L h x)"

text \<open>
  The contract of \<^verbatim>\<open>DeepCopyInto\<close>: the copy reads as the original does, everything it refers to is new,
  and no cell that existed before is changed.
\<close>

definition deep_copier :: "('x, 'c) copier \<Rightarrow> ('x, 'c, 'v) layout \<Rightarrow> bool" where
  "deep_copier copy L \<longleftrightarrow>
     sound_layout L
   \<and> (\<forall>h x y h'. lay_ok L h x \<longrightarrow> copy x h = (y, h') \<longrightarrow>
        prefix h h' \<and> lay_ok L h' y \<and> lay_refs L h' y \<subseteq> {length h..} \<and> lay_view L h' y = lay_view L h x)"

lemma sound_layoutI:
  assumes "\<And>h x. lay_ok L h x \<Longrightarrow> lay_refs L h x \<subseteq> {..<length h}"
    and "\<And>h h' x. lay_ok L h x \<Longrightarrow> agree_on (lay_refs L h x) h h' \<Longrightarrow>
      lay_ok L h' x \<and> lay_refs L h' x = lay_refs L h x \<and> lay_view L h' x = lay_view L h x"
  shows "sound_layout L"
  unfolding sound_layout_def by (rule conjI; (intro allI impI); (rule assms; assumption))

lemma deep_copierI:
  assumes "sound_layout L"
    and "\<And>h x y h'. lay_ok L h x \<Longrightarrow> copy x h = (y, h') \<Longrightarrow>
      prefix h h' \<and> lay_ok L h' y \<and> lay_refs L h' y \<subseteq> {length h..} \<and> lay_view L h' y = lay_view L h x"
  shows "deep_copier copy L"
  unfolding deep_copier_def by (rule conjI, rule assms(1), intro allI impI, rule assms(2); assumption)

lemma layoutD:
  assumes "sound_layout L" "lay_ok L h x"
  shows "lay_refs L h x \<subseteq> {..<length h}"
    and "agree_on (lay_refs L h x) h h' \<Longrightarrow> lay_ok L h' x \<and> lay_refs L h' x = lay_refs L h x \<and> lay_view L h' x = lay_view L h x"
  using assms unfolding sound_layout_def by blast+

lemma deep_copierD:
  assumes "deep_copier copy L" "lay_ok L h x" "copy x h = (y, h')"
  shows "prefix h h'" "lay_ok L h' y" "lay_refs L h' y \<subseteq> {length h..}" "lay_view L h' y = lay_view L h x"
  using assms unfolding deep_copier_def by blast+

lemma deep_copier_sound: "deep_copier copy L \<Longrightarrow> sound_layout L"
  by (simp add: deep_copier_def)

lemma prefix_agrees: "prefix h h' \<Longrightarrow> A \<subseteq> {..<length h} \<Longrightarrow> agree_on A h h'"
  by (auto simp: agree_on_def prefix_def nth_append)

lemma prefix_keeps:
  assumes "sound_layout L" "lay_ok L h x" "prefix h h'"
  shows "lay_ok L h' x" "lay_refs L h' x = lay_refs L h x" "lay_view L h' x = lay_view L h x"
  using layoutD(2) [OF assms(1,2) prefix_agrees [OF assms(3) layoutD(1) [OF assms(1,2)]]] by blast+

text \<open>A write to a cell a value does not refer to is not seen through it.\<close>

lemma write_elsewhere:
  assumes "sound_layout L" "lay_ok L h x" "a \<notin> lay_refs L h x"
  shows "lay_ok L (h[a := c]) x" "lay_refs L (h[a := c]) x = lay_refs L h x" "lay_view L (h[a := c]) x = lay_view L h x"
proof -
  have "agree_on (lay_refs L h x) h (h[a := c])"
    using layoutD(1) [OF assms(1,2)] assms(3) by (auto simp: agree_on_def intro: nth_list_update_neq)
  from layoutD(2) [OF assms(1,2) this]
  show "lay_ok L (h[a := c]) x" "lay_refs L (h[a := c]) x = lay_refs L h x" "lay_view L (h[a := c]) x = lay_view L h x" by blast+
qed

subsection \<open>Writes through a copy\<close>

fun write_all :: "(nat \<times> 'c) list \<Rightarrow> 'c list \<Rightarrow> 'c list" where
  "write_all [] h = h"
| "write_all ((a, c) # ws) h = write_all ws (h[a := c])"

lemma write_all_elsewhere:
  assumes "sound_layout L" "lay_ok L h x" "\<forall>(a, c) \<in> set ws. a \<notin> lay_refs L h x"
  shows "lay_view L (write_all ws h) x = lay_view L h x"
  using assms(2,3)
proof (induction ws arbitrary: h)
  case (Cons w ws)
  obtain a c where w: "w = (a, c)" by (cases w)
  with Cons.prems have "a \<notin> lay_refs L h x" by simp
  note step = write_elsewhere [OF assms(1) Cons.prems(1) this, of c]
  have "lay_view L (write_all ws (h[a := c])) x = lay_view L (h[a := c]) x"
    by (rule Cons.IH [OF step(1)]) (use Cons.prems(2) step(2) in auto)
  then show ?case using step(3) w by simp
qed simp

text \<open>
  Isolation: whatever is written, afterwards, to memory the copy refers to, the original reads as
  before, and whatever is written to memory that existed before, the copy reads as before.
\<close>

definition isolating :: "('x, 'c) copier \<Rightarrow> ('x, 'c, 'v) layout \<Rightarrow> bool" where
  "isolating copy L \<longleftrightarrow>
     (\<forall>h x y h'. lay_ok L h x \<longrightarrow> copy x h = (y, h') \<longrightarrow>
        lay_view L h' y = lay_view L h x
      \<and> (\<forall>ws. (\<forall>(a, c) \<in> set ws. a \<in> lay_refs L h' y) \<longrightarrow> lay_view L (write_all ws h') x = lay_view L h x)
      \<and> (\<forall>ws. (\<forall>(a, c) \<in> set ws. a < length h) \<longrightarrow> lay_view L (write_all ws h') y = lay_view L h x))"

lemma deep_copier_isolating:
  assumes "deep_copier copy L"
  shows "isolating copy L"
  unfolding isolating_def
proof (intro allI impI conjI)
  fix h x y h'
  assume x: "lay_ok L h x" and run: "copy x h = (y, h')"
  note c = deep_copierD [OF assms x run]
  note keep = prefix_keeps [OF deep_copier_sound [OF assms] x c(1)]
  show "lay_view L h' y = lay_view L h x" by (rule c(4))
  show "lay_view L (write_all ws h') x = lay_view L h x" if ws: "\<forall>(a, c) \<in> set ws. a \<in> lay_refs L h' y" for ws
  proof -
    have "\<forall>(a, c) \<in> set ws. a \<notin> lay_refs L h' x"
      using ws c(3) layoutD(1) [OF deep_copier_sound [OF assms] x] keep(2) by fastforce
    from write_all_elsewhere [OF deep_copier_sound [OF assms] keep(1) this] keep(3) show ?thesis by simp
  qed
  show "lay_view L (write_all ws h') y = lay_view L h x" if ws: "\<forall>(a, c) \<in> set ws. a < length h" for ws
  proof -
    have "\<forall>(a, c) \<in> set ws. a \<notin> lay_refs L h' y" using ws c(3) by fastforce
    from write_all_elsewhere [OF deep_copier_sound [OF assms] c(2) this] c(4) show ?thesis by simp
  qed
qed

subsection \<open>Values without references, nil pointers, several fields\<close>

definition copy_flat :: "('x, 'c) copier" where
  "copy_flat x h = (x, h)"

definition flat_layout :: "('x, 'c, 'x) layout" where
  "flat_layout = \<lparr>lay_ok = (\<lambda>h x. True), lay_refs = (\<lambda>h x. {}), lay_view = (\<lambda>h x. x)\<rparr>"

lemma flat_copier: "deep_copier copy_flat flat_layout"
  by (simp add: deep_copier_def sound_layout_def copy_flat_def flat_layout_def)

text \<open>\<^verbatim>\<open>if in.F != nil { out.F = copy(in.F) }\<close>, after \<^verbatim>\<open>*out = *in\<close>.\<close>

definition copy_non_nil :: "('x, 'c) copier \<Rightarrow> ('x option, 'c) copier" where
  "copy_non_nil copy p h = (case p of None \<Rightarrow> (None, h) | Some x \<Rightarrow> (let (y, h') = copy x h in (Some y, h')))"

definition option_layout :: "('x, 'c, 'v) layout \<Rightarrow> ('x option, 'c, 'v option) layout" where
  "option_layout L =
     \<lparr>lay_ok = (\<lambda>h p. pred_option (lay_ok L h) p), lay_refs = (\<lambda>h p. case p of None \<Rightarrow> {} | Some x \<Rightarrow> lay_refs L h x),
      lay_view = (\<lambda>h p. map_option (lay_view L h) p)\<rparr>"

lemma option_layout_simps [simp]:
  "lay_ok (option_layout L) h None" "lay_ok (option_layout L) h (Some x) = lay_ok L h x"
  "lay_refs (option_layout L) h None = {}" "lay_refs (option_layout L) h (Some x) = lay_refs L h x"
  "lay_view (option_layout L) h p = map_option (lay_view L h) p"
  by (simp_all add: option_layout_def)

lemma option_sound: "sound_layout L \<Longrightarrow> sound_layout (option_layout L)"
proof (rule sound_layoutI)
  show "lay_refs (option_layout L) h p \<subseteq> {..<length h}" if "sound_layout L" "lay_ok (option_layout L) h p" for h p
    using that layoutD(1) [OF that(1)] by (cases p) simp_all
  show "lay_ok (option_layout L) h' p \<and> lay_refs (option_layout L) h' p = lay_refs (option_layout L) h p
      \<and> lay_view (option_layout L) h' p = lay_view (option_layout L) h p"
    if "sound_layout L" "lay_ok (option_layout L) h p" "agree_on (lay_refs (option_layout L) h p) h h'" for h h' p
  proof (cases p)
    case (Some x)
    then show ?thesis using layoutD(2) [OF that(1), of h x h'] that(2,3) by simp
  qed simp
qed

lemma option_copier:
  assumes "deep_copier copy L"
  shows "deep_copier (copy_non_nil copy) (option_layout L)"
proof (rule deep_copierI)
  show "sound_layout (option_layout L)" using assms by (simp add: option_sound deep_copier_sound)
  fix h p q h'
  assume okay: "lay_ok (option_layout L) h p" and run: "copy_non_nil copy p h = (q, h')"
  show "prefix h h' \<and> lay_ok (option_layout L) h' q \<and> lay_refs (option_layout L) h' q \<subseteq> {length h..}
      \<and> lay_view (option_layout L) h' q = lay_view (option_layout L) h p"
  proof (cases p)
    case None
    then show ?thesis using run by (simp add: copy_non_nil_def)
  next
    case (Some x)
    obtain y h1 where y: "copy x h = (y, h1)" by (cases "copy x h")
    then have "q = Some y" "h' = h1" using run Some by (simp_all add: copy_non_nil_def)
    then show ?thesis using deep_copierD [OF assms _ y] okay Some by simp
  qed
qed

text \<open>Two fields, one after the other.\<close>

definition copy_both :: "('x, 'c) copier \<Rightarrow> ('y, 'c) copier \<Rightarrow> ('x \<times> 'y, 'c) copier" where
  "copy_both c d xy h = (let (x, h1) = c (fst xy) h; (y, h2) = d (snd xy) h1 in ((x, y), h2))"

definition pair_layout :: "('x, 'c, 'v) layout \<Rightarrow> ('y, 'c, 'w) layout \<Rightarrow> ('x \<times> 'y, 'c, 'v \<times> 'w) layout" where
  "pair_layout L M =
     \<lparr>lay_ok = (\<lambda>h (x, y). lay_ok L h x \<and> lay_ok M h y), lay_refs = (\<lambda>h (x, y). lay_refs L h x \<union> lay_refs M h y),
      lay_view = (\<lambda>h (x, y). (lay_view L h x, lay_view M h y))\<rparr>"

lemma agree_on_Un: "agree_on (A \<union> B) h h' \<longleftrightarrow> agree_on A h h' \<and> agree_on B h h'"
  by (auto simp: agree_on_def)

lemma pair_layout_simps [simp]:
  "lay_ok (pair_layout L M) h (x, y) \<longleftrightarrow> lay_ok L h x \<and> lay_ok M h y"
  "lay_refs (pair_layout L M) h (x, y) = lay_refs L h x \<union> lay_refs M h y"
  "lay_view (pair_layout L M) h (x, y) = (lay_view L h x, lay_view M h y)"
  by (simp_all add: pair_layout_def)

lemma pair_sound:
  assumes "sound_layout L" "sound_layout M"
  shows "sound_layout (pair_layout L M)"
proof (rule sound_layoutI)
  show "lay_refs (pair_layout L M) h p \<subseteq> {..<length h}" if "lay_ok (pair_layout L M) h p" for h p
    using that layoutD(1) [OF assms(1)] layoutD(1) [OF assms(2)] by (cases p) simp
  show "lay_ok (pair_layout L M) h' p \<and> lay_refs (pair_layout L M) h' p = lay_refs (pair_layout L M) h p
      \<and> lay_view (pair_layout L M) h' p = lay_view (pair_layout L M) h p"
    if "lay_ok (pair_layout L M) h p" "agree_on (lay_refs (pair_layout L M) h p) h h'" for h h' p
  proof (cases p)
    case (Pair x y)
    then show ?thesis
      using layoutD(2) [OF assms(1), of h x h'] layoutD(2) [OF assms(2), of h y h'] that by (simp add: agree_on_Un)
  qed
qed

lemma pair_copier:
  assumes "deep_copier c L" "deep_copier d M"
  shows "deep_copier (copy_both c d) (pair_layout L M)"
proof (rule deep_copierI)
  show "sound_layout (pair_layout L M)" using assms by (simp add: pair_sound deep_copier_sound)
next
  fix h xy x'y' h'
  assume okay: "lay_ok (pair_layout L M) h xy" and run: "copy_both c d xy h = (x'y', h')"
  obtain x y where xy: "xy = (x, y)" by (cases xy)
  obtain x' h1 where x': "c x h = (x', h1)" by (cases "c x h")
  obtain y' h2 where y': "d y h1 = (y', h2)" by (cases "d y h1")
  have out: "x'y' = (x', y')" "h' = h2" using run by (simp_all add: copy_both_def xy x' y')
  have L: "sound_layout L" and M: "sound_layout M" using assms by (simp_all add: deep_copier_sound)
  have okx: "lay_ok L h x" and oky: "lay_ok M h y" using okay by (simp_all add: xy)
  note one = deep_copierD [OF assms(1) okx x']
  note midway = prefix_keeps [OF M oky one(1)]
  note two = deep_copierD [OF assms(2) midway(1) y']
  note last = prefix_keeps [OF L one(2) two(1)]
  have len: "length h \<le> length h1" using one(1) by (rule prefix_length_le)
  have "lay_refs L h2 x' \<union> lay_refs M h2 y' \<subseteq> {length h..}"
    using last(2) two(3) one(3) len by auto
  then show "prefix h h' \<and> lay_ok (pair_layout L M) h' x'y' \<and> lay_refs (pair_layout L M) h' x'y' \<subseteq> {length h..}
      \<and> lay_view (pair_layout L M) h' x'y' = lay_view (pair_layout L M) h xy"
    using prefix_order.trans [OF one(1) two(1)] last two one midway by (simp add: out xy)
qed

text \<open>
  A struct whose fields that refer to memory are \<open>get\<close>, and whose other fields are \<open>rest\<close>.
\<close>

definition struct_layout :: "('s \<Rightarrow> 'p) \<Rightarrow> ('s \<Rightarrow> 'r) \<Rightarrow> ('p, 'c, 'v) layout \<Rightarrow> ('s, 'c, 'r \<times> 'v) layout" where
  "struct_layout get rest L =
     \<lparr>lay_ok = (\<lambda>h s. lay_ok L h (get s)), lay_refs = (\<lambda>h s. lay_refs L h (get s)),
      lay_view = (\<lambda>h s. (rest s, lay_view L h (get s)))\<rparr>"

lemma struct_layout_simps [simp]:
  "lay_ok (struct_layout get rest L) h x = lay_ok L h (get x)"
  "lay_refs (struct_layout get rest L) h x = lay_refs L h (get x)"
  "lay_view (struct_layout get rest L) h x = (rest x, lay_view L h (get x))"
  by (simp_all add: struct_layout_def)

lemma struct_copier:
  assumes "deep_copier c L"
    and copy: "\<And>x h. copy x h = (let (p, h') = c (get x) h in (put x p, h'))"
    and put: "\<And>x p. get (put x p) = p" "\<And>x p. rest (put x p) = rest x"
  shows "deep_copier copy (struct_layout get rest L)"
proof (rule deep_copierI)
  note L = deep_copier_sound [OF assms(1)]
  show "sound_layout (struct_layout get rest L)"
  proof (rule sound_layoutI, unfold struct_layout_simps)
    show "lay_refs L h (get x) \<subseteq> {..<length h}" if "lay_ok L h (get x)" for h x
      using layoutD(1) [OF L that] .
    show "lay_ok L h' (get x) \<and> lay_refs L h' (get x) = lay_refs L h (get x)
        \<and> (rest x, lay_view L h' (get x)) = (rest x, lay_view L h (get x))"
      if "lay_ok L h (get x)" "agree_on (lay_refs L h (get x)) h h'" for h h' x
      using layoutD(2) [OF L that] by simp
  qed
  fix h x y h'
  assume okay: "lay_ok (struct_layout get rest L) h x" and run: "copy x h = (y, h')"
  obtain p h1 where p: "c (get x) h = (p, h1)" by (cases "c (get x) h")
  then have "y = put x p" "h' = h1" using run by (simp_all add: copy)
  then show "prefix h h' \<and> lay_ok (struct_layout get rest L) h' y
      \<and> lay_refs (struct_layout get rest L) h' y \<subseteq> {length h..}
      \<and> lay_view (struct_layout get rest L) h' y = lay_view (struct_layout get rest L) h x"
    using deep_copierD [OF assms(1) _ p] okay by (simp add: put)
qed

subsection \<open>Slices\<close>

text \<open>
  A slice is an array and a length, or nil.  The cells of a program are of several types; \<open>wrap\<close> and
  \<open>unwrap\<close> say which of them hold the arrays in question.
\<close>

definition elems :: "('c \<Rightarrow> 'e list) \<Rightarrow> 'c list \<Rightarrow> nat \<times> nat \<Rightarrow> 'e list" where
  "elems unwrap h s = take (snd s) (unwrap (h ! fst s))"

definition slice_layout :: "('c \<Rightarrow> 'e list) \<Rightarrow> ('e, 'c, 'v) layout \<Rightarrow> (nat \<times> nat, 'c, 'v list) layout" where
  "slice_layout unwrap L =
     \<lparr>lay_ok = (\<lambda>h s. fst s < length h \<and> snd s \<le> length (unwrap (h ! fst s))
                 \<and> (\<forall>x \<in> set (elems unwrap h s). lay_ok L h x)),
      lay_refs = (\<lambda>h s. insert (fst s) (\<Union>x \<in> set (elems unwrap h s). lay_refs L h x)),
      lay_view = (\<lambda>h s. map (lay_view L h) (elems unwrap h s))\<rparr>"

text \<open>\<^verbatim>\<open>for i := range *in { (*in)[i].DeepCopyInto(&(*out)[i]) }\<close>.\<close>

fun copy_elems :: "('e list \<Rightarrow> 'c) \<Rightarrow> ('c \<Rightarrow> 'e list) \<Rightarrow> ('e, 'c) copier \<Rightarrow> nat \<Rightarrow> nat \<Rightarrow> nat list \<Rightarrow> 'c list \<Rightarrow> 'c list" where
  "copy_elems wrap unwrap c src dst [] h = h"
| "copy_elems wrap unwrap c src dst (i # is) h =
     (let (y, h1) = c (unwrap (h ! src) ! i) h in
      copy_elems wrap unwrap c src dst is (h1[dst := wrap ((unwrap (h1 ! dst))[i := y])]))"

text \<open>\<^verbatim>\<open>*out = make([]T, len(*in))\<close>, and the loop.\<close>

definition copy_slice :: "('e list \<Rightarrow> 'c) \<Rightarrow> ('c \<Rightarrow> 'e list) \<Rightarrow> 'e \<Rightarrow> ('e, 'c) copier \<Rightarrow> (nat \<times> nat, 'c) copier" where
  "copy_slice wrap unwrap zero c s h =
     (let (src, n) = s; dst = length h in
      ((dst, n), copy_elems wrap unwrap c src dst [0..<n] (h @ [wrap (replicate n zero)])))"

lemma slice_layout_simps [simp]:
  "lay_ok (slice_layout unwrap L) h s \<longleftrightarrow> fst s < length h \<and> snd s \<le> length (unwrap (h ! fst s))
     \<and> (\<forall>x \<in> set (elems unwrap h s). lay_ok L h x)"
  "lay_refs (slice_layout unwrap L) h s = insert (fst s) (\<Union>x \<in> set (elems unwrap h s). lay_refs L h x)"
  "lay_view (slice_layout unwrap L) h s = map (lay_view L h) (elems unwrap h s)"
  by (simp_all add: slice_layout_def)

lemma slice_sound:
  assumes "sound_layout L"
  shows "sound_layout (slice_layout unwrap L)"
proof (rule sound_layoutI)
  show "lay_refs (slice_layout unwrap L) h s \<subseteq> {..<length h}" if "lay_ok (slice_layout unwrap L) h s" for h s
    using that layoutD(1) [OF assms] by fastforce
  fix h h' s
  assume okay: "lay_ok (slice_layout unwrap L) h s" and agree: "agree_on (lay_refs (slice_layout unwrap L) h s) h h'"
  have cell: "fst s < length h'" "h' ! fst s = h ! fst s" using agree by (simp_all add: agree_on_def)
  then have same: "elems unwrap h' s = elems unwrap h s" by (simp add: elems_def)
  have each: "lay_ok L h' x \<and> lay_refs L h' x = lay_refs L h x \<and> lay_view L h' x = lay_view L h x"
    if "x \<in> set (elems unwrap h s)" for x
  proof (rule layoutD(2) [OF assms])
    show "lay_ok L h x" using okay that by simp
    show "agree_on (lay_refs L h x) h h'" using agree that by (auto simp: agree_on_def)
  qed
  have "(\<Union>x \<in> set (elems unwrap h s). lay_refs L h' x) = (\<Union>x \<in> set (elems unwrap h s). lay_refs L h x)"
    using each by simp
  moreover have "map (lay_view L h') (elems unwrap h s) = map (lay_view L h) (elems unwrap h s)"
    using each by simp
  ultimately show "lay_ok (slice_layout unwrap L) h' s
      \<and> lay_refs (slice_layout unwrap L) h' s = lay_refs (slice_layout unwrap L) h s
      \<and> lay_view (slice_layout unwrap L) h' s = lay_view (slice_layout unwrap L) h s"
    unfolding slice_layout_simps same using okay each cell by simp
qed

text \<open>An element copied so far: it reads as the original did, and refers to memory after the new array.\<close>

definition elem_copied :: "('e, 'c, 'v) layout \<Rightarrow> 'c list \<Rightarrow> 'c list \<Rightarrow> 'e \<Rightarrow> 'e \<Rightarrow> bool" where
  "elem_copied L h0 h x y \<longleftrightarrow>
     lay_ok L h y \<and> lay_refs L h y \<subseteq> {Suc (length h0)..} \<and> lay_view L h y = lay_view L h0 x"

lemma elem_copied_step:
  assumes "sound_layout L" "elem_copied L h0 h x y" "prefix h h1"
  shows "elem_copied L h0 (h1[length h0 := c]) x y"
proof -
  have old: "lay_ok L h y" "lay_refs L h y \<subseteq> {Suc (length h0)..}" "lay_view L h y = lay_view L h0 x"
    using assms(2) by (simp_all add: elem_copied_def)
  note keep = prefix_keeps [OF assms(1) old(1) assms(3)]
  have "length h0 \<notin> lay_refs L h1 y" using old(2) keep(2) by auto
  from write_elsewhere [OF assms(1) keep(1) this, of c] keep old show ?thesis by (simp add: elem_copied_def)
qed

lemma prefix_update: "prefix h0 h \<Longrightarrow> prefix h0 (h[length h0 := c])"
  by (auto simp: prefix_def list_update_append)

lemma copy_elems_result:
  assumes copier: "deep_copier copy L" and wrap: "\<And>ys. unwrap (wrap ys) = ys"
    and src: "src < length h0" "n \<le> length (unwrap (h0 ! src))"
    and each: "\<forall>x \<in> set (elems unwrap h0 (src, n)). lay_ok L h0 x"
  shows "k + length ks = n \<Longrightarrow> ks = [k..<n] \<Longrightarrow> prefix h0 h \<Longrightarrow> length h0 < length h \<Longrightarrow>
     length ys = k \<Longrightarrow> unwrap (h ! length h0) = ys @ replicate (n - k) zero \<Longrightarrow>
     list_all2 (elem_copied L h0 h) (take k (elems unwrap h0 (src, n))) ys \<Longrightarrow>
     \<exists>zs. prefix h0 (copy_elems wrap unwrap copy src (length h0) ks h)
        \<and> length h0 < length (copy_elems wrap unwrap copy src (length h0) ks h)
        \<and> unwrap (copy_elems wrap unwrap copy src (length h0) ks h ! length h0) = zs
        \<and> list_all2 (elem_copied L h0 (copy_elems wrap unwrap copy src (length h0) ks h)) (elems unwrap h0 (src, n)) zs"
proof (induction ks arbitrary: k h ys)
  case Nil
  then have "k = n" by simp
  then show ?case using Nil.prems src by (simp add: elems_def)
next
  case (Cons i js)
  have i: "i = k" "k < n" "js = [Suc k..<n]" using Cons.prems(2) [symmetric] by (auto simp: upt_eq_Cons_conv)
  note L = deep_copier_sound [OF copier]
  let ?d = "length h0" and ?xs = "elems unwrap h0 (src, n)"
  have xs: "length ?xs = n" "unwrap (h ! src) ! k = ?xs ! k"
    using src Cons.prems(3) i(2) by (auto simp: elems_def prefix_def nth_append)
  have okx: "lay_ok L h0 (?xs ! k)" using each xs(1) i(2) by simp
  note now = prefix_keeps [OF L okx Cons.prems(3)]
  obtain y h1 where y: "copy (?xs ! k) h = (y, h1)" by (cases "copy (?xs ! k) h")
  note cp = deep_copierD [OF copier now(1) y]
  let ?h2 = "h1[?d := wrap ((unwrap (h1 ! ?d))[k := y])]"
  have d: "?d < length h1" "h1 ! ?d = h ! ?d"
    using cp(1) Cons.prems(4) by (auto simp: prefix_def nth_append)
  have arr: "unwrap (?h2 ! ?d) = (ys @ [y]) @ replicate (n - Suc k) zero"
  proof -
    have "n - k = Suc (n - Suc k)" using i(2) by simp
    then show ?thesis using d Cons.prems(5,6) by (simp add: wrap list_update_append)
  qed
  have p2: "prefix h0 ?h2"
    by (rule prefix_update [OF prefix_order.trans [OF Cons.prems(3) cp(1)]])
  have "?d \<notin> lay_refs L h1 y" using cp(3) Cons.prems(4) by auto
  from write_elsewhere [OF L cp(2) this] cp(3,4) now(3) Cons.prems(4)
  have new: "elem_copied L h0 ?h2 (?xs ! k) y" by (auto simp: elem_copied_def)
  have "list_all2 (elem_copied L h0 ?h2) (take k ?xs) ys"
    using Cons.prems(7) by (rule list_all2_mono) (rule elem_copied_step [OF L _ cp(1)])
  then have all: "list_all2 (elem_copied L h0 ?h2) (take (Suc k) ?xs) (ys @ [y])"
    using new xs(1) i(2) by (simp add: take_Suc_conv_app_nth list_all2_appendI)
  have run: "copy_elems wrap unwrap copy src ?d (i # js) h = copy_elems wrap unwrap copy src ?d js ?h2"
    by (simp add: i(1) xs(2) y)
  show ?case
    unfolding run
    by (rule Cons.IH [where k = "Suc k" and ys = "ys @ [y]"])
      (use Cons.prems(1,5) i(3) p2 d(1) arr all in simp_all)
qed

lemma slice_copier:
  assumes copier: "deep_copier copy L" and wrap: "\<And>ys. unwrap (wrap ys) = ys"
  shows "deep_copier (copy_slice wrap unwrap zero copy) (slice_layout unwrap L)"
proof (rule deep_copierI)
  note L = deep_copier_sound [OF copier]
  show "sound_layout (slice_layout unwrap L)" by (rule slice_sound [OF L])
  fix h0 s t h'
  assume okay: "lay_ok (slice_layout unwrap L) h0 s" and run: "copy_slice wrap unwrap zero copy s h0 = (t, h')"
  obtain src n where s: "s = (src, n)" by (cases s)
  let ?h = "h0 @ [wrap (replicate n zero)]"
  have t: "t = (length h0, n)" and h': "h' = copy_elems wrap unwrap copy src (length h0) [0..<n] ?h"
    using run by (simp_all add: copy_slice_def s Let_def)
  have src: "src < length h0" "n \<le> length (unwrap (h0 ! src))"
    and each: "\<forall>x \<in> set (elems unwrap h0 (src, n)). lay_ok L h0 x" using okay by (simp_all add: s)
  obtain zs where pre: "prefix h0 h'" and len: "length h0 < length h'" and arr: "unwrap (h' ! length h0) = zs"
    and all: "list_all2 (elem_copied L h0 h') (elems unwrap h0 (src, n)) zs"
    using copy_elems_result [OF copier wrap src each, where k = 0 and ks = "[0..<n]" and h = ?h and ys = "[]" and zero = zero]
    by (auto simp: wrap h')
  have "length zs = n" using list_all2_lengthD [OF all] src by (simp add: elems_def)
  then have zs: "elems unwrap h' t = zs" by (simp add: elems_def t arr)
  have each': "lay_ok L h' z \<and> lay_refs L h' z \<subseteq> {length h0..}" if z: "z \<in> set zs" for z
  proof -
    obtain j where "j < length zs" "z = zs ! j" using z by (auto simp: in_set_conv_nth)
    then have "elem_copied L h0 h' (elems unwrap h0 (src, n) ! j) z"
      using all by (simp add: list_all2_conv_all_nth)
    then show ?thesis by (auto simp: elem_copied_def)
  qed
  have "map (lay_view L h') zs = map (lay_view L h0) (elems unwrap h0 s)"
    using all by (auto simp: list_all2_conv_all_nth elem_copied_def s intro!: nth_equalityI)
  then show "prefix h0 h' \<and> lay_ok (slice_layout unwrap L) h' t \<and> lay_refs (slice_layout unwrap L) h' t \<subseteq> {length h0..}
      \<and> lay_view (slice_layout unwrap L) h' t = lay_view (slice_layout unwrap L) h0 s"
    unfolding slice_layout_simps zs using pre len each' \<open>length zs = n\<close> by (auto simp: t arr)
qed

text \<open>An array of values without references, copied by the built-in \<^verbatim>\<open>copy(*out, *in)\<close> after the \<^verbatim>\<open>make\<close>.\<close>

definition copy_array :: "('e list \<Rightarrow> 'c) \<Rightarrow> ('c \<Rightarrow> 'e list) \<Rightarrow> 'e \<Rightarrow> (nat \<times> nat, 'c) copier" where
  "copy_array wrap unwrap zero s h =
     (let (src, n) = s; dst = length h; h1 = h @ [wrap (replicate n zero)];
          xs = take n (unwrap (h1 ! src))
      in ((dst, n), h1[dst := wrap (xs @ drop (length xs) (unwrap (h1 ! dst)))]))"

lemma array_copier:
  assumes wrap: "\<And>ys. unwrap (wrap ys) = ys"
  shows "deep_copier (copy_array wrap unwrap zero) (slice_layout unwrap flat_layout)"
proof (rule deep_copierI)
  show "sound_layout (slice_layout unwrap flat_layout)"
    by (rule slice_sound [OF deep_copier_sound [OF flat_copier]])
  fix h s t h'
  assume okay: "lay_ok (slice_layout unwrap flat_layout) h s" and run: "copy_array wrap unwrap zero s h = (t, h')"
  obtain src n where s: "s = (src, n)" by (cases s)
  have src: "src < length h" "n \<le> length (unwrap (h ! src))" using okay by (simp_all add: s)
  then have t: "t = (length h, n)" and h': "h' = h @ [wrap (take n (unwrap (h ! src)))]"
    using run by (simp_all add: copy_array_def s Let_def nth_append wrap)
  show "prefix h h' \<and> lay_ok (slice_layout unwrap flat_layout) h' t
      \<and> lay_refs (slice_layout unwrap flat_layout) h' t \<subseteq> {length h..}
      \<and> lay_view (slice_layout unwrap flat_layout) h' t = lay_view (slice_layout unwrap flat_layout) h s"
    using src by (auto simp: t h' s wrap elems_def flat_layout_def)
qed

subsection \<open>Pointers\<close>

text \<open>
  A pointer is to a cell of its own.  \<open>new_copy\<close> is the body of a generated \<^verbatim>\<open>DeepCopy\<close>:
  \<^verbatim>\<open>if in == nil { return nil }; out := new(T); in.DeepCopyInto(out); return out\<close>.
\<close>

definition new_copy :: "('e list \<Rightarrow> 'c) \<Rightarrow> ('c \<Rightarrow> 'e list) \<Rightarrow> 'e \<Rightarrow> ('e, 'c) copier \<Rightarrow> (nat option, 'c) copier" where
  "new_copy wrap unwrap zero into p h =
     (case p of
        None \<Rightarrow> (None, h)
      | Some a \<Rightarrow>
          (let out = length h; (v, h1) = into (hd (unwrap (h ! a))) (h @ [wrap [zero]]) in (Some out, h1[out := wrap [v]])))"

definition pointer_layout :: "('c \<Rightarrow> 'e list) \<Rightarrow> ('e, 'c, 'v) layout \<Rightarrow> (nat option, 'c, 'v option) layout" where
  "pointer_layout unwrap L =
     \<lparr>lay_ok = (\<lambda>h p. case p of None \<Rightarrow> True | Some a \<Rightarrow> a < length h \<and> (\<exists>x. unwrap (h ! a) = [x] \<and> lay_ok L h x)),
      lay_refs = (\<lambda>h p. case p of None \<Rightarrow> {} | Some a \<Rightarrow> insert a (lay_refs L h (hd (unwrap (h ! a))))),
      lay_view = (\<lambda>h p. map_option (\<lambda>a. lay_view L h (hd (unwrap (h ! a)))) p)\<rparr>"

lemma pointer_layout_simps [simp]:
  "lay_ok (pointer_layout unwrap L) h None" "lay_refs (pointer_layout unwrap L) h None = {}"
  "lay_view (pointer_layout unwrap L) h None = None"
  "lay_ok (pointer_layout unwrap L) h (Some a) \<longleftrightarrow> a < length h \<and> (\<exists>x. unwrap (h ! a) = [x] \<and> lay_ok L h x)"
  "lay_refs (pointer_layout unwrap L) h (Some a) = insert a (lay_refs L h (hd (unwrap (h ! a))))"
  "lay_view (pointer_layout unwrap L) h (Some a) = Some (lay_view L h (hd (unwrap (h ! a))))"
  by (simp_all add: pointer_layout_def)

lemma pointer_sound:
  assumes "sound_layout L"
  shows "sound_layout (pointer_layout unwrap L)"
proof (rule sound_layoutI)
  show "lay_refs (pointer_layout unwrap L) h p \<subseteq> {..<length h}" if "lay_ok (pointer_layout unwrap L) h p" for h p
    using that layoutD(1) [OF assms] by (cases p) fastforce+
  fix h h' p
  assume okay: "lay_ok (pointer_layout unwrap L) h p" and agree: "agree_on (lay_refs (pointer_layout unwrap L) h p) h h'"
  show "lay_ok (pointer_layout unwrap L) h' p
      \<and> lay_refs (pointer_layout unwrap L) h' p = lay_refs (pointer_layout unwrap L) h p
      \<and> lay_view (pointer_layout unwrap L) h' p = lay_view (pointer_layout unwrap L) h p"
  proof (cases p)
    case (Some a)
    obtain x where x: "unwrap (h ! a) = [x]" "lay_ok L h x" using okay Some by auto
    have cell: "a < length h'" "h' ! a = h ! a" and "agree_on (lay_refs L h x) h h'"
      using agree Some x by (simp_all add: agree_on_def)
    from layoutD(2) [OF assms x(2) this(3)] cell x show ?thesis by (simp add: Some)
  qed simp
qed

lemma pointer_copier:
  assumes copier: "deep_copier into L" and wrap: "\<And>ys. unwrap (wrap ys) = ys"
  shows "deep_copier (new_copy wrap unwrap zero into) (pointer_layout unwrap L)"
proof (rule deep_copierI)
  note L = deep_copier_sound [OF copier]
  show "sound_layout (pointer_layout unwrap L)" by (rule pointer_sound [OF L])
  fix h0 p q h'
  assume okay: "lay_ok (pointer_layout unwrap L) h0 p" and run: "new_copy wrap unwrap zero into p h0 = (q, h')"
  show "prefix h0 h' \<and> lay_ok (pointer_layout unwrap L) h' q \<and> lay_refs (pointer_layout unwrap L) h' q \<subseteq> {length h0..}
      \<and> lay_view (pointer_layout unwrap L) h' q = lay_view (pointer_layout unwrap L) h0 p"
  proof (cases p)
    case None
    then show ?thesis using run by (simp add: new_copy_def)
  next
    case (Some a)
    obtain x where x: "unwrap (h0 ! a) = [x]" "lay_ok L h0 x" using okay Some by auto
    let ?h = "h0 @ [wrap [zero]]"
    obtain v h1 where v: "into x ?h = (v, h1)" by (cases "into x ?h")
    have q: "q = Some (length h0)" and h': "h' = h1[length h0 := wrap [v]]"
      using run Some x v by (simp_all add: new_copy_def Let_def)
    note now = prefix_keeps [OF L x(2) prefixI [OF refl, of h0 "[wrap [zero]]"]]
    note cp = deep_copierD [OF copier now(1) v]
    have len: "length h0 < length h1" using prefix_length_le [OF cp(1)] by simp
    have "length h0 \<notin> lay_refs L h1 v" using cp(3) by auto
    note fresh = write_elsewhere [OF L cp(2) this, of "wrap [v]"]
    have cell: "unwrap (h' ! length h0) = [v]" using len by (simp add: h' wrap)
    have "prefix h0 h'"
      unfolding h' by (rule prefix_update [OF prefix_order.trans [OF prefixI [OF refl] cp(1)]])
    moreover have "lay_ok L h' v" "lay_refs L h' v \<subseteq> {length h0..}" "lay_view L h' v = lay_view L h0 x"
      using fresh cp(3,4) now(3) by (auto simp: h')
    ultimately show ?thesis using len cell x Some by (simp add: q h')
  qed
qed

end
