(* ===== verification/DeepCopy.thy ===== *)
theory DeepCopy
  imports GoHeap OperatorApi
begin

text \<open>
  \<^verbatim>\<open>apps/benchmark-operator/api/v1/zz_generated.deepcopy.go\<close>: the deep copies of the custom resources.  The
  caches of the operator hand every reconcile a deep copy of the object they keep, and the reconcile
  writes to it; here the objects are laid out in memory, and what is proved is that such writes are not
  seen by the cache.
\<close>

subsection \<open>The resources in memory\<close>

text \<open>
  Times are pointers, conditions and items slices; \<open>'m\<close>, \<open>'l\<close>, \<open>'k\<close> and \<open>'t\<close> are the library's
  \<^verbatim>\<open>ObjectMeta\<close>, \<^verbatim>\<open>ListMeta\<close>, \<^verbatim>\<open>Condition\<close> and \<^verbatim>\<open>*Time\<close>.  The specs without references are the records of
  \<open>OperatorApi\<close>.
\<close>

type_synonym slice = "(nat \<times> nat) option"
type_synonym type_meta = "string \<times> string"

record 't RunStatusMem =
  rsm_Phase :: string
  rsm_StartedAt :: "'t option"
  rsm_EndedAt :: "'t option"
  rsm_SubmissionEndpoint :: string
  rsm_OracleEndpoint :: string
  rsm_GatewayEndpoint :: string
  rsm_Conditions :: slice

record ('m, 't) RunMem =
  rm_TypeMeta :: type_meta
  rm_ObjectMeta :: 'm
  rm_Spec :: BenchmarkRunSpec
  rm_Status :: "'t RunStatusMem"

record SubmissionStatusMem =
  ssm_Phase :: string
  ssm_ImageDigest :: string
  ssm_RejectReason :: string
  ssm_Conditions :: slice

record 'm SubmissionMem =
  sm_TypeMeta :: type_meta
  sm_ObjectMeta :: 'm
  sm_Spec :: SubmissionSpec
  sm_Status :: SubmissionStatusMem

record ScenarioStatusMem =
  scm_ContentHash :: string
  scm_Conditions :: slice

record 'm ScenarioMem =
  cm_TypeMeta :: type_meta
  cm_ObjectMeta :: 'm
  cm_Spec :: ScenarioSpec
  cm_Status :: ScenarioStatusMem

record BotSwarmSpecMem =
  bsm_MaxWorkers :: i32
  bsm_Protocols :: slice
  bsm_OrderMix :: OrderMixProfile

record BotSwarmStatusMem =
  btm_Conditions :: slice

record 'm BotSwarmMem =
  bm_TypeMeta :: type_meta
  bm_ObjectMeta :: 'm
  bm_Spec :: BotSwarmSpecMem
  bm_Status :: BotSwarmStatusMem

text \<open>The four list types differ in their items only.\<close>

record 'l ListMem =
  lm_TypeMeta :: type_meta
  lm_ListMeta :: 'l
  lm_Items :: slice

text \<open>A cell is an array, or a struct of its own as an array of one; \<open>'z\<close> is memory of the library.\<close>

datatype ('m, 'l, 'k, 't, 'z) cell =
    Foreign (the_foreign: 'z)
  | Conditions (the_conditions: "'k list")
  | Strings (the_strings: "string list")
  | Runs (the_runs: "('m, 't) RunMem list")
  | RunSpecs (the_run_specs: "BenchmarkRunSpec list")
  | RunStatuses (the_run_statuses: "'t RunStatusMem list")
  | Submissions (the_submissions: "'m SubmissionMem list")
  | SubmissionSpecs (the_submission_specs: "SubmissionSpec list")
  | SubmissionStatuses (the_submission_statuses: "SubmissionStatusMem list")
  | Scenarios (the_scenarios: "'m ScenarioMem list")
  | ScenarioSpecs (the_scenario_specs: "ScenarioSpec list")
  | ScenarioStatuses (the_scenario_statuses: "ScenarioStatusMem list")
  | Targets (the_targets: "ScenarioTargets list")
  | BotSwarms (the_botswarms: "'m BotSwarmMem list")
  | BotSwarmSpecs (the_botswarm_specs: "BotSwarmSpecMem list")
  | BotSwarmStatuses (the_botswarm_statuses: "BotSwarmStatusMem list")
  | OrderMixes (the_order_mixes: "OrderMixProfile list")
  | Lists (the_lists: "'l ListMem list")

text \<open>The copiers of the library's types, and its zero values.\<close>

record ('m, 'l, 'k, 't, 'z) apimachinery =
  ObjectMeta_DeepCopyInto :: "('m, ('m, 'l, 'k, 't, 'z) cell) copier"
  ListMeta_DeepCopyInto :: "('l, ('m, 'l, 'k, 't, 'z) cell) copier"
  Condition_DeepCopyInto :: "('k, ('m, 'l, 'k, 't, 'z) cell) copier"
  Time_DeepCopy :: "('t, ('m, 'l, 'k, 't, 'z) cell) copier"
  zero_ObjectMeta :: 'm
  zero_ListMeta :: 'l
  zero_Condition :: 'k

subsection \<open>\<^verbatim>\<open>DeepCopyInto\<close>\<close>

text \<open>
  \<open>DeepCopyInto A inn h\<close> is the struct that ends up in \<^verbatim>\<open>*out\<close>, and the heap.  \<^verbatim>\<open>*out = *in\<close> comes first;
  then the fields that refer to memory are replaced.
\<close>

definition copy_conditions ::
    "('m, 'l, 'k, 't, 'z) apimachinery \<Rightarrow> (slice, ('m, 'l, 'k, 't, 'z) cell) copier" where
  "copy_conditions A =
     copy_non_nil (copy_slice Conditions the_conditions (zero_Condition A) (Condition_DeepCopyInto A))"

definition BenchmarkRunSpec_DeepCopyInto ::
    "('m, 'l, 'k, 't, 'z) apimachinery \<Rightarrow> (BenchmarkRunSpec, ('m, 'l, 'k, 't, 'z) cell) copier" where
  "BenchmarkRunSpec_DeepCopyInto A inn h = copy_flat inn h"

definition BenchmarkRunStatus_DeepCopyInto ::
    "('m, 'l, 'k, 't, 'z) apimachinery \<Rightarrow> ('t RunStatusMem, ('m, 'l, 'k, 't, 'z) cell) copier" where
  "BenchmarkRunStatus_DeepCopyInto A inn h =
     (let (started, h) = copy_non_nil (Time_DeepCopy A) (rsm_StartedAt inn) h;
          (ended, h) = copy_non_nil (Time_DeepCopy A) (rsm_EndedAt inn) h;
          (conditions, h) = copy_conditions A (rsm_Conditions inn) h
      in (inn\<lparr>rsm_StartedAt := started, rsm_EndedAt := ended, rsm_Conditions := conditions\<rparr>, h))"

definition BenchmarkRun_DeepCopyInto ::
    "('m, 'l, 'k, 't, 'z) apimachinery \<Rightarrow> (('m, 't) RunMem, ('m, 'l, 'k, 't, 'z) cell) copier" where
  "BenchmarkRun_DeepCopyInto A inn h =
     (let (objm, h) = ObjectMeta_DeepCopyInto A (rm_ObjectMeta inn) h;
          (status, h) = BenchmarkRunStatus_DeepCopyInto A (rm_Status inn) h
      in (inn\<lparr>rm_ObjectMeta := objm, rm_Status := status\<rparr>, h))"

definition SubmissionSpec_DeepCopyInto ::
    "('m, 'l, 'k, 't, 'z) apimachinery \<Rightarrow> (SubmissionSpec, ('m, 'l, 'k, 't, 'z) cell) copier" where
  "SubmissionSpec_DeepCopyInto A inn h = copy_flat inn h"

definition SubmissionStatus_DeepCopyInto ::
    "('m, 'l, 'k, 't, 'z) apimachinery \<Rightarrow> (SubmissionStatusMem, ('m, 'l, 'k, 't, 'z) cell) copier" where
  "SubmissionStatus_DeepCopyInto A inn h =
     (let (conditions, h) = copy_conditions A (ssm_Conditions inn) h in (inn\<lparr>ssm_Conditions := conditions\<rparr>, h))"

definition Submission_DeepCopyInto ::
    "('m, 'l, 'k, 't, 'z) apimachinery \<Rightarrow> ('m SubmissionMem, ('m, 'l, 'k, 't, 'z) cell) copier" where
  "Submission_DeepCopyInto A inn h =
     (let (objm, h) = ObjectMeta_DeepCopyInto A (sm_ObjectMeta inn) h;
          (status, h) = SubmissionStatus_DeepCopyInto A (sm_Status inn) h
      in (inn\<lparr>sm_ObjectMeta := objm, sm_Status := status\<rparr>, h))"

definition ScenarioTargets_DeepCopyInto ::
    "('m, 'l, 'k, 't, 'z) apimachinery \<Rightarrow> (ScenarioTargets, ('m, 'l, 'k, 't, 'z) cell) copier" where
  "ScenarioTargets_DeepCopyInto A inn h = copy_flat inn h"

definition ScenarioSpec_DeepCopyInto ::
    "('m, 'l, 'k, 't, 'z) apimachinery \<Rightarrow> (ScenarioSpec, ('m, 'l, 'k, 't, 'z) cell) copier" where
  "ScenarioSpec_DeepCopyInto A inn h = copy_flat inn h"

definition ScenarioStatus_DeepCopyInto ::
    "('m, 'l, 'k, 't, 'z) apimachinery \<Rightarrow> (ScenarioStatusMem, ('m, 'l, 'k, 't, 'z) cell) copier" where
  "ScenarioStatus_DeepCopyInto A inn h =
     (let (conditions, h) = copy_conditions A (scm_Conditions inn) h in (inn\<lparr>scm_Conditions := conditions\<rparr>, h))"

definition Scenario_DeepCopyInto ::
    "('m, 'l, 'k, 't, 'z) apimachinery \<Rightarrow> ('m ScenarioMem, ('m, 'l, 'k, 't, 'z) cell) copier" where
  "Scenario_DeepCopyInto A inn h =
     (let (objm, h) = ObjectMeta_DeepCopyInto A (cm_ObjectMeta inn) h;
          (status, h) = ScenarioStatus_DeepCopyInto A (cm_Status inn) h
      in (inn\<lparr>cm_ObjectMeta := objm, cm_Status := status\<rparr>, h))"

definition OrderMixProfile_DeepCopyInto ::
    "('m, 'l, 'k, 't, 'z) apimachinery \<Rightarrow> (OrderMixProfile, ('m, 'l, 'k, 't, 'z) cell) copier" where
  "OrderMixProfile_DeepCopyInto A inn h = copy_flat inn h"

definition BotSwarmSpec_DeepCopyInto ::
    "('m, 'l, 'k, 't, 'z) apimachinery \<Rightarrow> (BotSwarmSpecMem, ('m, 'l, 'k, 't, 'z) cell) copier" where
  "BotSwarmSpec_DeepCopyInto A inn h =
     (let (protocols, h) = copy_non_nil (copy_array Strings the_strings []) (bsm_Protocols inn) h
      in (inn\<lparr>bsm_Protocols := protocols\<rparr>, h))"

definition BotSwarmStatus_DeepCopyInto ::
    "('m, 'l, 'k, 't, 'z) apimachinery \<Rightarrow> (BotSwarmStatusMem, ('m, 'l, 'k, 't, 'z) cell) copier" where
  "BotSwarmStatus_DeepCopyInto A inn h =
     (let (conditions, h) = copy_conditions A (btm_Conditions inn) h in (inn\<lparr>btm_Conditions := conditions\<rparr>, h))"

definition BotSwarm_DeepCopyInto ::
    "('m, 'l, 'k, 't, 'z) apimachinery \<Rightarrow> ('m BotSwarmMem, ('m, 'l, 'k, 't, 'z) cell) copier" where
  "BotSwarm_DeepCopyInto A inn h =
     (let (objm, h) = ObjectMeta_DeepCopyInto A (bm_ObjectMeta inn) h;
          (spec, h) = BotSwarmSpec_DeepCopyInto A (bm_Spec inn) h;
          (status, h) = BotSwarmStatus_DeepCopyInto A (bm_Status inn) h
      in (inn\<lparr>bm_ObjectMeta := objm, bm_Spec := spec, bm_Status := status\<rparr>, h))"

text \<open>The zero values \<^verbatim>\<open>make\<close> and \<^verbatim>\<open>new\<close> fill fresh memory with.\<close>

definition zero_run_spec :: BenchmarkRunSpec where
  "zero_run_spec = \<lparr>brs_SubmissionRef = [], brs_ScenarioRef = [], brs_BotSwarmRef = [], brs_Seed = 0\<rparr>"

definition zero_run_status :: "'t RunStatusMem" where
  "zero_run_status =
     \<lparr>rsm_Phase = [], rsm_StartedAt = None, rsm_EndedAt = None, rsm_SubmissionEndpoint = [],
      rsm_OracleEndpoint = [], rsm_GatewayEndpoint = [], rsm_Conditions = None\<rparr>"

definition zero_run :: "('m, 'l, 'k, 't, 'z) apimachinery \<Rightarrow> ('m, 't) RunMem" where
  "zero_run A =
     \<lparr>rm_TypeMeta = ([], []), rm_ObjectMeta = zero_ObjectMeta A, rm_Spec = zero_run_spec,
      rm_Status = zero_run_status\<rparr>"

definition zero_submission_spec :: SubmissionSpec where
  "zero_submission_spec = \<lparr>subs_Sha256 = [], subs_Language = []\<rparr>"

definition zero_submission_status :: SubmissionStatusMem where
  "zero_submission_status =
     \<lparr>ssm_Phase = [], ssm_ImageDigest = [], ssm_RejectReason = [], ssm_Conditions = None\<rparr>"

definition zero_submission :: "('m, 'l, 'k, 't, 'z) apimachinery \<Rightarrow> 'm SubmissionMem" where
  "zero_submission A =
     \<lparr>sm_TypeMeta = ([], []), sm_ObjectMeta = zero_ObjectMeta A, sm_Spec = zero_submission_spec,
      sm_Status = zero_submission_status\<rparr>"

definition zero_targets :: ScenarioTargets where
  "zero_targets = \<lparr>tg_P50Us = 0, tg_P99Us = 0, tg_TPS = 0\<rparr>"

definition zero_scenario_spec :: ScenarioSpec where
  "zero_scenario_spec =
     \<lparr>scs_YAMLSpec = [], scs_Seed = 0, scs_DurationSeconds = 0, scs_Targets = zero_targets\<rparr>"

definition zero_scenario_status :: ScenarioStatusMem where
  "zero_scenario_status = \<lparr>scm_ContentHash = [], scm_Conditions = None\<rparr>"

definition zero_scenario :: "('m, 'l, 'k, 't, 'z) apimachinery \<Rightarrow> 'm ScenarioMem" where
  "zero_scenario A =
     \<lparr>cm_TypeMeta = ([], []), cm_ObjectMeta = zero_ObjectMeta A, cm_Spec = zero_scenario_spec,
      cm_Status = zero_scenario_status\<rparr>"

definition zero_order_mix :: OrderMixProfile where
  "zero_order_mix = \<lparr>om_LimitFraction = [], om_IocFraction = [], om_CancelFraction = []\<rparr>"

definition zero_botswarm_spec :: BotSwarmSpecMem where
  "zero_botswarm_spec = \<lparr>bsm_MaxWorkers = 0, bsm_Protocols = None, bsm_OrderMix = zero_order_mix\<rparr>"

definition zero_botswarm_status :: BotSwarmStatusMem where
  "zero_botswarm_status = \<lparr>btm_Conditions = None\<rparr>"

definition zero_botswarm :: "('m, 'l, 'k, 't, 'z) apimachinery \<Rightarrow> 'm BotSwarmMem" where
  "zero_botswarm A =
     \<lparr>bm_TypeMeta = ([], []), bm_ObjectMeta = zero_ObjectMeta A, bm_Spec = zero_botswarm_spec,
      bm_Status = zero_botswarm_status\<rparr>"

definition zero_list :: "('m, 'l, 'k, 't, 'z) apimachinery \<Rightarrow> 'l ListMem" where
  "zero_list A = \<lparr>lm_TypeMeta = ([], []), lm_ListMeta = zero_ListMeta A, lm_Items = None\<rparr>"

text \<open>The lists: their items are copied into an array of their own.\<close>

definition BenchmarkRunList_DeepCopyInto ::
    "('m, 'l, 'k, 't, 'z) apimachinery \<Rightarrow> ('l ListMem, ('m, 'l, 'k, 't, 'z) cell) copier" where
  "BenchmarkRunList_DeepCopyInto A inn h =
     (let (lsm, h) = ListMeta_DeepCopyInto A (lm_ListMeta inn) h;
          (items, h) = copy_non_nil (copy_slice Runs the_runs (zero_run A) (BenchmarkRun_DeepCopyInto A)) (lm_Items inn) h
      in (inn\<lparr>lm_ListMeta := lsm, lm_Items := items\<rparr>, h))"

definition SubmissionList_DeepCopyInto ::
    "('m, 'l, 'k, 't, 'z) apimachinery \<Rightarrow> ('l ListMem, ('m, 'l, 'k, 't, 'z) cell) copier" where
  "SubmissionList_DeepCopyInto A inn h =
     (let (lsm, h) = ListMeta_DeepCopyInto A (lm_ListMeta inn) h;
          (items, h) = copy_non_nil (copy_slice Submissions the_submissions (zero_submission A) (Submission_DeepCopyInto A)) (lm_Items inn) h
      in (inn\<lparr>lm_ListMeta := lsm, lm_Items := items\<rparr>, h))"

definition ScenarioList_DeepCopyInto ::
    "('m, 'l, 'k, 't, 'z) apimachinery \<Rightarrow> ('l ListMem, ('m, 'l, 'k, 't, 'z) cell) copier" where
  "ScenarioList_DeepCopyInto A inn h =
     (let (lsm, h) = ListMeta_DeepCopyInto A (lm_ListMeta inn) h;
          (items, h) = copy_non_nil (copy_slice Scenarios the_scenarios (zero_scenario A) (Scenario_DeepCopyInto A)) (lm_Items inn) h
      in (inn\<lparr>lm_ListMeta := lsm, lm_Items := items\<rparr>, h))"

definition BotSwarmList_DeepCopyInto ::
    "('m, 'l, 'k, 't, 'z) apimachinery \<Rightarrow> ('l ListMem, ('m, 'l, 'k, 't, 'z) cell) copier" where
  "BotSwarmList_DeepCopyInto A inn h =
     (let (lsm, h) = ListMeta_DeepCopyInto A (lm_ListMeta inn) h;
          (items, h) = copy_non_nil (copy_slice BotSwarms the_botswarms (zero_botswarm A) (BotSwarm_DeepCopyInto A)) (lm_Items inn) h
      in (inn\<lparr>lm_ListMeta := lsm, lm_Items := items\<rparr>, h))"

subsection \<open>\<^verbatim>\<open>DeepCopy\<close> and \<^verbatim>\<open>DeepCopyObject\<close>\<close>

definition BenchmarkRun_DeepCopy ::
    "('m, 'l, 'k, 't, 'z) apimachinery \<Rightarrow> (nat option, ('m, 'l, 'k, 't, 'z) cell) copier" where
  "BenchmarkRun_DeepCopy A = new_copy Runs the_runs (zero_run A) (BenchmarkRun_DeepCopyInto A)"

definition Submission_DeepCopy ::
    "('m, 'l, 'k, 't, 'z) apimachinery \<Rightarrow> (nat option, ('m, 'l, 'k, 't, 'z) cell) copier" where
  "Submission_DeepCopy A = new_copy Submissions the_submissions (zero_submission A) (Submission_DeepCopyInto A)"

definition Scenario_DeepCopy ::
    "('m, 'l, 'k, 't, 'z) apimachinery \<Rightarrow> (nat option, ('m, 'l, 'k, 't, 'z) cell) copier" where
  "Scenario_DeepCopy A = new_copy Scenarios the_scenarios (zero_scenario A) (Scenario_DeepCopyInto A)"

definition BotSwarm_DeepCopy ::
    "('m, 'l, 'k, 't, 'z) apimachinery \<Rightarrow> (nat option, ('m, 'l, 'k, 't, 'z) cell) copier" where
  "BotSwarm_DeepCopy A = new_copy BotSwarms the_botswarms (zero_botswarm A) (BotSwarm_DeepCopyInto A)"

definition BenchmarkRunSpec_DeepCopy ::
    "('m, 'l, 'k, 't, 'z) apimachinery \<Rightarrow> (nat option, ('m, 'l, 'k, 't, 'z) cell) copier" where
  "BenchmarkRunSpec_DeepCopy A = new_copy RunSpecs the_run_specs zero_run_spec (BenchmarkRunSpec_DeepCopyInto A)"

definition BenchmarkRunStatus_DeepCopy ::
    "('m, 'l, 'k, 't, 'z) apimachinery \<Rightarrow> (nat option, ('m, 'l, 'k, 't, 'z) cell) copier" where
  "BenchmarkRunStatus_DeepCopy A = new_copy RunStatuses the_run_statuses zero_run_status (BenchmarkRunStatus_DeepCopyInto A)"

definition SubmissionSpec_DeepCopy ::
    "('m, 'l, 'k, 't, 'z) apimachinery \<Rightarrow> (nat option, ('m, 'l, 'k, 't, 'z) cell) copier" where
  "SubmissionSpec_DeepCopy A = new_copy SubmissionSpecs the_submission_specs zero_submission_spec (SubmissionSpec_DeepCopyInto A)"

definition SubmissionStatus_DeepCopy ::
    "('m, 'l, 'k, 't, 'z) apimachinery \<Rightarrow> (nat option, ('m, 'l, 'k, 't, 'z) cell) copier" where
  "SubmissionStatus_DeepCopy A = new_copy SubmissionStatuses the_submission_statuses zero_submission_status (SubmissionStatus_DeepCopyInto A)"

definition ScenarioSpec_DeepCopy ::
    "('m, 'l, 'k, 't, 'z) apimachinery \<Rightarrow> (nat option, ('m, 'l, 'k, 't, 'z) cell) copier" where
  "ScenarioSpec_DeepCopy A = new_copy ScenarioSpecs the_scenario_specs zero_scenario_spec (ScenarioSpec_DeepCopyInto A)"

definition ScenarioStatus_DeepCopy ::
    "('m, 'l, 'k, 't, 'z) apimachinery \<Rightarrow> (nat option, ('m, 'l, 'k, 't, 'z) cell) copier" where
  "ScenarioStatus_DeepCopy A = new_copy ScenarioStatuses the_scenario_statuses zero_scenario_status (ScenarioStatus_DeepCopyInto A)"

definition ScenarioTargets_DeepCopy ::
    "('m, 'l, 'k, 't, 'z) apimachinery \<Rightarrow> (nat option, ('m, 'l, 'k, 't, 'z) cell) copier" where
  "ScenarioTargets_DeepCopy A = new_copy Targets the_targets zero_targets (ScenarioTargets_DeepCopyInto A)"

definition BotSwarmSpec_DeepCopy ::
    "('m, 'l, 'k, 't, 'z) apimachinery \<Rightarrow> (nat option, ('m, 'l, 'k, 't, 'z) cell) copier" where
  "BotSwarmSpec_DeepCopy A = new_copy BotSwarmSpecs the_botswarm_specs zero_botswarm_spec (BotSwarmSpec_DeepCopyInto A)"

definition BotSwarmStatus_DeepCopy ::
    "('m, 'l, 'k, 't, 'z) apimachinery \<Rightarrow> (nat option, ('m, 'l, 'k, 't, 'z) cell) copier" where
  "BotSwarmStatus_DeepCopy A = new_copy BotSwarmStatuses the_botswarm_statuses zero_botswarm_status (BotSwarmStatus_DeepCopyInto A)"

definition OrderMixProfile_DeepCopy ::
    "('m, 'l, 'k, 't, 'z) apimachinery \<Rightarrow> (nat option, ('m, 'l, 'k, 't, 'z) cell) copier" where
  "OrderMixProfile_DeepCopy A = new_copy OrderMixes the_order_mixes zero_order_mix (OrderMixProfile_DeepCopyInto A)"

definition BenchmarkRunList_DeepCopy ::
    "('m, 'l, 'k, 't, 'z) apimachinery \<Rightarrow> (nat option, ('m, 'l, 'k, 't, 'z) cell) copier" where
  "BenchmarkRunList_DeepCopy A = new_copy Lists the_lists (zero_list A) (BenchmarkRunList_DeepCopyInto A)"

definition SubmissionList_DeepCopy ::
    "('m, 'l, 'k, 't, 'z) apimachinery \<Rightarrow> (nat option, ('m, 'l, 'k, 't, 'z) cell) copier" where
  "SubmissionList_DeepCopy A = new_copy Lists the_lists (zero_list A) (SubmissionList_DeepCopyInto A)"

definition ScenarioList_DeepCopy ::
    "('m, 'l, 'k, 't, 'z) apimachinery \<Rightarrow> (nat option, ('m, 'l, 'k, 't, 'z) cell) copier" where
  "ScenarioList_DeepCopy A = new_copy Lists the_lists (zero_list A) (ScenarioList_DeepCopyInto A)"

definition BotSwarmList_DeepCopy ::
    "('m, 'l, 'k, 't, 'z) apimachinery \<Rightarrow> (nat option, ('m, 'l, 'k, 't, 'z) cell) copier" where
  "BotSwarmList_DeepCopy A = new_copy Lists the_lists (zero_list A) (BotSwarmList_DeepCopyInto A)"

text \<open>
  A \<^verbatim>\<open>runtime.Object\<close> is nil or a pointer with its type: a nil pointer is turned into a nil interface.
\<close>

definition as_object :: "string \<Rightarrow> nat option \<times> 'c list \<Rightarrow> (string \<times> nat) option \<times> 'c list" where
  "as_object kind ch = (case ch of (Some c, h) \<Rightarrow> (Some (kind, c), h) | (None, h) \<Rightarrow> (None, h))"

definition BenchmarkRun_DeepCopyObject ::
    "('m, 'l, 'k, 't, 'z) apimachinery \<Rightarrow> nat option \<Rightarrow> ('m, 'l, 'k, 't, 'z) cell list
       \<Rightarrow> (string \<times> nat) option \<times> ('m, 'l, 'k, 't, 'z) cell list" where
  "BenchmarkRun_DeepCopyObject A p h = as_object ''BenchmarkRun'' (BenchmarkRun_DeepCopy A p h)"

definition Submission_DeepCopyObject ::
    "('m, 'l, 'k, 't, 'z) apimachinery \<Rightarrow> nat option \<Rightarrow> ('m, 'l, 'k, 't, 'z) cell list
       \<Rightarrow> (string \<times> nat) option \<times> ('m, 'l, 'k, 't, 'z) cell list" where
  "Submission_DeepCopyObject A p h = as_object ''Submission'' (Submission_DeepCopy A p h)"

definition Scenario_DeepCopyObject ::
    "('m, 'l, 'k, 't, 'z) apimachinery \<Rightarrow> nat option \<Rightarrow> ('m, 'l, 'k, 't, 'z) cell list
       \<Rightarrow> (string \<times> nat) option \<times> ('m, 'l, 'k, 't, 'z) cell list" where
  "Scenario_DeepCopyObject A p h = as_object ''Scenario'' (Scenario_DeepCopy A p h)"

definition BotSwarm_DeepCopyObject ::
    "('m, 'l, 'k, 't, 'z) apimachinery \<Rightarrow> nat option \<Rightarrow> ('m, 'l, 'k, 't, 'z) cell list
       \<Rightarrow> (string \<times> nat) option \<times> ('m, 'l, 'k, 't, 'z) cell list" where
  "BotSwarm_DeepCopyObject A p h = as_object ''BotSwarm'' (BotSwarm_DeepCopy A p h)"

definition BenchmarkRunList_DeepCopyObject ::
    "('m, 'l, 'k, 't, 'z) apimachinery \<Rightarrow> nat option \<Rightarrow> ('m, 'l, 'k, 't, 'z) cell list
       \<Rightarrow> (string \<times> nat) option \<times> ('m, 'l, 'k, 't, 'z) cell list" where
  "BenchmarkRunList_DeepCopyObject A p h = as_object ''BenchmarkRunList'' (BenchmarkRunList_DeepCopy A p h)"

definition SubmissionList_DeepCopyObject ::
    "('m, 'l, 'k, 't, 'z) apimachinery \<Rightarrow> nat option \<Rightarrow> ('m, 'l, 'k, 't, 'z) cell list
       \<Rightarrow> (string \<times> nat) option \<times> ('m, 'l, 'k, 't, 'z) cell list" where
  "SubmissionList_DeepCopyObject A p h = as_object ''SubmissionList'' (SubmissionList_DeepCopy A p h)"

definition ScenarioList_DeepCopyObject ::
    "('m, 'l, 'k, 't, 'z) apimachinery \<Rightarrow> nat option \<Rightarrow> ('m, 'l, 'k, 't, 'z) cell list
       \<Rightarrow> (string \<times> nat) option \<times> ('m, 'l, 'k, 't, 'z) cell list" where
  "ScenarioList_DeepCopyObject A p h = as_object ''ScenarioList'' (ScenarioList_DeepCopy A p h)"

definition BotSwarmList_DeepCopyObject ::
    "('m, 'l, 'k, 't, 'z) apimachinery \<Rightarrow> nat option \<Rightarrow> ('m, 'l, 'k, 't, 'z) cell list
       \<Rightarrow> (string \<times> nat) option \<times> ('m, 'l, 'k, 't, 'z) cell list" where
  "BotSwarmList_DeepCopyObject A p h = as_object ''BotSwarmList'' (BotSwarmList_DeepCopy A p h)"


subsection \<open>Layouts of the resources\<close>

text \<open>What a reader sees of a resource, and what it refers to, given the layouts of the library's types.\<close>

abbreviation conditions_layout where
  "conditions_layout LK \<equiv> option_layout (slice_layout the_conditions LK)"

definition run_status_layout where
  "run_status_layout LK LT =
     struct_layout (\<lambda>s. (rsm_StartedAt s, rsm_EndedAt s, rsm_Conditions s))
       (\<lambda>s. (rsm_Phase s, rsm_SubmissionEndpoint s, rsm_OracleEndpoint s, rsm_GatewayEndpoint s))
       (pair_layout (option_layout LT) (pair_layout (option_layout LT) (conditions_layout LK)))"

definition run_layout where
  "run_layout LM LK LT =
     struct_layout (\<lambda>r. (rm_ObjectMeta r, rm_Status r)) (\<lambda>r. (rm_TypeMeta r, rm_Spec r))
       (pair_layout LM (run_status_layout LK LT))"

definition submission_status_layout where
  "submission_status_layout LK =
     struct_layout ssm_Conditions (\<lambda>s. (ssm_Phase s, ssm_ImageDigest s, ssm_RejectReason s)) (conditions_layout LK)"

definition submission_layout where
  "submission_layout LM LK =
     struct_layout (\<lambda>r. (sm_ObjectMeta r, sm_Status r)) (\<lambda>r. (sm_TypeMeta r, sm_Spec r))
       (pair_layout LM (submission_status_layout LK))"

definition scenario_status_layout where
  "scenario_status_layout LK = struct_layout scm_Conditions scm_ContentHash (conditions_layout LK)"

definition scenario_layout where
  "scenario_layout LM LK =
     struct_layout (\<lambda>r. (cm_ObjectMeta r, cm_Status r)) (\<lambda>r. (cm_TypeMeta r, cm_Spec r))
       (pair_layout LM (scenario_status_layout LK))"

definition botswarm_spec_layout where
  "botswarm_spec_layout =
     struct_layout bsm_Protocols (\<lambda>s. (bsm_MaxWorkers s, bsm_OrderMix s))
       (option_layout (slice_layout the_strings flat_layout))"

definition botswarm_status_layout where
  "botswarm_status_layout LK = struct_layout btm_Conditions (\<lambda>s. ()) (conditions_layout LK)"

definition botswarm_layout where
  "botswarm_layout LM LK =
     struct_layout (\<lambda>r. (bm_ObjectMeta r, bm_Spec r, bm_Status r)) bm_TypeMeta
       (pair_layout LM (pair_layout botswarm_spec_layout (botswarm_status_layout LK)))"

definition list_layout where
  "list_layout LL unwrap L =
     struct_layout (\<lambda>l. (lm_ListMeta l, lm_Items l)) lm_TypeMeta
       (pair_layout LL (option_layout (slice_layout unwrap L)))"

text \<open>What the library documents: its own deep copies are deep.\<close>

definition apimachinery_ok where
  "apimachinery_ok A LM LL LK LT \<longleftrightarrow>
     deep_copier (ObjectMeta_DeepCopyInto A) LM \<and> deep_copier (ListMeta_DeepCopyInto A) LL
   \<and> deep_copier (Condition_DeepCopyInto A) LK \<and> deep_copier (Time_DeepCopy A) LT"

subsection \<open>Every generated copy is deep\<close>

lemma conditions_copier:
  "deep_copier (Condition_DeepCopyInto A) LK \<Longrightarrow> deep_copier (copy_conditions A) (conditions_layout LK)"
  unfolding copy_conditions_def by (intro option_copier slice_copier) simp_all

lemma run_status_copier:
  assumes "deep_copier (Condition_DeepCopyInto A) LK" "deep_copier (Time_DeepCopy A) LT"
  shows "deep_copier (BenchmarkRunStatus_DeepCopyInto A) (run_status_layout LK LT)"
  unfolding run_status_layout_def
  by (rule struct_copier [where put = "\<lambda>s (b, e, c). s\<lparr>rsm_StartedAt := b, rsm_EndedAt := e, rsm_Conditions := c\<rparr>",
        OF pair_copier [OF option_copier [OF assms(2)] pair_copier [OF option_copier [OF assms(2)] conditions_copier [OF assms(1)]]]])
    (auto simp: BenchmarkRunStatus_DeepCopyInto_def copy_both_def split: prod.splits)

lemma run_copier:
  assumes "deep_copier (ObjectMeta_DeepCopyInto A) LM" "deep_copier (Condition_DeepCopyInto A) LK"
    and "deep_copier (Time_DeepCopy A) LT"
  shows "deep_copier (BenchmarkRun_DeepCopyInto A) (run_layout LM LK LT)"
  unfolding run_layout_def
  by (rule struct_copier [where put = "\<lambda>r (m, s). r\<lparr>rm_ObjectMeta := m, rm_Status := s\<rparr>",
        OF pair_copier [OF assms(1) run_status_copier [OF assms(2,3)]]])
    (auto simp: BenchmarkRun_DeepCopyInto_def copy_both_def split: prod.splits)

lemma submission_status_copier:
  assumes "deep_copier (Condition_DeepCopyInto A) LK"
  shows "deep_copier (SubmissionStatus_DeepCopyInto A) (submission_status_layout LK)"
  unfolding submission_status_layout_def
  by (rule struct_copier [where put = "\<lambda>s c. s\<lparr>ssm_Conditions := c\<rparr>", OF conditions_copier [OF assms]])
    (auto simp: SubmissionStatus_DeepCopyInto_def split: prod.splits)

lemma submission_copier:
  assumes "deep_copier (ObjectMeta_DeepCopyInto A) LM" "deep_copier (Condition_DeepCopyInto A) LK"
  shows "deep_copier (Submission_DeepCopyInto A) (submission_layout LM LK)"
  unfolding submission_layout_def
  by (rule struct_copier [where put = "\<lambda>r (m, s). r\<lparr>sm_ObjectMeta := m, sm_Status := s\<rparr>",
        OF pair_copier [OF assms(1) submission_status_copier [OF assms(2)]]])
    (auto simp: Submission_DeepCopyInto_def copy_both_def split: prod.splits)

lemma scenario_status_copier:
  assumes "deep_copier (Condition_DeepCopyInto A) LK"
  shows "deep_copier (ScenarioStatus_DeepCopyInto A) (scenario_status_layout LK)"
  unfolding scenario_status_layout_def
  by (rule struct_copier [where put = "\<lambda>s c. s\<lparr>scm_Conditions := c\<rparr>", OF conditions_copier [OF assms]])
    (auto simp: ScenarioStatus_DeepCopyInto_def split: prod.splits)

lemma scenario_copier:
  assumes "deep_copier (ObjectMeta_DeepCopyInto A) LM" "deep_copier (Condition_DeepCopyInto A) LK"
  shows "deep_copier (Scenario_DeepCopyInto A) (scenario_layout LM LK)"
  unfolding scenario_layout_def
  by (rule struct_copier [where put = "\<lambda>r (m, s). r\<lparr>cm_ObjectMeta := m, cm_Status := s\<rparr>",
        OF pair_copier [OF assms(1) scenario_status_copier [OF assms(2)]]])
    (auto simp: Scenario_DeepCopyInto_def copy_both_def split: prod.splits)

lemma botswarm_status_copier:
  assumes "deep_copier (Condition_DeepCopyInto A) LK"
  shows "deep_copier (BotSwarmStatus_DeepCopyInto A) (botswarm_status_layout LK)"
  unfolding botswarm_status_layout_def
  by (rule struct_copier [where put = "\<lambda>s c. s\<lparr>btm_Conditions := c\<rparr>", OF conditions_copier [OF assms]])
    (auto simp: BotSwarmStatus_DeepCopyInto_def split: prod.splits)

lemma botswarm_spec_copier: "deep_copier (BotSwarmSpec_DeepCopyInto A) botswarm_spec_layout"
  unfolding botswarm_spec_layout_def
  by (rule struct_copier [where put = "\<lambda>s p. s\<lparr>bsm_Protocols := p\<rparr>",
        OF option_copier [OF array_copier [where wrap = Strings and zero = "[]"]]])
    (auto simp: BotSwarmSpec_DeepCopyInto_def split: prod.splits)

lemma botswarm_copier:
  assumes "deep_copier (ObjectMeta_DeepCopyInto A) LM" "deep_copier (Condition_DeepCopyInto A) LK"
  shows "deep_copier (BotSwarm_DeepCopyInto A) (botswarm_layout LM LK)"
  unfolding botswarm_layout_def
  by (rule struct_copier [where put = "\<lambda>r (m, p, s). r\<lparr>bm_ObjectMeta := m, bm_Spec := p, bm_Status := s\<rparr>",
        OF pair_copier [OF assms(1) pair_copier [OF botswarm_spec_copier [where A = A] botswarm_status_copier [OF assms(2)]]]])
    (auto simp: BotSwarm_DeepCopyInto_def copy_both_def split: prod.splits)

lemma list_copier:
  assumes "deep_copier (ListMeta_DeepCopyInto A) LL" "deep_copier into L" "\<And>ys. unwrap (wrap ys) = ys"
    and "\<And>inn h. copy inn h =
      (let (lsm, h) = ListMeta_DeepCopyInto A (lm_ListMeta inn) h;
           (items, h) = copy_non_nil (copy_slice wrap unwrap zero into) (lm_Items inn) h
       in (inn\<lparr>lm_ListMeta := lsm, lm_Items := items\<rparr>, h))"
  shows "deep_copier copy (list_layout LL unwrap L)"
  unfolding list_layout_def
  by (rule struct_copier [where put = "\<lambda>l (m, i). l\<lparr>lm_ListMeta := m, lm_Items := i\<rparr>",
        OF pair_copier [OF assms(1) option_copier [OF slice_copier [OF assms(2,3), where zero = zero]]]])
    (auto simp: assms(4) copy_both_def split: prod.splits)

lemmas resource_copiers = run_copier submission_copier scenario_copier botswarm_copier

text \<open>
  C37 (deep_copies_are_isolated): a deep copy of a custom resource, or of a list of them, reads as the
  original; what is written to memory of the copy is not seen through the original, nor the other way
  round.  So a reconcile may write to the object it was given without the cache changing.
\<close>

theorem deep_copies_are_isolated:
  assumes "apimachinery_ok A LM LL LK LT"
  shows "isolating (BenchmarkRun_DeepCopy A) (pointer_layout the_runs (run_layout LM LK LT))
       \<and> isolating (Submission_DeepCopy A) (pointer_layout the_submissions (submission_layout LM LK))
       \<and> isolating (Scenario_DeepCopy A) (pointer_layout the_scenarios (scenario_layout LM LK))
       \<and> isolating (BotSwarm_DeepCopy A) (pointer_layout the_botswarms (botswarm_layout LM LK))
       \<and> isolating (BenchmarkRunList_DeepCopy A) (pointer_layout the_lists (list_layout LL the_runs (run_layout LM LK LT)))
       \<and> isolating (SubmissionList_DeepCopy A) (pointer_layout the_lists (list_layout LL the_submissions (submission_layout LM LK)))
       \<and> isolating (ScenarioList_DeepCopy A) (pointer_layout the_lists (list_layout LL the_scenarios (scenario_layout LM LK)))
       \<and> isolating (BotSwarmList_DeepCopy A) (pointer_layout the_lists (list_layout LL the_botswarms (botswarm_layout LM LK)))"
proof -
  have lib: "deep_copier (ObjectMeta_DeepCopyInto A) LM" "deep_copier (ListMeta_DeepCopyInto A) LL"
    "deep_copier (Condition_DeepCopyInto A) LK" "deep_copier (Time_DeepCopy A) LT"
    using assms by (simp_all add: apimachinery_ok_def)
  note each = run_copier [OF lib(1,3,4)] submission_copier [OF lib(1,3)] scenario_copier [OF lib(1,3)]
    botswarm_copier [OF lib(1,3)]
  show ?thesis
    unfolding BenchmarkRun_DeepCopy_def Submission_DeepCopy_def Scenario_DeepCopy_def BotSwarm_DeepCopy_def
      BenchmarkRunList_DeepCopy_def SubmissionList_DeepCopy_def ScenarioList_DeepCopy_def BotSwarmList_DeepCopy_def
    by (intro conjI deep_copier_isolating pointer_copier each;
        (rule list_copier [OF lib(2) each(1)] list_copier [OF lib(2) each(2)]
              list_copier [OF lib(2) each(3)] list_copier [OF lib(2) each(4)])?;
        simp add: BenchmarkRunList_DeepCopyInto_def SubmissionList_DeepCopyInto_def
          ScenarioList_DeepCopyInto_def BotSwarmList_DeepCopyInto_def)
qed

text \<open>A nil pointer gives a nil interface, and any other the object of its copy.\<close>

lemma nil_object: "BenchmarkRun_DeepCopyObject A None h = (None, h)"
  by (simp add: BenchmarkRun_DeepCopyObject_def BenchmarkRun_DeepCopy_def new_copy_def as_object_def)

subsection \<open>A cached run\<close>

text \<open>A library whose metadata and conditions are strings, and whose times are pointers to integers.\<close>

type_synonym sample_cell = "(string, unit, string, nat, int) cell"

definition sample_time_layout :: "(nat, sample_cell, sample_cell) layout" where
  "sample_time_layout = \<lparr>lay_ok = (\<lambda>h a. a < length h), lay_refs = (\<lambda>h a. {a}), lay_view = (\<lambda>h a. h ! a)\<rparr>"

definition sample_machinery :: "(string, unit, string, nat, int) apimachinery" where
  "sample_machinery =
     \<lparr>ObjectMeta_DeepCopyInto = copy_flat, ListMeta_DeepCopyInto = copy_flat, Condition_DeepCopyInto = copy_flat,
      Time_DeepCopy = (\<lambda>a h. (length h, h @ [h ! a])), zero_ObjectMeta = [], zero_ListMeta = (), zero_Condition = []\<rparr>"

lemma sample_machinery_ok: "apimachinery_ok sample_machinery flat_layout flat_layout flat_layout sample_time_layout"
proof -
  have "deep_copier (\<lambda>a h. (length h, h @ [h ! a])) sample_time_layout"
    by (intro deep_copierI sound_layoutI) (auto simp: sample_time_layout_def agree_on_def)
  then show ?thesis by (simp add: apimachinery_ok_def sample_machinery_def flat_copier)
qed

definition cached_run :: "(string, nat) RunMem" where
  "cached_run =
     \<lparr>rm_TypeMeta = (''BenchmarkRun'', ''v1''), rm_ObjectMeta = ''r'', rm_Spec = zero_run_spec,
      rm_Status = zero_run_status\<lparr>rsm_Phase := ''RUNNING'', rsm_StartedAt := Some 0, rsm_Conditions := Some (1, 1)\<rparr>\<rparr>"

definition cache_heap :: "sample_cell list" where
  "cache_heap = [Foreign 42, Conditions [''PodsReady''], Runs [cached_run]]"

lemma cached_copy:
  "BenchmarkRun_DeepCopy sample_machinery (Some 2) cache_heap =
     (Some 3, cache_heap @ [Runs [cached_run\<lparr>rm_Status := (rm_Status cached_run)\<lparr>rsm_StartedAt := Some 4, rsm_Conditions := Some (5, 1)\<rparr>\<rparr>],
        Foreign 42, Conditions [''PodsReady'']])"
  by (simp add: BenchmarkRun_DeepCopy_def new_copy_def cache_heap_def BenchmarkRun_DeepCopyInto_def
      BenchmarkRunStatus_DeepCopyInto_def copy_conditions_def copy_non_nil_def copy_slice_def copy_flat_def
      sample_machinery_def cached_run_def zero_run_status_def nth_append numeral_eq_Suc)

lemma cached_ok: "lay_ok (pointer_layout the_runs (run_layout flat_layout flat_layout sample_time_layout)) cache_heap (Some 2)"
  by (simp add: cache_heap_def run_layout_def run_status_layout_def cached_run_def zero_run_status_def
      flat_layout_def sample_time_layout_def elems_def)

lemma isolated_write:
  assumes "isolating copy L" "lay_ok L h x" "copy x h = (y, h')" "a \<in> lay_refs L h' y"
  shows "lay_view L (write_all [(a, c)] h') x = lay_view L h x"
proof -
  have "\<forall>(b, d) \<in> set [(a, c)]. b \<in> lay_refs L h' y" using assms(4) by simp
  then show ?thesis using assms(1-3) unfolding isolating_def by blast
qed

theorem deep_copies_are_isolated_witness:
  "lay_view (pointer_layout the_runs (run_layout flat_layout flat_layout sample_time_layout))
     (write_all [(4, Foreign 0)] (snd (BenchmarkRun_DeepCopy sample_machinery (Some 2) cache_heap))) (Some 2)
   = lay_view (pointer_layout the_runs (run_layout flat_layout flat_layout sample_time_layout)) cache_heap (Some 2)"
proof -
  let ?L = "pointer_layout the_runs (run_layout flat_layout flat_layout sample_time_layout)"
  have iso: "isolating (BenchmarkRun_DeepCopy sample_machinery) ?L"
    using deep_copies_are_isolated [OF sample_machinery_ok] by blast
  have mem: "4 \<in> lay_refs ?L (snd (BenchmarkRun_DeepCopy sample_machinery (Some 2) cache_heap)) (Some 3)"
    unfolding cached_copy
    by (simp add: cache_heap_def run_layout_def run_status_layout_def cached_run_def zero_run_status_def
        flat_layout_def sample_time_layout_def)
  show ?thesis
    using isolated_write [where copy = "BenchmarkRun_DeepCopy sample_machinery" and x = "Some 2" and y = "Some 3"
        and h = cache_heap and L = ?L and a = 4 and c = "Foreign 0"
        and h' = "snd (BenchmarkRun_DeepCopy sample_machinery (Some 2) cache_heap)"] iso cached_ok mem cached_copy
    by simp
qed

end
