(* ===== verification/OrderBook.thy ===== *)
theory OrderBook
  imports Prelude
begin

text \<open>
  \<^verbatim>\<open>crates/matching-engine/src/types.rs\<close> and \<^verbatim>\<open>book.rs\<close>: the order book of the reference oracle.

  A \<^verbatim>\<open>BTreeMap\<close> from prices is the list of its entries in increasing order of the key, a \<^verbatim>\<open>VecDeque\<close> a list,
  the \<^verbatim>\<open>HashMap\<close> index a partial function.  A quantity is the value of its \<^verbatim>\<open>u64\<close> as a \<^typ>\<open>nat\<close> and a price
  the value of its \<^verbatim>\<open>i64\<close> as an \<^typ>\<open>int\<close>: quantities are only compared and subtracted, prices only compared
  (\<open>wire_fills_are_exact\<close> of \<open>ReferenceOracle\<close>: they never leave their 64 bits).  Trade ids are counted up, and wrap.
\<close>

subsection \<open>Types\<close>

type_synonym price = int
type_synonym qty = nat
type_synonym u128 = "128 word"

definition checked_sub :: "qty \<Rightarrow> qty \<Rightarrow> qty option" where
  "checked_sub a b = (if b \<le> a then Some (a - b) else None)"

datatype book_side = Bid | Ask
datatype time_in_force = Gtc | Ioc | Fok
datatype order_kind = Limit price time_in_force | Market

definition ClientOrderId_new :: "u64 \<Rightarrow> u64 \<Rightarrow> u128" where
  "ClientOrderId_new bot_id local_seq = or (push_bit 64 (ucast bot_id)) (ucast local_seq)"

definition ClientOrderId_bot_id :: "u128 \<Rightarrow> u64" where
  "ClientOrderId_bot_id c = ucast (drop_bit 64 c)"

definition ClientOrderId_local_seq :: "u128 \<Rightarrow> u64" where
  "ClientOrderId_local_seq c = ucast (and c 0xFFFFFFFFFFFFFFFF)"

record Order =
  od_platform_seq :: u64
  od_platform_ts_ns :: u64
  od_client_order_id :: u128
  od_session_token :: bytes
  od_side :: book_side
  od_qty :: qty
  od_kind :: order_kind

definition with_qty :: "Order \<Rightarrow> qty \<Rightarrow> Order" where
  "with_qty o1 n = o1\<lparr>od_qty := n\<rparr>"

record BookFill =
  bf_trade_id :: u64
  bf_platform_seq_taker :: u64
  bf_platform_seq_maker :: u64
  bf_price :: price
  bf_qty :: qty
  bf_ts_ns :: u64

record Resting =
  rs_platform_seq :: u64
  rs_platform_ts_ns :: u64
  rs_client_order_id :: u128
  rs_session_token :: bytes
  rs_qty_remaining :: qty

subsection \<open>Price levels\<close>

type_synonym levels = "(price \<times> Resting list) list"

text \<open>\<^verbatim>\<open>f(map.entry(p).or_default())\<close>.\<close>

fun level_entry :: "price \<Rightarrow> (Resting list \<Rightarrow> Resting list) \<Rightarrow> levels \<Rightarrow> levels" where
  "level_entry p f [] = [(p, f [])]"
| "level_entry p f ((k, q) # lv) =
     (if p < k then (p, f []) # (k, q) # lv
      else if p = k then (k, f q) # lv
      else (k, q) # level_entry p f lv)"

text \<open>\<^verbatim>\<open>map.get(&p)\<close>, \<^verbatim>\<open>map.remove(&p)\<close> and a write through \<^verbatim>\<open>map.get_mut(&p)\<close>.\<close>

definition level_get :: "price \<Rightarrow> levels \<Rightarrow> Resting list option" where
  "level_get p lv = map_of lv p"

definition level_remove :: "price \<Rightarrow> levels \<Rightarrow> levels" where
  "level_remove p lv = filter (\<lambda>(k, q). k \<noteq> p) lv"

definition level_set :: "price \<Rightarrow> Resting list \<Rightarrow> levels \<Rightarrow> levels" where
  "level_set p q' lv = map (\<lambda>(k, q). (k, if k = p then q' else q)) lv"

subsection \<open>The book\<close>

record OrderBook =
  bids :: levels
  asks :: levels
  by_id :: "u128 \<rightharpoonup> book_side \<times> price"
  next_trade_id :: u64

definition OrderBook_new :: OrderBook where
  "OrderBook_new = \<lparr>bids = [], asks = [], by_id = Map.empty, next_trade_id = 0\<rparr>"

fun side_levels :: "book_side \<Rightarrow> OrderBook \<Rightarrow> levels" where
  "side_levels Bid b = bids b"
| "side_levels Ask b = asks b"

fun set_side :: "book_side \<Rightarrow> levels \<Rightarrow> OrderBook \<Rightarrow> OrderBook" where
  "set_side Bid lv b = b\<lparr>bids := lv\<rparr>"
| "set_side Ask lv b = b\<lparr>asks := lv\<rparr>"

fun other :: "book_side \<Rightarrow> book_side" where
  "other Bid = Ask"
| "other Ask = Bid"

definition best_bid :: "OrderBook \<Rightarrow> price option" where
  "best_bid b = (if bids b = [] then None else Some (fst (last (bids b))))"

definition best_ask :: "OrderBook \<Rightarrow> price option" where
  "best_ask b = (if asks b = [] then None else Some (fst (hd (asks b))))"

definition resting_of :: "Order \<Rightarrow> Resting" where
  "resting_of o1 =
     \<lparr>rs_platform_seq = od_platform_seq o1, rs_platform_ts_ns = od_platform_ts_ns o1,
      rs_client_order_id = od_client_order_id o1, rs_session_token = od_session_token o1,
      rs_qty_remaining = od_qty o1\<rparr>"

definition rest :: "Order \<Rightarrow> OrderBook \<Rightarrow> OrderBook" where
  "rest o1 b =
     (case od_kind o1 of
        Market \<Rightarrow> b
      | Limit price tif \<Rightarrow>
          (let side = od_side o1;
               b1 = set_side side (level_entry price (\<lambda>queue. queue @ [resting_of o1]) (side_levels side b)) b
           in b1\<lparr>by_id := (by_id b1)(od_client_order_id o1 \<mapsto> (side, price))\<rparr>))"

definition position :: "('a \<Rightarrow> bool) \<Rightarrow> 'a list \<Rightarrow> nat option" where
  "position P xs = (if list_ex P xs then Some (length (takeWhile (\<lambda>x. \<not> P x) xs)) else None)"

definition cancel :: "u128 \<Rightarrow> OrderBook \<Rightarrow> bool \<times> OrderBook" where
  "cancel i b =
     (case by_id b i of
        None \<Rightarrow> (False, b)
      | Some (side, price) \<Rightarrow>
          (let b1 = b\<lparr>by_id := (by_id b)(i := None)\<rparr>; book = side_levels side b1 in
           case level_get price book of
             None \<Rightarrow> (False, b1)
           | Some queue \<Rightarrow>
               (case position (\<lambda>r. rs_client_order_id r = i) queue of
                  None \<Rightarrow> (False, b1)
                | Some idx \<Rightarrow>
                    (let queue' = take idx queue @ drop (Suc idx) queue;
                         book' = level_set price queue' book
                     in (True, set_side side (if queue' = [] then level_remove price book' else book') b1)))))"

definition order_count :: "OrderBook \<Rightarrow> nat" where
  "order_count b = sum_list (map (\<lambda>(p, q). length q) (bids b)) + sum_list (map (\<lambda>(p, q). length q) (asks b))"

definition take_trade_id :: "OrderBook \<Rightarrow> u64 \<times> OrderBook" where
  "take_trade_id b = (next_trade_id b, b\<lparr>next_trade_id := next_trade_id b + 1\<rparr>)"

text \<open>The best level facing a taker: the lowest ask or the highest bid.\<close>

fun best_for :: "book_side \<Rightarrow> OrderBook \<Rightarrow> (price \<times> Resting list) option" where
  "best_for Bid b = (if asks b = [] then None else Some (hd (asks b)))"
| "best_for Ask b = (if bids b = [] then None else Some (last (bids b)))"

definition drop_level_if_empty :: "book_side \<Rightarrow> price \<Rightarrow> OrderBook \<Rightarrow> OrderBook" where
  "drop_level_if_empty taker_side p b =
     (let book = side_levels (other taker_side) b in
      if level_get p book = Some [] then set_side (other taker_side) (level_remove p book) b else b)"

definition forget_id :: "u128 \<Rightarrow> OrderBook \<Rightarrow> OrderBook" where
  "forget_id i b = b\<lparr>by_id := (by_id b)(i := None)\<rparr>"

end
