(* ===== verification/MatchEngine.thy ===== *)
theory MatchEngine
  imports OrderBook
begin

text \<open>
  \<^verbatim>\<open>crates/matching-engine/src/match_engine.rs\<close>: the price-time priority matcher.  \<^const>\<open>None\<close> is the panic of
  an \<^verbatim>\<open>expect\<close>.
\<close>

subsection \<open>Crossing\<close>

fun crosses_price :: "book_side \<Rightarrow> price \<Rightarrow> price \<Rightarrow> bool" where
  "crosses_price Bid level taker_price = (level \<le> taker_price)"
| "crosses_price Ask level taker_price = (taker_price \<le> level)"

fun crosses :: "order_kind \<Rightarrow> book_side \<Rightarrow> price \<Rightarrow> bool" where
  "crosses (Limit p tif) taker_side level = crosses_price taker_side level p"
| "crosses Market taker_side level = True"

subsection \<open>The fill-or-kill check\<close>

text \<open>The levels facing a taker, best first.\<close>

fun facing :: "book_side \<Rightarrow> OrderBook \<Rightarrow> levels" where
  "facing Bid b = asks b"
| "facing Ask b = rev (bids b)"

text \<open>
  The two nested loops: \<open>Inl ()\<close> is \<^verbatim>\<open>return true\<close> out of them.  \<^verbatim>\<open>saturating_sub\<close> is the subtraction of \<^typ>\<open>nat\<close>.
\<close>

fun fill_level :: "qty \<Rightarrow> Resting list \<Rightarrow> unit + qty" where
  "fill_level remaining [] = Inr remaining"
| "fill_level remaining (r # q) =
     (let remaining = remaining - rs_qty_remaining r in
      if remaining = 0 then Inl () else fill_level remaining q)"

fun fill_levels :: "book_side \<Rightarrow> price \<Rightarrow> qty \<Rightarrow> levels \<Rightarrow> bool" where
  "fill_levels taker_side lim remaining [] = False"
| "fill_levels taker_side lim remaining ((p, q) # lv) =
     (if \<not> crosses_price taker_side p lim then False
      else case fill_level remaining q of
        Inl _ \<Rightarrow> True
      | Inr remaining \<Rightarrow> fill_levels taker_side lim remaining lv)"

definition can_fill_full :: "OrderBook \<Rightarrow> book_side \<Rightarrow> qty \<Rightarrow> price \<Rightarrow> bool" where
  "can_fill_full b taker_side n lim = fill_levels taker_side lim n (facing taker_side b)"

subsection \<open>One level\<close>

definition fill_of :: "Order \<Rightarrow> price \<Rightarrow> Resting \<Rightarrow> qty \<Rightarrow> BookFill" where
  "fill_of taker p front traded =
     \<lparr>bf_trade_id = 0, bf_platform_seq_taker = od_platform_seq taker, bf_platform_seq_maker = rs_platform_seq front,
      bf_price = p, bf_qty = traded, bf_ts_ns = od_platform_ts_ns taker\<rparr>"

text \<open>
  The inner loop: the fills of this level, what remains of the taker, the queue, and the ids of the
  orders that were filled.
\<close>

function drain :: "Order \<Rightarrow> price \<Rightarrow> qty \<Rightarrow> Resting list \<Rightarrow> (BookFill list \<times> qty \<times> Resting list \<times> u128 list) option" where
  "drain taker p remaining queue =
     (if remaining = 0 then Some ([], remaining, queue, [])
      else case queue of
        [] \<Rightarrow> Some ([], remaining, [], [])
      | front # q \<Rightarrow>
          (let traded = min remaining (rs_qty_remaining front) in
           case checked_sub remaining traded of
             None \<Rightarrow> None
           | Some remaining' \<Rightarrow>
               (case checked_sub (rs_qty_remaining front) traded of
                  None \<Rightarrow> None
                | Some left \<Rightarrow>
                    (let (again, emptied) =
                           (if left = 0 then (q, [rs_client_order_id front])
                            else (front\<lparr>rs_qty_remaining := left\<rparr> # q, []))
                     in case drain taker p remaining' again of
                          None \<Rightarrow> None
                        | Some (fills, r, rest_queue, ids) \<Rightarrow>
                            Some (fill_of taker p front traded # fills, r, rest_queue, emptied @ ids)))))"
  by pat_completeness auto
termination
  by (relation "measure (\<lambda>(taker, p, remaining, queue). remaining + length queue)")
    (auto simp: checked_sub_def split: if_splits)

declare drain.simps [simp del]

lemma drain_simps:
  "drain taker p 0 q = Some ([], 0, q, [])"
  "drain taker p n [] = Some ([], n, [], [])"
  "0 < n \<Longrightarrow> drain taker p n (r # q) =
     (if rs_qty_remaining r \<le> n
      then map_option (\<lambda>(fs, m, q', ids). (fill_of taker p r (rs_qty_remaining r) # fs, m, q', rs_client_order_id r # ids))
             (drain taker p (n - rs_qty_remaining r) q)
      else Some ([fill_of taker p r n], 0, r\<lparr>rs_qty_remaining := rs_qty_remaining r - n\<rparr> # q, []))"
proof -
  show zero: "drain taker p 0 q = Some ([], 0, q, [])" for q by (simp add: drain.simps)
  show "drain taker p n [] = Some ([], n, [], [])" by (simp add: drain.simps)
  show "0 < n \<Longrightarrow> drain taker p n (r # q) =
     (if rs_qty_remaining r \<le> n
      then map_option (\<lambda>(fs, m, q', ids). (fill_of taker p r (rs_qty_remaining r) # fs, m, q', rs_client_order_id r # ids))
             (drain taker p (n - rs_qty_remaining r) q)
      else Some ([fill_of taker p r n], 0, r\<lparr>rs_qty_remaining := rs_qty_remaining r - n\<rparr> # q, []))"
    by (cases "drain taker p (n - rs_qty_remaining r) q")
      (auto simp: drain.simps [of taker p n] checked_sub_def zero min_def Let_def split: option.splits)
qed

lemma drain_bounds:
  "drain taker p n q = Some (fs, m, q', ids) \<Longrightarrow> m \<le> n \<and> (q' = [] \<or> m = 0)"
proof (induction q arbitrary: n fs m q' ids)
  case (Cons r q)
  show ?case
  proof (cases "n = 0")
    case False
    then show ?thesis using Cons by (fastforce simp: drain_simps split: if_splits)
  qed (use Cons.prems in \<open>simp add: drain_simps\<close>)
qed (simp add: drain_simps)

subsection \<open>The sweep over levels\<close>

text \<open>
  The outer loop.  The queue is changed in place, then the index, and the level is dropped once it is
  empty.
\<close>

definition after_level :: "Order \<Rightarrow> price \<Rightarrow> Resting list \<Rightarrow> u128 list \<Rightarrow> OrderBook \<Rightarrow> OrderBook" where
  "after_level taker p queue emptied b =
     (let opp = other (od_side taker); b = set_side opp (level_set p queue (side_levels opp b)) b;
          b = fold forget_id emptied b
      in drop_level_if_empty (od_side taker) p b)"

lemma fold_forget_id: "fold forget_id ids b = b\<lparr>by_id := by_id b |` (- set ids)\<rparr>"
proof (induction ids arbitrary: b)
  case (Cons i ids)
  have "fold forget_id (i # ids) b = (forget_id i b)\<lparr>by_id := by_id (forget_id i b) |` (- set ids)\<rparr>"
    using Cons by simp
  also have "\<dots> = b\<lparr>by_id := by_id b |` (- set (i # ids))\<rparr>"
    by (rule OrderBook.equality) (auto simp: forget_id_def restrict_map_def fun_eq_iff)
  finally show ?case .
qed (simp add: restrict_map_def)

lemma side_set [simp]:
  "side_levels s (set_side s lv b) = lv" "s \<noteq> t \<Longrightarrow> side_levels s (set_side t lv b) = side_levels s b"
  "by_id (set_side s lv b) = by_id b" "next_trade_id (set_side s lv b) = next_trade_id b"
  "side_levels s (b\<lparr>by_id := m\<rparr>) = side_levels s b" "side_levels s (b\<lparr>next_trade_id := n\<rparr>) = side_levels s b"
  by (cases s; cases t; simp)+

lemma other_neq [simp]: "other s \<noteq> s" "s \<noteq> other s" "other (other s) = s"
  by (cases s; simp)+

lemma facing_side: "facing s b = (case s of Bid \<Rightarrow> side_levels (other s) b | Ask \<Rightarrow> rev (side_levels (other s) b))"
  by (cases s) simp_all

lemma facing_by_id [simp]: "facing s (b\<lparr>by_id := m\<rparr>) = facing s b" "facing s (b\<lparr>next_trade_id := n\<rparr>) = facing s b"
  by (cases s; simp)+

lemma facing_cong: "side_levels (other s) b = side_levels (other s) b' \<Longrightarrow> facing s b = facing s b'"
  by (simp only: facing_side)

lemma facing_set: "facing s (set_side (other s) (f (side_levels (other s) b)) b) = f (facing s b)"
  if "rev (f (side_levels (other s) b)) = f (rev (side_levels (other s) b))"
  using that by (cases s) simp_all

lemma level_ops_rev: "rev (level_set p q lv) = level_set p q (rev lv)" "rev (level_remove p lv) = level_remove p (rev lv)"
  by (simp_all add: level_set_def level_remove_def rev_map rev_filter)

lemma best_for_facing: "best_for s b = (case facing s b of [] \<Rightarrow> None | e # _ \<Rightarrow> Some e)"
  by (cases s) (auto simp: hd_rev [symmetric] neq_Nil_conv split: list.splits)

lemma level_get_rev:
  assumes "distinct (map fst lv)"
  shows "level_get p (rev lv) = level_get p lv"
proof -
  have "map_of (rev lv) = map_of lv"
    using assms by (subst map_of_inject_set) (simp_all add: rev_map [symmetric])
  then show ?thesis by (simp add: level_get_def)
qed

text \<open>What one round of the loop leaves of the levels facing the taker.\<close>

definition levels_distinct :: "book_side \<Rightarrow> OrderBook \<Rightarrow> bool" where
  "levels_distinct s b \<longleftrightarrow> distinct (map fst (facing s b))"

lemma level_set_hd: "p \<notin> fst ` set lv \<Longrightarrow> level_set p q' ((p, q) # lv) = (p, q') # lv"
  by (force simp: level_set_def intro!: map_idI)

lemma level_remove_hd: "p \<notin> fst ` set lv \<Longrightarrow> level_remove p ((p, q) # lv) = lv"
  by (force simp: level_remove_def intro!: filter_True)

lemma level_get_set: "p \<in> fst ` set lv \<Longrightarrow> level_get p (level_set p q' lv) = Some q'"
  by (induction lv) (auto simp: level_get_def level_set_def)

lemma after_level_other [simp]:
  "side_levels (od_side taker) (after_level taker p q' ids b) = side_levels (od_side taker) b"
  "by_id (after_level taker p q' ids b) = by_id b |` (- set ids)"
  "next_trade_id (after_level taker p q' ids b) = next_trade_id b"
  by (simp_all add: after_level_def Let_def drop_level_if_empty_def fold_forget_id)

lemma after_level_facing:
  assumes "facing (od_side taker) b = (p, q) # lv" "distinct (map fst (facing (od_side taker) b))"
  shows "facing (od_side taker) (after_level taker p q' ids b) = (if q' = [] then lv else (p, q') # lv)"
proof -
  let ?s = "od_side taker"
  let ?lv = "side_levels (other ?s) b"
  have p: "p \<notin> fst ` set lv" using assms by auto
  define b1 where "b1 = set_side (other ?s) (level_set p q' ?lv) b"
  have keys: "map fst (level_set p q' ?lv) = map fst ?lv" by (auto simp: level_set_def)
  have "facing ?s b1 = level_set p q' (facing ?s b)"
    unfolding b1_def by (rule facing_set) (simp add: level_ops_rev)
  then have f1: "facing ?s b1 = (p, q') # lv" using assms(1) level_set_hd [OF p] by simp
  define b2 where "b2 = fold forget_id ids b1"
  have f2: "facing ?s b2 = (p, q') # lv"
    using f1 by (simp add: b2_def fold_forget_id)
  have d2: "distinct (map fst (facing ?s b2))" using f2 assms by simp
  have "level_get p (side_levels (other ?s) b2) = level_get p (facing ?s b2)"
    using d2 by (cases ?s) (simp_all add: level_get_rev rev_map [symmetric])
  then have g: "level_get p (side_levels (other ?s) b2) = Some q'" by (simp add: f2 level_get_def)
  have a: "after_level taker p q' ids b = drop_level_if_empty ?s p b2"
    by (simp add: after_level_def b1_def b2_def Let_def)
  show ?thesis
  proof (cases "q' = []")
    case True
    have "facing ?s (set_side (other ?s) (level_remove p (side_levels (other ?s) b2)) b2) = level_remove p (facing ?s b2)"
      by (rule facing_set) (simp add: level_ops_rev)
    then show ?thesis using g True f2 level_remove_hd [OF p] by (simp add: a [unfolded True] drop_level_if_empty_def)
  next
    case False
    then show ?thesis using g f2 by (simp add: a drop_level_if_empty_def)
  qed
qed

lemma after_level_count:
  assumes "best_for (od_side taker) b = Some (p, q)"
  shows "length (facing (od_side taker) (after_level taker p q' ids b)) \<le> length (facing (od_side taker) b)"
    and "q' = [] \<Longrightarrow> length (facing (od_side taker) (after_level taker p q' ids b)) < length (facing (od_side taker) b)"
proof -
  let ?s = "od_side taker"
  let ?lv = "side_levels (other ?s) b"
  have len: "length (facing ?s x) = length (side_levels (other ?s) x)" for x by (simp add: facing_side split: book_side.splits)
  have mem: "(p, q) \<in> set ?lv"
    using assms hd_in_set [of "asks b"] last_in_set [of "bids b"]
    by (cases ?s) (auto simp del: hd_in_set last_in_set split: if_splits)
  have set: "side_levels (other ?s) (after_level taker p q' ids b) =
      (if level_get p (level_set p q' ?lv) = Some [] then level_remove p (level_set p q' ?lv) else level_set p q' ?lv)"
    by (simp add: after_level_def Let_def drop_level_if_empty_def fold_forget_id)
  have n: "length (level_set p q' ?lv) = length ?lv" by (simp add: level_set_def)
  then show "length (facing ?s (after_level taker p q' ids b)) \<le> length (facing ?s b)"
    unfolding len set level_remove_def by (auto intro: le_trans [OF length_filter_le])
  assume "q' = []"
  then have get: "level_get p (level_set p q' ?lv) = Some []"
    using level_get_set [of p ?lv q'] imageI [OF mem, of fst] by simp
  have "(p, []) \<in> set (level_set p q' ?lv)" using mem \<open>q' = []\<close> by (force simp: level_set_def)
  then have "length (level_remove p (level_set p q' ?lv)) < length (level_set p q' ?lv)"
    unfolding level_remove_def by (rule length_filter_less) simp
  then show "length (facing ?s (after_level taker p q' ids b)) < length (facing ?s b)"
    unfolding len set using get n by simp
qed

function sweep :: "Order \<Rightarrow> qty \<Rightarrow> OrderBook \<Rightarrow> (BookFill list \<times> qty \<times> OrderBook) option" where
  "sweep taker remaining b =
     (if remaining = 0 then Some ([], remaining, b)
      else case best_for (od_side taker) b of
        None \<Rightarrow> Some ([], remaining, b)
      | Some (p, queue) \<Rightarrow>
          (if \<not> crosses (od_kind taker) (od_side taker) p then Some ([], remaining, b)
           else case drain taker p remaining queue of
             None \<Rightarrow> None
           | Some (fills, remaining', queue', emptied) \<Rightarrow>
               (case sweep taker remaining' (after_level taker p queue' emptied b) of
                  None \<Rightarrow> None
                | Some (later, r, b') \<Rightarrow> Some (fills @ later, r, b'))))"
  by pat_completeness auto
termination
proof (relation "measure (\<lambda>(taker, remaining, b). remaining + length (facing (od_side taker) b))", goal_cases)
  case (2 taker remaining b pq p queue dr fills x remaining' y queue' emptied)
  then have dr: "drain taker p remaining queue = Some (fills, remaining', queue', emptied)"
    and best: "best_for (od_side taker) b = Some (p, queue)" by simp_all
  show ?case
    using drain_bounds [OF dr] after_level_count [OF best, of queue' emptied] 2(1)
    by (cases "queue' = []") auto
qed simp

declare sweep.simps [simp del]

fun assign_trade_ids :: "BookFill list \<Rightarrow> OrderBook \<Rightarrow> BookFill list \<times> OrderBook" where
  "assign_trade_ids [] b = ([], b)"
| "assign_trade_ids (f # fs) b =
     (let (i, b1) = take_trade_id b; (fs', b2) = assign_trade_ids fs b1 in (f\<lparr>bf_trade_id := i\<rparr> # fs', b2))"

definition match_order :: "Order \<Rightarrow> OrderBook \<Rightarrow> (BookFill list \<times> OrderBook) option" where
  "match_order taker b =
     (if (case od_kind taker of Limit lim Fok \<Rightarrow> \<not> can_fill_full b (od_side taker) (od_qty taker) lim | _ \<Rightarrow> False)
      then Some ([], b)
      else case sweep taker (od_qty taker) b of
        None \<Rightarrow> None
      | Some (fills, remaining, b1) \<Rightarrow>
          (let (fills, b2) = assign_trade_ids fills b1 in
           Some (fills,
             if 0 < remaining then
               (case od_kind taker of
                  Limit _ Gtc \<Rightarrow> rest (with_qty taker remaining) b2
                | Limit _ Ioc \<Rightarrow> b2
                | Limit _ Fok \<Rightarrow> b2
                | Market \<Rightarrow> b2)
             else b2)))"

end
