(* ===== verification/PriceTime.thy ===== *)
theory PriceTime
  imports MatchEngine
begin

text \<open>
  The matcher's contract: price-time priority on flat lists of resting orders, and the refinement of it by
  the levels, queues and index of \<^verbatim>\<open>OrderBook\<close>.
\<close>

subsection \<open>The reference matcher\<close>

text \<open>The orders of a list of levels, one after the other.\<close>

definition flat :: "levels \<Rightarrow> (price \<times> Resting) list" where
  "flat lv = concat (map (\<lambda>(p, q). map (Pair p) q) lv)"

text \<open>
  The taker walks the resting orders, best first: each crossing order gives all it has, or what the taker
  still wants.
\<close>

fun greedy :: "Order \<Rightarrow> qty \<Rightarrow> (price \<times> Resting) list \<Rightarrow> BookFill list \<times> qty \<times> (price \<times> Resting) list" where
  "greedy taker n [] = ([], n, [])"
| "greedy taker n ((p, r) # rs) =
     (if n = 0 \<or> \<not> crosses (od_kind taker) (od_side taker) p then ([], n, (p, r) # rs)
      else if rs_qty_remaining r \<le> n then
        (let (fs, m, rs') = greedy taker (n - rs_qty_remaining r) rs
         in (fill_of taker p r (rs_qty_remaining r) # fs, m, rs'))
      else ([fill_of taker p r n], 0, (p, r\<lparr>rs_qty_remaining := rs_qty_remaining r - n\<rparr>) # rs))"

text \<open>A price at least as good as another, for orders of one side.\<close>

fun as_good :: "book_side \<Rightarrow> price \<Rightarrow> price \<Rightarrow> bool" where
  "as_good Bid k p = (p \<le> k)"
| "as_good Ask k p = (k \<le> p)"

text \<open>A new order goes behind every order whose price is as good as its own.\<close>

definition enqueue :: "book_side \<Rightarrow> price \<Rightarrow> Resting \<Rightarrow> (price \<times> Resting) list \<Rightarrow> (price \<times> Resting) list" where
  "enqueue s p r rs =
     filter (\<lambda>(k, x). as_good s k p) rs @ (p, r) # filter (\<lambda>(k, x). \<not> as_good s k p) rs"

fun numbered :: "u64 \<Rightarrow> BookFill list \<Rightarrow> BookFill list" where
  "numbered i [] = []"
| "numbered i (f # fs) = f\<lparr>bf_trade_id := i\<rparr> # numbered (i + 1) fs"

text \<open>What the book holds: the resting orders of each side, best first, and the next trade id.\<close>

type_synonym priority_book = "(book_side \<Rightarrow> (price \<times> Resting) list) \<times> u64"

definition priority :: "OrderBook \<Rightarrow> priority_book" where
  "priority b = ((\<lambda>s. flat (facing (other s) b)), next_trade_id b)"

definition liquidity :: "order_kind \<Rightarrow> book_side \<Rightarrow> (price \<times> Resting) list \<Rightarrow> qty" where
  "liquidity k s rs = sum_list (map (\<lambda>(p, r). rs_qty_remaining r) (filter (\<lambda>(p, r). crosses k s p) rs))"

text \<open>
  A fill-or-kill order that the crossing orders cannot fill leaves no trace.  Any other order trades; what
  is left of a good-till-cancelled limit order rests, what is left of any other is dropped.
\<close>

definition pt_match :: "Order \<Rightarrow> priority_book \<Rightarrow> BookFill list \<times> priority_book" where
  "pt_match taker pb =
     (let (queues, i) = pb; s = od_side taker; rs = queues (other s) in
      if (case od_kind taker of Limit _ Fok \<Rightarrow> liquidity (od_kind taker) s rs < od_qty taker | _ \<Rightarrow> False)
      then ([], pb)
      else
        (let (fs, m, rs') = greedy taker (od_qty taker) rs;
             queues = queues(other s := rs');
             queues =
               (if 0 < m then
                  (case od_kind taker of
                     Limit p Gtc \<Rightarrow> queues(s := enqueue s p (resting_of (with_qty taker m)) (queues s))
                   | _ \<Rightarrow> queues)
                else queues)
         in (numbered i fs, queues, i + of_nat (length fs))))"

subsection \<open>One level\<close>

lemma greedy_zero [simp]: "greedy taker 0 rs = ([], 0, rs)"
  by (cases rs) auto

lemma flat_simps [simp]:
  "flat [] = []" "flat ((p, q) # lv) = map (Pair p) q @ flat lv" "flat (lv @ lv') = flat lv @ flat lv'"
  by (simp_all add: flat_def)

lemma drain_greedy:
  assumes "crosses (od_kind taker) (od_side taker) p"
  shows "\<exists>fs m q' ids. drain taker p n q = Some (fs, m, q', ids) \<and>
      length q' \<le> length q \<and> ids = map rs_client_order_id (take (length q - length q') q) \<and>
      (\<forall>rs. greedy taker n (map (Pair p) q @ rs) =
        (fs @ fst (greedy taker m rs), fst (snd (greedy taker m rs)), map (Pair p) q' @ snd (snd (greedy taker m rs))))"
proof (induction q arbitrary: n)
  case Nil
  show ?case by (simp add: drain_simps)
next
  case (Cons r q)
  consider (none) "n = 0" | (all) "0 < n" "rs_qty_remaining r \<le> n" | (part) "0 < n" "n < rs_qty_remaining r"
    by linarith
  then show ?case
  proof cases
    case none
    then show ?thesis by (simp add: drain_simps)
  next
    case all
    obtain fs m q' ids where d: "drain taker p (n - rs_qty_remaining r) q = Some (fs, m, q', ids)"
      and l: "length q' \<le> length q" and i: "ids = map rs_client_order_id (take (length q - length q') q)"
      and g: "\<forall>rs. greedy taker (n - rs_qty_remaining r) (map (Pair p) q @ rs) =
        (fs @ fst (greedy taker m rs), fst (snd (greedy taker m rs)), map (Pair p) q' @ snd (snd (greedy taker m rs)))"
      using Cons.IH by blast
    have "drain taker p n (r # q) = Some (fill_of taker p r (rs_qty_remaining r) # fs, m, q', rs_client_order_id r # ids)"
      using all d by (simp add: drain_simps)
    then show ?thesis using all l i g assms by (simp add: Suc_diff_le)
  next
    case part
    then show ?thesis using assms by (simp add: drain_simps)
  qed
qed

subsection \<open>The sweep\<close>

lemma sweep_facing:
  "sweep taker n b =
     (if n = 0 then Some ([], n, b)
      else case facing (od_side taker) b of
        [] \<Rightarrow> Some ([], n, b)
      | (p, q) # lv \<Rightarrow>
          (if \<not> crosses (od_kind taker) (od_side taker) p then Some ([], n, b)
           else case drain taker p n q of
             None \<Rightarrow> None
           | Some (fs, m, q', ids) \<Rightarrow>
               map_option (\<lambda>(gs, k, b'). (fs @ gs, k, b')) (sweep taker m (after_level taker p q' ids b))))"
  by (subst sweep.simps) (auto simp: best_for_facing split: list.splits option.splits)

lemma sweep_zero [simp]: "sweep taker 0 b = Some ([], 0, b)"
  by (simp add: sweep.simps)

definition tags :: "(price \<times> Resting) list \<Rightarrow> (price \<times> u128) list" where
  "tags rs = map (\<lambda>(p, r). (p, rs_client_order_id r)) rs"

text \<open>What a sweep does to the book, in terms of the orders that faced the taker.\<close>

definition swept :: "Order \<Rightarrow> qty \<Rightarrow> OrderBook \<Rightarrow> OrderBook \<Rightarrow> bool" where
  "swept taker n b b' \<longleftrightarrow>
     (let s = od_side taker; rs = flat (facing s b); rs' = snd (snd (greedy taker n rs)) in
      flat (facing s b') = rs' \<and> length rs' \<le> length rs \<and>
      side_levels s b' = side_levels s b \<and> next_trade_id b' = next_trade_id b \<and>
      by_id b' = by_id b |` (- snd ` set (take (length rs - length rs') (tags rs))) \<and>
      (\<exists>k. map fst (facing s b') = drop k (map fst (facing s b))) \<and>
      (\<forall>(p, q) \<in> set (facing s b'). q \<noteq> []))"

lemma tags_simps [simp]:
  "tags [] = []" "tags ((p, r) # rs) = (p, rs_client_order_id r) # tags rs" "tags (rs @ rs') = tags rs @ tags rs'"
  "tags (map (Pair p) q) = map (\<lambda>r. (p, rs_client_order_id r)) q" "length (tags rs) = length rs"
  "tags (rev rs) = rev (tags rs)"
  by (simp_all add: tags_def rev_map)

lemma swept_refl:
  assumes "greedy taker n (flat (facing (od_side taker) b)) = (fs, m, flat (facing (od_side taker) b))"
    and "\<forall>(p, q) \<in> set (facing (od_side taker) b). q \<noteq> []"
  shows "swept taker n b b"
  using assms by (auto simp: swept_def Let_def restrict_map_def intro: exI [of _ 0])

lemma sweep_swept:
  assumes "distinct (map fst (facing (od_side taker) b))" "\<forall>(p, q) \<in> set (facing (od_side taker) b). q \<noteq> []"
  shows "\<exists>b'. sweep taker n b = Some (fst (greedy taker n (flat (facing (od_side taker) b))),
      fst (snd (greedy taker n (flat (facing (od_side taker) b)))), b') \<and> swept taker n b b'"
  using assms
proof (induction "facing (od_side taker) b" arbitrary: n b)
  case Nil
  have "swept taker n b b" by (rule swept_refl) (use Nil in \<open>simp_all flip: Nil(1)\<close>)
  moreover have "sweep taker n b = Some ([], n, b)" by (subst sweep_facing) (simp flip: Nil(1))
  ultimately show ?case by (simp flip: Nil(1))
next
  case (Cons e lv)
  let ?s = "od_side taker"
  obtain p q where e: "e = (p, q)" by fastforce
  have f: "facing ?s b = (p, q) # lv" using Cons.hyps(2) e by simp
  have q: "q \<noteq> []" and ne: "\<forall>(p, q) \<in> set lv. q \<noteq> []" using Cons.prems(2) f by auto
  consider (stop) "n = 0 \<or> \<not> crosses (od_kind taker) ?s p" | (go) "0 < n" "crosses (od_kind taker) ?s p" by auto
  then show ?case
  proof cases
    case stop
    have g: "greedy taker n (flat (facing ?s b)) = ([], n, flat (facing ?s b))"
      using stop q by (cases q) (auto simp: f)
    have "swept taker n b b" by (rule swept_refl [OF g Cons.prems(2)])
    moreover have "sweep taker n b = Some ([], n, b)" using stop by (subst sweep_facing) (auto simp: f)
    ultimately show ?thesis by (simp add: g)
  next
    case go
    obtain fs m q' ids where d: "drain taker p n q = Some (fs, m, q', ids)"
      and len: "length q' \<le> length q" and ids: "ids = map rs_client_order_id (take (length q - length q') q)"
      and g: "\<forall>rs. greedy taker n (map (Pair p) q @ rs) =
        (fs @ fst (greedy taker m rs), fst (snd (greedy taker m rs)), map (Pair p) q' @ snd (snd (greedy taker m rs)))"
      using drain_greedy [OF go(2)] by blast
    define b1 where "b1 = after_level taker p q' ids b"
    have f1: "facing ?s b1 = (if q' = [] then lv else (p, q') # lv)"
      unfolding b1_def by (rule after_level_facing [OF f Cons.prems(1)])
    have sw: "sweep taker n b = map_option (\<lambda>(gs, k, b'). (fs @ gs, k, b')) (sweep taker m b1)"
      using go by (subst sweep_facing) (simp add: d f b1_def)
    have other: "side_levels ?s b1 = side_levels ?s b" "next_trade_id b1 = next_trade_id b"
      "by_id b1 = by_id b |` (- set ids)"
      by (simp_all add: b1_def)
    show ?thesis
    proof (cases "q' = []")
      case True
      have f1': "lv = facing ?s b1" using f1 True by simp
      have p1: "distinct (map fst (facing ?s b1))" "\<forall>(p, q) \<in> set (facing ?s b1). q \<noteq> []"
        using Cons.prems(1) ne by (simp_all add: f1' [symmetric] f)
      obtain b' where b': "sweep taker m b1 = Some (fst (greedy taker m (flat lv)), fst (snd (greedy taker m (flat lv))), b')"
        and swb: "swept taker m b1 b'"
        using Cons.hyps(1) [OF f1' p1] f1' by auto
      obtain k where k: "map fst (facing ?s b') = drop k (map fst lv)"
        using swb f1' by (auto simp: swept_def Let_def)
      have keys: "map fst (facing ?s b') = drop (Suc k) (map fst (facing ?s b))" by (simp add: k f)
      have "swept taker n b b'"
        using swb other ids True g keys
        by (auto simp: swept_def Let_def f f1' [symmetric] Suc_diff_le image_Un image_image
            intro: exI [of _ "Suc k"])
      then show ?thesis using sw b' g by (simp add: f)
    next
      case False
      then have m: "m = 0" using drain_bounds [OF d] by simp
      have "swept taker n b b1"
        using other ids len False g f1 ne by (auto simp: swept_def Let_def f m take_map image_image intro: exI [of _ 0])
      then show ?thesis using sw g m by (simp add: f)
    qed
  qed
qed

subsection \<open>The other steps\<close>

lemma fill_level_sum:
  "fill_level n q = (if q \<noteq> [] \<and> n \<le> sum_list (map rs_qty_remaining q) then Inl () else Inr (n - sum_list (map rs_qty_remaining q)))"
  if "0 < n"
  using that by (induction q arbitrary: n) (auto simp: Let_def)

lemma liquidity_simps [simp]:
  "liquidity k s [] = 0"
  "liquidity k s ((p, r) # rs) = (if crosses k s p then rs_qty_remaining r else 0) + liquidity k s rs"
  "liquidity k s (rs @ rs') = liquidity k s rs + liquidity k s rs'"
  "liquidity k s (map (Pair p) q) = (if crosses k s p then sum_list (map rs_qty_remaining q) else 0)"
  by (induction q) (simp_all add: liquidity_def o_def)

lemma as_good_crosses: "crosses_price s p lim \<Longrightarrow> as_good (other s) p' p \<Longrightarrow> crosses_price s p' lim"
  by (cases s) auto

lemma fill_levels_liquidity:
  assumes "0 < n" "sorted_wrt (as_good (other s)) (map fst lv)"
  shows "fill_levels s lim n lv = (n \<le> liquidity (Limit lim tif) s (flat lv))"
  using assms
proof (induction lv arbitrary: n)
  case (Cons e lv)
  obtain p q where e: "e = (p, q)" by fastforce
  show ?case
  proof (cases "crosses_price s p lim")
    case True
    show ?thesis
    proof (cases "n \<le> sum_list (map rs_qty_remaining q)")
      case False
      then show ?thesis using Cons True by (simp add: e fill_level_sum) linarith
    next
      case t: True
      then have "q \<noteq> []" using Cons.prems(1) by auto
      then show ?thesis using t True Cons.prems(1) by (simp add: e fill_level_sum)
    qed
  next
    case False
    have "\<not> crosses_price s p' lim" if "p' \<in> fst ` set lv" for p'
      using that Cons.prems(2) False as_good_crosses [of s p' lim p] by (auto simp: e)
    then have "liquidity (Limit lim tif) s (flat lv) = 0"
      by (induction lv) (force simp: liquidity_def)+
    then show ?thesis using False Cons.prems(1) by (simp add: e)
  qed
qed simp

lemma assign_trade_ids_numbered:
  "assign_trade_ids fs b = (numbered (next_trade_id b) fs, b\<lparr>next_trade_id := next_trade_id b + of_nat (length fs)\<rparr>)"
  by (induction fs arbitrary: b) (simp_all add: take_trade_id_def)

lemma level_entry_flat:
  assumes "sorted_wrt (<) (map fst lv)"
  shows "flat (level_entry p (\<lambda>q. q @ [x]) lv) =
      filter (\<lambda>(k, r). k \<le> p) (flat lv) @ (p, x) # filter (\<lambda>(k, r). \<not> k \<le> p) (flat lv)"
  using assms
proof (induction lv)
  case (Cons e lv)
  obtain k q where e: "e = (k, q)" by fastforce
  have gt: "k < k'" if "(k', r) \<in> set (flat lv)" for k' r using Cons.prems that by (auto simp: e flat_def)
  have none: "p \<le> k \<Longrightarrow> filter (\<lambda>(k, r). k \<le> p) (flat lv) = []" "p \<le> k \<Longrightarrow> filter (\<lambda>(k, r). \<not> k \<le> p) (flat lv) = flat lv"
    using gt by (fastforce simp: filter_empty_conv filter_id_conv)+
  show ?case using Cons none by (auto simp: e o_def)
qed simp

lemma level_entry_flat_rev:
  assumes "sorted_wrt (<) (map fst lv)"
  shows "flat (rev (level_entry p (\<lambda>q. q @ [x]) lv)) =
      filter (\<lambda>(k, r). p \<le> k) (flat (rev lv)) @ (p, x) # filter (\<lambda>(k, r). \<not> p \<le> k) (flat (rev lv))"
  using assms
proof (induction lv)
  case (Cons e lv)
  obtain k q where e: "e = (k, q)" by fastforce
  have gt: "k < k'" if "(k', r) \<in> set (flat (rev lv))" for k' r using Cons.prems that by (auto simp: e flat_def)
  have none: "p \<le> k \<Longrightarrow> filter (\<lambda>(k, r). p \<le> k) (flat (rev lv)) = flat (rev lv)" "p \<le> k \<Longrightarrow> filter (\<lambda>(k, r). \<not> p \<le> k) (flat (rev lv)) = []"
    using gt by (fastforce simp: filter_empty_conv filter_id_conv)+
  show ?case using Cons none by (auto simp: e o_def)
qed simp

subsection \<open>Well-formed levels\<close>

definition side_ok :: "levels \<Rightarrow> bool" where
  "side_ok lv \<longleftrightarrow> sorted_wrt (<) (map fst lv) \<and> list_all (\<lambda>(p, q). q \<noteq> []) lv"

definition levels_ok :: "OrderBook \<Rightarrow> bool" where
  "levels_ok b \<longleftrightarrow> side_ok (bids b) \<and> side_ok (asks b)"

lemma levels_ok_side: "levels_ok b \<longleftrightarrow> side_ok (side_levels s b) \<and> side_ok (side_levels (other s) b)"
  by (cases s) (auto simp: levels_ok_def)

lemma side_ok_facing:
  assumes "side_ok (side_levels (other s) b)"
  shows "sorted_wrt (as_good (other s)) (map fst (facing s b))" "distinct (map fst (facing s b))"
    "\<forall>(p, q) \<in> set (facing s b). q \<noteq> []"
proof -
  have ss: "sorted_wrt (<) (map fst (side_levels (other s) b))" using assms by (simp add: side_ok_def)
  have "sorted_wrt (\<lambda>x y. as_good (other s) x y \<and> x \<noteq> y) (map fst (facing s b))"
    using ss by (cases s) (auto simp: sorted_wrt_rev rev_map [symmetric] elim!: sorted_wrt_mono_rel [rotated])
  then show "sorted_wrt (as_good (other s)) (map fst (facing s b))" "distinct (map fst (facing s b))"
    by (auto simp: distinct_conv_nth sorted_wrt_iff_nth_less elim: sorted_wrt_mono_rel [rotated])
      (metis linorder_neqE_nat)
  show "\<forall>(p, q) \<in> set (facing s b). q \<noteq> []"
    using assms by (cases s) (auto simp: side_ok_def list_all_iff)
qed

lemma swept_side_ok:
  assumes "swept taker n b b'" "side_ok (side_levels (other (od_side taker)) b)"
  shows "side_ok (side_levels (other (od_side taker)) b')"
proof -
  obtain k where k: "map fst (facing (od_side taker) b') = drop k (map fst (facing (od_side taker) b))"
    and ne: "\<forall>(p, q) \<in> set (facing (od_side taker) b'). q \<noteq> []"
    using assms(1) by (auto simp: swept_def Let_def)
  show ?thesis
  proof (cases "od_side taker")
    case Bid
    then show ?thesis using k ne assms(2) by (auto simp: side_ok_def list_all_iff sorted_wrt_drop)
  next
    case Ask
    have "map fst (bids b') = take (length (bids b) - k) (map fst (bids b))"
      using k Ask by (simp add: rev_map [symmetric] drop_rev)
    then show ?thesis using Ask ne assms(2) by (auto simp: side_ok_def list_all_iff sorted_wrt_take)
  qed
qed

lemma level_entry_set: "set (level_entry p f lv) \<subseteq> insert (p, f []) (set lv \<union> {(p, f q) |q. (p, q) \<in> set lv})"
  by (induction p f lv rule: level_entry.induct) auto

lemma level_entry_keys: "fst ` set (level_entry p f lv) = insert p (fst ` set lv)"
  by (induction p f lv rule: level_entry.induct) auto

lemma level_entry_sorted: "sorted_wrt (<) (map fst lv) \<Longrightarrow> sorted_wrt (<) (map fst (level_entry p f lv))"
  by (induction p f lv rule: level_entry.induct) (auto simp: level_entry_keys)

lemma level_entry_ok: "side_ok lv \<Longrightarrow> side_ok (level_entry p (\<lambda>q. q @ [x]) lv)"
  using level_entry_set [of p "\<lambda>q. q @ [x]" lv] level_entry_sorted [of lv p "\<lambda>q. q @ [x]"]
  by (fastforce simp: side_ok_def list_all_iff)

lemma rest_limit:
  assumes "od_kind o1 = Limit p tif"
  shows "side_levels (od_side o1) (rest o1 b) = level_entry p (\<lambda>q. q @ [resting_of o1]) (side_levels (od_side o1) b)"
    "side_levels (other (od_side o1)) (rest o1 b) = side_levels (other (od_side o1)) b"
    "next_trade_id (rest o1 b) = next_trade_id b"
    "by_id (rest o1 b) = (by_id b)(od_client_order_id o1 \<mapsto> (od_side o1, p))"
  using assms by (simp_all add: rest_def Let_def)

lemma rest_enqueue:
  assumes "od_kind o1 = Limit p tif" "side_ok (side_levels (od_side o1) b)"
  shows "flat (facing (other (od_side o1)) (rest o1 b)) =
    enqueue (od_side o1) p (resting_of o1) (flat (facing (other (od_side o1)) b))"
proof -
  have s: "sorted_wrt (<) (map fst (side_levels (od_side o1) b))" using assms(2) by (simp add: side_ok_def)
  show ?thesis
  proof (cases "od_side o1")
    case Bid
    have "bids (rest o1 b) = level_entry p (\<lambda>q. q @ [resting_of o1]) (bids b)"
      using rest_limit(1) [OF assms(1), of b] Bid by simp
    then show ?thesis using level_entry_flat_rev [of "bids b" p "resting_of o1"] s Bid by (simp add: enqueue_def)
  next
    case Ask
    have "asks (rest o1 b) = level_entry p (\<lambda>q. q @ [resting_of o1]) (asks b)"
      using rest_limit(1) [OF assms(1), of b] Ask by simp
    then show ?thesis using level_entry_flat [of "asks b" p "resting_of o1"] s Ask by (simp add: enqueue_def)
  qed
qed

subsection \<open>The matcher refines the contract\<close>

definition fok_short :: "Order \<Rightarrow> (price \<times> Resting) list \<Rightarrow> bool" where
  "fok_short taker rs \<longleftrightarrow>
     (case od_kind taker of Limit _ Fok \<Rightarrow> liquidity (od_kind taker) (od_side taker) rs < od_qty taker | _ \<Rightarrow> False)"

definition rests_after :: "Order \<Rightarrow> qty \<Rightarrow> bool" where
  "rests_after taker m \<longleftrightarrow> 0 < m \<and> (case od_kind taker of Limit _ Gtc \<Rightarrow> True | _ \<Rightarrow> False)"

text \<open>The three ways the matcher ends.\<close>

lemma match_order_cases:
  assumes ok: "levels_ok b"
  obtains
    (killed) "fok_short taker (flat (facing (od_side taker) b))" "match_order taker b = Some ([], b)"
  | (trades) fs m b1 where "\<not> fok_short taker (flat (facing (od_side taker) b))"
      "fs = fst (greedy taker (od_qty taker) (flat (facing (od_side taker) b)))"
      "m = fst (snd (greedy taker (od_qty taker) (flat (facing (od_side taker) b))))"
      "swept taker (od_qty taker) b b1" "\<not> rests_after taker m"
      "match_order taker b =
        Some (numbered (next_trade_id b) fs, b1\<lparr>next_trade_id := next_trade_id b + of_nat (length fs)\<rparr>)"
  | (rests) fs m b1 p where "fs = fst (greedy taker (od_qty taker) (flat (facing (od_side taker) b)))"
      "m = fst (snd (greedy taker (od_qty taker) (flat (facing (od_side taker) b))))"
      "swept taker (od_qty taker) b b1" "0 < m" "od_kind taker = Limit p Gtc"
      "match_order taker b =
        Some (numbered (next_trade_id b) fs, rest (with_qty taker m) (b1\<lparr>next_trade_id := next_trade_id b + of_nat (length fs)\<rparr>))"
proof -
  let ?s = "od_side taker"
  let ?rs = "flat (facing ?s b)"
  let ?n = "od_qty taker"
  have side: "side_ok (side_levels (other ?s) b)" using ok levels_ok_side by blast
  note f = side_ok_facing [OF side]
  obtain b1 where sw: "sweep taker ?n b = Some (fst (greedy taker ?n ?rs), fst (snd (greedy taker ?n ?rs)), b1)"
    and swb: "swept taker ?n b b1"
    using sweep_swept [OF f(2,3)] by blast
  have i: "next_trade_id b1 = next_trade_id b" using swb by (simp add: swept_def Let_def)
  let ?b2 = "b1\<lparr>next_trade_id := next_trade_id b + of_nat (length (fst (greedy taker ?n ?rs)))\<rparr>"
  have run: "match_order taker b =
      Some (numbered (next_trade_id b) (fst (greedy taker ?n ?rs)),
        if rests_after taker (fst (snd (greedy taker ?n ?rs)))
        then rest (with_qty taker (fst (snd (greedy taker ?n ?rs)))) ?b2 else ?b2)"
    if "\<not> (case od_kind taker of Limit lim Fok \<Rightarrow> \<not> can_fill_full b ?s ?n lim | _ \<Rightarrow> False)"
    using that by (simp add: match_order_def sw assign_trade_ids_numbered i rests_after_def
        split: order_kind.splits time_in_force.splits)
  have fok: "fok_short taker ?rs = (case od_kind taker of Limit lim Fok \<Rightarrow> \<not> can_fill_full b ?s ?n lim | _ \<Rightarrow> False)"
    if "0 < ?n"
    using fill_levels_liquidity [OF that f(1), where tif = Fok]
    by (auto simp: fok_short_def can_fill_full_def split: order_kind.splits time_in_force.splits)
  show ?thesis
  proof (cases "case od_kind taker of Limit lim Fok \<Rightarrow> \<not> can_fill_full b ?s ?n lim | _ \<Rightarrow> False")
    case True
    then have r: "match_order taker b = Some ([], b)" by (simp add: match_order_def)
    show ?thesis
    proof (cases "0 < ?n")
      case pos: True
      show ?thesis by (rule killed) (use r True fok [OF pos] in simp_all)
    next
      case False
      have b: "b = b\<lparr>next_trade_id := next_trade_id b + of_nat (length ([]::BookFill list))\<rparr>" by simp
      have "swept taker ?n b b" by (rule swept_refl [OF _ f(3)]) (use False in simp)
      moreover have "\<not> fok_short taker ?rs" using False by (simp add: fok_short_def split: order_kind.splits time_in_force.splits)
      ultimately show ?thesis
        by (intro trades [of "[]" 0 b]) (use r False in \<open>simp_all add: rests_after_def\<close>)
    qed
  next
    case False
    note r = run [OF False]
    have short: "\<not> fok_short taker ?rs"
      using False fok by (cases "0 < ?n") (auto simp: fok_short_def split: order_kind.splits time_in_force.splits)
    show ?thesis
    proof (cases "rests_after taker (fst (snd (greedy taker ?n ?rs)))")
      case True
      then obtain p where "od_kind taker = Limit p Gtc" "0 < fst (snd (greedy taker ?n ?rs))"
        by (auto simp: rests_after_def split: order_kind.splits time_in_force.splits)
      then show ?thesis by (intro rests [OF refl refl swb]) (use r True in simp_all)
    next
      case no: False
      show ?thesis by (rule trades [OF short refl refl swb no]) (use r no in simp)
    qed
  qed
qed

lemma swept_priority:
  assumes "swept taker n b b1"
  shows "priority b1 = ((fst (priority b))(other (od_side taker) := snd (snd (greedy taker n (flat (facing (od_side taker) b))))), next_trade_id b)"
proof -
  let ?s = "od_side taker"
  have "flat (facing (other ?s) b1) = flat (facing (other ?s) b)"
    using assms facing_cong [of "other ?s" b1 b] by (simp add: swept_def Let_def)
  then have "(\<lambda>s. flat (facing (other s) b1)) = (\<lambda>s. flat (facing (other s) b))(other ?s := flat (facing ?s b1))"
    by (intro ext) (cases ?s; case_tac s; simp)
  then show ?thesis using assms by (simp add: priority_def swept_def Let_def)
qed

lemma rest_priority:
  assumes "od_kind o1 = Limit p tif" "side_ok (side_levels (od_side o1) b)"
  shows "priority (rest o1 b) =
    ((fst (priority b))(od_side o1 := enqueue (od_side o1) p (resting_of o1) (fst (priority b) (od_side o1))), next_trade_id b)"
proof -
  let ?s = "od_side o1"
  have "facing ?s (rest o1 b) = facing ?s b"
    by (rule facing_cong) (simp add: rest_limit [OF assms(1)])
  then have "(\<lambda>s. flat (facing (other s) (rest o1 b))) =
      (\<lambda>s. flat (facing (other s) b))(?s := flat (facing (other ?s) (rest o1 b)))"
    by (intro ext) (cases ?s; case_tac s; simp)
  then show ?thesis using rest_enqueue [OF assms] by (simp add: priority_def rest_limit [OF assms(1)])
qed

lemma priority_next_id: "priority (b\<lparr>next_trade_id := i\<rparr>) = (fst (priority b), i)"
  by (simp add: priority_def)

lemma with_qty_simps [simp]:
  "od_kind (with_qty o1 n) = od_kind o1" "od_side (with_qty o1 n) = od_side o1" "od_qty (with_qty o1 n) = n"
  "od_client_order_id (with_qty o1 n) = od_client_order_id o1" "od_platform_seq (with_qty o1 n) = od_platform_seq o1"
  by (simp_all add: with_qty_def)

lemma match_refines:
  assumes ok: "levels_ok b"
  shows "\<exists>fs b'. match_order taker b = Some (fs, b') \<and> (fs, priority b') = pt_match taker (priority b) \<and> levels_ok b'"
proof -
  let ?s = "od_side taker"
  have own: "side_ok (side_levels ?s b)" and opp: "side_ok (side_levels (other ?s) b)" using ok levels_ok_side by blast+
  have q: "fst (priority b) (other ?s) = flat (facing ?s b)" "snd (priority b) = next_trade_id b"
    by (simp_all add: priority_def)
  have swept_ok: "levels_ok b1" "side_ok (side_levels ?s b1)" if "swept taker n b b1" for n b1
    using swept_side_ok [OF that opp] own levels_ok_side [of b1 ?s] that by (simp_all add: swept_def Let_def)
  have next_ok: "levels_ok (x\<lparr>next_trade_id := i\<rparr>) = levels_ok x" for x i by (simp add: levels_ok_def)
  have run: "pt_match taker (priority b) =
     (if fok_short taker (flat (facing ?s b)) then ([], priority b)
      else (let (fs, m, rs') = greedy taker (od_qty taker) (flat (facing ?s b));
                queues = (fst (priority b))(other ?s := rs')
            in (numbered (next_trade_id b) fs,
                if rests_after taker m
                then queues(?s := enqueue ?s (case od_kind taker of Limit p _ \<Rightarrow> p) (resting_of (with_qty taker m)) (queues ?s))
                else queues, next_trade_id b + of_nat (length fs))))"
    unfolding pt_match_def Let_def fok_short_def rests_after_def q [symmetric]
    by (simp add: case_prod_beta split: order_kind.splits time_in_force.splits)
  show ?thesis
  proof (cases taker rule: match_order_cases [OF ok])
    case 1
    then show ?thesis using ok by (simp add: run)
  next
    case (2 fs m b1)
    then show ?thesis
      by (simp add: run case_prod_beta swept_priority priority_next_id next_ok swept_ok(1))
  next
    case (3 fs m b1 p)
    let ?b2 = "b1\<lparr>next_trade_id := next_trade_id b + of_nat (length fs)\<rparr>"
    have k: "od_kind (with_qty taker m) = Limit p Gtc" using 3 by simp
    have s2: "side_ok (side_levels (od_side (with_qty taker m)) ?b2)" using swept_ok(2) [OF 3(3)] by simp
    have "levels_ok (rest (with_qty taker m) ?b2)"
      using swept_ok [OF 3(3)] levels_ok_side [of _ ?s] rest_limit(1,2) [OF k] level_entry_ok [OF s2] by simp
    moreover have "rests_after taker m" "\<not> fok_short taker (flat (facing ?s b))"
      using 3 by (simp_all add: rests_after_def fok_short_def)
    ultimately show ?thesis using 3(1,2,5,6) rest_priority [OF k s2]
      by (simp add: run case_prod_beta swept_priority [OF 3(3)] priority_next_id)
  qed
qed

subsection \<open>What the matcher promises\<close>

definition volume :: "BookFill list \<Rightarrow> qty" where
  "volume fs = sum_list (map bf_qty fs)"

lemma volume_simps [simp]: "volume [] = 0" "volume (f # fs) = bf_qty f + volume fs" "volume (fs @ gs) = volume fs + volume gs"
  by (simp_all add: volume_def)

lemma fill_of_simps [simp]:
  "bf_qty (fill_of taker p r n) = n" "bf_price (fill_of taker p r n) = p"
  "bf_platform_seq_taker (fill_of taker p r n) = od_platform_seq taker"
  "bf_platform_seq_maker (fill_of taker p r n) = rs_platform_seq r"
  "bf_ts_ns (fill_of taker p r n) = od_platform_ts_ns taker"
  by (simp_all add: fill_of_def)

lemma numbered_simps [simp]:
  "length (numbered i fs) = length fs" "volume (numbered i fs) = volume fs"
  "map bf_price (numbered i fs) = map bf_price fs" "map bf_qty (numbered i fs) = map bf_qty fs"
  "map bf_platform_seq_taker (numbered i fs) = map bf_platform_seq_taker fs"
  "map bf_platform_seq_maker (numbered i fs) = map bf_platform_seq_maker fs"
  by (induction fs arbitrary: i) simp_all

lemma greedy_volume: "greedy taker n rs = (fs, m, rs') \<Longrightarrow> volume fs + m = n \<and> length fs \<le> length rs"
  by (induction taker n rs arbitrary: fs m rs' rule: greedy.induct) (fastforce split: if_splits prod.splits)+

lemma greedy_liquidity:
  assumes "greedy taker n rs = (fs, m, rs')" "sorted_wrt (as_good (other (od_side taker))) (map fst rs)"
  shows "volume fs = min n (liquidity (od_kind taker) (od_side taker) rs)"
  using assms
proof (induction taker n rs arbitrary: fs m rs' rule: greedy.induct)
  case (2 taker n p r rs)
  show ?case
  proof (cases "n = 0 \<or> \<not> crosses (od_kind taker) (od_side taker) p")
    case True
    have "liquidity (od_kind taker) (od_side taker) rs = 0" if no: "\<not> crosses (od_kind taker) (od_side taker) p"
    proof -
      obtain lim tif where k: "od_kind taker = Limit lim tif" using no by (cases "od_kind taker") auto
      have "\<not> crosses_price (od_side taker) p' lim" if "p' \<in> fst ` set rs" for p'
        using that 2(3) no as_good_crosses [of "od_side taker" p' lim p] by (auto simp: k)
      then show ?thesis by (induction rs) (force simp: liquidity_def k)+
    qed
    then show ?thesis using 2(2) True by auto
  next
    case False
    then show ?thesis using 2 by (auto split: if_splits prod.splits)
  qed
qed simp

lemma greedy_crosses:
  "greedy taker n rs = (fs, m, rs') \<Longrightarrow> list_all (\<lambda>f. crosses (od_kind taker) (od_side taker) (bf_price f)) fs"
  by (induction taker n rs arbitrary: fs m rs' rule: greedy.induct) (fastforce split: if_splits prod.splits)+

lemma numbered_crosses: "list_all (\<lambda>f. P (bf_price f)) (numbered i fs) = list_all (\<lambda>f. P (bf_price f)) fs"
  by (induction fs arbitrary: i) simp_all

lemma flat_sorted:
  assumes "sorted_wrt (as_good s) (map fst lv)"
  shows "sorted_wrt (as_good s) (map fst (flat lv))"
  using assms
proof (induction lv)
  case (Cons e lv)
  obtain p q where e: "e = (p, q)" by fastforce
  have "as_good s p p" by (cases s) auto
  then have "sorted_wrt (as_good s) (map (fst \<circ> Pair p) q)" by (induction q) auto
  moreover have "as_good s p k" if "(k, r) \<in> set (flat lv)" for k r
    using that Cons.prems by (auto simp: e flat_def)
  ultimately show ?case using Cons by (auto simp: e sorted_wrt_append)
qed simp

lemma sweep_returns: "sweep taker n b \<noteq> None"
proof (induction taker n b rule: sweep.induct)
  case (1 taker n b)
  have d: "drain taker p n q \<noteq> None" if "crosses (od_kind taker) (od_side taker) p" for p q
    using drain_greedy [OF that, of n q] by auto
  show ?case
    by (subst sweep.simps) (use 1 d in \<open>fastforce split: option.splits prod.splits\<close>)
qed

lemma match_order_returns: "match_order taker b \<noteq> None"
  using sweep_returns [of taker "od_qty taker" b]
  by (auto simp: match_order_def Let_def split: option.splits order_kind.splits time_in_force.splits prod.splits)

text \<open>
  C15 (matcher_terminates): the two nested loops of \<^verbatim>\<open>match_order\<close> end, and neither \<^verbatim>\<open>expect\<close> panics, for every
  order on every book, even one no sequence of orders would build.  On a book with sorted levels and no
  empty ones the inner loop runs at most once for each order that faces the taker, and the taker never gets
  more than it asked for.
\<close>

theorem matcher_terminates:
  "match_order taker b \<noteq> None \<and>
   (levels_ok b \<longrightarrow>
     (\<exists>fs b'. match_order taker b = Some (fs, b') \<and> volume fs \<le> od_qty taker \<and>
       length fs \<le> length (flat (facing (od_side taker) b))))"
proof (intro conjI impI)
  show "match_order taker b \<noteq> None" by (rule match_order_returns)
next
  assume ok: "levels_ok b"
  have v: "volume (fst (greedy taker (od_qty taker) rs)) \<le> od_qty taker \<and> length (fst (greedy taker (od_qty taker) rs)) \<le> length rs" for rs
    using greedy_volume [of taker "od_qty taker" rs] by (cases "greedy taker (od_qty taker) rs") auto
  show "\<exists>fs b'. match_order taker b = Some (fs, b') \<and> volume fs \<le> od_qty taker \<and> length fs \<le> length (flat (facing (od_side taker) b))"
    by (cases taker rule: match_order_cases [OF ok]) (use v in simp_all)
qed

text \<open>
  C1 (matching_is_price_time_priority): on a book with sorted levels and no empty ones, the matcher with
  its levels, queues and index produces exactly the fills, the trade ids and the resting orders of the
  reference matcher on the flat priority lists: best price first, first come first served at one price, at
  the maker's price, until the taker is filled or the next order does not cross; the rest of a
  good-till-cancelled order queues behind every order as good as it; nothing else changes.
\<close>

theorem matching_is_price_time_priority:
  assumes "levels_ok b"
  shows "map_option (\<lambda>(fs, b'). (fs, priority b')) (match_order taker b) = Some (pt_match taker (priority b))"
  using match_refines [OF assms, of taker] by auto

text \<open>
  C26 (time_in_force_respected): every fill is at a price that crosses the taker's.  A fill-or-kill order is
  filled exactly if the orders crossing it suffice; otherwise nothing is filled and the book is what it was.
  Any other order gets all that crosses it, up to its quantity.  What is not filled rests only for a
  good-till-cancelled limit order, at its own price; the taker's side is unchanged otherwise.
\<close>

theorem time_in_force_respected:
  assumes ok: "levels_ok b" and run: "match_order taker b = Some (fs, b')"
  shows "let s = od_side taker; there = liquidity (od_kind taker) s (flat (facing s b)); own = flat (facing (other s) b') in
    list_all (\<lambda>f. crosses (od_kind taker) s (bf_price f)) fs \<and>
    (case od_kind taker of
       Limit p Fok \<Rightarrow>
         (if od_qty taker \<le> there then volume fs = od_qty taker \<and> own = flat (facing (other s) b) else fs = [] \<and> b' = b)
     | Limit p Gtc \<Rightarrow> volume fs = min (od_qty taker) there \<and>
         own = (if od_qty taker \<le> there then flat (facing (other s) b)
                else enqueue s p (resting_of (with_qty taker (od_qty taker - there))) (flat (facing (other s) b)))
     | _ \<Rightarrow> volume fs = min (od_qty taker) there \<and> own = flat (facing (other s) b))"
proof -
  let ?s = "od_side taker"
  let ?rs = "flat (facing ?s b)"
  let ?there = "liquidity (od_kind taker) ?s ?rs"
  have opp: "side_ok (side_levels (other ?s) b)" using ok levels_ok_side by blast
  obtain gs m rs' where g: "greedy taker (od_qty taker) ?rs = (gs, m, rs')" by (cases "greedy taker (od_qty taker) ?rs")
  have keys: "sorted_wrt (as_good (other ?s)) (map fst ?rs)"
    using side_ok_facing(1) [OF opp] by (rule flat_sorted)
  have v: "volume gs = min (od_qty taker) ?there" by (rule greedy_liquidity [OF g keys])
  then have m: "m = od_qty taker - ?there" using greedy_volume [OF g] by (simp add: min_def split: if_splits)
  have price: "list_all (\<lambda>f. crosses (od_kind taker) ?s (bf_price f)) gs" using g by (rule greedy_crosses)
  have num: "list_all (\<lambda>f. crosses (od_kind taker) ?s (bf_price f)) (numbered i gs)" for i
    using price numbered_crosses [of "crosses (od_kind taker) ?s"] by simp
  have "(fs, priority b') = pt_match taker (priority b)"
    using match_refines [OF ok, of taker] run by auto
  then have fs: "fs = fst (pt_match taker (priority b))"
    and own: "flat (facing (other ?s) b') = fst (snd (pt_match taker (priority b))) ?s"
    by (metis fst_conv, metis fst_conv snd_conv priority_def)
  show ?thesis
  proof (cases "fok_short taker ?rs")
    case True
    then have "match_order taker b = Some ([], b)"
      by (cases taker rule: match_order_cases [OF ok]) (simp_all add: fok_short_def)
    then show ?thesis using run True
      by (simp add: fok_short_def split: order_kind.splits time_in_force.splits)
  next
    case False
    have "pt_match taker (priority b) =
        (numbered (next_trade_id b) gs,
         (let queues = (\<lambda>s. flat (facing (other s) b))(other ?s := rs') in
          if rests_after taker m
          then queues(?s := enqueue ?s (case od_kind taker of Limit p _ \<Rightarrow> p) (resting_of (with_qty taker m)) (queues ?s))
          else queues), next_trade_id b + of_nat (length gs))"
      using False unfolding pt_match_def priority_def fok_short_def rests_after_def Let_def
      by (simp add: g split: order_kind.splits time_in_force.splits)
    then have "fs = numbered (next_trade_id b) gs"
      and "flat (facing (other ?s) b') =
        (if rests_after taker m
         then enqueue ?s (case od_kind taker of Limit p _ \<Rightarrow> p) (resting_of (with_qty taker m)) (flat (facing (other ?s) b))
         else flat (facing (other ?s) b))"
      using fs own by (simp_all add: Let_def)
    then show ?thesis using num v False m
      by (auto simp: Let_def rests_after_def fok_short_def min_def split: order_kind.splits time_in_force.splits)
  qed
qed

definition sample_resting :: "u64 \<Rightarrow> qty \<Rightarrow> Resting" where
  "sample_resting i n = \<lparr>rs_platform_seq = i, rs_platform_ts_ns = i, rs_client_order_id = ucast i, rs_session_token = [], rs_qty_remaining = n\<rparr>"

definition sample_book :: OrderBook where
  "sample_book =
     \<lparr>bids = [(98, [sample_resting 4 7])], asks = [(100, [sample_resting 1 5, sample_resting 2 3]), (101, [sample_resting 3 4])],
      by_id = [1 \<mapsto> (Ask, 100), 2 \<mapsto> (Ask, 100), 3 \<mapsto> (Ask, 101), 4 \<mapsto> (Bid, 98)], next_trade_id = 0\<rparr>"

definition sample_taker :: "qty \<Rightarrow> order_kind \<Rightarrow> Order" where
  "sample_taker n k = \<lparr>od_platform_seq = 9, od_platform_ts_ns = 90, od_client_order_id = 9, od_session_token = [], od_side = Bid, od_qty = n, od_kind = k\<rparr>"

lemma sample_book_ok: "levels_ok sample_book"
  by (simp add: levels_ok_def side_ok_def sample_book_def)

theorem matcher_terminates_witness:
  "\<exists>fs b'. match_order (sample_taker 10 (Limit 100 Gtc)) sample_book = Some (fs, b') \<and> volume fs \<le> 10 \<and>
     length fs \<le> length (flat (asks sample_book))"
  using matcher_terminates [of "sample_taker 10 (Limit 100 Gtc)" sample_book] sample_book_ok
  by (simp add: sample_taker_def)

theorem matching_is_price_time_priority_witness:
  "map_option (\<lambda>(fs, b'). (fs, priority b')) (match_order (sample_taker 10 (Limit 100 Gtc)) sample_book) =
     Some (pt_match (sample_taker 10 (Limit 100 Gtc)) (priority sample_book))
   \<and> map (\<lambda>f. (bf_trade_id f, bf_platform_seq_maker f, bf_price f, bf_qty f))
       (fst (pt_match (sample_taker 10 (Limit 100 Gtc)) (priority sample_book))) = [(0, 1, 100, 5), (1, 2, 100, 3)]"
  using matching_is_price_time_priority [OF sample_book_ok, of "sample_taker 10 (Limit 100 Gtc)"]
  by (simp add: pt_match_def priority_def sample_taker_def sample_book_def sample_resting_def fill_of_def)

lemma sample_ioc:
  "match_order (sample_taker 6 (Limit 100 Ioc)) sample_book =
     Some (numbered 0 [fill_of (sample_taker 6 (Limit 100 Ioc)) 100 (sample_resting 1 5) 5,
                       fill_of (sample_taker 6 (Limit 100 Ioc)) 100 (sample_resting 2 3) 1],
       sample_book\<lparr>asks := [(100, [sample_resting 2 2]), (101, [sample_resting 3 4])], by_id := (by_id sample_book)(1 := None),
         next_trade_id := 2\<rparr>)"
  by (simp add: match_order_def sample_taker_def sample_book_def sample_resting_def sweep.simps drain_simps
      after_level_def level_set_def drop_level_if_empty_def level_get_def forget_id_def take_trade_id_def fill_of_def)

theorem time_in_force_respected_witness:
  "volume (numbered 0 [fill_of (sample_taker 6 (Limit 100 Ioc)) 100 (sample_resting 1 5) 5,
                       fill_of (sample_taker 6 (Limit 100 Ioc)) 100 (sample_resting 2 3) 1]) = min 6 8"
  using time_in_force_respected [OF sample_book_ok sample_ioc]
  by (simp add: sample_taker_def sample_book_def sample_resting_def)

end
