(* ===== verification/BookInvariant.thy ===== *)
theory BookInvariant
  imports PriceTime "HOL-Library.Multiset"
begin

text \<open>
  The invariant of \<^verbatim>\<open>OrderBook\<close> under \<^verbatim>\<open>match_order\<close> and \<^verbatim>\<open>cancel\<close>, in two parts.  Whatever the ids are, levels are
  sorted and not empty, quantities positive, sides uncrossed, and each index entry leads to a resting order
  (\<open>book_sound\<close>).  While ids do not repeat the index is exact as well (\<open>book_ok\<close>).
\<close>

subsection \<open>The invariant\<close>

definition own :: "book_side \<Rightarrow> OrderBook \<Rightarrow> (price \<times> Resting) list" where
  "own s b = flat (facing (other s) b)"

definition held :: "book_side \<Rightarrow> OrderBook \<Rightarrow> (price \<times> u128) list" where
  "held s b = tags (own s b)"

definition positive :: "(price \<times> Resting) list \<Rightarrow> bool" where
  "positive rs = list_all (\<lambda>(p, r). 0 < rs_qty_remaining r) rs"

definition uncrossed :: "OrderBook \<Rightarrow> bool" where
  "uncrossed b = list_all (\<lambda>(p, r). list_all (\<lambda>(k, x). p < k) (own Ask b)) (own Bid b)"

definition index_exact :: "OrderBook \<Rightarrow> bool" where
  "index_exact b \<longleftrightarrow>
     distinct (map snd (held Bid b @ held Ask b)) \<and> (\<forall>i s p. by_id b i = Some (s, p) \<longleftrightarrow> (p, i) \<in> set (held s b))"

definition index_sound :: "OrderBook \<Rightarrow> bool" where
  "index_sound b \<longleftrightarrow> (\<forall>i s p. by_id b i = Some (s, p) \<longrightarrow> (p, i) \<in> set (held s b))"

definition book_sound :: "OrderBook \<Rightarrow> bool" where
  "book_sound b \<longleftrightarrow> levels_ok b \<and> positive (own Bid b) \<and> positive (own Ask b) \<and> uncrossed b \<and> index_sound b"

definition book_ok :: "OrderBook \<Rightarrow> bool" where
  "book_ok b \<longleftrightarrow> levels_ok b \<and> positive (own Bid b) \<and> positive (own Ask b) \<and> uncrossed b \<and> index_exact b"

text \<open>The same facts, seen from either side.\<close>

lemma uncrossed_side:
  "uncrossed b \<longleftrightarrow> (\<forall>(p, r) \<in> set (own s b). \<forall>(k, x) \<in> set (own (other s) b). \<not> crosses_price s k p)"
  by (cases s) (fastforce simp: uncrossed_def list_all_iff)+

lemma index_side:
  "index_exact b \<longleftrightarrow>
     distinct (map snd (held s b @ held (other s) b)) \<and> (\<forall>i t p. by_id b i = Some (t, p) \<longleftrightarrow> (p, i) \<in> set (held t b))"
  by (cases s) (auto simp: index_exact_def)

lemma book_ok_side:
  "book_ok b \<longleftrightarrow> levels_ok b \<and> positive (own s b) \<and> positive (own (other s) b) \<and> uncrossed b \<and> index_exact b"
  by (cases s) (auto simp: book_ok_def)

lemma book_sound_side:
  "book_sound b \<longleftrightarrow> levels_ok b \<and> positive (own s b) \<and> positive (own (other s) b) \<and> uncrossed b \<and> index_sound b"
  by (cases s) (auto simp: book_sound_def)

lemma book_ok_split: "book_ok b \<longleftrightarrow> book_sound b \<and> index_exact b"
  by (auto simp: book_ok_def book_sound_def index_sound_def index_exact_def)

lemma book_parts [simp]:
  "own s (b\<lparr>by_id := m\<rparr>) = own s b" "own s (b\<lparr>next_trade_id := i\<rparr>) = own s b"
  "held s (b\<lparr>by_id := m\<rparr>) = held s b" "held s (b\<lparr>next_trade_id := i\<rparr>) = held s b"
  "levels_ok (b\<lparr>by_id := m\<rparr>) = levels_ok b" "levels_ok (b\<lparr>next_trade_id := i\<rparr>) = levels_ok b"
  by (simp_all add: own_def held_def levels_ok_def)

lemma book_ok_next_id [simp]: "book_ok (b\<lparr>next_trade_id := i\<rparr>) = book_ok b"
  by (simp add: book_ok_def uncrossed_def index_exact_def)

lemma book_sound_next_id [simp]:
  "book_sound (b\<lparr>next_trade_id := i\<rparr>) = book_sound b" "index_exact (b\<lparr>next_trade_id := i\<rparr>) = index_exact b"
  by (simp_all add: book_sound_def uncrossed_def index_sound_def index_exact_def)

lemma own_facing: "flat (facing s b) = own (other s) b"
  by (simp add: own_def)

lemma own_sorted: "levels_ok b \<Longrightarrow> sorted_wrt (as_good s) (map fst (own s b))"
  using side_ok_facing(1) [of "other s" b] levels_ok_side [of b s] by (simp add: own_def flat_sorted)

lemma side_cases: "t = s \<or> t = other s" for s t :: book_side
  by (cases s; cases t) auto

lemma tags_fst: "fst ` set (tags rs) = fst ` set rs"
  by (force simp: tags_def)

lemma tags_snd: "snd ` set (tags rs) = (\<lambda>(p, r). rs_client_order_id r) ` set rs"
  by (force simp: tags_def)

subsection \<open>The sweep keeps it\<close>

lemma greedy_tags:
  "greedy taker n rs = (fs, m, rs') \<Longrightarrow> length rs' \<le> length rs \<and> tags rs' = drop (length rs - length rs') (tags rs)"
proof (induction taker n rs arbitrary: fs m rs' rule: greedy.induct)
  case (2 taker n p r rs)
  show ?case
  proof (cases "n = 0 \<or> \<not> crosses (od_kind taker) (od_side taker) p")
    case False
    then show ?thesis using 2 by (fastforce simp: Suc_diff_le split: if_splits prod.splits)
  qed (use 2 in auto)
qed simp

lemma greedy_positive: "greedy taker n rs = (fs, m, rs') \<Longrightarrow> positive rs \<Longrightarrow> positive rs'"
  by (induction taker n rs arbitrary: fs m rs' rule: greedy.induct)
    (fastforce simp: positive_def split: if_splits prod.splits)+

lemma greedy_leaves_uncrossed:
  assumes "greedy taker n rs = (fs, m, rs')" "0 < m" "sorted_wrt (as_good (other (od_side taker))) (map fst rs)"
    "od_kind taker = Limit lim tif"
  shows "\<forall>(k, x) \<in> set rs'. \<not> crosses_price (od_side taker) k lim"
  using assms
proof (induction taker n rs arbitrary: fs m rs' rule: greedy.induct)
  case (2 taker n p r rs)
  show ?case
  proof (cases "crosses (od_kind taker) (od_side taker) p")
    case True
    then show ?thesis using 2 by (fastforce split: if_splits prod.splits)
  next
    case False
    have "\<not> crosses_price (od_side taker) p' lim" if "p' \<in> fst ` set rs" for p'
      using that 2(4,5) False as_good_crosses [of "od_side taker" p' lim p] by auto
    then show ?thesis using False 2(2,5) by fastforce
  qed
qed simp

lemma distinct_apart:
  "distinct (map f (xs @ ys @ zs)) \<Longrightarrow> f ` set xs \<inter> f ` set ys = {} \<and> f ` set zs \<inter> f ` set ys = {}"
  by auto

lemma distinct_skip: "distinct (map f (xs @ ys @ zs)) \<Longrightarrow> distinct (map f (xs @ zs))"
  by auto

lemma swept_sides:
  assumes sw: "swept taker n b b'" and g: "greedy taker n (flat (facing (od_side taker) b)) = (fs, m, rs')"
  shows "own (od_side taker) b' = own (od_side taker) b" "own (other (od_side taker)) b' = rs'"
    "held (od_side taker) b' = held (od_side taker) b"
    "held (other (od_side taker)) b' =
       drop (length (own (other (od_side taker)) b) - length rs') (held (other (od_side taker)) b)"
    "by_id b' = by_id b |`
       (- snd ` set (take (length (own (other (od_side taker)) b) - length rs') (held (other (od_side taker)) b)))"
proof -
  let ?s = "od_side taker"
  show o1: "own ?s b' = own ?s b"
    using sw facing_cong [of "other ?s" b' b] by (simp add: own_def swept_def Let_def)
  show o2: "own (other ?s) b' = rs'" using sw g by (simp add: own_def swept_def Let_def)
  show "by_id b' = by_id b |` (- snd ` set (take (length (own (other ?s) b) - length rs') (held (other ?s) b)))"
    using sw g by (simp add: own_def held_def swept_def Let_def)
  have "greedy taker n (own (other ?s) b) = (fs, m, rs')" using g by (simp add: own_def)
  from greedy_tags [OF this]
  show "held (other ?s) b' = drop (length (own (other ?s) b) - length rs') (held (other ?s) b)"
    by (simp add: held_def o2)
  show "held ?s b' = held ?s b" by (simp add: held_def o1)
qed

lemma swept_sound:
  assumes ok: "book_sound b" and sw: "swept taker n b b'" and g: "greedy taker n (flat (facing (od_side taker) b)) = (fs, m, rs')"
  shows "book_sound b'" "set (held t b') \<subseteq> set (held t b)"
proof -
  let ?s = "od_side taker"
  let ?rs = "own (other ?s) b"
  let ?j = "length ?rs - length rs'"
  note o = swept_sides [OF sw g]
  have sub: "set (held t b') \<subseteq> set (held t b)" for t
    using side_cases [of t ?s] o(3,4) by (auto simp: set_drop_subset dest: in_set_dropD)
  then show "set (held t b') \<subseteq> set (held t b)" .
  have "levels_ok b'"
    using ok sw levels_ok_side [of _ ?s] swept_side_ok [OF sw] by (simp add: book_sound_def swept_def Let_def)
  moreover have "positive (own ?s b')" "positive (own (other ?s) b')"
    using ok greedy_positive [OF g [folded own_def, unfolded own_facing]] by (simp_all add: book_sound_side [of b ?s] o)
  moreover have "uncrossed b'"
  proof -
    have "fst ` set rs' \<subseteq> fst ` set ?rs"
      using sub [of "other ?s"] unfolding held_def o(2) tags_fst [symmetric] by blast
    moreover have "uncrossed b" using ok by (simp add: book_sound_def)
    ultimately show ?thesis by (fastforce simp: uncrossed_side [of _ ?s] o)
  qed
  moreover have "index_sound b'"
    unfolding index_sound_def
  proof (intro allI impI)
    fix i t p assume hit: "by_id b' i = Some (t, p)"
    then have old: "(p, i) \<in> set (held t b)" and alive: "i \<notin> snd ` set (take ?j (held (other ?s) b))"
      using ok by (auto simp: o(5) restrict_map_def book_sound_def index_sound_def split: if_splits)
    have "set (held (other ?s) b) = set (take ?j (held (other ?s) b)) \<union> set (drop ?j (held (other ?s) b))"
      by (metis append_take_drop_id set_append)
    moreover have "(p, i) \<notin> set (take ?j (held (other ?s) b))" using alive by force
    ultimately show "(p, i) \<in> set (held t b')" using old side_cases [of t ?s] o(3,4) by auto
  qed
  ultimately show "book_sound b'" by (simp add: book_sound_side [of b' ?s])
qed

lemma swept_exact:
  assumes ix: "index_exact b" and sw: "swept taker n b b'" and g: "greedy taker n (flat (facing (od_side taker) b)) = (fs, m, rs')"
  shows "index_exact b'"
proof -
  let ?s = "od_side taker"
  let ?j = "length (own (other ?s) b) - length rs'"
  let ?gone = "take ?j (held (other ?s) b)" and ?left = "drop ?j (held (other ?s) b)"
  note o = swept_sides [OF sw g]
  have ii: "\<And>i t p. by_id b i = Some (t, p) \<longleftrightarrow> (p, i) \<in> set (held t b)"
    using ix by (simp add: index_side [of b ?s])
  have d: "distinct (map snd (held ?s b @ ?gone @ ?left))" using ix by (simp add: index_side [of b ?s])
  have disj: "snd ` set (held ?s b) \<inter> snd ` set ?gone = {}" "snd ` set ?left \<inter> snd ` set ?gone = {}"
    using distinct_apart [OF d] by blast+
  have all: "set (held (other ?s) b) = set ?gone \<union> set ?left" by (metis append_take_drop_id set_append)
  have "by_id b' i = Some (t, p) \<longleftrightarrow> (p, i) \<in> set (held t b')" for i t p
  proof -
    have new: "by_id b' i = Some (t, p) \<longleftrightarrow> (p, i) \<in> set (held t b) \<and> i \<notin> snd ` set ?gone"
      using ii [of i t p] by (auto simp: o(5) restrict_map_def)
    have keep: "i \<notin> snd ` set ?gone" if "(p, i) \<in> set (held ?s b) \<or> (p, i) \<in> set ?left"
    proof -
      have "i \<in> snd ` set (held ?s b) \<or> i \<in> snd ` set ?left" using that by force
      then show ?thesis using disj by blast
    qed
    have lose: "(p, i) \<in> set ?gone \<Longrightarrow> i \<in> snd ` set ?gone" by (erule rev_image_eqI) simp
    show ?thesis
    proof (cases "t = ?s")
      case True
      then show ?thesis using new o(3) keep by metis
    next
      case False
      then have "t = other ?s" using side_cases by blast
      then show ?thesis unfolding new using o(4) all keep lose by auto
    qed
  qed
  moreover have "distinct (map snd (held ?s b' @ held (other ?s) b'))" unfolding o by (rule distinct_skip [OF d])
  ultimately show ?thesis by (simp add: index_side [of b' ?s])
qed

subsection \<open>Resting keeps it\<close>

lemma enqueue_set: "set (enqueue s p r rs) = insert (p, r) (set rs)"
  by (auto simp: enqueue_def)

lemma enqueue_tags: "mset (tags (enqueue s p r rs)) = add_mset (p, rs_client_order_id r) (mset (tags rs))"
proof -
  have "mset (enqueue s p r rs) = add_mset (p, r) (mset rs)"
    unfolding enqueue_def by (induction rs) auto
  then show ?thesis by (simp add: tags_def)
qed

lemma resting_of_simps [simp]:
  "rs_client_order_id (resting_of x) = od_client_order_id x" "rs_qty_remaining (resting_of x) = od_qty x"
  "rs_platform_seq (resting_of x) = od_platform_seq x"
  by (simp_all add: resting_of_def)

lemma rest_own:
  assumes "od_kind x = Limit p tif" "levels_ok b"
  shows "own (od_side x) (rest x b) = enqueue (od_side x) p (resting_of x) (own (od_side x) b)"
    "own (other (od_side x)) (rest x b) = own (other (od_side x)) b" "levels_ok (rest x b)"
proof -
  let ?s = "od_side x"
  have ok: "side_ok (side_levels ?s b)" "side_ok (side_levels (other ?s) b)" using assms(2) levels_ok_side by blast+
  show "own ?s (rest x b) = enqueue ?s p (resting_of x) (own ?s b)"
    unfolding own_def by (rule rest_enqueue [OF assms(1) ok(1)])
  have "facing ?s (rest x b) = facing ?s b" by (rule facing_cong) (simp add: rest_limit [OF assms(1)])
  then show "own (other ?s) (rest x b) = own (other ?s) b" by (simp add: own_def)
  show "levels_ok (rest x b)"
    using ok level_entry_ok [OF ok(1)] by (simp add: levels_ok_side [of _ ?s] rest_limit [OF assms(1)])
qed

lemma rest_held:
  assumes kind: "od_kind x = Limit p tif" and lev: "levels_ok b"
  shows "mset (held (od_side x) (rest x b)) = add_mset (p, od_client_order_id x) (mset (held (od_side x) b))"
    "set (held (od_side x) (rest x b)) = insert (p, od_client_order_id x) (set (held (od_side x) b))"
    "held (other (od_side x)) (rest x b) = held (other (od_side x)) b"
proof -
  let ?s = "od_side x"
  show h: "mset (held ?s (rest x b)) = add_mset (p, od_client_order_id x) (mset (held ?s b))"
    using enqueue_tags [of ?s p "resting_of x" "own ?s b"] by (simp add: held_def rest_own [OF kind lev])
  show "set (held ?s (rest x b)) = insert (p, od_client_order_id x) (set (held ?s b))"
    using arg_cong [OF h, of set_mset] by simp
  show "held (other ?s) (rest x b) = held (other ?s) b" by (simp add: held_def rest_own [OF kind lev])
qed

lemma rest_sound:
  assumes kind: "od_kind x = Limit p tif" and ok: "book_sound b" and pos: "0 < od_qty x"
    and apart: "\<forall>(k, r) \<in> set (own (other (od_side x)) b). \<not> crosses_price (od_side x) k p"
  shows "book_sound (rest x b)"
proof -
  let ?s = "od_side x" and ?i = "od_client_order_id x"
  have lev: "levels_ok b" using ok by (simp add: book_sound_def)
  note o1 = rest_own [OF kind lev] and h = rest_held [OF kind lev]
  have un: "uncrossed b" using ok by (simp add: book_sound_def)
  have "uncrossed (rest x b)"
    using un apart by (auto simp: uncrossed_side [of _ ?s] o1 enqueue_set)
  moreover have "positive (own ?s (rest x b))" "positive (own (other ?s) (rest x b))"
    using ok pos by (simp_all add: book_sound_side [of b ?s] positive_def list_all_iff o1 enqueue_set)
  moreover have "index_sound (rest x b)"
    unfolding index_sound_def
  proof (intro allI impI)
    fix i t k assume hit: "by_id (rest x b) i = Some (t, k)"
    show "(k, i) \<in> set (held t (rest x b))"
    proof (cases "i = ?i")
      case True
      then have "t = ?s" "k = p" using hit by (simp_all add: rest_limit [OF kind])
      then show ?thesis using True h(2) by simp
    next
      case False
      then have "(k, i) \<in> set (held t b)"
        using hit ok by (simp add: rest_limit [OF kind] book_sound_def index_sound_def)
      then show ?thesis using side_cases [of t ?s] h(2,3) by auto
    qed
  qed
  ultimately show ?thesis using o1(3) by (simp add: book_sound_side [of _ ?s])
qed

lemma rest_exact:
  assumes kind: "od_kind x = Limit p tif" and lev: "levels_ok b" and ix: "index_exact b"
    and fresh: "od_client_order_id x \<notin> snd ` set (held Bid b) \<union> snd ` set (held Ask b)"
  shows "index_exact (rest x b)"
proof -
  let ?s = "od_side x" and ?i = "od_client_order_id x"
  note h = rest_held [OF kind lev]
  have d: "distinct (map snd (held ?s b @ held (other ?s) b))"
    and ii: "\<And>i t p. by_id b i = Some (t, p) \<longleftrightarrow> (p, i) \<in> set (held t b)"
    using ix by (simp_all add: index_side [of b ?s])
  have fr: "?i \<notin> snd ` set (held t b)" for t using fresh by (cases t) auto
  have "mset (map snd (held ?s (rest x b) @ held (other ?s) (rest x b))) =
      mset (?i # map snd (held ?s b @ held (other ?s) b))"
    using arg_cong [OF h(1), of "image_mset snd"] by (simp add: h(3))
  moreover have "distinct (?i # map snd (held ?s b @ held (other ?s) b))" using d fr by simp
  ultimately have "distinct (map snd (held ?s (rest x b) @ held (other ?s) (rest x b)))"
    by (metis mset_eq_imp_distinct_iff)
  moreover have "by_id (rest x b) i = Some (t, k) \<longleftrightarrow> (k, i) \<in> set (held t (rest x b))" for i t k
  proof (cases "i = ?i")
    case True
    have "(k, ?i) \<notin> set (held t b)" for k t using fr [of t] by (force simp: image_iff)
    then show ?thesis using True side_cases [of t ?s] by (auto simp: rest_limit [OF kind] h(2,3))
  next
    case False
    then show ?thesis using ii [of i t k] side_cases [of t ?s] by (auto simp: rest_limit [OF kind] h(2,3))
  qed
  ultimately show ?thesis by (simp add: index_side [of _ ?s])
qed

lemma ex_side: "(\<exists>t. P t) \<longleftrightarrow> P Bid \<or> P Ask"
  by (metis book_side.exhaust)

lemma fresh_iff:
  assumes "index_exact b"
  shows "by_id b i = None \<longleftrightarrow> i \<notin> snd ` set (held Bid b) \<union> snd ` set (held Ask b)"
proof -
  have "by_id b i \<noteq> None \<longleftrightarrow> (\<exists>t p. (p, i) \<in> set (held t b))"
    using assms unfolding index_exact_def by (metis not_None_eq surj_pair)
  also have "\<dots> \<longleftrightarrow> i \<in> snd ` set (held Bid b) \<union> snd ` set (held Ask b)"
    by (simp add: ex_side) (force simp: image_iff)
  finally show ?thesis by blast
qed

definition resting_ids :: "OrderBook \<Rightarrow> u128 set" where
  "resting_ids b = snd ` set (held Bid b) \<union> snd ` set (held Ask b)"

lemma resting_ids_next_id [simp]: "resting_ids (b\<lparr>next_trade_id := i\<rparr>) = resting_ids b"
  by (simp add: resting_ids_def)

lemma resting_ids_mono: "(\<And>s. set (held s b') \<subseteq> set (held s b)) \<Longrightarrow> resting_ids b' \<subseteq> resting_ids b"
  unfolding resting_ids_def by blast

lemma rest_ids:
  assumes "od_kind x = Limit p tif" "levels_ok b"
  shows "resting_ids (rest x b) = insert (od_client_order_id x) (resting_ids b)"
  using rest_held [OF assms] by (cases "od_side x") (auto simp: resting_ids_def)

lemma match_keeps:
  assumes ok: "book_sound b" and run: "match_order taker b = Some (fs, b')"
  shows "book_sound b'" "resting_ids b' \<subseteq> insert (od_client_order_id taker) (resting_ids b)"
    "index_exact b \<Longrightarrow> od_client_order_id taker \<notin> resting_ids b \<Longrightarrow> index_exact b'"
proof -
  let ?s = "od_side taker" and ?i = "od_client_order_id taker"
  have lev: "levels_ok b" using ok by (simp add: book_sound_def)
  obtain gs m rs' where g: "greedy taker (od_qty taker) (flat (facing ?s b)) = (gs, m, rs')"
    by (cases "greedy taker (od_qty taker) (flat (facing ?s b))")
  have "book_sound b' \<and> resting_ids b' \<subseteq> insert ?i (resting_ids b) \<and>
    (index_exact b \<longrightarrow> ?i \<notin> resting_ids b \<longrightarrow> index_exact b')"
  proof (cases taker rule: match_order_cases [OF lev])
    case 1
    then show ?thesis using run ok by auto
  next
    case (2 fs' m' b1)
    have "resting_ids b1 \<subseteq> resting_ids b" by (rule resting_ids_mono [OF swept_sound(2) [OF ok 2(4) g]])
    then show ?thesis using run 2 swept_sound(1) [OF ok _ g] swept_exact [OF _ _ g] by auto
  next
    case (3 fs' m' b1 p)
    note sw = swept_sound(1) [OF ok 3(3) g] and sides = swept_sides(2) [OF 3(3) g]
    let ?b2 = "b1\<lparr>next_trade_id := next_trade_id b + of_nat (length fs')\<rparr>"
    have m: "m' = m" "0 < m" using 3(2,4) g by simp_all
    have "sorted_wrt (as_good (other ?s)) (map fst (flat (facing ?s b)))"
      using own_sorted [OF lev, of "other ?s"] by (simp add: own_facing)
    then have apart: "\<forall>(k, x) \<in> set rs'. \<not> crosses_price ?s k p"
      by (rule greedy_leaves_uncrossed [OF g m(2) _ 3(5)])
    have sub: "resting_ids ?b2 \<subseteq> resting_ids b"
      using resting_ids_mono [OF swept_sound(2) [OF ok 3(3) g]] by simp
    have kind: "od_kind (with_qty taker m) = Limit p Gtc" using 3(5) by simp
    have b2: "book_sound ?b2" "levels_ok ?b2" using sw by (simp_all add: book_sound_def [of b1])
    have "book_sound (rest (with_qty taker m) ?b2)"
      by (rule rest_sound [OF kind b2(1)]) (use m sides apart in simp_all)
    moreover have "resting_ids (rest (with_qty taker m) ?b2) \<subseteq> insert ?i (resting_ids b)"
      using rest_ids [OF kind b2(2)] sub by auto
    moreover have "index_exact (rest (with_qty taker m) ?b2)" if "index_exact b" "?i \<notin> resting_ids b"
      by (rule rest_exact [OF kind b2(2)])
        (use swept_exact [OF that(1) 3(3) g] that(2) sub in \<open>auto simp: resting_ids_def\<close>)
    ultimately show ?thesis using run 3(6) m by simp
  qed
  then show "book_sound b'" "resting_ids b' \<subseteq> insert ?i (resting_ids b)"
    "index_exact b \<Longrightarrow> ?i \<notin> resting_ids b \<Longrightarrow> index_exact b'" by blast+
qed

subsection \<open>Cancelling\<close>

lemma position_filter:
  "position (\<lambda>r. rs_client_order_id r = i) q = Some idx \<Longrightarrow> distinct (map rs_client_order_id q) \<Longrightarrow>
   take idx q @ drop (Suc idx) q = filter (\<lambda>r. rs_client_order_id r \<noteq> i) q"
proof (induction q arbitrary: idx)
  case (Cons r q)
  show ?case
  proof (cases "rs_client_order_id r = i")
    case True
    have n: "i \<notin> set (map rs_client_order_id q)" using Cons.prems(2) True by simp
    have "filter (\<lambda>r. rs_client_order_id r \<noteq> i) q = q" by (rule filter_True) (use n in force)
    then show ?thesis using Cons.prems(1) True by (simp add: position_def)
  next
    case False
    then obtain j where "position (\<lambda>r. rs_client_order_id r = i) q = Some j" "idx = Suc j"
      using Cons.prems(1) by (auto simp: position_def split: if_splits)
    then show ?thesis using Cons.IH [of j] Cons.prems(2) False by simp
  qed
qed (simp add: position_def)

definition without :: "u128 \<Rightarrow> (price \<times> Resting) list \<Rightarrow> (price \<times> Resting) list" where
  "without i rs = filter (\<lambda>(p, r). rs_client_order_id r \<noteq> i) rs"

definition cancelled_levels :: "u128 \<Rightarrow> price \<Rightarrow> Resting list \<Rightarrow> levels \<Rightarrow> levels" where
  "cancelled_levels i p q lv =
     (let q' = filter (\<lambda>r. rs_client_order_id r \<noteq> i) q; lv' = level_set p q' lv
      in if q' = [] then level_remove p lv' else lv')"

lemma cancelled_levels_flat:
  assumes "level_get p lv = Some q" "distinct (map fst lv)"
    "\<forall>(k, r) \<in> set (flat lv). rs_client_order_id r = i \<longrightarrow> k = p"
  shows "flat (cancelled_levels i p q lv) = without i (flat lv)"
  using assms
proof (induction lv)
  case (Cons e lv)
  obtain k x where e: "e = (k, x)" by fastforce
  show ?case
  proof (cases "k = p")
    case True
    have p: "p \<notin> fst ` set lv" using Cons.prems(2) by (simp add: e True)
    have "without i (flat lv) = flat lv"
      using p Cons.prems(3) by (force simp: without_def filter_id_conv e flat_def)
    then show ?thesis using Cons.prems(1)
      by (simp add: cancelled_levels_def Let_def e True level_set_hd [OF p] level_remove_hd [OF p] level_get_def without_def filter_map o_def)
  next
    case False
    have "without i (map (Pair k) x) = map (Pair k) x"
      using False Cons.prems(3) by (auto simp: without_def filter_id_conv e)
    moreover have "cancelled_levels i p q (e # lv) = e # cancelled_levels i p q lv"
      using False by (simp add: cancelled_levels_def Let_def level_set_def level_remove_def e)
    ultimately show ?thesis using Cons False by (simp add: e level_get_def without_def)
  qed
qed (simp add: level_get_def)

lemma tags_flat_rev: "distinct (map snd (tags (flat (rev lv)))) = distinct (map snd (tags (flat lv)))"
proof -
  have "mset (flat (rev lv)) = mset (flat lv)" by (induction lv) auto
  then have "mset (map snd (tags (flat (rev lv)))) = mset (map snd (tags (flat lv)))" by (simp add: tags_def)
  then show ?thesis by (metis mset_eq_imp_distinct_iff)
qed

lemma cancelled_levels_rev: "rev (cancelled_levels i p q lv) = cancelled_levels i p q (rev lv)"
  by (simp add: cancelled_levels_def Let_def level_ops_rev)

lemma level_remove_ok: "side_ok lv \<Longrightarrow> side_ok (level_remove p lv)"
  by (induction lv) (auto simp: side_ok_def level_remove_def)

lemma level_put_ok:
  assumes "side_ok lv"
  shows "side_ok (if q' = [] then level_remove p (level_set p q' lv) else level_set p q' lv)"
proof (cases "q' = []")
  case True
  have "level_remove p (level_set p q' lv) = level_remove p lv"
    by (induction lv) (auto simp: level_remove_def level_set_def)
  then show ?thesis using True level_remove_ok [OF assms] by simp
next
  case False
  have "side_ok (level_set p q' lv)"
    using assms False by (induction lv) (auto simp: side_ok_def level_set_def split: if_splits)
  then show ?thesis using False by simp
qed

lemma cancelled_levels_ok: "side_ok lv \<Longrightarrow> side_ok (cancelled_levels i p q lv)"
  unfolding cancelled_levels_def Let_def by (rule level_put_ok)

lemma distinct_level: "(p, q) \<in> set lv \<Longrightarrow> distinct (map snd (tags (flat lv))) \<Longrightarrow> distinct (map rs_client_order_id q)"
  by (induction lv) (auto simp: o_def)

lemma without_set: "set (without i rs) = {x \<in> set rs. rs_client_order_id (snd x) \<noteq> i}"
  by (auto simp: without_def)

lemma without_tags: "tags (without i rs) = filter (\<lambda>(p, j). j \<noteq> i) (tags rs)"
  by (induction rs) (auto simp: without_def)

lemma without_id: "i \<notin> snd ` set (tags rs) \<Longrightarrow> without i rs = rs"
  unfolding without_def by (rule filter_True) (force simp: tags_def)

lemma cancel_own:
  assumes ok: "book_ok b" and hit: "by_id b i = Some (s, p)"
  shows "\<exists>b'. cancel i b = (True, b') \<and> own s b' = without i (own s b) \<and> own (other s) b' = own (other s) b \<and>
    levels_ok b' \<and> by_id b' = (by_id b)(i := None) \<and> next_trade_id b' = next_trade_id b"
proof -
  let ?lv = "side_levels s b"
  have lev: "side_ok ?lv" "side_ok (side_levels (other s) b)" using ok levels_ok_side unfolding book_ok_def by blast+
  have ix: "distinct (map snd (held s b @ held (other s) b))"
    and ii: "\<And>i t p. by_id b i = Some (t, p) \<longleftrightarrow> (p, i) \<in> set (held t b)"
    using ok by (simp_all add: book_ok_def index_side [of b s])
  have mem: "(p, i) \<in> set (held s b)" using hit ii by blast
  have own_set: "set (own s b) = set (flat ?lv)"
    by (cases s) (simp_all add: own_def flat_def)
  obtain r where r: "(p, r) \<in> set (flat ?lv)" "rs_client_order_id r = i"
    using mem own_set by (auto simp: held_def tags_def)
  obtain q where q: "(p, q) \<in> set ?lv" "r \<in> set q" using r(1) by (auto simp: flat_def)
  have d: "distinct (map fst ?lv)" using lev(1) by (simp add: side_ok_def strict_sorted_iff)
  have get: "level_get p ?lv = Some q" unfolding level_get_def using d q(1) by (rule map_of_is_SomeI)
  have dq: "distinct (map rs_client_order_id q)"
  proof -
    have "distinct (map snd (tags (flat ?lv)))"
      using ix by (cases s) (simp_all add: held_def own_def tags_flat_rev)
    then show ?thesis by (rule distinct_level [OF q(1)])
  qed
  have "position (\<lambda>r. rs_client_order_id r = i) q \<noteq> None"
    using q(2) r(2) by (auto simp: position_def list_ex_iff)
  then obtain idx where idx: "position (\<lambda>r. rs_client_order_id r = i) q = Some idx" by blast
  note pf = position_filter [OF idx dq]
  let ?b1 = "b\<lparr>by_id := (by_id b)(i := None)\<rparr>"
  let ?b' = "set_side s (cancelled_levels i p q ?lv) ?b1"
  have run: "cancel i b = (True, ?b')"
    using hit get idx by (simp add: cancel_def Let_def pf cancelled_levels_def)
  have only: "\<forall>(k, r) \<in> set (flat ?lv). rs_client_order_id r = i \<longrightarrow> k = p"
  proof clarify
    fix k x assume "(k, x) \<in> set (flat ?lv)" "i = rs_client_order_id x"
    then have "(k, i) \<in> set (held s b)" using own_set by (force simp: held_def tags_def)
    then show "k = p" using ii [of i s k] hit by simp
  qed
  have "own s ?b' = flat (cancelled_levels i p q (facing (other s) b))"
    using facing_set [of "cancelled_levels i p q" "other s" ?b1] by (simp add: own_def cancelled_levels_rev)
  also have "\<dots> = without i (own s b)"
    unfolding own_def
  proof (rule cancelled_levels_flat)
    show "distinct (map fst (facing (other s) b))" using d by (cases s) (simp_all add: rev_map [symmetric])
    show "level_get p (facing (other s) b) = Some q"
      using get d by (cases s) (simp_all add: level_get_rev)
    show "\<forall>(k, r) \<in> set (flat (facing (other s) b)). rs_client_order_id r = i \<longrightarrow> k = p"
      using only own_set by (simp add: own_def)
  qed
  finally have o1: "own s ?b' = without i (own s b)" .
  have "facing s ?b' = facing s b" by (rule facing_cong) simp
  then have o2: "own (other s) ?b' = own (other s) b" by (simp add: own_def)
  have "levels_ok ?b'" using lev cancelled_levels_ok [OF lev(1)] by (simp add: levels_ok_side [of _ s])
  then show ?thesis using run o1 o2 by auto
qed

lemma cancel_keeps:
  assumes ok: "book_ok b" and run: "cancel i b = (found, b')"
  shows "(found \<longleftrightarrow> i \<in> snd ` set (held Bid b) \<union> snd ` set (held Ask b)) \<and>
    (\<forall>s. own s b' = without i (own s b)) \<and> next_trade_id b' = next_trade_id b \<and> book_ok b'"
proof (cases "by_id b i")
  case None
  then have "cancel i b = (False, b)" by (simp add: cancel_def)
  moreover have no: "i \<notin> snd ` set (held Bid b) \<union> snd ` set (held Ask b)"
    using None fresh_iff ok book_ok_def by blast
  moreover have "without i (own s b) = own s b" for s
    using no by (cases s) (auto simp: held_def intro!: without_id)
  ultimately show ?thesis using run ok by auto
next
  case (Some sp)
  then obtain s p where hit: "by_id b i = Some (s, p)" by fastforce
  obtain b'' where c: "cancel i b = (True, b'')" and o1: "own s b'' = without i (own s b)"
    and o2: "own (other s) b'' = own (other s) b" and lev: "levels_ok b''"
    and bi: "by_id b'' = (by_id b)(i := None)" and ni: "next_trade_id b'' = next_trade_id b"
    using cancel_own [OF ok hit] by blast
  have b'': "b'' = b'" "found" using c run by simp_all
  have ix: "distinct (map snd (held s b @ held (other s) b))"
    and ii: "\<And>i t p. by_id b i = Some (t, p) \<longleftrightarrow> (p, i) \<in> set (held t b)"
    using ok by (simp_all add: book_ok_def index_side [of b s])
  have mem: "(p, i) \<in> set (held s b)" using hit ii by blast
  then have i_s: "i \<in> snd ` set (held s b)" by (rule rev_image_eqI) simp
  then have i_o: "i \<notin> snd ` set (held (other s) b)" using ix by auto
  have own: "own t b'' = without i (own t b)" for t
    using side_cases [of t s] o1 o2 without_id [of i "own (other s) b"] i_o by (auto simp: held_def)
  have h: "held t b'' = filter (\<lambda>(p, j). j \<noteq> i) (held t b)" for t by (simp add: held_def own without_tags)
  have "index_exact b''"
    unfolding index_side [of b'' s]
  proof (intro conjI allI)
    show "distinct (map snd (held s b'' @ held (other s) b''))"
      using distinct_map_filter [OF ix, of "\<lambda>(p, j). j \<noteq> i"] by (simp add: h)
    show "by_id b'' j = Some (t, k) \<longleftrightarrow> (k, j) \<in> set (held t b'')" for j t k
      using ii [of j t k] by (auto simp: bi h)
  qed
  moreover have "uncrossed b''" "positive (own Bid b'')" "positive (own Ask b'')"
    using ok by (auto simp: book_ok_def uncrossed_def positive_def list_all_iff own without_set)
  moreover have "i \<in> snd ` set (held Bid b) \<union> snd ` set (held Ask b)" using i_s by (cases s) auto
  ultimately show ?thesis using own lev ni by (simp add: b'' book_ok_def)
qed

text \<open>
  \<^verbatim>\<open>cancel\<close> answers true exactly for the id of a resting order, takes exactly
  that order out, leaves every other order where it was in its queue, and keeps the invariant.
\<close>

theorem cancel_removes_exactly:
  assumes ok: "book_ok b" and run: "cancel i b = (found, b')"
  shows "(found \<longleftrightarrow> i \<in> snd ` set (held Bid b) \<union> snd ` set (held Ask b)) \<and>
    (\<forall>s. own s b' = without i (own s b)) \<and> next_trade_id b' = next_trade_id b \<and> book_ok b'"
  by (rule cancel_keeps [OF assms])

text \<open>
  Cancelling by an index that is only sound: one order under the id is taken out, from the level of its entry.
\<close>

lemma set_without_nth:
  assumes "position P q = Some idx"
  shows "idx < length q" "P (q ! idx)" "set (take idx q @ drop (Suc idx) q) \<subseteq> set q"
    "\<And>x. x \<in> set q \<Longrightarrow> \<not> P x \<Longrightarrow> x \<in> set (take idx q @ drop (Suc idx) q)"
proof -
  have ex: "\<exists>x \<in> set q. P x" and idx: "idx = length (takeWhile (\<lambda>x. \<not> P x) q)"
    using assms by (auto simp: position_def list_ex_iff split: if_splits)
  show l: "idx < length q" unfolding idx using ex by (induction q) auto
  show h: "P (q ! idx)" using nth_length_takeWhile [of "\<lambda>x. \<not> P x" q] l by (simp add: idx)
  show "set (take idx q @ drop (Suc idx) q) \<subseteq> set q" by (auto dest: in_set_takeD in_set_dropD)
  fix x assume "x \<in> set q" "\<not> P x"
  then show "x \<in> set (take idx q @ drop (Suc idx) q)" using id_take_nth_drop [OF l] h
    by (metis Un_iff set_ConsD set_append)
qed

lemma flat_mem: "(k, r) \<in> set (flat lv) \<longleftrightarrow> (\<exists>q. (k, q) \<in> set lv \<and> r \<in> set q)"
  by (auto simp: flat_def)

lemma level_put_mem:
  assumes "(p, q) \<in> set lv"
  shows "(k, r) \<in> set (flat (if q' = [] then level_remove p (level_set p q' lv) else level_set p q' lv)) \<longleftrightarrow>
    (if k = p then r \<in> set q' else (k, r) \<in> set (flat lv))"
proof -
  have "(k, x) \<in> set (level_set p q' lv) \<longleftrightarrow> (if k = p then x = q' else (k, x) \<in> set lv)" for x
    using assms by (force simp: level_set_def)
  then show ?thesis by (auto simp: flat_mem level_remove_def)
qed

lemma positive_subset: "positive rs \<Longrightarrow> set rs' \<subseteq> set rs \<Longrightarrow> positive rs'"
  unfolding positive_def list_all_iff by blast

lemma held_mem: "(p, i) \<in> set (held s b) \<longleftrightarrow> (\<exists>r. (p, r) \<in> set (own s b) \<and> rs_client_order_id r = i)"
  by (auto simp: held_def tags_def)

lemma own_set: "set (own u c) = set (flat (side_levels u c))"
  by (cases u) (auto simp: own_def flat_def)

lemma cancel_finds:
  assumes ok: "book_sound b" and hit: "by_id b i = Some (s, p)"
  obtains q idx where "(p, q) \<in> set (side_levels s b)" "level_get p (side_levels s b) = Some q"
    "position (\<lambda>r. rs_client_order_id r = i) q = Some idx"
proof -
  let ?lv = "side_levels s b"
  have "(p, i) \<in> set (held s b)" using ok hit by (simp add: book_sound_def index_sound_def)
  then obtain r where "(p, r) \<in> set (flat ?lv)" and r: "rs_client_order_id r = i"
    by (cases s) (auto simp: held_def tags_def own_set)
  then obtain q where q: "(p, q) \<in> set ?lv" "r \<in> set q" by (auto simp: flat_def)
  have "side_ok ?lv" using ok levels_ok_side by (simp add: book_sound_def) blast
  then have "level_get p ?lv = Some q"
    using q(1) by (simp add: level_get_def side_ok_def strict_sorted_iff)
  moreover have "position (\<lambda>r. rs_client_order_id r = i) q \<noteq> None"
    using q(2) r by (auto simp: position_def list_ex_iff)
  ultimately show thesis using that q(1) by blast
qed

lemma cancel_sides:
  assumes ok: "book_sound b" and hit: "by_id b i = Some (s, p)" and run: "cancel i b = (found, b')"
  shows "found" "levels_ok b'" "set (own t b') \<subseteq> set (own t b)"
    "x \<in> set (own t b) \<Longrightarrow> rs_client_order_id (snd x) \<noteq> i \<Longrightarrow> x \<in> set (own t b')"
    "by_id b' = (by_id b)(i := None)"
proof -
  let ?lv = "side_levels s b" and ?b1 = "b\<lparr>by_id := (by_id b)(i := None)\<rparr>"
  obtain q idx where q: "(p, q) \<in> set ?lv" and get: "level_get p ?lv = Some q"
    and pos: "position (\<lambda>r. rs_client_order_id r = i) q = Some idx"
    using cancel_finds [OF ok hit] .
  define q' where "q' = take idx q @ drop (Suc idx) q"
  define lv' where "lv' = (if q' = [] then level_remove p (level_set p q' ?lv) else level_set p q' ?lv)"
  have "cancel i b = (True, set_side s lv' ?b1)"
    by (simp only: cancel_def hit get pos Let_def option.case prod.case side_set q'_def [symmetric] lv'_def [symmetric])
  then have b': "b' = set_side s lv' ?b1" "found" using run by simp_all
  show found by (rule b')
  show "by_id b' = (by_id b)(i := None)" by (simp add: b')
  have lev: "side_ok ?lv" "side_ok (side_levels (other s) b)"
    using ok levels_ok_side unfolding book_sound_def by blast+
  then show "levels_ok b'" by (simp add: levels_ok_side [of _ s] b' lv'_def level_put_ok)
  have d: "distinct (map fst ?lv)" using lev(1) by (simp add: side_ok_def strict_sorted_iff)
  have lv': "(k, r) \<in> set (flat lv') \<longleftrightarrow> (if k = p then r \<in> set q' else (k, r) \<in> set (flat ?lv))" for k r
    unfolding lv'_def by (rule level_put_mem [OF q])
  have there: "(p, r) \<in> set (flat ?lv) \<longleftrightarrow> r \<in> set q" for r
    using q d by (auto simp: flat_mem dest: eq_key_imp_eq_value)
  have sides: "side_levels t b' = (if t = s then lv' else side_levels t b)" by (simp add: b')
  note w = set_without_nth(3,4) [OF pos, folded q'_def]
  show "set (own t b') \<subseteq> set (own t b)"
    using w(1) there by (auto simp: own_set sides lv' split: if_splits)
  show "x \<in> set (own t b')" if "x \<in> set (own t b)" "rs_client_order_id (snd x) \<noteq> i"
  proof -
    obtain k r where x: "x = (k, r)" by fastforce
    show ?thesis using that w(2) [of r] there [of r] by (auto simp: x own_set sides lv')
  qed
qed

lemma cancel_sound:
  assumes ok: "book_sound b" and run: "cancel i b = (found, b')"
  shows "book_sound b'" "resting_ids b' \<subseteq> resting_ids b"
proof -
  have "book_sound b' \<and> resting_ids b' \<subseteq> resting_ids b"
  proof (cases "by_id b i")
    case None
    then show ?thesis using ok run by (simp add: cancel_def)
  next
    case (Some sp)
    then obtain s p where hit: "by_id b i = Some (s, p)" by (cases sp) simp
    note c = cancel_sides [OF ok hit run]
    have "index_sound b'"
      unfolding index_sound_def
    proof (intro allI impI)
      fix j t k assume "by_id b' j = Some (t, k)"
      then have "j \<noteq> i" "(k, j) \<in> set (held t b)"
        using ok by (auto simp: c(5) book_sound_def index_sound_def split: if_splits)
      then obtain r where "(k, r) \<in> set (own t b)" "rs_client_order_id r = j" "j \<noteq> i"
        unfolding held_mem by blast
      then show "(k, j) \<in> set (held t b')" using c(4) [of "(k, r)" t] by (auto simp: held_mem)
    qed
    moreover have "positive (own Bid b')" "positive (own Ask b')"
      using ok positive_subset [OF _ c(3)] by (simp_all add: book_sound_def)
    moreover have "uncrossed b'"
      using ok c(3) [of Bid] c(3) [of Ask] unfolding book_sound_def uncrossed_def list_all_iff by blast
    moreover have "set (held t b') \<subseteq> set (held t b)" for t
      using c(3) [of t] by (auto simp: held_def tags_def)
    ultimately show ?thesis using c(2) resting_ids_mono by (simp add: book_sound_def)
  qed
  then show "book_sound b'" "resting_ids b' \<subseteq> resting_ids b" by blast+
qed

text \<open>The books that orders and cancels lead to, each with the orders that were matched.  No id is checked.\<close>

inductive book_reachable :: "Order list \<Rightarrow> OrderBook \<Rightarrow> bool" where
  new: "book_reachable [] OrderBook_new"
| match: "book_reachable os b \<Longrightarrow> match_order taker b = Some (fs, b') \<Longrightarrow> book_reachable (os @ [taker]) b'"
| cancel: "book_reachable os b \<Longrightarrow> cancel i b = (found, b') \<Longrightarrow> book_reachable os b'"

lemma own_new: "own s OrderBook_new = []"
  by (cases s) (simp_all add: own_def OrderBook_new_def)

lemma book_new_ok: "book_ok OrderBook_new"
  by (simp add: book_ok_def levels_ok_def side_ok_def own_new held_def positive_def uncrossed_def index_exact_def)
    (simp add: OrderBook_new_def)

lemma book_reachable_keeps:
  assumes "book_reachable os b"
  shows "book_sound b \<and> resting_ids b \<subseteq> od_client_order_id ` set os \<and>
    (distinct (map od_client_order_id os) \<longrightarrow> index_exact b)"
  using assms
proof induction
  case new
  show ?case using book_new_ok by (simp add: book_ok_split resting_ids_def held_def own_new)
next
  case (match os b taker fs b')
  then show ?case using match_keeps [of b taker fs b'] by (auto simp del: insert_image)
next
  case (cancel os b i found b')
  then show ?case
    using cancel_sound [of b i found b'] cancel_keeps [of b i found b'] by (auto simp: book_ok_split)
qed

lemma map_snd_tags: "map snd (tags rs) = map (rs_client_order_id \<circ> snd) rs"
  by (auto simp: tags_def)

lemma book_reachable_ok: "book_reachable os b \<Longrightarrow> distinct (map od_client_order_id os) \<Longrightarrow> book_ok b"
  by (simp add: book_reachable_keeps book_ok_split)

text \<open>
  C19 (books_stay_consistent): every book that a sequence of orders and cancels can reach, whatever ids the
  orders carry, has its price levels sorted and none empty, holds only orders with a positive quantity, is
  uncrossed (each bid is below each ask), and each entry of its index leads to an order resting under that
  id at that side and price.  If no two of the orders matched so far have the same id, the index is also
  complete and unambiguous: it has exactly one entry for each resting order.
\<close>

theorem books_stay_consistent:
  assumes "book_reachable os b"
  shows "(\<forall>lv \<in> {bids b, asks b}. sorted_wrt (<) (map fst lv) \<and> (\<forall>(p, q) \<in> set lv. q \<noteq> []))
    \<and> (\<forall>s. \<forall>(p, r) \<in> set (own s b). 0 < rs_qty_remaining r)
    \<and> (\<forall>(p, r) \<in> set (own Bid b). \<forall>(k, x) \<in> set (own Ask b). p < k)
    \<and> (\<forall>i s p. by_id b i = Some (s, p) \<longrightarrow> (\<exists>r. (p, r) \<in> set (own s b) \<and> rs_client_order_id r = i))
    \<and> (distinct (map od_client_order_id os) \<longrightarrow>
         distinct (map (rs_client_order_id \<circ> snd) (own Bid b @ own Ask b))
         \<and> (\<forall>s p r. (p, r) \<in> set (own s b) \<longrightarrow> by_id b (rs_client_order_id r) = Some (s, p)))"
proof -
  note k = book_reachable_keeps [OF assms]
  show ?thesis
  proof (intro conjI allI impI)
    show "\<forall>lv \<in> {bids b, asks b}. sorted_wrt (<) (map fst lv) \<and> (\<forall>(p, q) \<in> set lv. q \<noteq> [])"
      using k by (auto simp: book_sound_def levels_ok_def side_ok_def list_all_iff)
    show "\<forall>(p, r) \<in> set (own s b). 0 < rs_qty_remaining r" for s
      using k by (cases s) (auto simp: book_sound_def positive_def list_all_iff)
    show "\<forall>(p, r) \<in> set (own Bid b). \<forall>(k, x) \<in> set (own Ask b). p < k"
      using k by (simp add: book_sound_def uncrossed_def list_all_iff)
    show "\<exists>r. (p, r) \<in> set (own s b) \<and> rs_client_order_id r = i" if "by_id b i = Some (s, p)" for i s p
      using k that by (simp add: book_sound_def index_sound_def held_mem)
    show "distinct (map (rs_client_order_id \<circ> snd) (own Bid b @ own Ask b))"
      if "distinct (map od_client_order_id os)"
      using k that by (simp add: index_exact_def held_def map_snd_tags)
    show "by_id b (rs_client_order_id r) = Some (s, p)"
      if "distinct (map od_client_order_id os)" "(p, r) \<in> set (own s b)" for s p r
      using k that by (auto simp: index_exact_def held_mem)
  qed
qed

text \<open>
  Ids are not checked, and the index has one entry for each.  When a second
  order rests under the id of a resting one, a cancel finds the second; the first stays in the book, where no
  further cancel finds it.
\<close>

theorem duplicate_id_strands_order:
  assumes "od_kind x = Limit p Gtc" "od_kind y = Limit k Gtc" "p < k" "od_side x = Bid" "od_side y = Bid"
    "od_client_order_id x = i" "od_client_order_id y = i" "0 < od_qty x" "0 < od_qty y"
  shows "\<exists>b1 b2 b3. match_order x OrderBook_new = Some ([], b1) \<and> match_order y b1 = Some ([], b2) \<and>
    cancel i b2 = (True, b3) \<and> own Bid b3 = [(p, resting_of x)] \<and> cancel i b3 = (False, b3)"
  using assms
  by (simp add: match_order_def OrderBook_new_def sweep.simps rest_def with_qty_def own_def cancel_def Let_def
      level_get_def position_def level_set_def level_remove_def resting_of_def)

definition sample_order_of :: "u64 \<Rightarrow> u128 \<Rightarrow> book_side \<Rightarrow> qty \<Rightarrow> order_kind \<Rightarrow> Order" where
  "sample_order_of n i s q k =
     \<lparr>od_platform_seq = n, od_platform_ts_ns = n, od_client_order_id = i, od_session_token = [], od_side = s, od_qty = q, od_kind = k\<rparr>"

definition sample_one_bid :: OrderBook where
  "sample_one_bid = rest (sample_order_of 1 5 Bid 7 (Limit 98 Gtc)) OrderBook_new"

lemma sample_one_bid_reachable: "book_reachable [sample_order_of 1 5 Bid 7 (Limit 98 Gtc)] sample_one_bid"
proof -
  have "match_order (sample_order_of 1 5 Bid 7 (Limit 98 Gtc)) OrderBook_new = Some ([], sample_one_bid)"
    by (simp add: match_order_def OrderBook_new_def sweep.simps rest_def with_qty_def sample_order_of_def sample_one_bid_def)
  from book_reachable.match [OF book_reachable.new this] show ?thesis by simp
qed

lemma sample_one_bid_ok: "book_ok sample_one_bid"
  by (rule book_reachable_ok [OF sample_one_bid_reachable]) simp

text \<open>Two bids under one id.\<close>

definition sample_two_bids :: OrderBook where
  "sample_two_bids = rest (sample_order_of 2 5 Bid 1 (Limit 99 Gtc)) sample_one_bid"

lemma sample_two_bids_reachable:
  "book_reachable [sample_order_of 1 5 Bid 7 (Limit 98 Gtc), sample_order_of 2 5 Bid 1 (Limit 99 Gtc)] sample_two_bids"
proof -
  have "match_order (sample_order_of 2 5 Bid 1 (Limit 99 Gtc)) sample_one_bid = Some ([], sample_two_bids)"
    by (simp add: match_order_def sample_one_bid_def OrderBook_new_def sweep.simps rest_def with_qty_def
        sample_order_of_def sample_two_bids_def resting_of_def)
  from book_reachable.match [OF sample_one_bid_reachable this] show ?thesis by simp
qed

lemma sample_one_bid_held: "held Bid sample_one_bid = [(98, 5)]" "held Ask sample_one_bid = []"
  by (simp_all add: held_def own_def sample_one_bid_def rest_def OrderBook_new_def sample_order_of_def resting_of_def)

theorem books_stay_consistent_witness:
  "by_id sample_one_bid 5 = Some (Bid, 98) \<and> (\<exists>r. by_id sample_two_bids 5 = Some (Bid, 99) \<and>
     (99, r) \<in> set (own Bid sample_two_bids) \<and> rs_client_order_id r = 5)"
proof -
  have own: "own Bid sample_one_bid = [(98, resting_of (sample_order_of 1 5 Bid 7 (Limit 98 Gtc)))]"
    by (simp add: own_def flat_def sample_one_bid_def rest_def OrderBook_new_def sample_order_of_def)
  have "\<forall>s p r. (p, r) \<in> set (own s sample_one_bid) \<longrightarrow> by_id sample_one_bid (rs_client_order_id r) = Some (s, p)"
    using books_stay_consistent [OF sample_one_bid_reachable] by simp
  from this [rule_format, of 98 "resting_of (sample_order_of 1 5 Bid 7 (Limit 98 Gtc))" Bid]
  have "by_id sample_one_bid 5 = Some (Bid, 98)" by (simp add: own sample_order_of_def resting_of_def)
  moreover have "by_id sample_two_bids 5 = Some (Bid, 99)"
    by (simp add: sample_two_bids_def rest_def sample_order_of_def)
  ultimately show ?thesis using books_stay_consistent [OF sample_two_bids_reachable] by blast
qed

theorem cancel_removes_exactly_witness:
  "fst (cancel 5 sample_one_bid) \<and> \<not> fst (cancel 6 sample_one_bid) \<and> own Bid (snd (cancel 5 sample_one_bid)) = []"
proof -
  note ok = sample_one_bid_ok
  have "fst (cancel 5 sample_one_bid) \<and> \<not> fst (cancel 6 sample_one_bid)"
    using cancel_removes_exactly [OF ok surjective_pairing, of 5] cancel_removes_exactly [OF ok surjective_pairing, of 6]
    by (simp add: sample_one_bid_held)
  moreover have "own Bid (snd (cancel 5 sample_one_bid)) = without 5 (own Bid sample_one_bid)"
    using cancel_removes_exactly [OF ok surjective_pairing, of 5] by simp
  moreover have "without 5 (own Bid sample_one_bid) = []"
    by (simp add: without_def own_def sample_one_bid_def rest_def OrderBook_new_def sample_order_of_def resting_of_def)
  ultimately show ?thesis by simp
qed

theorem duplicate_id_strands_order_witness:
  "\<exists>b1 b2 b3. match_order (sample_order_of 1 5 Bid 7 (Limit 98 Gtc)) OrderBook_new = Some ([], b1) \<and>
    match_order (sample_order_of 2 5 Bid 1 (Limit 99 Gtc)) b1 = Some ([], b2) \<and> cancel 5 b2 = (True, b3) \<and>
    own Bid b3 = [(98, resting_of (sample_order_of 1 5 Bid 7 (Limit 98 Gtc)))] \<and> cancel 5 b3 = (False, b3)"
  by (rule duplicate_id_strands_order [where k = 99]) (simp_all add: sample_order_of_def)

end
