(* ===== verification/History.thy ===== *)
theory History
  imports BookInvariant
begin

text \<open>
  The engine over a whole run: any engine that keeps the price-time contract agrees with the reference one,
  and what the design document asks of a run (its invariants C1 to C3) is proved from the contract.
\<close>

subsection \<open>Running a sequence of orders\<close>

fun match_all :: "(Order \<Rightarrow> 'b \<Rightarrow> (BookFill list \<times> 'b) option) \<Rightarrow> Order list \<Rightarrow> 'b \<Rightarrow> (BookFill list \<times> 'b) option" where
  "match_all step [] b = Some ([], b)"
| "match_all step (x # xs) b =
     (case step x b of
        None \<Rightarrow> None
      | Some (fs, b1) \<Rightarrow> map_option (\<lambda>(gs, b2). (fs @ gs, b2)) (match_all step xs b1))"

fun pt_all :: "Order list \<Rightarrow> priority_book \<Rightarrow> BookFill list \<times> priority_book" where
  "pt_all [] pb = ([], pb)"
| "pt_all (x # xs) pb = (let (fs, pb1) = pt_match x pb; (gs, pb2) = pt_all xs pb1 in (fs @ gs, pb2))"

lemma pt_all_snoc:
  "pt_all (xs @ [x]) pb =
     (fst (pt_all xs pb) @ fst (pt_match x (snd (pt_all xs pb))), snd (pt_match x (snd (pt_all xs pb))))"
  by (induction xs arbitrary: pb) (auto simp: case_prod_beta Let_def)

text \<open>The contract between whoever sends the orders and a matching engine.\<close>

locale price_time_engine =
  fixes step :: "Order \<Rightarrow> 'b \<Rightarrow> (BookFill list \<times> 'b) option"
    and view :: "'b \<Rightarrow> priority_book"
    and valid :: "'b \<Rightarrow> bool"
  assumes refines: "valid b \<Longrightarrow> \<exists>fs b'. step x b = Some (fs, b') \<and> (fs, view b') = pt_match x (view b) \<and> valid b'"
begin

lemma replay:
  assumes "valid b"
  shows "\<exists>fs b'. match_all step xs b = Some (fs, b') \<and> (fs, view b') = pt_all xs (view b) \<and> valid b'"
  using assms
proof (induction xs arbitrary: b)
  case (Cons x xs)
  obtain fs b1 where s: "step x b = Some (fs, b1)" "(fs, view b1) = pt_match x (view b)" "valid b1"
    using refines [OF Cons.prems] by blast
  obtain gs b2 where m: "match_all step xs b1 = Some (gs, b2)" "(gs, view b2) = pt_all xs (view b1)" "valid b2"
    using Cons.IH [OF s(3)] by blast
  have "pt_all (x # xs) (view b) = (fs @ gs, view b2)"
    by (simp add: s(2) [symmetric] m(2) [symmetric])
  then show ?case using s m by auto
qed simp

lemma replay_fills: "valid b \<Longrightarrow> map_option fst (match_all step xs b) = Some (fst (pt_all xs (view b)))"
  using replay [of b xs] by (metis fst_conv option.simps(9))

end

interpretation matcher: price_time_engine match_order priority levels_ok
  by unfold_locales (rule match_refines)

lemma new_book: "levels_ok OrderBook_new" "priority OrderBook_new = ((\<lambda>_. []), 0)"
  using book_new_ok by (simp_all add: book_ok_def priority_def own_new flip: own_def) (simp add: OrderBook_new_def)

lemma match_all_new:
  assumes "match_all match_order xs OrderBook_new = Some (fs, b)"
  shows "pt_all xs ((\<lambda>_. []), 0) = (fs, priority b)" "levels_ok b"
  using matcher.replay [OF new_book(1), of xs] assms by (auto simp: new_book(2))

text \<open>
  An engine with any data structure of its own whose every step keeps the
  price-time contract answers a run, from an empty book, with exactly the fills of the reference engine,
  trade ids included.  A difference on the same orders in the same order is a breach of the contract.
\<close>

lemma conforming_engines_agree:
  assumes "price_time_engine step view valid" "valid b" "view b = ((\<lambda>_. []), 0)"
  shows "\<exists>fs. map_option fst (match_all step xs b) = Some fs
    \<and> map_option fst (match_all match_order xs OrderBook_new) = Some fs"
  using price_time_engine.replay_fills [OF assms(1,2), of xs] matcher.replay_fills [OF new_book(1), of xs]
  by (intro exI [of _ "fst (pt_all xs ((\<lambda>_. []), 0))"]) (simp add: assms(3) new_book(2))

subsection \<open>What one order does\<close>

definition gtc :: "Order \<Rightarrow> bool" where
  "gtc x = (case od_kind x of Limit _ Gtc \<Rightarrow> True | _ \<Rightarrow> False)"

definition made :: "u64 \<Rightarrow> BookFill list \<Rightarrow> qty" where
  "made n fs = volume (filter (\<lambda>f. bf_platform_seq_maker f = n) fs)"

definition taken :: "u64 \<Rightarrow> BookFill list \<Rightarrow> qty" where
  "taken n fs = volume (filter (\<lambda>f. bf_platform_seq_taker f = n) fs)"

definition left_of :: "u64 \<Rightarrow> (price \<times> Resting) list \<Rightarrow> qty" where
  "left_of n rs = sum_list (map (\<lambda>(p, r). if rs_platform_seq r = n then rs_qty_remaining r else 0) rs)"

definition seqs :: "(price \<times> Resting) list \<Rightarrow> u64 set" where
  "seqs rs = (\<lambda>(p, r). rs_platform_seq r) ` set rs"

lemma made_simps [simp]:
  "made n [] = 0" "made n (f # fs) = (if bf_platform_seq_maker f = n then bf_qty f else 0) + made n fs"
  "made n (fs @ gs) = made n fs + made n gs" "made n (numbered i fs) = made n fs"
  by (simp_all add: made_def) (induction fs arbitrary: i; simp)

lemma taken_simps [simp]:
  "taken n [] = 0" "taken n (f # fs) = (if bf_platform_seq_taker f = n then bf_qty f else 0) + taken n fs"
  "taken n (fs @ gs) = taken n fs + taken n gs" "taken n (numbered i fs) = taken n fs"
  by (simp_all add: taken_def) (induction fs arbitrary: i; simp)

lemma left_of_simps [simp]:
  "left_of n [] = 0" "left_of n ((p, r) # rs) = (if rs_platform_seq r = n then rs_qty_remaining r else 0) + left_of n rs"
  "left_of n (rs @ rs') = left_of n rs + left_of n rs'"
  by (simp_all add: left_of_def)

lemma seqs_simps [simp]:
  "seqs [] = {}" "seqs ((p, r) # rs) = insert (rs_platform_seq r) (seqs rs)" "seqs (rs @ rs') = seqs rs \<union> seqs rs'"
  by (auto simp: seqs_def)

lemma left_of_none: "n \<notin> seqs rs \<Longrightarrow> left_of n rs = 0"
  by (induction rs) (auto simp: seqs_def)

lemma enqueue_left: "left_of n (enqueue s p r rs) = left_of n ((p, r) # rs)"
  unfolding enqueue_def by (induction rs) auto

lemma enqueue_seqs: "seqs (enqueue s p r rs) = insert (rs_platform_seq r) (seqs rs)"
  by (auto simp: seqs_def enqueue_set)

lemma greedy_moves:
  assumes "greedy taker n rs = (fs, m, rs')"
  shows "made k fs + left_of k rs' = left_of k rs" "seqs rs' \<subseteq> seqs rs"
    "taken k fs = (if k = od_platform_seq taker then volume fs else 0)"
    "\<forall>f \<in> set fs. bf_platform_seq_taker f = od_platform_seq taker \<and> bf_platform_seq_maker f \<in> seqs rs"
  using assms
  by (induction taker n rs arbitrary: fs m rs' rule: greedy.induct)
    (fastforce split: if_splits prod.splits)+

text \<open>The reference matcher on the queues: what it leaves, and how the taker's quantity is split.\<close>

lemma pt_match_cases:
  assumes "pt_match x (Q, i) = (fs, Q', i')"
  obtains
    (killed) "fs = []" "Q' = Q" "i' = i" "\<not> gtc x"
  | (runs) gs m rs' where "greedy x (od_qty x) (Q (other (od_side x))) = (gs, m, rs')" "fs = numbered i gs"
      "i' = i + of_nat (length gs)" "Q' (other (od_side x)) = rs'"
      "Q' (od_side x) = (if 0 < m \<and> gtc x
         then enqueue (od_side x) (case od_kind x of Limit p _ \<Rightarrow> p) (resting_of (with_qty x m)) (Q (od_side x))
         else Q (od_side x))"
proof -
  obtain gs m rs' where g: "greedy x (od_qty x) (Q (other (od_side x))) = (gs, m, rs')"
    by (cases "greedy x (od_qty x) (Q (other (od_side x)))")
  have u: "pt_match x (Q, i) =
     (if fok_short x (Q (other (od_side x))) then ([], Q, i)
      else (numbered i gs,
        (if 0 < m \<and> gtc x
         then (Q(other (od_side x) := rs'))
           (od_side x := enqueue (od_side x) (case od_kind x of Limit p _ \<Rightarrow> p) (resting_of (with_qty x m)) (Q (od_side x)))
         else Q(other (od_side x) := rs')), i + of_nat (length gs)))"
    unfolding pt_match_def fok_short_def gtc_def Let_def
    by (simp add: g split: order_kind.splits time_in_force.splits)
  show ?thesis
  proof (cases "fok_short x (Q (other (od_side x)))")
    case True
    then have "\<not> gtc x" by (auto simp: fok_short_def gtc_def split: order_kind.splits time_in_force.splits)
    with True show ?thesis using assms u by (intro killed) simp_all
  next
    case False
    then show ?thesis using assms u by (intro runs [OF g]) auto
  qed
qed

definition left_in :: "u64 \<Rightarrow> (book_side \<Rightarrow> (price \<times> Resting) list) \<Rightarrow> qty" where
  "left_in n Q = left_of n (Q Bid) + left_of n (Q Ask)"

definition seqs_in :: "(book_side \<Rightarrow> (price \<times> Resting) list) \<Rightarrow> u64 set" where
  "seqs_in Q = seqs (Q Bid) \<union> seqs (Q Ask)"

lemma left_in_side: "left_in n Q = left_of n (Q s) + left_of n (Q (other s))"
  by (cases s) (simp_all add: left_in_def)

lemma seqs_in_side: "seqs_in Q = seqs (Q s) \<union> seqs (Q (other s))"
  by (cases s) (auto simp: seqs_in_def)

lemma numbered_fills:
  "(\<forall>f \<in> set (numbered i fs). P (bf_platform_seq_taker f) (bf_platform_seq_maker f)) \<longleftrightarrow>
   (\<forall>f \<in> set fs. P (bf_platform_seq_taker f) (bf_platform_seq_maker f))"
  by (induction fs arbitrary: i) auto

lemma pt_match_moves:
  assumes run: "pt_match x (Q, i) = (fs, Q', i')" and fresh: "od_platform_seq x \<notin> seqs_in Q"
  defines "n \<equiv> od_platform_seq x"
  shows "(\<forall>k. k \<noteq> n \<longrightarrow> made k fs + left_in k Q' = left_in k Q \<and> taken k fs = 0) \<and> made n fs = 0 \<and>
    taken n fs + left_in n Q' \<le> od_qty x \<and> (gtc x \<longrightarrow> taken n fs + left_in n Q' = od_qty x) \<and>
    (\<not> gtc x \<longrightarrow> left_in n Q' = 0) \<and> seqs_in Q' \<subseteq> insert n (seqs_in Q) \<and>
    (\<forall>f \<in> set fs. bf_platform_seq_taker f = n \<and> bf_platform_seq_maker f \<in> seqs_in Q)"
  using run
proof (cases rule: pt_match_cases)
  case killed
  have "left_in n Q = 0" using fresh by (simp add: n_def left_in_def seqs_in_def left_of_none)
  then show ?thesis using killed by auto
next
  case (runs gs m rs')
  let ?s = "od_side x"
  note g = greedy_moves [OF runs(1)]
  have v: "volume gs + m = od_qty x" using greedy_volume [OF runs(1)] by simp
  have none: "left_of n (Q ?s) = 0" "left_of n (Q (other ?s)) = 0"
    using fresh by (auto simp: n_def seqs_in_side [of Q ?s] left_of_none)
  have mine: "left_of k (Q' ?s) = (if 0 < m \<and> gtc x \<and> k = n then m else 0) + left_of k (Q ?s)" for k
    by (simp add: runs(5) enqueue_left n_def)
  have l: "left_in k Q' = left_of k (Q' ?s) + left_of k rs'" "left_in k Q = left_of k (Q ?s) + left_of k (Q (other ?s))" for k
    by (simp_all add: left_in_side [of _ _ ?s] runs(4))
  have mk: "made k fs + left_of k rs' = left_of k (Q (other ?s))" "taken k fs = (if k = n then volume gs else 0)" for k
    using g(1) [of k] g(3) [of k] by (simp_all add: runs(2) n_def)
  have n0: "made n fs = 0" "left_of n rs' = 0" using mk(1) [of n] none by simp_all
  have "made k fs + left_in k Q' = left_in k Q \<and> taken k fs = 0" if "k \<noteq> n" for k
    using that mk [of k] by (simp add: l mine)
  moreover have "taken n fs + left_in n Q' = volume gs + (if 0 < m \<and> gtc x then m else 0)"
    by (simp add: l mine mk(2) none n0)
  moreover have "left_in n Q' = (if 0 < m \<and> gtc x then m else 0)" by (simp add: l mine none n0)
  moreover have "seqs_in Q' \<subseteq> insert n (seqs_in Q)"
    using g(2) by (auto simp: seqs_in_side [of _ ?s] runs(4,5) enqueue_seqs n_def split: if_splits)
  moreover have "\<forall>f \<in> set fs. bf_platform_seq_taker f = n \<and> bf_platform_seq_maker f \<in> seqs_in Q"
    using g(4) numbered_fills [of i gs "\<lambda>a b. a = n \<and> b \<in> seqs_in Q"]
    by (auto simp: runs(2) n_def seqs_in_side [of Q ?s])
  ultimately show ?thesis using v n0(1) by auto
qed

lemma numbered_ids: "map bf_trade_id (numbered i fs) = map (\<lambda>k. i + of_nat k) [0..<length fs]"
proof (induction fs arbitrary: i)
  case (Cons f fs)
  have "map (\<lambda>k. i + of_nat k) [0..<Suc (length fs)] = i # map (\<lambda>k. i + of_nat k) (map Suc [0..<length fs])"
    by (simp only: map_Suc_upt upt_conv_Cons zero_less_Suc) simp
  then show ?case using Cons.IH [of "i + 1"] by (simp add: o_def add.assoc del: upt_Suc)
qed simp

subsection \<open>Whole runs\<close>

definition history_ok :: "Order list \<Rightarrow> BookFill list \<Rightarrow> priority_book \<Rightarrow> bool" where
  "history_ok xs fs pb \<longleftrightarrow>
     (let (Q, i) = pb; known = od_platform_seq ` set xs in
      (\<forall>x \<in> set xs. let n = od_platform_seq x in
         taken n fs + made n fs + left_in n Q \<le> od_qty x \<and>
         (gtc x \<longrightarrow> taken n fs + made n fs + left_in n Q = od_qty x) \<and> (\<not> gtc x \<longrightarrow> left_in n Q = 0)) \<and>
      (\<forall>n. n \<notin> known \<longrightarrow> taken n fs = 0 \<and> made n fs = 0) \<and> seqs_in Q \<subseteq> known \<and>
      (\<forall>f \<in> set fs. bf_platform_seq_taker f \<in> known \<and> bf_platform_seq_maker f \<in> known) \<and>
      map bf_trade_id fs = map of_nat [0..<length fs] \<and> i = of_nat (length fs))"

lemma ids_append:
  "map of_nat [0..<a] @ map (\<lambda>k. of_nat a + of_nat k) [0..<b] = (map of_nat [0..<a + b] :: u64 list)"
  by (induction b) auto

lemma pt_match_ids:
  "pt_match x (Q, i) = (fs, Q', i') \<Longrightarrow> map bf_trade_id fs = map (\<lambda>k. i + of_nat k) [0..<length fs] \<and> i' = i + of_nat (length fs)"
  by (erule pt_match_cases) (simp_all add: numbered_ids)

lemma pt_all_history_ok:
  "distinct (map od_platform_seq xs) \<Longrightarrow> history_ok xs (fst (pt_all xs ((\<lambda>_. []), 0))) (snd (pt_all xs ((\<lambda>_. []), 0)))"
proof (induction xs rule: rev_induct)
  case Nil
  show ?case by (simp add: history_ok_def seqs_in_def)
next
  case (snoc x xs)
  let ?n = "od_platform_seq x"
  obtain fs Q i where p: "pt_all xs ((\<lambda>_. []), 0) = (fs, Q, i)" by (cases "pt_all xs ((\<lambda>_. []), 0)") auto
  obtain gs Q' i' where m: "pt_match x (Q, i) = (gs, Q', i')" by (cases "pt_match x (Q, i)") auto
  have ok: "history_ok xs fs (Q, i)" using snoc by (simp add: p)
  have new: "?n \<notin> od_platform_seq ` set xs" using snoc.prems by simp
  then have fresh: "?n \<notin> seqs_in Q" using ok by (auto simp: history_ok_def)
  have mv: "\<And>k. k \<noteq> ?n \<Longrightarrow> made k gs + left_in k Q' = left_in k Q" "\<And>k. k \<noteq> ?n \<Longrightarrow> taken k gs = 0" "made ?n gs = 0"
    "taken ?n gs + left_in ?n Q' \<le> od_qty x" "gtc x \<Longrightarrow> taken ?n gs + left_in ?n Q' = od_qty x"
    "\<not> gtc x \<Longrightarrow> left_in ?n Q' = 0" "seqs_in Q' \<subseteq> insert ?n (seqs_in Q)"
    "\<forall>f \<in> set gs. bf_platform_seq_taker f = ?n \<and> bf_platform_seq_maker f \<in> seqs_in Q"
    using pt_match_moves [OF m fresh] by auto
  have old: "taken ?n fs = 0" "made ?n fs = 0" using ok new by (simp_all add: history_ok_def)
  have ids: "map bf_trade_id gs = map (\<lambda>k. i + of_nat k) [0..<length gs]" "i' = i + of_nat (length gs)"
    using pt_match_ids [OF m] by simp_all
  have old_ids: "map bf_trade_id fs = map of_nat [0..<length fs]" "i = of_nat (length fs)"
    using ok by (simp_all add: history_ok_def)
  have kept: "taken k (fs @ gs) + made k (fs @ gs) + left_in k Q' = taken k fs + made k fs + left_in k Q" if "k \<noteq> ?n" for k
    using mv(1,2) [OF that] by simp
  have less: "left_in k Q' \<le> left_in k Q" if "k \<noteq> ?n" for k using mv(1) [OF that] by simp
  have unmade: "made k gs = 0" if "k \<noteq> ?n" "k \<notin> od_platform_seq ` set xs" for k
  proof -
    have "k \<notin> seqs_in Q" using that(2) ok by (auto simp: history_ok_def)
    then have "left_in k Q = 0" by (simp add: left_in_def seqs_in_def left_of_none)
    then show ?thesis using mv(1) [OF that(1)] by simp
  qed
  have each: "taken (od_platform_seq y) (fs @ gs) + made (od_platform_seq y) (fs @ gs) + left_in (od_platform_seq y) Q' \<le> od_qty y
      \<and> (gtc y \<longrightarrow> taken (od_platform_seq y) (fs @ gs) + made (od_platform_seq y) (fs @ gs) + left_in (od_platform_seq y) Q' = od_qty y)
      \<and> (\<not> gtc y \<longrightarrow> left_in (od_platform_seq y) Q' = 0)" if "y \<in> set (xs @ [x])" for y
  proof (cases "y = x")
    case True
    then show ?thesis using mv(3-6) old by simp
  next
    case False
    then have y: "y \<in> set xs" using that by simp
    then have ne: "od_platform_seq y \<noteq> ?n" using new imageI [OF y, of od_platform_seq] by metis
    have "taken (od_platform_seq y) fs + made (od_platform_seq y) fs + left_in (od_platform_seq y) Q \<le> od_qty y
      \<and> (gtc y \<longrightarrow> taken (od_platform_seq y) fs + made (od_platform_seq y) fs + left_in (od_platform_seq y) Q = od_qty y)
      \<and> (\<not> gtc y \<longrightarrow> left_in (od_platform_seq y) Q = 0)"
      using y ok by (simp add: history_ok_def Let_def)
    then show ?thesis unfolding kept [OF ne] using less [OF ne] by auto
  qed
  have "history_ok (xs @ [x]) (fs @ gs) (Q', i')"
    unfolding history_ok_def Let_def prod.case
  proof (intro conjI)
    show "\<forall>y\<in>set (xs @ [x]). taken (od_platform_seq y) (fs @ gs) + made (od_platform_seq y) (fs @ gs) + left_in (od_platform_seq y) Q' \<le> od_qty y
      \<and> (gtc y \<longrightarrow> taken (od_platform_seq y) (fs @ gs) + made (od_platform_seq y) (fs @ gs) + left_in (od_platform_seq y) Q' = od_qty y)
      \<and> (\<not> gtc y \<longrightarrow> left_in (od_platform_seq y) Q' = 0)"
      using each by blast
    show "\<forall>n. n \<notin> od_platform_seq ` set (xs @ [x]) \<longrightarrow> taken n (fs @ gs) = 0 \<and> made n (fs @ gs) = 0"
      using ok mv(2) unmade by (auto simp: history_ok_def)
    show "seqs_in Q' \<subseteq> od_platform_seq ` set (xs @ [x])" using ok mv(7) by (auto simp: history_ok_def)
    show "\<forall>f \<in> set (fs @ gs). bf_platform_seq_taker f \<in> od_platform_seq ` set (xs @ [x])
      \<and> bf_platform_seq_maker f \<in> od_platform_seq ` set (xs @ [x])"
      using ok mv(8) by (auto simp: history_ok_def)
    show "map bf_trade_id (fs @ gs) = map of_nat [0..<length (fs @ gs)]"
      using ids_append [of "length fs" "length gs"] by (simp add: ids(1) old_ids)
    show "i' = of_nat (length (fs @ gs))" by (simp add: ids old_ids)
  qed
  then show ?case by (simp add: pt_all_snoc p m)
qed

lemma left_in_book: "left_in n (fst (priority b)) = left_of n (own Bid b) + left_of n (own Ask b)"
  by (simp add: left_in_def priority_def own_def)

text \<open>
  C12 (fills_conserve_orders): over any run of orders with distinct \<^verbatim>\<open>platform_seq\<close> from an empty book, what an
  order took, what it gave as a maker and what of it still rests never exceed its quantity; for a
  good-till-cancelled order they add up to it exactly, and nothing of any other order rests.  Every fill
  names two orders of the run, and the trade ids count up from 0.
\<close>

theorem fills_conserve_orders:
  assumes "distinct (map od_platform_seq xs)" "match_all match_order xs OrderBook_new = Some (fs, b)"
  shows "list_all (\<lambda>x. let n = od_platform_seq x; rests = left_of n (own Bid b) + left_of n (own Ask b) in
      taken n fs + made n fs + rests \<le> od_qty x \<and> (gtc x \<longrightarrow> taken n fs + made n fs + rests = od_qty x)
      \<and> (\<not> gtc x \<longrightarrow> rests = 0)) xs
    \<and> list_all (\<lambda>f. bf_platform_seq_taker f \<in> od_platform_seq ` set xs \<and> bf_platform_seq_maker f \<in> od_platform_seq ` set xs) fs
    \<and> map bf_trade_id fs = map of_nat [0..<length fs]"
proof -
  have "history_ok xs fs (priority b)" using pt_all_history_ok [OF assms(1)] match_all_new(1) [OF assms(2)] by simp
  then show ?thesis
    by (auto simp: history_ok_def Let_def list_all_iff left_in_book case_prod_beta)
qed

subsection \<open>Price-time priority in platform order\<close>

text \<open>A better price comes first, and at one price the smaller \<^verbatim>\<open>platform_seq\<close>.\<close>

definition ahead :: "book_side \<Rightarrow> price \<times> u64 \<Rightarrow> price \<times> u64 \<Rightarrow> bool" where
  "ahead s x y \<longleftrightarrow> as_good s (fst x) (fst y) \<and> fst x \<noteq> fst y \<or> fst x = fst y \<and> snd x < snd y"

definition keys :: "(price \<times> Resting) list \<Rightarrow> (price \<times> u64) list" where
  "keys rs = map (\<lambda>(p, r). (p, rs_platform_seq r)) rs"

lemma keys_simps [simp]:
  "keys [] = []" "keys ((p, r) # rs) = (p, rs_platform_seq r) # keys rs" "keys (rs @ rs') = keys rs @ keys rs'"
  "length (keys rs) = length rs"
  by (simp_all add: keys_def)

lemma as_good_total: "\<not> as_good s k p \<Longrightarrow> as_good s p k \<and> p \<noteq> k"
  by (cases s) auto

lemma ahead_asym: "ahead s x y \<Longrightarrow> \<not> ahead s y x"
  by (cases s) (auto simp: ahead_def)

lemma greedy_keys: "greedy taker n rs = (fs, m, rs') \<Longrightarrow> keys rs' = drop (length rs - length rs') (keys rs) \<and> length rs' \<le> length rs"
proof (induction taker n rs arbitrary: fs m rs' rule: greedy.induct)
  case (2 taker n p r rs)
  show ?case
  proof (cases "n = 0 \<or> \<not> crosses (od_kind taker) (od_side taker) p")
    case False
    then show ?thesis using 2 by (fastforce simp: Suc_diff_le split: if_splits prod.splits)
  qed (use 2 in auto)
qed simp

lemma enqueue_ahead:
  assumes "sorted_wrt (ahead s) (keys rs)" "\<forall>n \<in> seqs rs. n < rs_platform_seq r"
  shows "sorted_wrt (ahead s) (keys (enqueue s p r rs))"
proof -
  have sub: "sorted_wrt (ahead s) (keys (filter P rs))" for P
    using assms(1) unfolding keys_def by (induction rs) (auto simp: sorted_wrt_map)
  have "ahead s (k, rs_platform_seq x) (p, rs_platform_seq r)" if "(k, x) \<in> set rs" "as_good s k p" for k x
    using that assms(2) by (force simp: ahead_def seqs_def)
  moreover have "ahead s (p, n) (k, n')" if "\<not> as_good s k p" for k n n'
    using as_good_total [OF that] by (simp add: ahead_def)
  moreover have "ahead s (k, n) (k', n')" if "as_good s k p" "\<not> as_good s k' p" for k k' n n'
    using that by (cases s) (auto simp: ahead_def)
  ultimately show ?thesis
    using sub by (auto simp: enqueue_def sorted_wrt_append keys_def)
qed

lemma pt_match_ahead:
  assumes run: "pt_match x (Q, i) = (fs, Q', i')" and new: "\<forall>n \<in> seqs_in Q. n < od_platform_seq x"
    and old: "\<forall>s. sorted_wrt (ahead s) (keys (Q s))"
  shows "sorted_wrt (ahead s) (keys (Q' s))"
  using run
proof (cases rule: pt_match_cases)
  case killed
  then show ?thesis using old by simp
next
  case (runs gs m rs')
  have "sorted_wrt (ahead (other (od_side x))) (keys rs')"
    using greedy_keys [OF runs(1)] old by (simp add: sorted_wrt_drop)
  moreover have "sorted_wrt (ahead (od_side x)) (keys (Q' (od_side x)))"
    using old new runs(5) enqueue_ahead [of "od_side x" "Q (od_side x)"]
    by (auto simp: seqs_in_side [of Q "od_side x"] with_qty_simps)
  ultimately show ?thesis using side_cases [of s "od_side x"] runs(4) by auto
qed

lemma pt_all_ahead:
  assumes "sorted_wrt (<) (map od_platform_seq xs)"
  shows "sorted_wrt (ahead s) (keys (fst (snd (pt_all xs ((\<lambda>_. []), 0))) s))"
  using assms
proof (induction xs arbitrary: s rule: rev_induct)
  case (snoc x xs)
  obtain fs Q i where p: "pt_all xs ((\<lambda>_. []), 0) = (fs, Q, i)" by (cases "pt_all xs ((\<lambda>_. []), 0)") auto
  obtain gs Q' i' where m: "pt_match x (Q, i) = (gs, Q', i')" by (cases "pt_match x (Q, i)") auto
  have lt: "\<forall>n \<in> od_platform_seq ` set xs. n < od_platform_seq x" and srt: "sorted_wrt (<) (map od_platform_seq xs)"
    using snoc.prems by (auto simp: sorted_wrt_append)
  have "history_ok xs fs (Q, i)" using pt_all_history_ok [of xs] srt by (simp add: p strict_sorted_iff)
  then have "\<forall>n \<in> seqs_in Q. n < od_platform_seq x" using lt by (auto simp: history_ok_def)
  moreover have "\<forall>s. sorted_wrt (ahead s) (keys (Q s))" using snoc.IH [OF srt] by (simp add: p)
  ultimately show ?case using pt_match_ahead [OF m] by (simp add: pt_all_snoc p m)
qed simp

text \<open>The fills of a taker, but for the last, take all that each order in front of the queue had.\<close>

lemma greedy_prefix:
  assumes "greedy taker n rs = (fs, m, rs')" "fs = us @ f # vs"
  shows "length us < length rs \<and> (bf_price f, bf_platform_seq_maker f) = keys rs ! length us \<and>
    (\<forall>j < length us. us ! j = fill_of taker (fst (rs ! j)) (snd (rs ! j)) (rs_qty_remaining (snd (rs ! j))))"
  using assms
proof (induction taker n rs arbitrary: fs m rs' us rule: greedy.induct)
  case (2 taker n p r rs)
  have go: "n \<noteq> 0" "crosses (od_kind taker) (od_side taker) p" using 2(2,3) by (auto split: if_splits)
  show ?case
  proof (cases "rs_qty_remaining r \<le> n")
    case True
    obtain gs where gs: "greedy taker (n - rs_qty_remaining r) rs = (gs, m, rs')"
      "fs = fill_of taker p r (rs_qty_remaining r) # gs"
      using 2(2) go True by (auto split: prod.splits)
    show ?thesis
    proof (cases us)
      case Nil
      then show ?thesis using gs(2) 2(3) by (simp add: fill_of_def)
    next
      case (Cons u us')
      have "gs = us' @ f # vs" "u = fill_of taker p r (rs_qty_remaining r)" using gs(2) 2(3) Cons by simp_all
      then show ?thesis using 2(1) [OF _ True gs(1)] go Cons by (auto simp: less_Suc_eq_0_disj nth_Cons')
    qed
  next
    case False
    then show ?thesis using 2(2,3) go by (cases us) (auto simp: fill_of_def)
  qed
qed simp

text \<open>
  C5 (price_time_priority): in a run whose orders arrived in the order of their \<^verbatim>\<open>platform_seq\<close>, when the
  next order is filled at some price by some maker, every resting order it could have met first, at a better
  price or at the same price with a smaller \<^verbatim>\<open>platform_seq\<close>, was filled before it, for all it had left.
\<close>

theorem price_time_priority:
  assumes "sorted_wrt (<) (map od_platform_seq xs)" "match_all match_order xs OrderBook_new = Some (fs, b)"
    and "match_order x b = Some (gs, b')" "gs = us @ f # vs"
    and "(p, r) \<in> set (own (other (od_side x)) b)"
    and "ahead (other (od_side x)) (p, rs_platform_seq r) (bf_price f, bf_platform_seq_maker f)"
  shows "list_ex (\<lambda>g. bf_platform_seq_maker g = rs_platform_seq r \<and> bf_price g = p \<and> bf_qty g = rs_qty_remaining r) us"
proof -
  let ?s = "od_side x"
  let ?rs = "own (other ?s) b"
  have pb: "priority b = snd (pt_all xs ((\<lambda>_. []), 0))" and lev: "levels_ok b"
    using match_all_new [OF assms(2)] by simp_all
  have srt: "sorted_wrt (ahead (other ?s)) (keys ?rs)"
    using pt_all_ahead [OF assms(1), of "other ?s"] by (simp add: pb [symmetric] priority_def own_def)
  obtain hs m rs' where g: "greedy x (od_qty x) ?rs = (hs, m, rs')" by (cases "greedy x (od_qty x) ?rs")
  have gs: "gs = numbered (next_trade_id b) hs"
    using assms(3,4) by (cases x rule: match_order_cases [OF lev]) (simp_all add: own_facing g)
  define us' f' vs' where "us' = take (length us) hs" and "f' = hs ! length us" and "vs' = drop (Suc (length us)) hs"
  have len: "length us < length hs" using arg_cong [OF gs, of length] assms(4) by simp
  have split: "hs = us' @ f' # vs'" unfolding us'_def f'_def vs'_def by (rule id_take_nth_drop [OF len])
  have at: "map bf_price gs = map bf_price hs" "map bf_qty gs = map bf_qty hs"
    "map bf_platform_seq_maker gs = map bf_platform_seq_maker hs"
    by (simp_all add: gs)
  have nth: "bf_price (gs ! j) = bf_price (hs ! j)" "bf_qty (gs ! j) = bf_qty (hs ! j)"
    "bf_platform_seq_maker (gs ! j) = bf_platform_seq_maker (hs ! j)" if "j < length hs" for j
    using that at gs nth_map [of j] by (metis nth_map length_map)+
  have f: "bf_price f = bf_price f'" "bf_platform_seq_maker f = bf_platform_seq_maker f'"
    using nth [OF len] assms(4) by (simp_all add: f'_def)
  note pre = greedy_prefix [OF g split]
  have lus: "length us' = length us" using len by (simp add: us'_def)
  obtain l where l: "l < length ?rs" "?rs ! l = (p, r)" using assms(5) by (auto simp: in_set_conv_nth)
  have key: "keys ?rs ! l = (p, rs_platform_seq r)" using l by (simp add: keys_def)
  have "l < length us"
  proof (rule ccontr)
    assume "\<not> l < length us"
    then have "keys ?rs ! length us = keys ?rs ! l \<or> ahead (other ?s) (keys ?rs ! length us) (keys ?rs ! l)"
      using sorted_wrt_nth_less [OF srt, of "length us" l] l by (cases "l = length us") auto
    moreover have "keys ?rs ! length us = (bf_price f, bf_platform_seq_maker f)" using pre lus f by simp
    ultimately show False using assms(6) key ahead_asym by (metis)
  qed
  moreover have "us ! l = gs ! l" using calculation assms(4) by (simp add: nth_append)
  moreover have "hs ! l = us' ! l" using calculation(1) by (simp add: us'_def)
  moreover have "us' ! l = fill_of x p r (rs_qty_remaining r)" using pre l calculation(1) lus by simp
  ultimately have "bf_platform_seq_maker (us ! l) = rs_platform_seq r \<and> bf_price (us ! l) = p
      \<and> bf_qty (us ! l) = rs_qty_remaining r"
    using nth [of l] len by simp
  then show ?thesis using \<open>l < length us\<close> by (auto simp: list_ex_iff)
qed

definition sample_asks :: "Order list" where
  "sample_asks = [sample_order_of 1 1 Ask 5 (Limit 100 Gtc), sample_order_of 2 2 Ask 3 (Limit 100 Gtc)]"

definition sample_asks_book :: OrderBook where
  "sample_asks_book =
     \<lparr>bids = [], asks = [(100, map resting_of sample_asks)], by_id = [1 \<mapsto> (Ask, 100), 2 \<mapsto> (Ask, 100)], next_trade_id = 0\<rparr>"

lemmas sample_engine =
  match_order_def sweep.simps drain_simps rest_def with_qty_def sample_order_of_def Let_def OrderBook_new_def
  after_level_def level_set_def drop_level_if_empty_def level_get_def forget_id_def take_trade_id_def fill_of_def resting_of_def
  level_remove_def

lemma sample_asks_run: "match_all match_order sample_asks OrderBook_new = Some ([], sample_asks_book)"
  by (simp add: sample_asks_def sample_asks_book_def sample_engine)

definition sample_bid :: Order where
  "sample_bid = sample_order_of 3 3 Bid 6 (Limit 100 Gtc)"

definition sample_fills :: "BookFill list" where
  "sample_fills = numbered 0 [fill_of sample_bid 100 (resting_of (hd sample_asks)) 5, fill_of sample_bid 100 (resting_of (last sample_asks)) 1]"

definition sample_bid_book :: OrderBook where
  "sample_bid_book =
     \<lparr>bids = [], asks = [(100, [resting_of (with_qty (last sample_asks) 2)])], by_id = [2 \<mapsto> (Ask, 100)], next_trade_id = 2\<rparr>"

lemma sample_bid_run: "match_order sample_bid sample_asks_book = Some (sample_fills, sample_bid_book)"
proof -
  have "([1 \<mapsto> (Ask, 100), 2 \<mapsto> (Ask, 100)] :: u128 \<rightharpoonup> book_side \<times> price)(1 := None) = [2 \<mapsto> (Ask, 100)]"
    by (auto simp: fun_eq_iff)
  then show ?thesis
    by (simp add: sample_asks_def sample_asks_book_def sample_bid_def sample_fills_def sample_bid_book_def sample_engine)
qed

theorem fills_conserve_orders_witness:
  "taken 3 sample_fills + left_of 3 (own Bid sample_bid_book) = 6 \<and> map bf_trade_id sample_fills = [0, 1]"
proof -
  have run: "match_all match_order (sample_asks @ [sample_bid]) OrderBook_new = Some (sample_fills, sample_bid_book)"
    using sample_asks_run sample_bid_run by (simp add: sample_asks_def split: option.splits) auto
  have d: "distinct (map od_platform_seq (sample_asks @ [sample_bid]))"
    by (simp add: sample_asks_def sample_bid_def sample_order_of_def)
  show ?thesis using fills_conserve_orders [OF d run]
    by (simp add: sample_bid_def sample_order_of_def gtc_def sample_fills_def fill_of_def own_def sample_bid_book_def
        resting_of_def with_qty_def sample_asks_def Let_def)
qed

theorem price_time_priority_witness:
  "list_ex (\<lambda>g. bf_platform_seq_maker g = 1 \<and> bf_price g = 100 \<and> bf_qty g = 5) [hd sample_fills]"
proof -
  have "list_ex (\<lambda>g. bf_platform_seq_maker g = rs_platform_seq (resting_of (hd sample_asks)) \<and> bf_price g = 100
      \<and> bf_qty g = rs_qty_remaining (resting_of (hd sample_asks))) [hd sample_fills]"
  proof (rule price_time_priority [OF _ sample_asks_run sample_bid_run])
    show "sorted_wrt (<) (map od_platform_seq sample_asks)" by (simp add: sample_asks_def sample_order_of_def)
    show "sample_fills = [hd sample_fills] @ last sample_fills # []" by (simp add: sample_fills_def)
    show "(100, resting_of (hd sample_asks)) \<in> set (own (other (od_side sample_bid)) sample_asks_book)"
      by (simp add: own_def sample_bid_def sample_order_of_def sample_asks_book_def sample_asks_def)
    show "ahead (other (od_side sample_bid)) (100, rs_platform_seq (resting_of (hd sample_asks)))
        (bf_price (last sample_fills), bf_platform_seq_maker (last sample_fills))"
      by (simp add: ahead_def sample_fills_def fill_of_def sample_asks_def sample_order_of_def)
  qed
  then show ?thesis by (simp add: sample_asks_def sample_order_of_def)
qed

text \<open>
  Resubmission.  The design document asks that applying the same \<^verbatim>\<open>(platform_seq, order)\<close> twice leave the same
  book; a resting order submitted twice rests twice.
\<close>

theorem resubmission_rests_twice:
  assumes "od_kind x = Limit p Gtc" "0 < od_qty x" "od_side x = Bid"
  shows "\<exists>b1 b2. match_order x OrderBook_new = Some ([], b1) \<and> match_order x b1 = Some ([], b2)
    \<and> own Bid b1 = [(p, resting_of x)] \<and> own Bid b2 = [(p, resting_of x), (p, resting_of x)]"
  using assms
  by (simp add: match_order_def OrderBook_new_def sweep.simps rest_def with_qty_def own_def Let_def resting_of_def)

end
