(* ===== verification/Snapshot.thy ===== *)
theory Snapshot
  imports History
begin

text \<open>
  \<^verbatim>\<open>crates/matching-engine/src/snapshot.rs\<close>: a book as a serializable value, and back.  The bincode codec is a
  parameter: what it encodes it decodes.
\<close>

record RestingSnap =
  sn_platform_seq :: u64
  sn_platform_ts_ns :: u64
  sn_client_order_id_hi :: u64
  sn_client_order_id_lo :: u64
  sn_session_token :: bytes
  sn_qty_remaining :: qty

record Snap =
  snap_bids :: "(price \<times> RestingSnap list) list"
  snap_asks :: "(price \<times> RestingSnap list) list"
  snap_next_trade_id :: u64

definition snap_one :: "Resting \<Rightarrow> RestingSnap" where
  "snap_one r =
     \<lparr>sn_platform_seq = rs_platform_seq r, sn_platform_ts_ns = rs_platform_ts_ns r,
      sn_client_order_id_hi = ucast (drop_bit 64 (rs_client_order_id r)), sn_client_order_id_lo = ucast (rs_client_order_id r),
      sn_session_token = rs_session_token r, sn_qty_remaining = rs_qty_remaining r\<rparr>"

definition restore_one :: "RestingSnap \<Rightarrow> Resting" where
  "restore_one s =
     \<lparr>rs_platform_seq = sn_platform_seq s, rs_platform_ts_ns = sn_platform_ts_ns s,
      rs_client_order_id = or (push_bit 64 (ucast (sn_client_order_id_hi s))) (ucast (sn_client_order_id_lo s)),
      rs_session_token = sn_session_token s, rs_qty_remaining = sn_qty_remaining s\<rparr>"

definition snap_of :: "OrderBook \<Rightarrow> Snap" where
  "snap_of b =
     \<lparr>snap_bids = map (\<lambda>(p, q). (p, map snap_one q)) (bids b), snap_asks = map (\<lambda>(p, q). (p, map snap_one q)) (asks b),
      snap_next_trade_id = next_trade_id b\<rparr>"

definition snapshot :: "(Snap \<Rightarrow> bytes) \<Rightarrow> OrderBook \<Rightarrow> bytes" where
  "snapshot encode_to_vec b = encode_to_vec (snap_of b)"

text \<open>The body of the two nested loops, and the loops over the levels of one side.\<close>

definition restore_resting :: "book_side \<Rightarrow> price \<Rightarrow> RestingSnap \<Rightarrow> OrderBook \<Rightarrow> OrderBook" where
  "restore_resting side price s b =
     (let r = restore_one s;
          b = set_side side (level_entry price (\<lambda>queue. queue @ [r]) (side_levels side b)) b
      in b\<lparr>by_id := (by_id b)(rs_client_order_id r \<mapsto> (side, price))\<rparr>)"

definition restore_side :: "book_side \<Rightarrow> (price \<times> RestingSnap list) list \<Rightarrow> OrderBook \<Rightarrow> OrderBook" where
  "restore_side side = fold (\<lambda>(p, q). fold (restore_resting side p) q)"

definition restore :: "(bytes \<Rightarrow> Snap option) \<Rightarrow> bytes \<Rightarrow> OrderBook option" where
  "restore decode_from_slice bs =
     (case decode_from_slice bs of
        None \<Rightarrow> None
      | Some snap \<Rightarrow>
          (let b = restore_side Ask (snap_asks snap) (restore_side Bid (snap_bids snap) OrderBook_new)
           in Some (b\<lparr>next_trade_id := snap_next_trade_id snap\<rparr>)))"

subsection \<open>One resting order\<close>

lemma split_id: "or (push_bit 64 (ucast (ucast (drop_bit 64 i) :: u64))) (ucast (ucast i :: u64)) = (i :: u128)"
  by (rule bit_word_eqI) (auto simp: bit_or_iff bit_push_bit_iff bit_ucast_iff bit_drop_bit_eq)

lemma restore_snap_one [simp]: "restore_one (snap_one r) = r"
  by (simp add: restore_one_def snap_one_def split_id)

text \<open>\<open>ClientOrderId\<close> packs the same way.\<close>

lemma client_order_id_parts:
  "ClientOrderId_bot_id (ClientOrderId_new a c) = a" "ClientOrderId_local_seq (ClientOrderId_new a c) = c"
proof -
  show "ClientOrderId_bot_id (ClientOrderId_new a c) = a"
    by (rule bit_word_eqI)
      (auto simp: ClientOrderId_bot_id_def ClientOrderId_new_def bit_or_iff bit_push_bit_iff bit_ucast_iff bit_drop_bit_eq
        dest: bit_imp_le_length)
  have m: "(0xFFFFFFFFFFFFFFFF :: u128) = mask 64" by (simp add: mask_eq_exp_minus_1)
  show "ClientOrderId_local_seq (ClientOrderId_new a c) = c"
    by (rule bit_word_eqI)
      (auto simp: ClientOrderId_local_seq_def ClientOrderId_new_def m bit_or_iff bit_and_iff bit_mask_iff bit_push_bit_iff
        bit_ucast_iff dest: bit_imp_le_length)
qed

subsection \<open>The levels\<close>

lemma level_entry_last:
  "\<forall>k \<in> fst ` set lv. k < p \<Longrightarrow> level_entry p f lv = lv @ [(p, f [])]"
  "\<forall>k \<in> fst ` set lv. k < p \<Longrightarrow> level_entry p f (lv @ [(p, q)]) = lv @ [(p, f q)]"
  by (induction lv) auto

lemma restore_queue:
  assumes "side_levels s b = lv @ (if q0 = [] then [] else [(p, q0)])" "\<forall>k \<in> fst ` set lv. k < p"
  shows "side_levels s (fold (restore_resting s p) (map snap_one q) b) = lv @ (if q0 @ q = [] then [] else [(p, q0 @ q)])"
  using assms(1)
proof (induction q arbitrary: b q0)
  case (Cons r q)
  have "side_levels s (restore_resting s p (snap_one r) b) = lv @ [(p, q0 @ [r])]"
    using Cons.prems level_entry_last [OF assms(2)] by (simp add: restore_resting_def Let_def split: if_splits)
  then show ?case using Cons.IH [of "restore_resting s p (snap_one r) b" "q0 @ [r]"] by simp
qed simp

lemma restore_levels:
  assumes "side_ok (lv0 @ lv)" "side_levels s b = lv0"
  shows "side_levels s (restore_side s (map (\<lambda>(p, q). (p, map snap_one q)) lv) b) = lv0 @ lv"
  using assms
proof (induction lv arbitrary: lv0 b)
  case (Cons e lv)
  obtain p q where e: "e = (p, q)" by fastforce
  have q: "q \<noteq> []" and lt: "\<forall>k \<in> fst ` set lv0. k < p"
    using Cons.prems(1) by (auto simp: side_ok_def sorted_wrt_append e)
  let ?b = "fold (restore_resting s p) (map snap_one q) b"
  have "side_levels s ?b = lv0 @ [e]" using restore_queue [of s b lv0 "[]" p q] Cons.prems(2) lt q by (simp add: e)
  then show ?case using Cons.IH [of "lv0 @ [e]" ?b] Cons.prems(1) by (simp add: restore_side_def e)
qed (simp add: restore_side_def)

lemma restore_resting_other [simp]:
  "side_levels (other s) (restore_resting s p r b) = side_levels (other s) b"
  "next_trade_id (restore_resting s p r b) = next_trade_id b"
  by (simp_all add: restore_resting_def Let_def)

lemma restore_side_other:
  "side_levels (other s) (restore_side s lv b) = side_levels (other s) b" "next_trade_id (restore_side s lv b) = next_trade_id b"
proof -
  have q: "side_levels (other s) (fold (restore_resting s p) q b) = side_levels (other s) b
      \<and> next_trade_id (fold (restore_resting s p) q b) = next_trade_id b" for p q b
    by (induction q arbitrary: b) auto
  have "side_levels (other s) (restore_side s lv b) = side_levels (other s) b \<and> next_trade_id (restore_side s lv b) = next_trade_id b"
    unfolding restore_side_def by (induction lv arbitrary: b) (auto simp: q)
  then show "side_levels (other s) (restore_side s lv b) = side_levels (other s) b"
    "next_trade_id (restore_side s lv b) = next_trade_id b" by simp_all
qed

subsection \<open>The index\<close>

definition entries :: "book_side \<Rightarrow> levels \<Rightarrow> (u128 \<times> book_side \<times> price) list" where
  "entries s lv = map (\<lambda>(p, i). (i, s, p)) (tags (flat lv))"

lemma restore_side_index:
  "by_id (restore_side s (map (\<lambda>(p, q). (p, map snap_one q)) lv) b) = by_id b ++ map_of (rev (entries s lv))"
proof -
  have q: "by_id (fold (restore_resting s p) (map snap_one q) b) =
      by_id b ++ map_of (rev (map (\<lambda>r. (rs_client_order_id r, s, p)) q))" for p q b
    by (induction q arbitrary: b) (simp_all add: restore_resting_def Let_def map_add_assoc flip: map_add_upd_left)
  show ?thesis
  proof (induction lv arbitrary: b)
    case (Cons e lv)
    show ?case using Cons by (cases e) (simp add: restore_side_def entries_def q o_def map_add_assoc)
  qed (simp add: restore_side_def entries_def)
qed

lemma entries_fst: "image_mset fst (mset (entries s lv)) = image_mset snd (mset (tags (flat lv)))"
  by (simp add: entries_def o_def case_prod_beta multiset.map_comp)

lemma flat_rev_mset: "mset (flat (rev lv)) = mset (flat lv)"
  by (induction lv) auto

lemma entries_mem: "(i, t, p) \<in> set (entries s lv) \<longleftrightarrow> t = s \<and> (p, i) \<in> set (tags (flat lv))"
  by (force simp: entries_def)

lemma held_sets: "set (held Bid b) = set (tags (flat (bids b)))" "set (held Ask b) = set (tags (flat (asks b)))"
  using arg_cong [OF flat_rev_mset [of "bids b"], of set_mset] by (simp_all add: held_def own_def tags_def)

text \<open>
  C22 (snapshot_restores_the_book): with a codec that decodes what it encoded, restoring the snapshot of a
  consistent book gives the book itself: levels, queue order, index and trade counter, so every later order
  and cancel is answered as it would have been.
\<close>

theorem snapshot_restores_the_book:
  assumes codec: "decode_from_slice (encode_to_vec (snap_of b)) = Some (snap_of b)" and ok: "book_ok b"
  shows "restore decode_from_slice (snapshot encode_to_vec b) = Some b"
proof -
  let ?snap = "map (\<lambda>(p, q). (p, map snap_one q))"
  define b1 where "b1 = restore_side Bid (?snap (bids b)) OrderBook_new"
  define b2 where "b2 = restore_side Ask (?snap (asks b)) b1"
  have lev: "side_ok (bids b)" "side_ok (asks b)" using ok by (simp_all add: book_ok_def levels_ok_def)
  have "bids b1 = bids b" using restore_levels [of "[]" "bids b" Bid OrderBook_new] lev(1) by (simp add: b1_def OrderBook_new_def)
  moreover have "asks b1 = []" using restore_side_other(1) [of Bid] by (simp add: b1_def OrderBook_new_def)
  ultimately have sides: "bids b2 = bids b" "asks b2 = asks b"
    using restore_side_other(1) [of Ask "?snap (asks b)" b1] restore_levels [of "[]" "asks b" Ask b1] lev(2) by (simp_all add: b2_def)
  have ix: "distinct (map snd (held Bid b @ held Ask b))"
    and ii: "\<And>i t p. by_id b i = Some (t, p) \<longleftrightarrow> (p, i) \<in> set (held t b)"
    using ok by (simp_all add: book_ok_def index_exact_def)
  let ?es = "entries Bid (bids b) @ entries Ask (asks b)"
  have "by_id b2 = map_of (rev ?es)"
    by (simp add: b2_def b1_def restore_side_index OrderBook_new_def map_add_assoc)
  moreover have d: "distinct (map fst (rev ?es))"
  proof -
    have "mset (tags (flat (rev (bids b)))) = mset (tags (flat (bids b)))"
      using flat_rev_mset [of "bids b"] by (simp add: tags_def)
    then have "mset (map fst ?es) = mset (map snd (held Bid b @ held Ask b))"
      by (simp add: entries_fst held_def own_def)
    then show ?thesis using ix by (metis distinct_rev mset_eq_imp_distinct_iff rev_map)
  qed
  moreover have "by_id b i = map_of (rev ?es) i" for i
  proof -
    have "(i, t, p) \<in> set (rev ?es) \<longleftrightarrow> (p, i) \<in> set (held t b)" for t p
      by (cases t) (auto simp: entries_mem held_sets)
    then have iff: "by_id b i = Some (t, p) \<longleftrightarrow> map_of (rev ?es) i = Some (t, p)" for t p
      using ii map_of_eq_Some_iff [OF d] by simp
    show ?thesis
    proof (cases "by_id b i")
      case None
      then show ?thesis using iff by (cases "map_of (rev ?es) i") (auto simp del: rev_append map_of_append)
    next
      case (Some v)
      then show ?thesis using iff [of "fst v" "snd v"] by (simp del: rev_append map_of_append)
    qed
  qed
  ultimately have "by_id b2 = by_id b" by (simp add: fun_eq_iff)
  then have "b2\<lparr>next_trade_id := next_trade_id b\<rparr> = b" using sides by (intro OrderBook.equality) simp_all
  then show ?thesis by (simp add: restore_def snapshot_def codec) (simp add: snap_of_def b1_def [symmetric] b2_def [symmetric])
qed

theorem snapshot_restores_the_book_witness:
  "restore (\<lambda>bs. if bs = [7] then Some (snap_of sample_one_bid) else None)
     (snapshot (\<lambda>s. if s = snap_of sample_one_bid then [7] else []) sample_one_bid) = Some sample_one_bid"
  by (rule snapshot_restores_the_book) (simp_all add: sample_one_bid_ok)

end
