(* ===== verification/ReferenceOracle.thy ===== *)
theory ReferenceOracle
  imports Snapshot GatewayServer
begin

text \<open>
  \<^verbatim>\<open>crates/reference-oracle/src/lib.rs\<close>: the gRPC service around one book behind a mutex, and what it makes of
  the orders of the gateway.  On the wire an enum is its number (\<^verbatim>\<open>proto/ironbook/v1/orders.proto\<close>); the clock
  is an argument, and a panic of the engine is \<^const>\<open>None\<close>.
\<close>

subsection \<open>Messages\<close>

record WireOrder =
  wo_platform_seq :: u64
  wo_platform_ts_ns :: u64
  wo_client_order_id :: bytes
  wo_session_token :: bytes
  wo_side :: i32
  wo_qty :: u64
  wo_price :: i64
  wo_order_type :: i32
  wo_tif :: i32

fun side_number :: "Side \<Rightarrow> i32" where
  "side_number SIDE_UNSPECIFIED = 0"
| "side_number SIDE_BID = 1"
| "side_number SIDE_ASK = 2"

fun order_type_number :: "OrderType \<Rightarrow> i32" where
  "order_type_number ORDER_TYPE_UNSPECIFIED = 0"
| "order_type_number ORDER_TYPE_LIMIT = 1"
| "order_type_number ORDER_TYPE_MARKET = 2"

fun tif_number :: "TimeInForce \<Rightarrow> i32" where
  "tif_number TIME_IN_FORCE_UNSPECIFIED = 0"
| "tif_number TIME_IN_FORCE_GTC = 1"
| "tif_number TIME_IN_FORCE_IOC = 2"
| "tif_number TIME_IN_FORCE_FOK = 3"

definition wire_of :: "NormalizedOrder \<Rightarrow> WireOrder" where
  "wire_of n =
     \<lparr>wo_platform_seq = no_PlatformSeq n, wo_platform_ts_ns = no_PlatformTsNs n,
      wo_client_order_id = no_ClientOrderId n, wo_session_token = no_SessionToken n,
      wo_side = side_number (no_Side n), wo_qty = no_Qty n, wo_price = no_Price n,
      wo_order_type = order_type_number (no_OrderType n), wo_tif = tif_number (no_Tif n)\<rparr>"

text \<open>The \<^verbatim>\<open>try_from\<close> of each enum.\<close>

definition WireSide_try_from :: "i32 \<Rightarrow> Side option" where
  "WireSide_try_from v =
     (if v = 0 then Some SIDE_UNSPECIFIED else if v = 1 then Some SIDE_BID else if v = 2 then Some SIDE_ASK else None)"

definition WireOT_try_from :: "i32 \<Rightarrow> OrderType option" where
  "WireOT_try_from v =
     (if v = 0 then Some ORDER_TYPE_UNSPECIFIED else if v = 1 then Some ORDER_TYPE_LIMIT
      else if v = 2 then Some ORDER_TYPE_MARKET else None)"

definition WireTif_try_from :: "i32 \<Rightarrow> TimeInForce option" where
  "WireTif_try_from v =
     (if v = 0 then Some TIME_IN_FORCE_UNSPECIFIED else if v = 1 then Some TIME_IN_FORCE_GTC
      else if v = 2 then Some TIME_IN_FORCE_IOC else if v = 3 then Some TIME_IN_FORCE_FOK else None)"

subsection \<open>\<^verbatim>\<open>wire_to_order\<close>\<close>

definition side_of :: "i32 \<Rightarrow> string + book_side" where
  "side_of v =
     (case WireSide_try_from v of
        None \<Rightarrow> Inl ''bad side''
      | Some SIDE_BID \<Rightarrow> Inr Bid
      | Some SIDE_ASK \<Rightarrow> Inr Ask
      | Some SIDE_UNSPECIFIED \<Rightarrow> Inl ''unspecified side'')"

definition tif_of :: "i32 \<Rightarrow> string + time_in_force" where
  "tif_of v =
     (case WireTif_try_from v of
        None \<Rightarrow> Inl ''bad tif''
      | Some TIME_IN_FORCE_GTC \<Rightarrow> Inr Gtc
      | Some TIME_IN_FORCE_IOC \<Rightarrow> Inr Ioc
      | Some TIME_IN_FORCE_FOK \<Rightarrow> Inr Fok
      | Some TIME_IN_FORCE_UNSPECIFIED \<Rightarrow> Inr Gtc)"

definition kind_of :: "i32 \<Rightarrow> i64 \<Rightarrow> time_in_force \<Rightarrow> string + order_kind" where
  "kind_of v price tif =
     (case WireOT_try_from v of
        None \<Rightarrow> Inl ''bad order type''
      | Some ORDER_TYPE_LIMIT \<Rightarrow> Inr (Limit (sint price) tif)
      | Some ORDER_TYPE_MARKET \<Rightarrow> Inr Market
      | Some ORDER_TYPE_UNSPECIFIED \<Rightarrow> Inl ''unspecified order type'')"

definition wire_to_order :: "WireOrder \<Rightarrow> string + Order" where
  "wire_to_order n =
     (case side_of (wo_side n) of Inl e \<Rightarrow> Inl e | Inr side \<Rightarrow>
      case tif_of (wo_tif n) of Inl e \<Rightarrow> Inl e | Inr tif \<Rightarrow>
      case kind_of (wo_order_type n) (wo_price n) tif of Inl e \<Rightarrow> Inl e | Inr kind \<Rightarrow>
      if length (wo_client_order_id n) \<noteq> 16 then Inl ''client_order_id must be 16 bytes''
      else if length (wo_session_token n) \<noteq> 32 then Inl ''session_token must be 32 bytes''
      else Inr \<lparr>od_platform_seq = wo_platform_seq n, od_platform_ts_ns = wo_platform_ts_ns n,
                od_client_order_id = un_be (wo_client_order_id n), od_session_token = wo_session_token n,
                od_side = side, od_qty = unat (wo_qty n), od_kind = kind\<rparr>)"

subsection \<open>\<^verbatim>\<open>Oracle.submit\<close>\<close>

definition wire_fill :: "BookFill \<Rightarrow> Fill" where
  "wire_fill f =
     \<lparr>fill_TradeId = bf_trade_id f, fill_PlatformSeqTaker = bf_platform_seq_taker f,
      fill_PlatformSeqMaker = bf_platform_seq_maker f, fill_Price = word_of_int (bf_price f),
      fill_Qty = of_nat (bf_qty f), fill_TsNs = bf_ts_ns f\<rparr>"

definition Oracle_submit :: "u64 \<Rightarrow> WireOrder \<Rightarrow> OrderBook \<Rightarrow> (Reply \<times> OrderBook) option" where
  "Oracle_submit now_ns n book =
     (case wire_to_order n of
        Inl reason \<Rightarrow>
          Some (\<lparr>reply_Ack = Some \<lparr>ack_PlatformSeq = wo_platform_seq n, ack_AckTsNs = now_ns, ack_Status = 1, ack_Message = reason\<rparr>,
                 reply_Fills = []\<rparr>, book)
      | Inr order \<Rightarrow>
          (case match_order order book of
             None \<Rightarrow> None
           | Some (fills, book') \<Rightarrow>
               Some (\<lparr>reply_Ack = Some \<lparr>ack_PlatformSeq = od_platform_seq order, ack_AckTsNs = now_ns, ack_Status = 0, ack_Message = []\<rparr>,
                      reply_Fills = map (\<lambda>f. Some (wire_fill f)) fills\<rparr>, book')))"

subsection \<open>What the oracle makes of the gateway's orders\<close>

lemma enum_numbers [simp]:
  "WireSide_try_from (side_number s) = Some s" "WireOT_try_from (order_type_number k) = Some k"
  "WireTif_try_from (tif_number t) = Some t"
  by (cases s; simp add: WireSide_try_from_def) (cases k; simp add: WireOT_try_from_def; fail | cases t; simp add: WireTif_try_from_def)+

definition engine_order :: "bytes \<Rightarrow> RESTOrder \<Rightarrow> u64 \<times> u64 \<Rightarrow> Order" where
  "engine_order sec ro stamp =
     \<lparr>od_platform_seq = fst stamp, od_platform_ts_ns = snd stamp,
      od_client_order_id = ClientOrderId_new (ro_BotID ro) (ro_LocalSeq ro),
      od_session_token = SessionTokenFor (ro_BotID ro) sec,
      od_side = (if ro_Side ro = ''ask'' then Ask else Bid), od_qty = unat (ro_Qty ro),
      od_kind = (if ro_OrderType ro = ''market'' then Market
                 else Limit (sint (ro_Price ro))
                   (if ro_TIF ro = ''ioc'' then Ioc else if ro_TIF ro = ''fok'' then Fok else Gtc))\<rparr>"

lemma un_be_pack: "un_be (PackClientOrderID a c) = ClientOrderId_new a c"
  by (simp add: PackClientOrderID_def un_be_append_be64 ClientOrderId_new_def)

lemma engine_enums:
  "side_of (side_number (sideFromString x)) = Inr (if x = ''ask'' then Ask else Bid)"
  "tif_of (tif_number (tifFromString x)) = Inr (if x = ''ioc'' then Ioc else if x = ''fok'' then Fok else Gtc)"
  "kind_of (order_type_number (orderTypeFromString x)) p t = Inr (if x = ''market'' then Market else Limit (sint p) t)"
  by (simp_all add: side_of_def tif_of_def kind_of_def sideFromString_def tifFromString_def orderTypeFromString_def)

lemma gateway_order:
  "wire_to_order (wire_of (normalise sec ro stamp)) = Inr (engine_order sec ro stamp)"
  by (simp add: wire_to_order_def wire_of_def normalise_def engine_order_def Let_def engine_enums
      PackClientOrderID_length SessionTokenFor_length un_be_pack)

text \<open>
  C35 (oracle_accepts_the_gateway): whatever a bot sends and whatever the book, the oracle accepts the order
  the gateway makes of it, with status 0 and the order's \<^verbatim>\<open>platform_seq\<close>, never panics, and answers with the
  fills of the engine for exactly that order: its side, kind, quantity and price as the bot named them, under
  the id \<^verbatim>\<open>ClientOrderId::new(bot_id, local_seq)\<close>.
\<close>

theorem oracle_accepts_the_gateway:
  "\<exists>fs b'. match_order (engine_order sec ro stamp) b = Some (fs, b') \<and>
     Oracle_submit now_ns (wire_of (normalise sec ro stamp)) b =
       Some (\<lparr>reply_Ack = Some \<lparr>ack_PlatformSeq = fst stamp, ack_AckTsNs = now_ns, ack_Status = 0, ack_Message = []\<rparr>,
              reply_Fills = map (\<lambda>f. Some (wire_fill f)) fs\<rparr>, b')"
proof -
  obtain fs b' where "match_order (engine_order sec ro stamp) b = Some (fs, b')"
    using match_order_returns by fastforce
  then show ?thesis by (simp add: Oracle_submit_def gateway_order engine_order_def)
qed

subsection \<open>Every run of the oracle\<close>

text \<open>The books a sequence of messages, of any content, can lead to.\<close>

inductive oracle_book :: "OrderBook \<Rightarrow> bool" where
  start: "oracle_book OrderBook_new"
| submit: "oracle_book b \<Longrightarrow> Oracle_submit now_ns n b = Some (rep, b') \<Longrightarrow> oracle_book b'"

definition fits :: "(price \<times> Resting) list \<Rightarrow> bool" where
  "fits rs = list_all (\<lambda>(p, r). rs_qty_remaining r < 2 ^ 64 \<and> - (2 ^ 63) \<le> p \<and> p < 2 ^ 63) rs"

lemma fits_Cons: "fits ((p, r) # rs) \<longleftrightarrow> rs_qty_remaining r < 2 ^ 64 \<and> - (2 ^ 63) \<le> p \<and> p < 2 ^ 63 \<and> fits rs"
  by (simp add: fits_def)

lemma greedy_fits:
  assumes "greedy taker n rs = (fs, m, rs')" "n < 2 ^ 64" "fits rs"
  shows "fits rs' \<and> list_all (\<lambda>f. bf_qty f < 2 ^ 64 \<and> - (2 ^ 63) \<le> bf_price f \<and> bf_price f < 2 ^ 63) fs \<and> m \<le> n"
  using assms unfolding fits_def
  by (induction taker n rs arbitrary: fs m rs' rule: greedy.induct)
    (fastforce split: if_splits prod.splits)+

lemma wire_order_fits:
  assumes "wire_to_order n = Inr x"
  shows "od_qty x < 2 ^ 64" "od_kind x = Limit p tif \<Longrightarrow> - (2 ^ 63) \<le> p \<and> p < 2 ^ 63"
proof -
  obtain t kind where k: "kind_of (wo_order_type n) (wo_price n) t = Inr kind"
    and x: "od_qty x = unat (wo_qty n)" "od_kind x = kind"
    using assms by (auto simp: wire_to_order_def split: sum.splits if_splits)
  show "od_qty x < 2 ^ 64" using unsigned_less [of "wo_qty n", where ?'a = nat] by (simp add: x)
  assume "od_kind x = Limit p tif"
  moreover have "- (2 ^ 63) \<le> sint (wo_price n) \<and> sint (wo_price n) < 2 ^ 63"
    using sint_greater_eq [of "wo_price n"] sint_less [of "wo_price n"] by simp
  ultimately show "- (2 ^ 63) \<le> p \<and> p < 2 ^ 63"
    using k x(2) by (auto simp: kind_of_def split: option.splits OrderType.splits)
qed

lemma enqueue_fits: "fits (enqueue s p r rs) = fits ((p, r) # rs)"
  by (auto simp: fits_def list_all_iff enqueue_set)

lemma pt_match_fits:
  assumes run: "pt_match x (Q, i) = (fs, Q', i')" and x: "od_qty x < 2 ^ 64" "\<And>p tif. od_kind x = Limit p tif \<Longrightarrow> - (2 ^ 63) \<le> p \<and> p < 2 ^ 63"
    and Q: "\<forall>s. fits (Q s)"
  shows "(\<forall>s. fits (Q' s)) \<and> list_all (\<lambda>f. bf_qty f < 2 ^ 64 \<and> - (2 ^ 63) \<le> bf_price f \<and> bf_price f < 2 ^ 63) fs"
  using run
proof (cases rule: pt_match_cases)
  case killed
  then show ?thesis using Q by simp
next
  case (runs gs m rs')
  note g = greedy_fits [OF runs(1) x(1)]
  have "fits (Q' (od_side x))"
    using Q g x by (auto simp: runs(5) enqueue_fits fits_Cons gtc_def split: order_kind.splits time_in_force.splits)
  then have "fits (Q' s)" for s using side_cases [of s "od_side x"] g Q runs(4) by auto
  moreover have "list_all (\<lambda>f. bf_qty f < 2 ^ 64 \<and> - (2 ^ 63) \<le> bf_price f \<and> bf_price f < 2 ^ 63) (numbered i gs) =
      list_all (\<lambda>f. bf_qty f < 2 ^ 64 \<and> - (2 ^ 63) \<le> bf_price f \<and> bf_price f < 2 ^ 63) gs" for i
    by (induction gs arbitrary: i) simp_all
  ultimately show ?thesis using g Q by (simp add: runs(2))
qed

lemma Oracle_submit_step:
  assumes "levels_ok b" "\<forall>s. fits (own s b)" "Oracle_submit now_ns n b = Some (rep, b')"
  shows "levels_ok b' \<and> (\<forall>s. fits (own s b')) \<and>
    (\<exists>fs. reply_Fills rep = map (\<lambda>f. Some (wire_fill f)) fs \<and>
      list_all (\<lambda>f. unat (fill_Qty (wire_fill f)) = bf_qty f \<and> sint (fill_Price (wire_fill f)) = bf_price f) fs)"
proof (cases "wire_to_order n")
  case (Inl e)
  then show ?thesis using assms by (auto simp: Oracle_submit_def intro: exI [of _ "[]"])
next
  case (Inr x)
  obtain fs b'' where r: "match_order x b = Some (fs, b'')" "(fs, priority b'') = pt_match x (priority b)" "levels_ok b''"
    using match_refines [OF assms(1)] by blast
  have pr: "priority c = (\<lambda>s. own s c, next_trade_id c)" for c by (simp add: priority_def own_def)
  have f: "(\<forall>s. fits (own s b'')) \<and> list_all (\<lambda>f. bf_qty f < 2 ^ 64 \<and> - (2 ^ 63) \<le> bf_price f \<and> bf_price f < 2 ^ 63) fs"
    using pt_match_fits [of x "\<lambda>s. own s b" "next_trade_id b" fs "\<lambda>s. own s b''" "next_trade_id b''"]
      r(2) assms(2) wire_order_fits [OF Inr] by (simp add: pr)
  have one: "unat (fill_Qty (wire_fill f)) = bf_qty f \<and> sint (fill_Price (wire_fill f)) = bf_price f"
    if "bf_qty f < 2 ^ 64 \<and> - (2 ^ 63) \<le> bf_price f \<and> bf_price f < 2 ^ 63" for f
  proof -
    have "sint (word_of_int (bf_price f) :: 64 word) = bf_price f"
      using that by (simp add: sint_sbintrunc' signed_take_bit_int_eq_self)
    then show ?thesis using that by (simp add: wire_fill_def unat_of_nat)
  qed
  have "list_all (\<lambda>f. unat (fill_Qty (wire_fill f)) = bf_qty f \<and> sint (fill_Price (wire_fill f)) = bf_price f) fs"
    using f one by (auto simp: list_all_iff)
  then show ?thesis using assms(3) r f Inr by (auto simp: Oracle_submit_def)
qed

text \<open>
  In every run of the oracle, whatever messages it is sent, the 64-bit fields of
  the fills it answers hold the engine's quantities and prices, unreduced.
\<close>

theorem wire_fills_are_exact:
  assumes "oracle_book b" "Oracle_submit now_ns n b = Some (rep, b')"
  shows "\<exists>fs. reply_Fills rep = map (\<lambda>f. Some (wire_fill f)) fs \<and>
      list_all (\<lambda>f. unat (fill_Qty (wire_fill f)) = bf_qty f \<and> sint (fill_Price (wire_fill f)) = bf_price f) fs"
proof -
  have "levels_ok b \<and> (\<forall>s. fits (own s b))"
    using assms(1)
  proof induction
    case start
    show ?case by (simp add: new_book own_new fits_def)
  next
    case (submit b now_ns n rep b')
    then show ?case using Oracle_submit_step by blast
  qed
  then show ?thesis using Oracle_submit_step assms(2) by blast
qed

definition sample_message :: "u64 \<Rightarrow> i32 \<Rightarrow> WireOrder" where
  "sample_message i side =
     \<lparr>wo_platform_seq = i, wo_platform_ts_ns = i, wo_client_order_id = be64 1 @ be64 i, wo_session_token = replicate 32 0,
      wo_side = side, wo_qty = 5, wo_price = 100, wo_order_type = 1, wo_tif = 0\<rparr>"

definition sample_message_order :: "u64 \<Rightarrow> book_side \<Rightarrow> Order" where
  "sample_message_order i s =
     \<lparr>od_platform_seq = i, od_platform_ts_ns = i, od_client_order_id = ClientOrderId_new 1 i, od_session_token = replicate 32 0,
      od_side = s, od_qty = 5, od_kind = Limit 100 Gtc\<rparr>"

lemma sample_message_reads:
  "wire_to_order (sample_message i 1) = Inr (sample_message_order i Bid)"
  "wire_to_order (sample_message i 2) = Inr (sample_message_order i Ask)"
  by (simp_all add: wire_to_order_def sample_message_def sample_message_order_def side_of_def tif_of_def kind_of_def
      WireSide_try_from_def WireTif_try_from_def WireOT_try_from_def un_be_append_be64 ClientOrderId_new_def)

definition sample_oracle_book :: OrderBook where
  "sample_oracle_book = rest (sample_message_order 1 Ask) OrderBook_new"

lemma sample_oracle_reached: "oracle_book sample_oracle_book"
proof (rule oracle_book.submit [OF oracle_book.start])
  have "match_order (sample_message_order 1 Ask) OrderBook_new = Some ([], sample_oracle_book)"
    by (simp add: sample_message_order_def sample_oracle_book_def sample_engine)
  then show "Oracle_submit 7 (sample_message 1 2) OrderBook_new =
      Some (\<lparr>reply_Ack = Some \<lparr>ack_PlatformSeq = 1, ack_AckTsNs = 7, ack_Status = 0, ack_Message = []\<rparr>, reply_Fills = []\<rparr>,
        sample_oracle_book)"
    by (simp add: Oracle_submit_def sample_message_reads) (simp add: sample_message_order_def)
qed

theorem wire_fills_are_exact_witness:
  "\<exists>rep b' fs. Oracle_submit 8 (sample_message 2 1) sample_oracle_book = Some (rep, b') \<and> length (reply_Fills rep) = 1 \<and>
     reply_Fills rep = map (\<lambda>f. Some (wire_fill f)) fs \<and>
     list_all (\<lambda>f. unat (fill_Qty (wire_fill f)) = bf_qty f \<and> sint (fill_Price (wire_fill f)) = bf_price f) fs"
proof -
  obtain b' where "match_order (sample_message_order 2 Bid) sample_oracle_book =
      Some (numbered 0 [fill_of (sample_message_order 2 Bid) 100 (resting_of (sample_message_order 1 Ask)) 5], b')"
    by (simp add: sample_message_order_def sample_oracle_book_def sample_engine)
  then obtain rep where run: "Oracle_submit 8 (sample_message 2 1) sample_oracle_book = Some (rep, b')"
    and n: "length (reply_Fills rep) = 1"
    by (simp add: Oracle_submit_def sample_message_reads)
  show ?thesis using wire_fills_are_exact [OF sample_oracle_reached run] run n by blast
qed

end
