(* ===== verification/RunFeed.thy ===== *)
theory RunFeed
  imports ReferenceOracle
begin

text \<open>
  One gateway serving any number of bots at once, in front of a submission and the reference oracle.  A call
  of \<^verbatim>\<open>Handle\<close> is stamped under the stamper's mutex, then tells the sink, then runs its two goroutines; nothing
  orders one call's RPCs against another's.  The moves of a call are the definitions of the gateway
  (\<open>Next\<close>, \<open>normalise\<close>, \<open>fork_start\<close>, \<open>submission_step\<close>, \<open>oracle_step\<close>), on the shared stamper and sink, and the
  oracle's side of an RPC is \<open>Oracle_submit\<close>.
\<close>

subsection \<open>The system\<close>

text \<open>An RPC is answered, reaches the backend but is not answered, or does not reach it.\<close>

datatype delivery = Answered | Unanswered go_error | Lost go_error

fun reached :: "delivery \<Rightarrow> bool" where
  "reached (Lost e) = False"
| "reached _ = True"

fun rpc_result :: "delivery \<Rightarrow> Reply \<Rightarrow> Reply result" where
  "rpc_result Answered r = Inr r"
| "rpc_result (Unanswered e) r = Inl e"
| "rpc_result (Lost e) r = Inl e"

text \<open>A call that has its stamp, with its fork once it has told the sink.\<close>

type_synonym gw_call = "NormalizedOrder \<times> FileSink fork_state option"

record gw_system =
  sys_stamper :: Stamper
  sys_sink :: "FileSink option"
  sys_calls :: "gw_call list"
  sub_seen :: "NormalizedOrder list"
  oracle_seen :: "NormalizedOrder list"
  oracle_state :: OrderBook

definition system_start :: "Stamper \<Rightarrow> FileSink option \<Rightarrow> gw_system" where
  "system_start s sk =
     \<lparr>sys_stamper = s, sys_sink = sk, sys_calls = [], sub_seen = [], oracle_seen = [], oracle_state = OrderBook_new\<rparr>"

definition stamp_call :: "bytes \<Rightarrow> rpc \<Rightarrow> int \<Rightarrow> int \<Rightarrow> RESTOrder \<Rightarrow> gw_system \<Rightarrow> gw_system" where
  "stamp_call sec NextStamps t_recv t_now ro y =
     (case Next (sys_stamper y) NextStamps t_recv t_now of
        (Inl err, s) \<Rightarrow> y\<lparr>sys_stamper := s\<rparr>
      | (Inr stamp, s) \<Rightarrow> y\<lparr>sys_stamper := s, sys_calls := sys_calls y @ [(normalise sec ro stamp, None)]\<rparr>)"

definition enter_call :: "disk \<Rightarrow> nat \<Rightarrow> gw_system \<Rightarrow> gw_system option" where
  "enter_call disk k y =
     (if length (sys_calls y) \<le> k then None else
      case sys_calls y ! k of
        (n, Some st) \<Rightarrow> None
      | (n, None) \<Rightarrow>
          (let st = fork_start (FileSink_OnIn disk) (sys_sink y) n
           in Some (y\<lparr>sys_sink := fork_sink st, sys_calls := (sys_calls y)[k := (n, Some st)]\<rparr>)))"

definition submission_call :: "disk \<Rightarrow> delivery \<Rightarrow> Reply \<Rightarrow> nat \<Rightarrow> gw_system \<Rightarrow> gw_system option" where
  "submission_call disk d r k y =
     (if length (sys_calls y) \<le> k then None else
      case sys_calls y ! k of
        (n, None) \<Rightarrow> None
      | (n, Some st) \<Rightarrow>
          map_option (\<lambda>st'.
            y\<lparr>sys_sink := fork_sink st', sys_calls := (sys_calls y)[k := (n, Some st')],
              sub_seen := sub_seen y @ (if sub_at st = AtSubmit \<and> reached d then [n] else [])\<rparr>)
            (submission_step (FileSink_OnReply disk) (Submit (\<lambda>_. rpc_result d r)) n (st\<lparr>fork_sink := sys_sink y\<rparr>)))"

definition oracle_call :: "disk \<Rightarrow> delivery \<Rightarrow> u64 \<Rightarrow> nat \<Rightarrow> gw_system \<Rightarrow> gw_system option" where
  "oracle_call disk d now_ns k y =
     (if length (sys_calls y) \<le> k then None else
      case sys_calls y ! k of
        (n, None) \<Rightarrow> None
      | (n, Some st) \<Rightarrow>
          (case Oracle_submit now_ns (wire_of n) (oracle_state y) of
             None \<Rightarrow> None
           | Some (rep, book) \<Rightarrow>
               map_option (\<lambda>st'.
                 (let arrives = or_at st = AtSubmit \<and> reached d in
                  y\<lparr>sys_sink := fork_sink st', sys_calls := (sys_calls y)[k := (n, Some st')],
                    oracle_seen := oracle_seen y @ (if arrives then [n] else []),
                    oracle_state := (if arrives then book else oracle_state y)\<rparr>))
                 (oracle_step (FileSink_OnReply disk) (Submit (\<lambda>_. rpc_result d rep)) n (st\<lparr>fork_sink := sys_sink y\<rparr>))))"

inductive system_step :: "bytes \<Rightarrow> gw_system \<Rightarrow> gw_system \<Rightarrow> bool" for sec where
  stamp: "system_step sec y (stamp_call sec NextStamps t_recv t_now ro y)"
| enter: "enter_call disk k y = Some y' \<Longrightarrow> system_step sec y y'"
| submission: "submission_call disk d r k y = Some y' \<Longrightarrow> system_step sec y y'"
| oracle_side: "oracle_call disk d now_ns k y = Some y' \<Longrightarrow> system_step sec y y'"

inductive_cases system_stepE: "system_step sec y y'"

text \<open>A call whose two RPCs were answered, and which is through.\<close>

definition delivered :: "gw_call \<Rightarrow> bool" where
  "delivered c = (case snd c of None \<Rightarrow> False | Some st \<Rightarrow> fork_done st \<and> subE st = None \<and> orE st = None)"

subsection \<open>What a move does to a call\<close>

text \<open>
  How far a goroutine is with its RPC: not sent, sent, or sent and surely received, a call not yet entered
  being not sent.
\<close>

definition sub_sent :: "gw_call \<Rightarrow> bool" where
  "sub_sent c = (case snd c of None \<Rightarrow> False | Some st \<Rightarrow> sub_at st \<noteq> AtSubmit)"

definition sub_got :: "gw_call \<Rightarrow> bool" where
  "sub_got c = (case snd c of None \<Rightarrow> False | Some st \<Rightarrow> sub_at st \<noteq> AtSubmit \<and> subE st = None)"

definition or_sent :: "gw_call \<Rightarrow> bool" where
  "or_sent c = (case snd c of None \<Rightarrow> False | Some st \<Rightarrow> or_at st \<noteq> AtSubmit)"

definition or_got :: "gw_call \<Rightarrow> bool" where
  "or_got c = (case snd c of None \<Rightarrow> False | Some st \<Rightarrow> or_at st \<noteq> AtSubmit \<and> orE st = None)"

lemmas progress_defs = sub_sent_def sub_got_def or_sent_def or_got_def

lemma submission_step_cases:
  assumes "submission_step OnReply (Submit (\<lambda>_. rpc_result d r)) n st = Some st'"
  shows "sub_at st' \<noteq> AtSubmit \<and> or_at st' = or_at st \<and> orE st' = orE st \<and>
    (sub_at st = AtSubmit \<longrightarrow> (subE st' = None \<longleftrightarrow> d = Answered)) \<and> (sub_at st \<noteq> AtSubmit \<longrightarrow> subE st' = subE st)"
proof (cases "sub_at st")
  case AtSubmit
  obtain a e where ae: "Submit (\<lambda>_. rpc_result d r) n = (a, e)" and e: "e = None \<longleftrightarrow> d = Answered"
    by (cases d) (simp_all add: Submit_def)
  have "st' = st\<lparr>subR := a, subE := e, sub_at := after_submit e (fork_sink st), submitted := submitted st @ [(''submission'', n)]\<rparr>"
    using assms by (simp add: submission_step_def AtSubmit ae)
  then show ?thesis using e AtSubmit by (simp add: after_submit_def)
next
  case AtSink
  then show ?thesis using assms by (auto simp: submission_step_def)
next
  case Finished
  then show ?thesis using assms by (simp add: submission_step_def)
qed

lemma oracle_step_cases:
  assumes "oracle_step OnReply (Submit (\<lambda>_. rpc_result d r)) n st = Some st'"
  shows "or_at st' \<noteq> AtSubmit \<and> sub_at st' = sub_at st \<and> subE st' = subE st \<and>
    (or_at st = AtSubmit \<longrightarrow> (orE st' = None \<longleftrightarrow> d = Answered)) \<and> (or_at st \<noteq> AtSubmit \<longrightarrow> orE st' = orE st)"
proof (cases "or_at st")
  case AtSubmit
  obtain a e where ae: "Submit (\<lambda>_. rpc_result d r) n = (a, e)" and e: "e = None \<longleftrightarrow> d = Answered"
    by (cases d) (simp_all add: Submit_def)
  have "st' = st\<lparr>orR := a, orE := e, or_at := after_submit e (fork_sink st), submitted := submitted st @ [(''oracle'', n)]\<rparr>"
    using assms by (simp add: oracle_step_def AtSubmit ae)
  then show ?thesis using e AtSubmit by (simp add: after_submit_def)
next
  case AtSink
  then show ?thesis using assms by (auto simp: oracle_step_def)
next
  case Finished
  then show ?thesis using assms by (simp add: oracle_step_def)
qed

text \<open>One step, seen by the two backends: who received which order, and what the step did to which call.\<close>

lemma system_step_cases:
  assumes "system_step sec y y'"
  obtains
    (idle) "sys_calls y' = sys_calls y" "sub_seen y' = sub_seen y" "oracle_seen y' = oracle_seen y" "oracle_state y' = oracle_state y"
  | (new) ro stamp where "sys_calls y' = sys_calls y @ [(normalise sec ro stamp, None)]" "sub_seen y' = sub_seen y"
      "oracle_seen y' = oracle_seen y" "oracle_state y' = oracle_state y"
  | (moved) k n c c' where "k < length (sys_calls y)" "sys_calls y ! k = (n, c)" "sys_calls y' = (sys_calls y)[k := (n, Some c')]"
      "sub_sent (n, c) \<Longrightarrow> sub_sent (n, Some c')" "or_sent (n, c) \<Longrightarrow> or_sent (n, Some c')"
      "sub_sent (n, c) \<Longrightarrow> sub_got (n, Some c') = sub_got (n, c)" "or_sent (n, c) \<Longrightarrow> or_got (n, Some c') = or_got (n, c)"
      "\<exists>hit. sub_seen y' = sub_seen y @ (if hit then [n] else []) \<and> (hit \<longrightarrow> \<not> sub_sent (n, c) \<and> sub_sent (n, Some c'))
         \<and> (\<not> sub_sent (n, c) \<longrightarrow> sub_got (n, Some c') \<longrightarrow> hit)"
      "\<exists>hit. oracle_seen y' = oracle_seen y @ (if hit then [n] else []) \<and> (hit \<longrightarrow> \<not> or_sent (n, c) \<and> or_sent (n, Some c'))
         \<and> (\<not> or_sent (n, c) \<longrightarrow> or_got (n, Some c') \<longrightarrow> hit)
         \<and> (if hit then \<exists>now_ns rep. Oracle_submit now_ns (wire_of n) (oracle_state y) = Some (rep, oracle_state y')
            else oracle_state y' = oracle_state y)"
  using assms
proof (cases rule: system_step.cases)
  case (stamp NextStamps t_recv t_now ro)
  show ?thesis
  proof (cases "Next (sys_stamper y) NextStamps t_recv t_now")
    case (Pair res s)
    then show ?thesis using stamp idle new by (cases res) (auto simp: stamp_call_def)
  qed
next
  case (enter disk k)
  then have k: "k < length (sys_calls y)" by (auto simp: enter_call_def split: if_splits)
  obtain n where c: "sys_calls y ! k = (n, None)"
    using enter k by (auto simp: enter_call_def split: option.splits prod.splits)
  define st where "st = fork_start (FileSink_OnIn disk) (sys_sink y) n"
  have y': "y' = y\<lparr>sys_sink := fork_sink st, sys_calls := (sys_calls y)[k := (n, Some st)]\<rparr>"
    using enter k c by (simp add: enter_call_def Let_def st_def)
  have st: "sub_at st = AtSubmit" "or_at st = AtSubmit" by (simp_all add: st_def fork_start_def)
  show ?thesis
    by (rule moved [OF k c, of st]) (auto simp: y' progress_defs st)
next
  case (submission disk d r k)
  then have k: "k < length (sys_calls y)" by (auto simp: submission_call_def split: if_splits)
  obtain n st where c: "sys_calls y ! k = (n, Some st)"
    using submission k by (auto simp: submission_call_def split: option.splits prod.splits)
  obtain st' where s: "submission_step (FileSink_OnReply disk) (Submit (\<lambda>_. rpc_result d r)) n (st\<lparr>fork_sink := sys_sink y\<rparr>) = Some st'"
    and y': "y' = y\<lparr>sys_sink := fork_sink st', sys_calls := (sys_calls y)[k := (n, Some st')],
              sub_seen := sub_seen y @ (if sub_at st = AtSubmit \<and> reached d then [n] else [])\<rparr>"
    using submission k c by (auto simp: submission_call_def)
  note sc = submission_step_cases [OF s]
  show ?thesis
  proof (rule moved [OF k c, of st'])
    show "\<exists>hit. sub_seen y' = sub_seen y @ (if hit then [n] else []) \<and>
        (hit \<longrightarrow> \<not> sub_sent (n, Some st) \<and> sub_sent (n, Some st')) \<and> (\<not> sub_sent (n, Some st) \<longrightarrow> sub_got (n, Some st') \<longrightarrow> hit)"
      by (rule exI [of _ "sub_at st = AtSubmit \<and> reached d"]) (use sc in \<open>auto simp: y' progress_defs\<close>)
  qed (use sc in \<open>auto simp: y' progress_defs\<close>)
next
  case (oracle_side disk d now_ns k)
  then have k: "k < length (sys_calls y)" by (auto simp: oracle_call_def split: if_splits)
  obtain n st where c: "sys_calls y ! k = (n, Some st)"
    using oracle_side k by (auto simp: oracle_call_def split: option.splits prod.splits)
  obtain rep book st' where o: "Oracle_submit now_ns (wire_of n) (oracle_state y) = Some (rep, book)"
    and s: "oracle_step (FileSink_OnReply disk) (Submit (\<lambda>_. rpc_result d rep)) n (st\<lparr>fork_sink := sys_sink y\<rparr>) = Some st'"
    and y': "y' = y\<lparr>sys_sink := fork_sink st', sys_calls := (sys_calls y)[k := (n, Some st')],
              oracle_seen := oracle_seen y @ (if or_at st = AtSubmit \<and> reached d then [n] else []),
              oracle_state := (if or_at st = AtSubmit \<and> reached d then book else oracle_state y)\<rparr>"
    using oracle_side k c by (auto simp: oracle_call_def Let_def split: option.splits prod.splits)
  note sc = oracle_step_cases [OF s]
  show ?thesis
  proof (rule moved [OF k c, of st'])
    show "\<exists>hit. oracle_seen y' = oracle_seen y @ (if hit then [n] else []) \<and>
        (hit \<longrightarrow> \<not> or_sent (n, Some st) \<and> or_sent (n, Some st')) \<and> (\<not> or_sent (n, Some st) \<longrightarrow> or_got (n, Some st') \<longrightarrow> hit)
        \<and> (if hit then \<exists>now_ns rep. Oracle_submit now_ns (wire_of n) (oracle_state y) = Some (rep, oracle_state y')
           else oracle_state y' = oracle_state y)"
      by (rule exI [of _ "or_at st = AtSubmit \<and> reached d"]) (use sc o in \<open>auto simp: y' progress_defs\<close>)
  qed (use sc in \<open>auto simp: y' progress_defs\<close>)
qed

subsection \<open>Every order reaches both backends\<close>

definition orders_of :: "(gw_call \<Rightarrow> bool) \<Rightarrow> gw_call list \<Rightarrow> NormalizedOrder multiset" where
  "orders_of P cs = mset (map fst (filter P cs))"

lemma orders_of_append [simp]: "orders_of P (cs @ ds) = orders_of P cs + orders_of P ds"
  "orders_of P [] = {#}" "orders_of P [c] = (if P c then {#fst c#} else {#})"
  by (simp_all add: orders_of_def)

lemma orders_of_update:
  assumes "k < length cs" "cs ! k = (n, c)"
  shows "\<exists>M. orders_of P cs = M + (if P (n, c) then {#n#} else {#}) \<and>
    orders_of P (cs[k := (n, c')]) = M + (if P (n, c') then {#n#} else {#})"
proof -
  have cs: "cs = take k cs @ (n, c) # drop (Suc k) cs" using id_take_nth_drop [OF assms(1)] assms(2) by simp
  have "orders_of P (xs @ (n, d) # ys) = orders_of P xs + orders_of P ys + (if P (n, d) then {#n#} else {#})" for xs d ys
    by (simp add: orders_of_def)
  then show ?thesis
    by (subst (1) cs, subst upd_conv_take_nth_drop [OF assms(1)]) (intro exI, auto)
qed

text \<open>What a backend has seen lies between the orders it surely received and the orders sent to it.\<close>

definition feed_ok :: "(gw_call \<Rightarrow> bool) \<Rightarrow> (gw_call \<Rightarrow> bool) \<Rightarrow> gw_call list \<Rightarrow> NormalizedOrder list \<Rightarrow> bool" where
  "feed_ok got out cs seen \<longleftrightarrow> orders_of got cs \<subseteq># mset seen \<and> mset seen \<subseteq># orders_of out cs"

lemma feed_ok_move:
  assumes ok: "feed_ok got out cs seen" and k: "k < length cs" "cs ! k = (n, c)"
    and out: "out (n, c) \<Longrightarrow> out (n, c') \<and> got (n, c') = got (n, c)" and lower: "got (n, c) \<Longrightarrow> out (n, c)"
    and hit: "hit \<Longrightarrow> \<not> out (n, c) \<and> out (n, c')" "\<not> out (n, c) \<Longrightarrow> got (n, c') \<Longrightarrow> hit"
  shows "feed_ok got out (cs[k := (n, c')]) (seen @ (if hit then [n] else []))"
proof -
  obtain M where M: "orders_of got cs = M + (if got (n, c) then {#n#} else {#})"
    "orders_of got (cs[k := (n, c')]) = M + (if got (n, c') then {#n#} else {#})"
    using orders_of_update [OF k] by blast
  obtain L where L: "orders_of out cs = L + (if out (n, c) then {#n#} else {#})"
    "orders_of out (cs[k := (n, c')]) = L + (if out (n, c') then {#n#} else {#})"
    using orders_of_update [OF k] by blast
  have o: "M + (if got (n, c) then {#n#} else {#}) \<subseteq># mset seen" "mset seen \<subseteq># L + (if out (n, c) then {#n#} else {#})"
    using ok by (simp_all add: feed_ok_def M L)
  show ?thesis
  proof (cases "out (n, c)")
    case True
    then show ?thesis using o out hit(1) by (auto simp: feed_ok_def M L)
  next
    case False
    then have "\<not> got (n, c)" using lower by blast
    then have "M \<subseteq># mset seen" "mset seen \<subseteq># L" using o False by simp_all
    moreover have "A \<subseteq># add_mset n B" if "A \<subseteq># B" for A B :: "NormalizedOrder multiset"
      using that by (metis add_mset_add_single mset_subset_eq_add_left subset_mset.order_trans)
    ultimately show ?thesis using False hit by (auto simp: feed_ok_def M L)
  qed
qed

lemma got_sent: "sub_got c \<Longrightarrow> sub_sent c" "or_got c \<Longrightarrow> or_sent c"
  by (auto simp: progress_defs split: option.splits)

lemma feeds_step:
  assumes "system_step sec y y'" "feed_ok sub_got sub_sent (sys_calls y) (sub_seen y)" "feed_ok or_got or_sent (sys_calls y) (oracle_seen y)"
  shows "feed_ok sub_got sub_sent (sys_calls y') (sub_seen y') \<and> feed_ok or_got or_sent (sys_calls y') (oracle_seen y')"
  using assms(1)
proof (cases rule: system_step_cases)
  case idle
  then show ?thesis using assms by simp
next
  case (new ro stamp)
  then show ?thesis using assms by (simp add: feed_ok_def progress_defs)
next
  case (moved k n c c')
  obtain h where h: "sub_seen y' = sub_seen y @ (if h then [n] else [])" "h \<Longrightarrow> \<not> sub_sent (n, c) \<and> sub_sent (n, Some c')"
    "\<not> sub_sent (n, c) \<Longrightarrow> sub_got (n, Some c') \<Longrightarrow> h" using moved(8) by blast
  obtain j where j: "oracle_seen y' = oracle_seen y @ (if j then [n] else [])" "j \<Longrightarrow> \<not> or_sent (n, c) \<and> or_sent (n, Some c')"
    "\<not> or_sent (n, c) \<Longrightarrow> or_got (n, Some c') \<Longrightarrow> j" using moved(9) by blast
  have "feed_ok sub_got sub_sent (sys_calls y') (sub_seen y')"
    unfolding moved(3) h(1)
    by (rule feed_ok_move [OF assms(2) moved(1,2)]) (use moved(4,6) h(2,3) got_sent(1) in blast)+
  moreover have "feed_ok or_got or_sent (sys_calls y') (oracle_seen y')"
    unfolding moved(3) j(1)
    by (rule feed_ok_move [OF assms(3) moved(1,2)]) (use moved(5,7) j(2,3) got_sent(2) in blast)+
  ultimately show ?thesis by simp
qed

lemma feeds_reach:
  assumes "(system_step sec)\<^sup>*\<^sup>* (system_start s sk) y"
  shows "feed_ok sub_got sub_sent (sys_calls y) (sub_seen y) \<and> feed_ok or_got or_sent (sys_calls y) (oracle_seen y)"
  using assms
proof (induction rule: rtranclp_induct)
  case base
  show ?case by (simp add: feed_ok_def system_start_def)
next
  case (step y y')
  then show ?case using feeds_step by blast
qed

lemma orders_of_all: "list_all P cs \<Longrightarrow> orders_of P cs = mset (map fst cs)"
  by (simp add: orders_of_def list_all_iff)

lemma orders_of_sub: "orders_of P cs \<subseteq># mset (map fst cs)"
  unfolding orders_of_def mset_map by (intro image_mset_subseteq_mono) (simp add: mset_filter)

text \<open>
  C14 (both_backends_get_every_order): however the calls of any number of bots interleave, and whatever RPCs
  fail, neither backend receives an order the gateway did not stamp, nor one order twice; and once every
  call is through with both its RPCs answered, the two have received the same orders, each exactly once.
\<close>

theorem both_backends_get_every_order:
  assumes "(system_step sec)\<^sup>*\<^sup>* (system_start s sk) y"
  shows "mset (sub_seen y) \<subseteq># mset (map fst (sys_calls y)) \<and> mset (oracle_seen y) \<subseteq># mset (map fst (sys_calls y))
    \<and> (list_all delivered (sys_calls y) \<longrightarrow>
         mset (sub_seen y) = mset (map fst (sys_calls y)) \<and> mset (oracle_seen y) = mset (map fst (sys_calls y)))"
proof -
  note f = feeds_reach [OF assms]
  have up: "mset (sub_seen y) \<subseteq># mset (map fst (sys_calls y))" "mset (oracle_seen y) \<subseteq># mset (map fst (sys_calls y))"
    using f subset_mset.order_trans [OF _ orders_of_sub] by (auto simp: feed_ok_def)
  moreover have "mset (sub_seen y) = mset (map fst (sys_calls y)) \<and> mset (oracle_seen y) = mset (map fst (sys_calls y))"
    if d: "list_all delivered (sys_calls y)"
  proof -
    have got: "delivered c \<Longrightarrow> sub_got c \<and> or_got c" for c
      by (auto simp: delivered_def progress_defs fork_done_def split: option.splits)
    then have "list_all sub_got (sys_calls y)" "list_all or_got (sys_calls y)"
      using d by (auto simp: list_all_iff)
    then show ?thesis using f up by (auto simp: feed_ok_def orders_of_all intro: subset_mset.order_antisym)
  qed
  ultimately show ?thesis by blast
qed

subsection \<open>The oracle has matched what it received\<close>

definition engine_of :: "NormalizedOrder \<Rightarrow> Order" where
  "engine_of n = projr (wire_to_order (wire_of n))"

lemma match_all_snoc:
  "match_all step (xs @ [x]) b =
     (case match_all step xs b of
        None \<Rightarrow> None
      | Some (fs, b1) \<Rightarrow> map_option (\<lambda>(gs, b2). (fs @ gs, b2)) (step x b1))"
  by (induction xs arbitrary: b) (auto simp: map_option_case split: option.splits prod.splits)

definition oracle_matched :: "gw_system \<Rightarrow> bool" where
  "oracle_matched y \<longleftrightarrow>
     (\<forall>c \<in> set (sys_calls y). \<exists>x. wire_to_order (wire_of (fst c)) = Inr x) \<and>
     (\<exists>fs. match_all match_order (map engine_of (oracle_seen y)) OrderBook_new = Some (fs, oracle_state y))"

lemma oracle_matched_step:
  assumes "system_step sec y y'" "oracle_matched y"
  shows "oracle_matched y'"
  using assms(1)
proof (cases rule: system_step_cases)
  case idle
  then show ?thesis using assms(2) by (simp add: oracle_matched_def)
next
  case (new ro stamp)
  then show ?thesis using assms(2) by (auto simp: oracle_matched_def gateway_order)
next
  case (moved k n c c')
  have read: "\<forall>c \<in> set (sys_calls y). \<exists>x. wire_to_order (wire_of (fst c)) = Inr x"
    using assms(2) by (simp add: oracle_matched_def)
  then obtain x where x: "wire_to_order (wire_of n) = Inr x"
    using moved(1,2) nth_mem [of k "sys_calls y"] by fastforce
  have read': "\<forall>c \<in> set (sys_calls y'). \<exists>x. wire_to_order (wire_of (fst c)) = Inr x"
    using read x set_update_subset_insert [of "sys_calls y" k "(n, Some c')"] by (auto simp: moved(3))
  obtain fs where fs: "match_all match_order (map engine_of (oracle_seen y)) OrderBook_new = Some (fs, oracle_state y)"
    using assms(2) by (auto simp: oracle_matched_def)
  obtain hit where j: "oracle_seen y' = oracle_seen y @ (if hit then [n] else [])"
    "if hit then \<exists>now_ns rep. Oracle_submit now_ns (wire_of n) (oracle_state y) = Some (rep, oracle_state y')
       else oracle_state y' = oracle_state y"
    using moved(9) by blast
  show ?thesis
  proof (cases hit)
    case True
    then obtain gs where "match_order x (oracle_state y) = Some (gs, oracle_state y')"
      using j(2) by (auto simp: Oracle_submit_def x split: option.splits)
    then have "match_all match_order (map engine_of (oracle_seen y')) OrderBook_new = Some (fs @ gs, oracle_state y')"
      by (simp add: j(1) True match_all_snoc fs) (simp add: engine_of_def x)
    then show ?thesis using read' by (simp add: oracle_matched_def)
  next
    case False
    then show ?thesis using read' j fs by (simp add: oracle_matched_def)
  qed
qed

lemma oracle_matched_reach:
  assumes "(system_step sec)\<^sup>*\<^sup>* (system_start s sk) y"
  shows "oracle_matched y"
  using assms
proof (induction rule: rtranclp_induct)
  case base
  show ?case by (simp add: oracle_matched_def system_start_def)
next
  case (step y y')
  then show ?case using oracle_matched_step by blast
qed

subsection \<open>One call at a time\<close>

definition through :: "gw_call \<Rightarrow> bool" where
  "through c = (case snd c of None \<Rightarrow> False | Some st \<Rightarrow> fork_done st)"

text \<open>Runs in which an order is stamped only when every earlier call is through.\<close>

inductive one_at_a_time :: "bytes \<Rightarrow> Stamper \<Rightarrow> FileSink option \<Rightarrow> gw_system \<Rightarrow> bool" for sec s sk where
  start: "one_at_a_time sec s sk (system_start s sk)"
| step: "one_at_a_time sec s sk y \<Longrightarrow> system_step sec y y' \<Longrightarrow>
    (length (sys_calls y) < length (sys_calls y') \<longrightarrow> list_all through (sys_calls y)) \<Longrightarrow> one_at_a_time sec s sk y'"

lemma one_at_a_time_reach: "one_at_a_time sec s sk y \<Longrightarrow> (system_step sec)\<^sup>*\<^sup>* (system_start s sk) y"
  by (induction rule: one_at_a_time.induct) (auto intro: rtranclp.rtrancl_into_rtrancl)

text \<open>As long as nothing was lost, a backend has seen all calls but perhaps the last, in their order.\<close>

definition in_order :: "(gw_call \<Rightarrow> bool) \<Rightarrow> (gw_call \<Rightarrow> bool) \<Rightarrow> gw_call list \<Rightarrow> NormalizedOrder list \<Rightarrow> bool" where
  "in_order got out cs seen \<longleftrightarrow>
     (list_all (\<lambda>c. out c \<longrightarrow> got c) cs \<longrightarrow> seen = map fst (filter out cs))"

definition settled :: "gw_call list \<Rightarrow> bool" where
  "settled cs \<longleftrightarrow> list_all (\<lambda>c. sub_sent c \<and> or_sent c) (butlast cs)"

lemma through_sent: "through c \<Longrightarrow> sub_sent c \<and> or_sent c"
  by (auto simp: through_def progress_defs fork_done_def split: option.splits)

lemma in_order_move:
  assumes ok: "in_order got out cs seen" and k: "k < length cs" "cs ! k = (n, c)" and set: "list_all out (butlast cs)"
    and keep: "out (n, c) \<Longrightarrow> out (n, c') \<and> got (n, c') = got (n, c)"
    and hit: "hit \<Longrightarrow> \<not> out (n, c) \<and> out (n, c')" "\<not> out (n, c) \<Longrightarrow> got (n, c') \<Longrightarrow> hit"
  shows "in_order got out (cs[k := (n, c')]) (seen @ (if hit then [n] else []))"
  unfolding in_order_def
proof
  let ?cs = "cs[k := (n, c')]"
  define a z where "a = take k cs" and "z = drop (Suc k) cs"
  have cs: "cs = a @ (n, c) # z" using id_take_nth_drop [OF k(1)] k(2) by (simp add: a_def z_def)
  have cs': "?cs = a @ (n, c') # z" using upd_conv_take_nth_drop [OF k(1)] by (simp add: a_def z_def)
  assume "list_all (\<lambda>c. out c \<longrightarrow> got c) ?cs"
  then have clean: "list_all (\<lambda>c. out c \<longrightarrow> got c) (a @ (n, c') # z)" by (simp only: cs')
  then have "list_all (\<lambda>c. out c \<longrightarrow> got c) cs" using keep unfolding cs by auto
  then have seen: "seen = map fst (filter out (a @ (n, c) # z))" using ok by (simp add: in_order_def flip: cs)
  show "seen @ (if hit then [n] else []) = map fst (filter out ?cs)"
  proof (cases "out (n, c)")
    case True
    then show ?thesis unfolding cs' using keep hit(1) seen by auto
  next
    case False
    have z: "z = []" using set False unfolding cs by (cases z rule: rev_cases) (auto simp: butlast_append)
    have "hit \<longleftrightarrow> out (n, c')" using hit False clean by auto
    then show ?thesis unfolding cs' using False seen by (simp add: z)
  qed
qed

lemma settled_move:
  assumes "settled cs" "k < length cs" "cs ! k = (n, c)" "sub_sent (n, c) \<Longrightarrow> sub_sent (n, c')" "or_sent (n, c) \<Longrightarrow> or_sent (n, c')"
  shows "settled (cs[k := (n, c')])"
proof (cases "k = length cs - 1")
  case True
  then show ?thesis using assms(1) by (simp add: settled_def butlast_list_update)
next
  case False
  then have "(n, c) \<in> set (butlast cs)"
    using assms(2,3) nth_mem [of k "butlast cs"] by (simp add: nth_butlast)
  then show ?thesis using assms False set_update_subset_insert [of "butlast cs" k "(n, c')"]
    by (auto simp: settled_def butlast_list_update list_all_iff)
qed

lemma one_at_a_time_inv:
  assumes "one_at_a_time sec s sk y"
  shows "settled (sys_calls y) \<and> in_order sub_got sub_sent (sys_calls y) (sub_seen y) \<and> in_order or_got or_sent (sys_calls y) (oracle_seen y)"
  using assms
proof induction
  case start
  show ?case by (simp add: settled_def in_order_def system_start_def)
next
  case (step y y')
  have set: "list_all sub_sent (butlast (sys_calls y))" "list_all or_sent (butlast (sys_calls y))"
    using step.IH by (auto simp: settled_def list_all_iff)
  from step.hyps(2) show ?case
  proof (cases rule: system_step_cases)
    case idle
    then show ?thesis using step.IH by simp
  next
    case (new ro stamp)
    then have "list_all through (sys_calls y)" using step.hyps(3) by simp
    then have "settled (sys_calls y')" using new through_sent by (auto simp: settled_def list_all_iff)
    then show ?thesis using step.IH new by (simp add: in_order_def progress_defs)
  next
    case (moved k n c c')
    obtain h where h: "sub_seen y' = sub_seen y @ (if h then [n] else [])" "h \<Longrightarrow> \<not> sub_sent (n, c) \<and> sub_sent (n, Some c')"
      "\<not> sub_sent (n, c) \<Longrightarrow> sub_got (n, Some c') \<Longrightarrow> h" using moved(8) by blast
    obtain j where j: "oracle_seen y' = oracle_seen y @ (if j then [n] else [])" "j \<Longrightarrow> \<not> or_sent (n, c) \<and> or_sent (n, Some c')"
      "\<not> or_sent (n, c) \<Longrightarrow> or_got (n, Some c') \<Longrightarrow> j" using moved(9) by blast
    have "settled (sys_calls y')" unfolding moved(3)
      by (rule settled_move [OF _ moved(1,2)]) (use step.IH moved(4,5) in blast)+
    moreover have "in_order sub_got sub_sent (sys_calls y') (sub_seen y')" unfolding moved(3) h(1)
      by (rule in_order_move [OF _ moved(1,2) set(1)]) (use step.IH moved(4,6) h(2,3) in blast)+
    moreover have "in_order or_got or_sent (sys_calls y') (oracle_seen y')" unfolding moved(3) j(1)
      by (rule in_order_move [OF _ moved(1,2) set(2)]) (use step.IH moved(5,7) j(2,3) in blast)+
    ultimately show ?thesis by simp
  qed
qed

lemma one_at_a_time_feed:
  assumes "one_at_a_time sec s sk y" "list_all delivered (sys_calls y)"
  shows "sub_seen y = map fst (sys_calls y)" "oracle_seen y = map fst (sys_calls y)"
proof -
  have "\<forall>c \<in> set (sys_calls y). sub_got c \<and> or_got c \<and> sub_sent c \<and> or_sent c"
    using assms(2) by (auto simp: list_all_iff delivered_def progress_defs fork_done_def split: option.splits)
  then show "sub_seen y = map fst (sys_calls y)" "oracle_seen y = map fst (sys_calls y)"
    using one_at_a_time_inv [OF assms(1)] by (auto simp: in_order_def list_all_iff)
qed

text \<open>
  C7 (one_at_a_time_runs_compare): when each order is stamped only after the last one is through, and every
  RPC was answered, both backends have received the orders in the order of the stamps, and a submission whose
  engine keeps the price-time contract has made exactly the fills of the oracle.
\<close>

theorem one_at_a_time_runs_compare:
  assumes "one_at_a_time sec s sk y" "list_all delivered (sys_calls y)"
    and "price_time_engine step view valid" "valid b" "view b = ((\<lambda>_. []), 0)"
  shows "sub_seen y = map fst (sys_calls y) \<and> oracle_seen y = map fst (sys_calls y) \<and>
    (\<exists>fs. map_option fst (match_all step (map engine_of (sub_seen y)) b) = Some fs \<and>
      match_all match_order (map engine_of (oracle_seen y)) OrderBook_new = Some (fs, oracle_state y))"
proof -
  note f = one_at_a_time_feed [OF assms(1,2)]
  obtain fs where o: "match_all match_order (map engine_of (oracle_seen y)) OrderBook_new = Some (fs, oracle_state y)"
    using oracle_matched_reach [OF one_at_a_time_reach [OF assms(1)]] by (auto simp: oracle_matched_def)
  moreover have "map_option fst (match_all step (map engine_of (sub_seen y)) b) = Some fs"
    using conforming_engines_agree [OF assms(3-5), of "map engine_of (sub_seen y)"] o by (auto simp: f)
  ultimately show ?thesis using f by blast
qed

subsection \<open>Two calls in flight\<close>

text \<open>A step of a call that has its stamp.\<close>

definition call_step :: "bytes \<Rightarrow> gw_system \<Rightarrow> gw_system \<Rightarrow> bool" where
  "call_step sec y y' \<longleftrightarrow> system_step sec y y' \<and> length (sys_calls y') = length (sys_calls y)"

lemma call_steps: "(call_step sec)\<^sup>*\<^sup>* y y' \<Longrightarrow> (system_step sec)\<^sup>*\<^sup>* y y'"
  by (rule rtranclp_mono [THEN predicate2D]) (auto simp: call_step_def)

lemma call_steps_alone: "(call_step sec)\<^sup>*\<^sup>* y y' \<Longrightarrow> one_at_a_time sec s sk y \<Longrightarrow> one_at_a_time sec s sk y'"
  by (induction rule: rtranclp_induct) (auto simp: call_step_def intro: one_at_a_time.step)

lemma submission_through:
  assumes "k < length (sys_calls y)" "sys_calls y ! k = (n, Some st)" "sub_at st = AtSubmit"
  shows "\<exists>y' st'. (call_step sec)\<^sup>*\<^sup>* y y' \<and> sys_calls y' = (sys_calls y)[k := (n, Some st')] \<and>
    sub_at st' = Finished \<and> subE st' = None \<and> or_at st' = or_at st \<and> orE st' = orE st \<and>
    sub_seen y' = sub_seen y @ [n] \<and> oracle_seen y' = oracle_seen y \<and> oracle_state y' = oracle_state y"
proof -
  fix disk r
  define st1 where "st1 = st\<lparr>fork_sink := sys_sink y, subR := Some r, subE := None, sub_at := after_submit None (sys_sink y),
    submitted := submitted st @ [(''submission'', n)]\<rparr>"
  define y1 where "y1 = y\<lparr>sys_calls := (sys_calls y)[k := (n, Some st1)], sub_seen := sub_seen y @ [n]\<rparr>"
  have "submission_call disk Answered r k y = Some y1"
    using assms by (simp add: submission_call_def submission_step_def Submit_def y1_def st1_def)
  then have one: "call_step sec y y1" by (auto simp: call_step_def y1_def intro: system_step.submission)
  show ?thesis
  proof (cases "sys_sink y")
    case None
    then have "sub_at st1 = Finished" by (simp add: st1_def after_submit_def)
    then show ?thesis using one by (intro exI [of _ y1] exI [of _ st1]) (auto simp: y1_def st1_def)
  next
    case (Some sk)
    then have at1: "sub_at st1 = AtSink" by (simp add: st1_def after_submit_def)
    define st2 where "st2 = st1\<lparr>fork_sink := map_option (\<lambda>s. FileSink_OnReply disk s n ''submission'' (subR st1)) (sys_sink y), sub_at := Finished\<rparr>"
    define y2 where "y2 = y1\<lparr>sys_sink := fork_sink st2, sys_calls := (sys_calls y1)[k := (n, Some st2)]\<rparr>"
    have c1: "k < length (sys_calls y1)" "sys_calls y1 ! k = (n, Some st1)" "sys_sink y1 = sys_sink y"
      using assms by (simp_all add: y1_def)
    have "submission_step (FileSink_OnReply disk) (Submit (\<lambda>_. rpc_result Answered r)) n (st1\<lparr>fork_sink := sys_sink y1\<rparr>) = Some st2"
      by (simp add: submission_step_def at1 st2_def c1(3))
    then have "submission_call disk Answered r k y1 = Some y2" using c1(1,2) at1 by (simp add: submission_call_def y2_def)
    then have "call_step sec y1 y2" by (auto simp: call_step_def y2_def intro: system_step.submission)
    then have "(call_step sec)\<^sup>*\<^sup>* y y2" using one by auto
    then show ?thesis by (intro exI [of _ y2] exI [of _ st2]) (auto simp: y2_def st2_def y1_def st1_def)
  qed
qed

lemma Oracle_submit_returns: "\<exists>rep b'. Oracle_submit now_ns n b = Some (rep, b')"
proof (cases "wire_to_order n")
  case (Inr x)
  obtain fs b' where "match_order x b = Some (fs, b')" using match_order_returns [of x b] by auto
  then show ?thesis by (simp add: Oracle_submit_def Inr)
qed (simp add: Oracle_submit_def)

lemma oracle_through:
  assumes "k < length (sys_calls y)" "sys_calls y ! k = (n, Some st)" "or_at st = AtSubmit"
  shows "\<exists>y' st'. (call_step sec)\<^sup>*\<^sup>* y y' \<and> sys_calls y' = (sys_calls y)[k := (n, Some st')] \<and>
    or_at st' = Finished \<and> orE st' = None \<and> sub_at st' = sub_at st \<and> subE st' = subE st \<and>
    oracle_seen y' = oracle_seen y @ [n] \<and> sub_seen y' = sub_seen y"
proof -
  fix disk now_ns
  obtain rep b where o: "Oracle_submit now_ns (wire_of n) (oracle_state y) = Some (rep, b)"
    using Oracle_submit_returns by blast
  define st1 where "st1 = st\<lparr>fork_sink := sys_sink y, orR := Some rep, orE := None, or_at := after_submit None (sys_sink y),
    submitted := submitted st @ [(''oracle'', n)]\<rparr>"
  define y1 where "y1 = y\<lparr>sys_calls := (sys_calls y)[k := (n, Some st1)], oracle_seen := oracle_seen y @ [n], oracle_state := b\<rparr>"
  have "oracle_call disk Answered now_ns k y = Some y1"
    using assms by (simp add: oracle_call_def oracle_step_def Submit_def y1_def st1_def o)
  then have one: "call_step sec y y1" by (auto simp: call_step_def y1_def intro: system_step.oracle_side)
  show ?thesis
  proof (cases "sys_sink y")
    case None
    then have "or_at st1 = Finished" by (simp add: st1_def after_submit_def)
    then show ?thesis using one by (intro exI [of _ y1] exI [of _ st1]) (auto simp: y1_def st1_def)
  next
    case (Some sk)
    then have at1: "or_at st1 = AtSink" by (simp add: st1_def after_submit_def)
    define st2 where "st2 = st1\<lparr>fork_sink := map_option (\<lambda>s. FileSink_OnReply disk s n ''oracle'' (orR st1)) (sys_sink y), or_at := Finished\<rparr>"
    define y2 where "y2 = y1\<lparr>sys_sink := fork_sink st2, sys_calls := (sys_calls y1)[k := (n, Some st2)]\<rparr>"
    obtain rep' b' where o': "Oracle_submit now_ns (wire_of n) (oracle_state y1) = Some (rep', b')"
      using Oracle_submit_returns by blast
    have c1: "k < length (sys_calls y1)" "sys_calls y1 ! k = (n, Some st1)" "sys_sink y1 = sys_sink y"
      using assms by (simp_all add: y1_def)
    have "oracle_step (FileSink_OnReply disk) (Submit (\<lambda>_. rpc_result Answered rep')) n (st1\<lparr>fork_sink := sys_sink y1\<rparr>) = Some st2"
      by (simp add: oracle_step_def at1 st2_def c1(3))
    then have "oracle_call disk Answered now_ns k y1 = Some y2" using c1(1,2) at1 by (simp add: oracle_call_def o' y2_def)
    then have "call_step sec y1 y2" by (auto simp: call_step_def y2_def intro: system_step.oracle_side)
    then have "(call_step sec)\<^sup>*\<^sup>* y y2" using one by auto
    then show ?thesis by (intro exI [of _ y2] exI [of _ st2]) (auto simp: y2_def st2_def y1_def st1_def)
  qed
qed

lemma two_calls:
  fixes sec :: bytes and r1 r2 :: RESTOrder and t2 :: int
  assumes "\<not> window_empty s" "\<not> window_empty (snd (take_stamp s t1))"
  defines "n1 \<equiv> normalise sec r1 (fst (take_stamp s t1))" and "n2 \<equiv> normalise sec r2 (fst (take_stamp (snd (take_stamp s t1)) t2))"
  shows "\<exists>y st1 st2. (system_step sec)\<^sup>*\<^sup>* (system_start s sk) y \<and> sys_calls y = [(n1, Some st1), (n2, Some st2)] \<and>
    sub_at st1 = AtSubmit \<and> or_at st1 = AtSubmit \<and> sub_at st2 = AtSubmit \<and> or_at st2 = AtSubmit \<and>
    sub_seen y = [] \<and> oracle_seen y = []"
proof -
  fix f :: rpc and disk
  let ?s1 = "snd (take_stamp s t1)" and ?s2 = "snd (take_stamp (snd (take_stamp s t1)) t2)"
  let ?y1 = "(system_start s sk)\<lparr>sys_stamper := ?s1, sys_calls := [(n1, None)]\<rparr>"
  let ?y2 = "(system_start s sk)\<lparr>sys_stamper := ?s2, sys_calls := [(n1, None), (n2, None)]\<rparr>"
  let ?st1 = "fork_start (FileSink_OnIn disk) sk n1"
  let ?st2 = "fork_start (FileSink_OnIn disk) (fork_sink ?st1) n2"
  let ?y3 = "?y2\<lparr>sys_sink := fork_sink ?st1, sys_calls := [(n1, Some ?st1), (n2, None)]\<rparr>"
  let ?y4 = "?y3\<lparr>sys_sink := fork_sink ?st2, sys_calls := [(n1, Some ?st1), (n2, Some ?st2)]\<rparr>"
  have "stamp_call sec f 0 t1 r1 (system_start s sk) = ?y1"
    by (simp add: stamp_call_def system_start_def Next_in_window [OF assms(1)] n1_def)
  then have s1: "system_step sec (system_start s sk) ?y1" by (metis system_step.stamp)
  have "stamp_call sec f 0 t2 r2 ?y1 = ?y2"
    by (simp add: stamp_call_def Next_in_window [OF assms(2)] n2_def)
  then have s2: "system_step sec ?y1 ?y2" by (metis system_step.stamp)
  have "enter_call disk 0 ?y2 = Some ?y3" by (simp add: enter_call_def Let_def) (simp add: system_start_def)
  then have s3: "system_step sec ?y2 ?y3" by (rule system_step.enter)
  have "enter_call disk 1 ?y3 = Some ?y4" by (simp add: enter_call_def Let_def)
  then have s4: "system_step sec ?y3 ?y4" by (rule system_step.enter)
  have "(system_step sec)\<^sup>*\<^sup>* (system_start s sk) ?y4"
    using s1 s2 s3 s4 by (meson converse_rtranclp_into_rtranclp rtranclp.rtrancl_refl)
  moreover have "sub_seen ?y4 = []" "oracle_seen ?y4 = []" by (simp_all add: system_start_def)
  moreover have "sub_at (fork_start on_in k n) = AtSubmit" "or_at (fork_start on_in k n) = AtSubmit"
    for on_in :: "FileSink \<Rightarrow> NormalizedOrder \<Rightarrow> FileSink" and k n
    by (simp_all add: fork_start_def)
  ultimately show ?thesis
    by - (rule exI [of _ ?y4], rule exI [of _ ?st1], rule exI [of _ ?st2], simp)
qed

lemma swapped_arrivals:
  fixes sec :: bytes and r1 r2 :: RESTOrder and t2 :: int
  assumes "\<not> window_empty s" "\<not> window_empty (snd (take_stamp s t1))"
  defines "n1 \<equiv> normalise sec r1 (fst (take_stamp s t1))" and "n2 \<equiv> normalise sec r2 (fst (take_stamp (snd (take_stamp s t1)) t2))"
  shows "\<exists>y. (system_step sec)\<^sup>*\<^sup>* (system_start s sk) y \<and> map fst (sys_calls y) = [n1, n2] \<and>
    list_all delivered (sys_calls y) \<and> sub_seen y = [n1, n2] \<and> oracle_seen y = [n2, n1]"
proof -
  obtain y0 a0 b0 where y0: "(system_step sec)\<^sup>*\<^sup>* (system_start s sk) y0" "sys_calls y0 = [(n1, Some a0), (n2, Some b0)]"
    "sub_at a0 = AtSubmit" "or_at a0 = AtSubmit" "sub_at b0 = AtSubmit" "or_at b0 = AtSubmit" "sub_seen y0 = []" "oracle_seen y0 = []"
    using two_calls [OF assms(1,2)] unfolding n1_def n2_def by blast
  obtain y1 a1 where y1: "(call_step sec)\<^sup>*\<^sup>* y0 y1" "sys_calls y1 = [(n1, Some a1), (n2, Some b0)]"
    "sub_at a1 = Finished" "subE a1 = None" "or_at a1 = AtSubmit" "sub_seen y1 = [n1]" "oracle_seen y1 = []"
    using submission_through [of 0 y0 n1 a0 sec] y0 by auto
  obtain y2 b1 where y2: "(call_step sec)\<^sup>*\<^sup>* y1 y2" "sys_calls y2 = [(n1, Some a1), (n2, Some b1)]"
    "sub_at b1 = Finished" "subE b1 = None" "or_at b1 = AtSubmit" "sub_seen y2 = [n1, n2]" "oracle_seen y2 = []"
    using submission_through [of 1 y1 n2 b0 sec] y1 y0 by auto
  obtain y3 b2 where y3: "(call_step sec)\<^sup>*\<^sup>* y2 y3" "sys_calls y3 = [(n1, Some a1), (n2, Some b2)]"
    "or_at b2 = Finished" "orE b2 = None" "sub_at b2 = Finished" "subE b2 = None" "sub_seen y3 = [n1, n2]" "oracle_seen y3 = [n2]"
    using oracle_through [of 1 y2 n2 b1 sec] y2 by auto
  obtain y4 a2 where y4: "(call_step sec)\<^sup>*\<^sup>* y3 y4" "sys_calls y4 = [(n1, Some a2), (n2, Some b2)]"
    "or_at a2 = Finished" "orE a2 = None" "sub_at a2 = Finished" "subE a2 = None" "sub_seen y4 = [n1, n2]" "oracle_seen y4 = [n2, n1]"
    using oracle_through [of 0 y3 n1 a1 sec] y3 y1 by auto
  have "(system_step sec)\<^sup>*\<^sup>* (system_start s sk) y4"
    using y0(1) y1(1) y2(1) y3(1) y4(1) by (meson call_steps rtranclp_trans)
  moreover have "list_all delivered (sys_calls y4)"
    using y4(2-6) y3(3-6) by (simp add: delivered_def fork_done_def)
  ultimately show ?thesis using y4(2,7,8) by (intro exI [of _ y4]) simp
qed

text \<open>What a bot sends for a limit order.\<close>

definition limit_order :: "string \<Rightarrow> string \<Rightarrow> u64 \<Rightarrow> u64 \<Rightarrow> u64 \<Rightarrow> i64 \<Rightarrow> RESTOrder" where
  "limit_order side tif bot_id seq q p =
     \<lparr>ro_BotID = bot_id, ro_LocalSeq = seq, ro_Side = side, ro_Qty = q, ro_Price = p, ro_OrderType = ''limit'', ro_TIF = tif\<rparr>"

text \<open>
  C21 (orders_in_flight_can_swap): nothing makes the oracle receive orders in the order of their
  \<^verbatim>\<open>platform_seq\<close>, or in the order the submission does.  Of two bots at once, an ask is stamped, and then an
  immediate-or-cancel bid that crosses it; every RPC is answered, the submission receives them in stamp
  order, the oracle the other way round.  A submission that runs the reference engine itself then reports a
  fill the oracle does not have: it diverges from the ground truth without a fault.
\<close>

theorem orders_in_flight_can_swap:
  assumes "\<not> window_empty s" "\<not> window_empty (snd (take_stamp s t))" "q \<noteq> 0"
  shows "\<exists>y n n' fs b. (system_step sec)\<^sup>*\<^sup>* (system_start s sk) y \<and> list_all delivered (sys_calls y) \<and>
    n = normalise sec (limit_order ''ask'' ''gtc'' bot_id l q p) (fst (take_stamp s t)) \<and>
    n' = normalise sec (limit_order ''bid'' ''ioc'' bot_id' l' q p) (fst (take_stamp (snd (take_stamp s t)) t')) \<and>
    no_PlatformSeq n' = no_PlatformSeq n + 1 \<and> sub_seen y = [n, n'] \<and> oracle_seen y = [n', n] \<and>
    match_all match_order (map engine_of (sub_seen y)) OrderBook_new = Some (fs, b) \<and> volume fs = unat q \<and>
    match_all match_order (map engine_of (oracle_seen y)) OrderBook_new = Some ([], oracle_state y)"
proof -
  let ?r1 = "limit_order ''ask'' ''gtc'' bot_id l q p" and ?r2 = "limit_order ''bid'' ''ioc'' bot_id' l' q p"
  let ?e1 = "engine_order sec ?r1 (fst (take_stamp s t))"
  let ?e2 = "engine_order sec ?r2 (fst (take_stamp (snd (take_stamp s t)) t'))"
  define n1 n2 where "n1 = normalise sec ?r1 (fst (take_stamp s t))" and "n2 = normalise sec ?r2 (fst (take_stamp (snd (take_stamp s t)) t'))"
  obtain y where y: "(system_step sec)\<^sup>*\<^sup>* (system_start s sk) y" "list_all delivered (sys_calls y)"
    "sub_seen y = [n1, n2]" "oracle_seen y = [n2, n1]"
    using swapped_arrivals [OF assms(1,2), of sec sk ?r1 ?r2 t'] unfolding n1_def n2_def by blast
  have e: "engine_of n1 = ?e1" "engine_of n2 = ?e2" by (simp_all add: engine_of_def n1_def n2_def gateway_order)
  have q: "0 < unat q" using assms(3) by (simp add: unat_gt_0)
  let ?x1 = "sample_order_of (od_platform_seq ?e1) (od_client_order_id ?e1) Ask (unat q) (Limit (sint p) Gtc)"
  have k: "od_kind ?e1 = Limit (sint p) Gtc" "od_side ?e1 = Ask" "od_qty ?e1 = unat q"
    "od_kind ?e2 = Limit (sint p) Ioc" "od_side ?e2 = Bid" "od_qty ?e2 = unat q"
    by (simp_all add: engine_order_def limit_order_def)
  have one: "match_order ?e1 OrderBook_new = Some ([], rest (with_qty ?e1 (unat q)) OrderBook_new)"
    using q by (simp add: match_order_def sweep.simps k) (simp add: OrderBook_new_def)
  have two: "match_order ?e2 OrderBook_new = Some ([], OrderBook_new)"
    using q by (simp add: match_order_def sweep.simps k) (simp add: OrderBook_new_def)
  let ?b = "rest (with_qty ?e1 (unat q)) OrderBook_new"
  have ok: "levels_ok ?b"
    by (simp add: levels_ok_def side_ok_def rest_def k OrderBook_new_def)
  have rs: "flat (asks ?b) = [(sint p, resting_of (with_qty ?e1 (unat q)))]"
    by (simp add: rest_def k OrderBook_new_def)
  obtain fs b where m: "match_order ?e2 ?b = Some (fs, b)" using match_order_returns [of ?e2 ?b] by auto
  have v: "volume fs = unat q"
  proof (cases ?e2 rule: match_order_cases [OF ok])
    case 1
    then show ?thesis by (simp add: fok_short_def k)
  next
    case (2 gs m' b1)
    have "fs = numbered (next_trade_id ?b) gs" using m 2(6) by (simp only: option.inject prod.inject)
    moreover have "volume gs = unat q" unfolding 2(2) using q by (simp add: rs k)
    ultimately show ?thesis by simp
  next
    case (3 gs m' b1 p')
    then show ?thesis by (simp add: k)
  qed
  have "match_all match_order (map engine_of (sub_seen y)) OrderBook_new = Some (fs, b)"
    by (simp add: y(3) e one m)
  moreover have "match_all match_order (map engine_of (oracle_seen y)) OrderBook_new = Some ([], oracle_state y)"
  proof -
    obtain gs where "match_all match_order (map engine_of (oracle_seen y)) OrderBook_new = Some (gs, oracle_state y)"
      using oracle_matched_reach [OF y(1)] by (auto simp: oracle_matched_def)
    then show ?thesis by (simp add: y(4) e one two)
  qed
  moreover have "no_PlatformSeq n2 = no_PlatformSeq n1 + 1"
    by (simp_all add: n1_def n2_def normalise_def take_stamp_def Let_def)
  ultimately show ?thesis using y v unfolding n1_def n2_def by blast
qed

definition sample_window :: Stamper where
  "sample_window = \<lparr>batchSize = 4, nextSeq = 5, endSeq = 9, originTs = 0, originAt = 0\<rparr>"

lemma sample_window_open: "\<not> window_empty sample_window" "\<not> window_empty (snd (take_stamp sample_window t))"
  by (simp_all add: sample_window_def window_empty_def take_stamp_def)

theorem orders_in_flight_can_swap_witness:
  "\<exists>y n n' fs b. (system_step [1])\<^sup>*\<^sup>* (system_start sample_window None) y \<and> list_all delivered (sys_calls y) \<and>
    no_PlatformSeq n' = no_PlatformSeq n + 1 \<and> sub_seen y = [n, n'] \<and> oracle_seen y = [n', n] \<and>
    match_all match_order (map engine_of (sub_seen y)) OrderBook_new = Some (fs, b) \<and> volume fs = 5 \<and>
    match_all match_order (map engine_of (oracle_seen y)) OrderBook_new = Some ([], oracle_state y)"
proof -
  have "(5 :: u64) \<noteq> 0" "unat (5 :: u64) = 5" by simp_all
  then show ?thesis
    using orders_in_flight_can_swap [OF sample_window_open, where q = 5 and sec = "[1]" and sk = None] by metis
qed

theorem both_backends_get_every_order_witness:
  "\<exists>y :: gw_system. length (sys_calls y) = 2 \<and> mset (sub_seen y) = mset (map fst (sys_calls y)) \<and> mset (oracle_seen y) = mset (map fst (sys_calls y))"
proof -
  obtain y where y: "(system_step [1])\<^sup>*\<^sup>* (system_start sample_window None) y" "list_all delivered (sys_calls y)"
    "sub_seen y = map fst (sys_calls y)" "length (sys_calls y) = 2"
    using swapped_arrivals [OF sample_window_open, of "[1]" None]
    by (metis (no_types, lifting) length_Cons length_map list.size(3) numeral_2_eq_2)
  then show ?thesis using both_backends_get_every_order [OF y(1)] y(2,4) by blast
qed

lemma sample_alone:
  "\<exists>y. one_at_a_time [1] sample_window None y \<and> list_all delivered (sys_calls y) \<and> length (sys_calls y) = 1"
proof -
  fix f :: rpc and disk
  let ?n = "normalise [1] (limit_order ''bid'' ''gtc'' 1 2 5 100) (fst (take_stamp sample_window 0))"
  let ?y1 = "(system_start sample_window None)\<lparr>sys_stamper := snd (take_stamp sample_window 0), sys_calls := [(?n, None)]\<rparr>"
  let ?st = "fork_start (FileSink_OnIn disk) None ?n"
  let ?y2 = "?y1\<lparr>sys_sink := fork_sink ?st, sys_calls := [(?n, Some ?st)]\<rparr>"
  have "stamp_call [1] f 0 0 (limit_order ''bid'' ''gtc'' 1 2 5 100) (system_start sample_window None) = ?y1"
    by (simp add: stamp_call_def system_start_def Next_in_window [OF sample_window_open(1)])
  then have "system_step [1] (system_start sample_window None) ?y1" by (metis system_step.stamp)
  then have "one_at_a_time [1] sample_window None ?y1"
    by (rule one_at_a_time.step [OF one_at_a_time.start]) (simp add: system_start_def)
  moreover have "enter_call disk 0 ?y1 = Some ?y2" by (simp add: enter_call_def Let_def) (simp add: system_start_def)
  then have "call_step [1] ?y1 ?y2" by (simp add: call_step_def system_step.enter)
  ultimately have a: "one_at_a_time [1] sample_window None ?y2" by (meson call_steps_alone r_into_rtranclp)
  have at1: "sub_at ?st = AtSubmit" "or_at ?st = AtSubmit" by (simp_all add: fork_start_def)
  have two: "0 < length (sys_calls ?y2)" "sys_calls ?y2 ! 0 = (?n, Some ?st)" by simp_all
  obtain y3 st3 where y3: "(call_step [1])\<^sup>*\<^sup>* ?y2 y3" "sys_calls y3 = (sys_calls ?y2)[0 := (?n, Some st3)]"
    "sub_at st3 = Finished" "subE st3 = None" "or_at st3 = or_at ?st"
    using submission_through [OF two at1(1), of "[1]"] by blast
  have three: "0 < length (sys_calls y3)" "sys_calls y3 ! 0 = (?n, Some st3)" by (simp_all add: y3(2))
  obtain y4 st4 where y4: "(call_step [1])\<^sup>*\<^sup>* y3 y4" "sys_calls y4 = (sys_calls y3)[0 := (?n, Some st4)]"
    "or_at st4 = Finished" "orE st4 = None" "sub_at st4 = sub_at st3" "subE st4 = subE st3"
    using oracle_through [OF three, of "[1]"] y3(5) at1(2) by auto
  have "one_at_a_time [1] sample_window None y4" using a y3(1) y4(1) call_steps_alone by blast
  moreover have "list_all delivered (sys_calls y4)" "length (sys_calls y4) = 1"
    using y4(2-6) y3(2-4) by (simp_all add: delivered_def fork_done_def)
  ultimately show ?thesis by blast
qed

theorem one_at_a_time_runs_compare_witness:
  "\<exists>y :: gw_system. length (sub_seen y) = 1 \<and> oracle_seen y = sub_seen y \<and>
    (\<exists>fs. map_option fst (match_all (\<lambda>x pb. Some (pt_match x pb)) (map engine_of (sub_seen y)) ((\<lambda>_. []), 0)) = Some fs \<and>
      match_all match_order (map engine_of (oracle_seen y)) OrderBook_new = Some (fs, oracle_state y))"
proof -
  obtain y where y: "one_at_a_time [1] sample_window None y" "list_all delivered (sys_calls y)" "length (sys_calls y) = 1"
    using sample_alone by blast
  have "price_time_engine (\<lambda>x pb. Some (pt_match x pb)) (\<lambda>pb. pb) (\<lambda>_. True)"
    by unfold_locales (metis prod.collapse)
  note runs = one_at_a_time_runs_compare [OF y(1,2) this TrueI refl]
  then have "length (sub_seen y) = 1" "oracle_seen y = sub_seen y" using y(3) by simp_all
  with runs show ?thesis by blast
qed

end
