(* ===== verification/Utf8.thy ===== *)
theory Utf8
  imports Prelude
begin

text \<open>
  \<^verbatim>\<open>unicode/utf8\<close> (and Rust's \<^verbatim>\<open>String::from_utf8\<close>): reading and writing code points as bytes.  A
  text is a list of byte values.
\<close>

subsection \<open>One code point\<close>

definition tail_byte :: "nat \<Rightarrow> bool" where
  "tail_byte b \<longleftrightarrow> 128 \<le> b \<and> b < 192"

text \<open>The second byte, which must not make the sequence overlong, a surrogate or too big.\<close>

definition second_ok :: "nat \<Rightarrow> nat \<Rightarrow> bool" where
  "second_ok a b \<longleftrightarrow>
     (if a = 224 then 160 \<le> b \<and> b < 192
      else if a = 237 then 128 \<le> b \<and> b < 160
      else if a = 240 then 144 \<le> b \<and> b < 192
      else if a = 244 then 128 \<le> b \<and> b < 144
      else tail_byte b)"

text \<open>The first code point and its width, \<open>None\<close> when the text does not begin with a valid sequence.\<close>

fun next_rune :: "nat list \<Rightarrow> (nat \<times> nat) option" where
  "next_rune [] = None"
| "next_rune (a # r) =
     (if a < 128 then Some (a, 1)
      else if 194 \<le> a \<and> a < 224 then
        (case r of
           b # _ \<Rightarrow> if second_ok a b then Some ((a - 192) * 64 + (b - 128), 2) else None
         | _ \<Rightarrow> None)
      else if 224 \<le> a \<and> a < 240 then
        (case r of
           b # c # _ \<Rightarrow>
             if second_ok a b \<and> tail_byte c
             then Some ((a - 224) * 4096 + (b - 128) * 64 + (c - 128), 3) else None
         | _ \<Rightarrow> None)
      else if 240 \<le> a \<and> a < 245 then
        (case r of
           b # c # d # _ \<Rightarrow>
             if second_ok a b \<and> tail_byte c \<and> tail_byte d
             then Some ((a - 240) * 262144 + (b - 128) * 4096 + (c - 128) * 64 + (d - 128), 4) else None
         | _ \<Rightarrow> None)
      else None)"

definition rune_error :: nat where
  "rune_error = 65533"

text \<open>\<^verbatim>\<open>utf8.DecodeRune\<close> of a text that is not empty.\<close>

definition decode_rune :: "nat list \<Rightarrow> nat \<times> nat" where
  "decode_rune s = (case next_rune s of None \<Rightarrow> (rune_error, 1) | Some x \<Rightarrow> x)"

text \<open>\<^verbatim>\<open>utf8.EncodeRune\<close>: a surrogate or a number too big is written as the error rune.\<close>

definition encode_rune :: "nat \<Rightarrow> nat list" where
  "encode_rune c =
     (if c < 128 then [c]
      else if c < 2048 then [192 + c div 64, 128 + c mod 64]
      else if (55296 \<le> c \<and> c < 57344) \<or> 1114112 \<le> c then [239, 191, 189]
      else if c < 65536 then [224 + c div 4096, 128 + c div 64 mod 64, 128 + c mod 64]
      else [240 + c div 262144, 128 + c div 4096 mod 64, 128 + c div 64 mod 64, 128 + c mod 64])"

lemma next_rune_width: "next_rune s = Some (c, n) \<Longrightarrow> 0 < n \<and> n \<le> length s"
  by (cases s) (auto split: if_splits list.splits)

lemma next_rune_append: "next_rune s = Some x \<Longrightarrow> next_rune (s @ t) = Some x"
  by (cases s) (auto split: if_splits list.splits)

lemma next_rune_ascii [simp]: "a < 128 \<Longrightarrow> next_rune (a # r) = Some (a, 1)"
  by simp

lemma next_rune_take: "next_rune s = Some (c, n) \<Longrightarrow> next_rune (take n s) = Some (c, n)"
  by (cases s) (auto split: if_splits list.splits)

lemma next_rune_high:
  "next_rune s = Some (c, n) \<Longrightarrow> 128 \<le> hd s \<Longrightarrow> \<forall>b \<in> set (take n s). 128 \<le> b"
  by (cases s) (auto simp: tail_byte_def second_ok_def split: if_splits list.splits)

lemma next_rune_bytes: "next_rune s = Some (c, n) \<Longrightarrow> \<forall>b \<in> set (take n s). b < 256"
  by (cases s) (auto simp: tail_byte_def second_ok_def split: if_splits list.splits)

declare next_rune.simps(2) [simp del]

lemma decode_rune_width: "s \<noteq> [] \<Longrightarrow> decode_rune s = (c, n) \<Longrightarrow> 0 < n \<and> n \<le> length s"
  using next_rune_width [of s c n] by (cases s) (auto simp: decode_rune_def split: option.splits)

subsection \<open>Texts\<close>

text \<open>The code points of a text; \<open>None\<close> when it is not valid UTF-8.\<close>

function utf8_decode :: "nat list \<Rightarrow> nat list option" where
  "utf8_decode [] = Some []"
| "utf8_decode (a # r) =
     (case next_rune (a # r) of
        None \<Rightarrow> None
      | Some (c, n) \<Rightarrow> map_option ((#) c) (utf8_decode (drop (n - 1) r)))"
  by pat_completeness auto
termination
  by (relation "measure length") auto

lemma utf8_decode_step:
  "next_rune s = Some (c, n) \<Longrightarrow> utf8_decode s = map_option ((#) c) (utf8_decode (drop n s))"
  using next_rune_width [of s c n] by (cases s) (auto simp: drop_Cons')

lemma utf8_decode_ascii [simp]: "a < 128 \<Longrightarrow> utf8_decode (a # r) = map_option ((#) a) (utf8_decode r)"
  by simp

lemma utf8_decode_rune:
  "next_rune s = Some (c, n) \<Longrightarrow> utf8_decode (take n s @ t) = map_option ((#) c) (utf8_decode t)"
  using next_rune_append [OF next_rune_take, of s c n t] next_rune_width [of s c n]
  by (subst utf8_decode_step) auto

lemma append_Cons_eta: "(@) (c # z) = (\<lambda>x. c # (z @ x))"
  by (rule ext) simp

lemma utf8_decode_append:
  "utf8_decode xs = Some cs \<Longrightarrow> utf8_decode (xs @ ys) = map_option ((@) cs) (utf8_decode ys)"
proof (induction xs arbitrary: cs rule: utf8_decode.induct)
  case 1
  then show ?case by (simp add: option.map_ident)
next
  case (2 a r)
  then obtain c n ds where r: "next_rune (a # r) = Some (c, n)"
    and ds: "utf8_decode (drop (n - 1) r) = Some ds" "cs = c # ds"
    by (auto split: option.splits)
  have n: "0 < n" "n - 1 \<le> length r" using next_rune_width [OF r] by auto
  have "utf8_decode ((a # r) @ ys) = map_option ((#) c) (utf8_decode (drop (n - 1) r @ ys))"
    using next_rune_append [OF r, of ys] n by simp
  then show ?case
    using "2.IH" [OF r refl ds(1)] ds(2) by (simp add: option.map_comp comp_def append_Cons_eta)
qed

lemma utf8_decode_all_ascii: "\<forall>b \<in> set bs. b < 128 \<Longrightarrow> utf8_decode bs = Some bs"
  by (induction bs) auto

lemma utf8_decode_bytes: "utf8_decode s = Some cs \<Longrightarrow> \<forall>b \<in> set s. b < 256"
proof (induction s arbitrary: cs rule: utf8_decode.induct)
  case (2 a r)
  then obtain c n ds where r: "next_rune (a # r) = Some (c, n)" and ds: "utf8_decode (drop (n - 1) r) = Some ds"
    by (auto split: option.splits)
  have "0 < n" using next_rune_width [OF r] by simp
  then have "a # r = take n (a # r) @ drop (n - 1) r" by (cases n) simp_all
  then show ?case
    using next_rune_bytes [OF r] "2.IH" [OF r refl ds] by (metis Un_iff set_append)
qed simp

end
