(* ===== verification/GoJson.thy ===== *)
theory GoJson
  imports Utf8 Strconv "HOL-Library.List_Lexorder"
begin

text \<open>
  What the components use of \<^verbatim>\<open>encoding/json\<close>: the text of strings, numbers, objects and arrays as
  \<^verbatim>\<open>Marshal\<close> and \<^verbatim>\<open>Encoder\<close> write it, and the reading of one value as \<^verbatim>\<open>Unmarshal\<close> and
  \<^verbatim>\<open>Decoder\<close> do it.  A text is a list of byte values.  The reader is the push-down machine of the library's scanner:
  a stack of open objects and arrays, with the library's limit on its depth.
\<close>

subsection \<open>Texts\<close>

definition octets :: "string \<Rightarrow> nat list" where
  "octets s = map of_char s"

definition octet_chars :: "nat list \<Rightarrow> string" where
  "octet_chars bs = map char_of bs"

lemma octet_chars_octets [simp]: "octet_chars (octets s) = s"
  by (simp add: octets_def octet_chars_def comp_def)

lemma octets_append [simp]: "octets (s @ t) = octets s @ octets t"
  by (simp add: octets_def)

lemma octets_Cons: "octets (c # s) = of_char c # octets s"
  by (simp add: octets_def)

lemma octets_Nil [simp]: "octets [] = []"
  by (simp add: octets_def)

lemma octets_inj [simp]: "octets s = octets t \<longleftrightarrow> s = t"
  by (metis octet_chars_octets)

subsection \<open>Writing\<close>

definition hex_octet :: "nat \<Rightarrow> nat" where
  "hex_octet n = (if n < 10 then 48 + n else 87 + n)"

text \<open>The bytes \<^verbatim>\<open>htmlSafeSet\<close> lets through.\<close>

definition html_safe :: "nat \<Rightarrow> bool" where
  "html_safe b \<longleftrightarrow> 32 \<le> b \<and> b < 128 \<and> b \<notin> {34, 38, 60, 62, 92}"

definition escape_octet :: "nat \<Rightarrow> nat list" where
  "escape_octet b =
     (if html_safe b then [b]
      else if b = 92 \<or> b = 34 then [92, b]
      else if b = 8 then [92, 98]
      else if b = 12 then [92, 102]
      else if b = 10 then [92, 110]
      else if b = 13 then [92, 114]
      else if b = 9 then [92, 116]
      else [92, 117, 48, 48, hex_octet (b div 16), hex_octet (b mod 16)])"

text \<open>\<^verbatim>\<open>appendString\<close> with \<^verbatim>\<open>escapeHTML\<close>, which both entry points set, without the quotes.\<close>

function escape_text :: "nat list \<Rightarrow> nat list" where
  "escape_text [] = []"
| "escape_text (b # bs) =
     (if b < 128 then escape_octet b @ escape_text bs
      else
        (case next_rune (b # bs) of
           None \<Rightarrow> octets [CHR 0x5C] @ octets ''ufffd'' @ escape_text bs
         | Some (c, n) \<Rightarrow>
             (if c = 8232 \<or> c = 8233 then octets [CHR 0x5C] @ octets ''u202'' @ [hex_octet (c mod 16)]
              else take n (b # bs))
             @ escape_text (drop (n - 1) bs)))"
  by pat_completeness auto
termination
  by (relation "measure length") auto

definition write_string :: "string \<Rightarrow> nat list" where
  "write_string s = 34 # escape_text (octets s) @ [34]"

definition write_uint :: "nat \<Rightarrow> nat list" where
  "write_uint n = octets (format_nat n)"

definition write_int :: "int \<Rightarrow> nat list" where
  "write_int i = octets (format_int i)"

text \<open>An object of a struct: the fields in the order they are declared.  An array.\<close>

definition write_field :: "string \<times> nat list \<Rightarrow> nat list" where
  "write_field kv = write_string (fst kv) @ 58 # snd kv"

definition write_object :: "(string \<times> nat list) list \<Rightarrow> nat list" where
  "write_object kvs = 123 # intercalate [44] (map write_field kvs) @ [125]"

definition write_array :: "nat list list \<Rightarrow> nat list" where
  "write_array vs = 91 # intercalate [44] vs @ [93]"

text \<open>A map: the keys are sorted, as byte strings.\<close>

definition write_map :: "(string \<times> nat list) list \<Rightarrow> nat list" where
  "write_map kvs = write_object (sort_key (\<lambda>kv. octets (fst kv)) kvs)"

subsection \<open>Tokens\<close>

datatype json =
    JsonNull
  | JsonBool bool
  | JsonNumber "nat list"
  | JsonString "nat list"
  | JsonArray "json list"
  | JsonObject "(nat list \<times> json) list"

definition is_space :: "nat \<Rightarrow> bool" where
  "is_space c \<longleftrightarrow> c = 32 \<or> c = 9 \<or> c = 13 \<or> c = 10"

definition is_digit :: "nat \<Rightarrow> bool" where
  "is_digit c \<longleftrightarrow> 48 \<le> c \<and> c < 58"

definition is_hex :: "nat \<Rightarrow> bool" where
  "is_hex c \<longleftrightarrow> is_digit c \<or> (65 \<le> c \<and> c < 71) \<or> (97 \<le> c \<and> c < 103)"

definition hex_value :: "nat \<Rightarrow> nat" where
  "hex_value c = (if c < 58 then c - 48 else if c < 71 then c - 55 else c - 87)"

text \<open>A string up to its closing quote, still escaped, and what follows it.\<close>

fun scan_string :: "nat list \<Rightarrow> (nat list \<times> nat list) option" where
  "scan_string [] = None"
| "scan_string (c # r) =
     (if c = 34 then Some ([], r)
      else if c = 92 then
        (case r of
           [] \<Rightarrow> None
         | e # r1 \<Rightarrow>
             if e \<in> {98, 102, 110, 114, 116, 92, 47, 34} then
               map_option (\<lambda>(x, y). (c # e # x, y)) (scan_string r1)
             else if e = 117 then
               (case r1 of
                  h1 # h2 # h3 # h4 # r2 \<Rightarrow>
                    if is_hex h1 \<and> is_hex h2 \<and> is_hex h3 \<and> is_hex h4 then
                      map_option (\<lambda>(x, y). (c # e # h1 # h2 # h3 # h4 # x, y)) (scan_string r2)
                    else None
                | _ \<Rightarrow> None)
             else None)
      else if c < 32 then None
      else map_option (\<lambda>(x, y). (c # x, y)) (scan_string r))"

text \<open>\<^verbatim>\<open>getu4\<close> of a text that the scanner has accepted.\<close>

definition getu4 :: "nat list \<Rightarrow> (nat \<times> nat list) option" where
  "getu4 s =
     (case s of
        x # y # h1 # h2 # h3 # h4 # r \<Rightarrow>
          if x = 92 \<and> y = 117
          then Some (hex_value h1 * 4096 + hex_value h2 * 256 + hex_value h3 * 16 + hex_value h4, r)
          else None
      | _ \<Rightarrow> None)"

definition simple_escape :: "nat \<Rightarrow> nat" where
  "simple_escape e =
     (if e = 98 then 8 else if e = 102 then 12 else if e = 110 then 10 else if e = 114 then 13
      else if e = 116 then 9 else e)"

text \<open>
  \<^verbatim>\<open>unquote\<close>: escapes are replaced, a pair of surrogates by its code point, a lone one and every
  byte that is not UTF-8 by the error rune.
\<close>

function unquote :: "nat list \<Rightarrow> nat list" where
  "unquote [] = []"
| "unquote (c # r) =
     (if c = 92 then
        (case getu4 (c # r) of
           Some (u, r1) \<Rightarrow>
             if 55296 \<le> u \<and> u < 57344 then
               (case getu4 r1 of
                  Some (v, r2) \<Rightarrow>
                    if u < 56320 \<and> 56320 \<le> v \<and> v < 57344
                    then encode_rune ((u - 55296) * 1024 + (v - 56320) + 65536) @ unquote r2
                    else encode_rune rune_error @ unquote r1
                | None \<Rightarrow> encode_rune rune_error @ unquote r1)
             else encode_rune u @ unquote r1
         | None \<Rightarrow> (case r of [] \<Rightarrow> [] | e # r1 \<Rightarrow> simple_escape e # unquote r1))
      else
        (case decode_rune (c # r) of (rn, n) \<Rightarrow> encode_rune rn @ unquote (drop (n - 1) r)))"
  by pat_completeness auto
termination
proof (relation "measure length", goal_cases)
  case 1
  show ?case by simp
qed (auto simp: getu4_def split: list.splits if_splits)

text \<open>A number, as its text.\<close>

definition scan_digits :: "nat list \<Rightarrow> nat list \<times> nat list" where
  "scan_digits s = (takeWhile is_digit s, dropWhile is_digit s)"

definition scan_integer :: "nat list \<Rightarrow> (nat list \<times> nat list) option" where
  "scan_integer s =
     (case s of
        [] \<Rightarrow> None
      | c # r \<Rightarrow> if c = 48 then Some ([48], r) else if is_digit c then Some (scan_digits s) else None)"

definition scan_fraction :: "nat list \<Rightarrow> (nat list \<times> nat list) option" where
  "scan_fraction s =
     (case s of
        [] \<Rightarrow> Some ([], [])
      | c # r \<Rightarrow>
          if c = 46 then
            (let (ds, r1) = scan_digits r in if ds = [] then None else Some (46 # ds, r1))
          else Some ([], s))"

definition scan_exponent :: "nat list \<Rightarrow> (nat list \<times> nat list) option" where
  "scan_exponent s =
     (case s of
        [] \<Rightarrow> Some ([], [])
      | c # r \<Rightarrow>
          if c = 101 \<or> c = 69 then
            (let (sg, r1) = (case r of [] \<Rightarrow> ([], []) | d # r' \<Rightarrow> if d = 43 \<or> d = 45 then ([d], r') else ([], r));
                 (ds, r2) = scan_digits r1
             in if ds = [] then None else Some (c # sg @ ds, r2))
          else Some ([], s))"

definition scan_sign :: "nat list \<Rightarrow> nat list \<times> nat list" where
  "scan_sign s = (case s of [] \<Rightarrow> ([], []) | c # r \<Rightarrow> if c = 45 then ([45], r) else ([], s))"

definition scan_number :: "nat list \<Rightarrow> (nat list \<times> nat list) option" where
  "scan_number s =
     (let (sg, s0) = scan_sign s in
      case scan_integer s0 of None \<Rightarrow> None | Some (a, s1) \<Rightarrow>
      (case scan_fraction s1 of None \<Rightarrow> None | Some (b, s2) \<Rightarrow>
      (case scan_exponent s2 of None \<Rightarrow> None | Some (c, s3) \<Rightarrow> Some (sg @ a @ b @ c, s3))))"

datatype token = TObject | TEndObject | TArray | TEndArray | TColon | TComma | TScalar json

definition literal :: "string \<Rightarrow> json \<Rightarrow> nat list \<Rightarrow> (token \<times> nat list) option" where
  "literal w v s = (if prefix (octets w) s then Some (TScalar v, drop (length w) s) else None)"

definition next_token :: "nat list \<Rightarrow> (token \<times> nat list) option" where
  "next_token s =
     (case dropWhile is_space s of
        [] \<Rightarrow> None
      | c # r \<Rightarrow>
          if c = 123 then Some (TObject, r)
          else if c = 125 then Some (TEndObject, r)
          else if c = 91 then Some (TArray, r)
          else if c = 93 then Some (TEndArray, r)
          else if c = 58 then Some (TColon, r)
          else if c = 44 then Some (TComma, r)
          else if c = 34 then
            map_option (\<lambda>(x, y). (TScalar (JsonString (unquote x)), y)) (scan_string r)
          else if c = 45 \<or> is_digit c then
            map_option (\<lambda>(x, y). (TScalar (JsonNumber x), y)) (scan_number (c # r))
          else if c = 116 then literal ''true'' (JsonBool True) (c # r)
          else if c = 102 then literal ''false'' (JsonBool False) (c # r)
          else if c = 110 then literal ''null'' JsonNull (c # r)
          else None)"

subsection \<open>The machine\<close>

text \<open>
  An open array with its elements so far, an open object with its members and the key that waits
  for its value; \<open>expecting\<close> names the state of the scanner.
\<close>

datatype frame = InArray "json list" | InObject "(nat list \<times> json) list" "nat list"

datatype expecting =
    BeginValue
  | BeginValueOrEmpty
  | BeginStringOrEmpty
  | BeginString
  | AfterKey
  | EndValue

type_synonym machine = "frame list \<times> expecting"

datatype progress = Complete json | Going machine | Bad

definition maxNestingDepth :: nat where
  "maxNestingDepth = 10000"

text \<open>A value is complete: it is the result, or goes into the container it is in.\<close>

fun deliver :: "frame list \<Rightarrow> json \<Rightarrow> progress" where
  "deliver [] v = Complete v"
| "deliver (InArray vs # fs) v = Going (InArray (vs @ [v]) # fs, EndValue)"
| "deliver (InObject ms k # fs) v = Going (InObject (ms @ [(k, v)]) [] # fs, EndValue)"

definition open_frame :: "frame list \<Rightarrow> frame \<Rightarrow> expecting \<Rightarrow> progress" where
  "open_frame fs f e = (if length fs < maxNestingDepth then Going (f # fs, e) else Bad)"

definition begin_value :: "frame list \<Rightarrow> token \<Rightarrow> progress" where
  "begin_value fs t =
     (case t of
        TObject \<Rightarrow> open_frame fs (InObject [] []) BeginStringOrEmpty
      | TArray \<Rightarrow> open_frame fs (InArray []) BeginValueOrEmpty
      | TScalar v \<Rightarrow> deliver fs v
      | _ \<Rightarrow> Bad)"

definition begin_key :: "frame list \<Rightarrow> token \<Rightarrow> progress" where
  "begin_key fs t =
     (case (fs, t) of
        (InObject ms _ # gs, TScalar (JsonString k)) \<Rightarrow> Going (InObject ms k # gs, AfterKey)
      | _ \<Rightarrow> Bad)"

definition json_push :: "machine \<Rightarrow> token \<Rightarrow> progress" where
  "json_push m t =
     (case m of (fs, e) \<Rightarrow>
      (case e of
         BeginValue \<Rightarrow> begin_value fs t
       | BeginValueOrEmpty \<Rightarrow>
           (case (fs, t) of (InArray vs # gs, TEndArray) \<Rightarrow> deliver gs (JsonArray vs) | _ \<Rightarrow> begin_value fs t)
       | BeginStringOrEmpty \<Rightarrow>
           (case (fs, t) of (InObject ms k # gs, TEndObject) \<Rightarrow> deliver gs (JsonObject ms) | _ \<Rightarrow> begin_key fs t)
       | BeginString \<Rightarrow> begin_key fs t
       | AfterKey \<Rightarrow> (if t = TColon then Going (fs, BeginValue) else Bad)
       | EndValue \<Rightarrow>
           (case (fs, t) of
              (InArray vs # gs, TComma) \<Rightarrow> Going (fs, BeginValue)
            | (InArray vs # gs, TEndArray) \<Rightarrow> deliver gs (JsonArray vs)
            | (InObject ms k # gs, TComma) \<Rightarrow> Going (fs, BeginString)
            | (InObject ms k # gs, TEndObject) \<Rightarrow> deliver gs (JsonObject ms)
            | _ \<Rightarrow> Bad)))"

lemma scan_string_shorter: "scan_string s = Some (x, r) \<Longrightarrow> length r < length s"
  by (induction s arbitrary: x r rule: scan_string.induct) (fastforce split: if_splits list.splits)+

lemma scan_digits_shorter: "scan_digits s = (x, r) \<Longrightarrow> length r \<le> length s"
  by (auto simp: scan_digits_def length_dropWhile_le)

lemma scan_integer_shorter: "scan_integer s = Some (x, r) \<Longrightarrow> length r < length s"
  by (auto simp: scan_integer_def scan_digits_def le_imp_less_Suc length_dropWhile_le
      split: list.splits if_splits)

lemma scan_fraction_shorter: "scan_fraction s = Some (x, r) \<Longrightarrow> length r \<le> length s"
  by (auto simp: scan_fraction_def scan_digits_def Let_def le_SucI length_dropWhile_le
      split: list.splits if_splits)

lemma scan_exponent_shorter: "scan_exponent s = Some (x, r) \<Longrightarrow> length r \<le> length s"
  by (auto simp: scan_exponent_def scan_digits_def Let_def le_SucI length_dropWhile_le
      split: list.splits if_splits)

lemma scan_sign_shorter: "scan_sign s = (x, r) \<Longrightarrow> length r \<le> length s"
  by (auto simp: scan_sign_def split: list.splits if_splits)

lemma scan_number_shorter:
  assumes "scan_number s = Some (x, r)"
  shows "length r < length s"
proof -
  obtain sg s0 where s0: "scan_sign s = (sg, s0)" by fastforce
  then obtain a s1 b s2 c where "scan_integer s0 = Some (a, s1)"
    "scan_fraction s1 = Some (b, s2)" "scan_exponent s2 = Some (c, r)"
    using assms by (auto simp: scan_number_def split: option.splits)
  with s0 scan_sign_shorter scan_integer_shorter scan_fraction_shorter scan_exponent_shorter
  show ?thesis by (metis le_less_trans less_le_trans)
qed

lemma next_token_shorter:
  assumes "next_token s = Some (t, r)"
  shows "length r < length s"
proof -
  obtain c r0 where c: "dropWhile is_space s = c # r0"
    using assms by (auto simp: next_token_def split: list.splits)
  have "length (c # r0) \<le> length s" by (metis c length_dropWhile_le)
  moreover have "length r < length (c # r0)"
    using assms scan_string_shorter [of r0] scan_number_shorter [of "c # r0"]
    by (auto simp: next_token_def c literal_def split: if_splits)
  ultimately show ?thesis by simp
qed

function run_json :: "machine \<Rightarrow> nat list \<Rightarrow> (json \<times> nat list) option" where
  "run_json m s =
     (case next_token s of
        None \<Rightarrow> None
      | Some (t, r) \<Rightarrow>
          (case json_push m t of
             Bad \<Rightarrow> None
           | Complete v \<Rightarrow> Some (v, r)
           | Going m' \<Rightarrow> run_json m' r))"
  by pat_completeness auto
termination
  by (relation "measure (\<lambda>(m, s). length s)") (auto dest: next_token_shorter)

declare run_json.simps [simp del]

text \<open>
  \<^verbatim>\<open>Decoder.Decode\<close> reads one value and leaves what follows it; \<^verbatim>\<open>Unmarshal\<close> accepts only white space
  after it.
\<close>

definition decode_value :: "nat list \<Rightarrow> json option" where
  "decode_value s = map_option fst (run_json ([], BeginValue) s)"

definition unmarshal_value :: "nat list \<Rightarrow> json option" where
  "unmarshal_value s =
     (case run_json ([], BeginValue) s of
        Some (v, r) \<Rightarrow> if list_all is_space r then Some v else None
      | None \<Rightarrow> None)"

lemma unmarshal_decodes: "unmarshal_value s = Some v \<Longrightarrow> decode_value s = Some v"
  by (auto simp: unmarshal_value_def decode_value_def split: option.splits if_splits)

subsection \<open>Struct fields\<close>

text \<open>
  A value for a field: \<^verbatim>\<open>null\<close> leaves it as it is, a value of another kind is an error.
\<close>

definition set_uint64 :: "json \<Rightarrow> u64 \<Rightarrow> u64 option" where
  "set_uint64 v old =
     (case v of
        JsonNull \<Rightarrow> Some old
      | JsonNumber t \<Rightarrow> (case parse_uint (octet_chars t) of Inr n \<Rightarrow> Some (of_nat n) | Inl e \<Rightarrow> None)
      | _ \<Rightarrow> None)"

definition set_int64 :: "json \<Rightarrow> i64 \<Rightarrow> i64 option" where
  "set_int64 v old =
     (case v of
        JsonNull \<Rightarrow> Some old
      | JsonNumber t \<Rightarrow> (case ParseInt (octet_chars t) of Inr n \<Rightarrow> Some n | Inl e \<Rightarrow> None)
      | _ \<Rightarrow> None)"

definition set_string :: "json \<Rightarrow> string \<Rightarrow> string option" where
  "set_string v old =
     (case v of JsonNull \<Rightarrow> Some old | JsonString t \<Rightarrow> Some (octet_chars t) | _ \<Rightarrow> None)"

text \<open>
  \<^verbatim>\<open>foldName\<close>: keys match field names without regard to case.  The two letters outside ASCII that fold
  to ASCII ones are the long s and the Kelvin sign.
\<close>

fun fold_name :: "nat list \<Rightarrow> nat list" where
  "fold_name [] = []"
| "fold_name (c # r) =
     (if c = 197 \<and> prefix [191] r then 83 # fold_name (drop 1 r)
      else if c = 226 \<and> prefix [132, 170] r then 75 # fold_name (drop 2 r)
      else (if 97 \<le> c \<and> c < 123 then c - 32 else c) # fold_name r)"

definition field_named :: "nat list \<Rightarrow> string \<Rightarrow> bool" where
  "field_named k name \<longleftrightarrow> fold_name k = fold_name (octets name)"

end
