(* ===== verification/JsonText.thy ===== *)
theory JsonText
  imports GoJson
begin

text \<open>
  Reading back what was written: strings of valid UTF-8, numbers, and objects of them; and the
  shape of every text the writer makes, which is valid UTF-8 without a control character.
\<close>

subsection \<open>Strings\<close>

lemma hex_octet_back: "n < 16 \<Longrightarrow> is_hex (hex_octet n) \<and> hex_value (hex_octet n) = n"
  by (auto simp: hex_octet_def is_hex_def is_digit_def hex_value_def)

lemma scan_plain:
  "32 \<le> c \<Longrightarrow> c \<noteq> 34 \<Longrightarrow> c \<noteq> 92 \<Longrightarrow>
     scan_string (c # r) = map_option (\<lambda>(x, y). (c # x, y)) (scan_string r)"
  by simp

lemma scan_escape_octet:
  "b < 128 \<Longrightarrow> scan_string (escape_octet b @ s) = map_option (\<lambda>(x, y). (escape_octet b @ x, y)) (scan_string s)"
  using hex_octet_back [of "b div 16"] hex_octet_back [of "b mod 16"]
  by (auto simp: escape_octet_def html_safe_def is_hex_def is_digit_def)

lemma getu4_simps:
  "getu4 (92 # 117 # h1 # h2 # h3 # h4 # r) =
     Some (hex_value h1 * 4096 + hex_value h2 * 256 + hex_value h3 * 16 + hex_value h4, r)"
  "y \<noteq> 117 \<Longrightarrow> getu4 (x # y # r) = None"
  "getu4 [] = None" "getu4 [x] = None"
  by (simp_all add: getu4_def split: list.splits)

lemma unquote_simple: "e \<noteq> 117 \<Longrightarrow> unquote (92 # e # r) = simple_escape e # unquote r"
  by (simp add: getu4_simps)

lemma unquote_ascii: "c < 128 \<Longrightarrow> c \<noteq> 92 \<Longrightarrow> unquote (c # r) = c # unquote r"
  by (simp add: decode_rune_def encode_rune_def)

lemma unquote_code:
  "u < 55296 \<Longrightarrow>
     u = hex_value h1 * 4096 + hex_value h2 * 256 + hex_value h3 * 16 + hex_value h4 \<Longrightarrow>
     unquote (92 # 117 # h1 # h2 # h3 # h4 # r) = encode_rune u @ unquote r"
  by (simp add: getu4_simps)

declare unquote.simps(2) [simp del]

lemma hex_value_zero: "hex_value 48 = 0"
  by (simp add: hex_value_def)

lemma unquote_escape_octet: "b < 128 \<Longrightarrow> unquote (escape_octet b @ s) = b # unquote s"
proof -
  assume b: "b < 128"
  have "unquote ([92, 117, 48, 48, hex_octet (b div 16), hex_octet (b mod 16)] @ s) = b # unquote s"
    using b hex_octet_back [of "b div 16"] hex_octet_back [of "b mod 16"]
    by (simp add: unquote_code [of b] hex_value_zero encode_rune_def)
  then show ?thesis
    using b by (auto simp: escape_octet_def html_safe_def unquote_ascii unquote_simple simple_escape_def)
qed

lemma scan_high: "\<forall>b \<in> set xs. 128 \<le> b \<Longrightarrow>
    scan_string (xs @ s) = map_option (\<lambda>(x, y). (xs @ x, y)) (scan_string s)"
proof (induction xs)
  case Nil
  show ?case by (cases "scan_string s") auto
next
  case (Cons c xs)
  then show ?case
    by (cases "scan_string s") (auto simp: scan_plain)
qed

lemma six_bits:
  fixes x k :: nat
  assumes "k < 64"
  shows "(x * 64 + k) div 64 = x" "(x * 64 + k) mod 64 = k"
  using assms by simp_all

lemma div_six_bits:
  fixes u :: nat
  shows "u div 4096 = u div 64 div 64" "u div 262144 = u div 64 div 64 div 64"
  by (simp_all add: div_mult2_eq [symmetric])

lemma rune_two:
  assumes "194 \<le> a" "a < 224" "128 \<le> b" "b < 192"
  shows "encode_rune ((a - 192) * 64 + (b - 128)) = [a, b]"
proof -
  define i j where "i = a - 192" and "j = b - 128"
  have "a = 192 + i" "b = 128 + j" "2 \<le> i" "i < 32" "j < 64" using assms by (auto simp: i_def j_def)
  then show ?thesis by (simp add: encode_rune_def)
qed

lemma rune_three:
  assumes "224 \<le> a" "a < 240" "128 \<le> b" "b < 192" "128 \<le> c" "c < 192"
    and "a = 224 \<longrightarrow> 160 \<le> b" "a = 237 \<longrightarrow> b < 160"
  shows "encode_rune ((a - 224) * 4096 + (b - 128) * 64 + (c - 128)) = [a, b, c]"
proof -
  define i j k where "i = a - 224" and "j = b - 128" and "k = c - 128"
  have e: "a = 224 + i" "b = 128 + j" "c = 128 + k" and l: "i < 16" "j < 64" "k < 64"
    and x: "i = 0 \<longrightarrow> 32 \<le> j" "i = 13 \<longrightarrow> j < 32"
    using assms by (auto simp: i_def j_def k_def)
  let ?u = "i * 4096 + j * 64 + k"
  have d: "?u div 4096 = i" "?u div 64 mod 64 = j" "?u mod 64 = k"
    using l six_bits [of k "i * 64 + j"] six_bits [of j i] unfolding div_six_bits by (simp_all add: algebra_simps)
  have "2048 \<le> ?u" using l x by (cases "i = 0") auto
  moreover have "?u < 65536" using l by auto
  moreover have "\<not> (55296 \<le> ?u \<and> ?u < 57344)"
    using l x by (cases "i < 13"; cases "i = 13") auto
  ultimately have "2048 \<le> ?u" "?u < 65536" "\<not> (55296 \<le> ?u \<and> ?u < 57344)" by blast+
  then show ?thesis unfolding e by (simp add: encode_rune_def d)
qed

lemma rune_four:
  assumes "240 \<le> a" "a < 245" "128 \<le> b" "b < 192" "128 \<le> c" "c < 192" "128 \<le> d" "d < 192"
    and "a = 240 \<longrightarrow> 144 \<le> b" "a = 244 \<longrightarrow> b < 144"
  shows "encode_rune ((a - 240) * 262144 + (b - 128) * 4096 + (c - 128) * 64 + (d - 128)) = [a, b, c, d]"
proof -
  define i j k m where "i = a - 240" and "j = b - 128" and "k = c - 128" and "m = d - 128"
  have e: "a = 240 + i" "b = 128 + j" "c = 128 + k" "d = 128 + m" and l: "i < 5" "j < 64" "k < 64" "m < 64"
    and x: "i = 0 \<longrightarrow> 16 \<le> j" "i = 4 \<longrightarrow> j < 16"
    using assms by (auto simp: i_def j_def k_def m_def)
  let ?u = "i * 262144 + j * 4096 + k * 64 + m"
  have d: "?u div 262144 = i" "?u div 4096 mod 64 = j" "?u div 64 mod 64 = k" "?u mod 64 = m"
    using l six_bits [of m "(i * 64 + j) * 64 + k"] six_bits [of k "i * 64 + j"] six_bits [of j i]
    unfolding div_six_bits by (simp_all add: algebra_simps)
  have "65536 \<le> ?u"
    using l x by (cases "i = 0") auto
  moreover have "?u < 1114112"
    using l x by (cases "i = 4") auto
  ultimately have "65536 \<le> ?u" "?u < 1114112" by blast+
  then show ?thesis unfolding e by (simp add: encode_rune_def d)
qed

lemma encode_next_rune:
  assumes "next_rune s = Some (c, n)"
  shows "encode_rune c = take n s"
proof (cases s)
  case (Cons a r)
  note n = assms [unfolded Cons next_rune.simps(2)]
  consider "a < 128" | "194 \<le> a" "a < 224" | "224 \<le> a" "a < 240" | "240 \<le> a" "a < 245"
    using n by (auto split: if_splits)
  then show ?thesis
  proof cases
    case 1
    then show ?thesis using n Cons by (auto simp: encode_rune_def)
  next
    case 2
    then show ?thesis
      using n Cons rune_two [OF 2] by (auto simp: second_ok_def tail_byte_def split: if_splits list.splits)
  next
    case 3
    then show ?thesis
      using n Cons rune_three [OF 3] by (auto simp: second_ok_def tail_byte_def split: if_splits list.splits)
  next
    case 4
    then show ?thesis
      using n Cons rune_four [OF 4] by (auto simp: second_ok_def tail_byte_def split: if_splits list.splits)
  qed
qed (use assms in simp)

text \<open>The escapes of the writer, as byte values.\<close>

lemma bad_byte_escape: "octets [CHR 0x5C] @ octets ''ufffd'' = [92, 117, 102, 102, 102, 100]"
  by (simp add: octets_def)

lemma separator_escape: "octets [CHR 0x5C] @ octets ''u202'' @ [h] = [92, 117, 50, 48, 50, h]"
  by (simp add: octets_def)

lemma escape_text_cases:
  obtains (ascii) "b < 128" "escape_text (b # bs) = escape_octet b @ escape_text bs"
  | (bad) "128 \<le> b" "next_rune (b # bs) = None"
      "escape_text (b # bs) = [92, 117, 102, 102, 102, 100] @ escape_text bs"
  | (separator) c n where "128 \<le> b" "next_rune (b # bs) = Some (c, n)" "c = 8232 \<or> c = 8233"
      "escape_text (b # bs) = [92, 117, 50, 48, 50, hex_octet (c mod 16)] @ escape_text (drop (n - 1) bs)"
  | (rune) c n where "128 \<le> b" "next_rune (b # bs) = Some (c, n)"
      "escape_text (b # bs) = take n (b # bs) @ escape_text (drop (n - 1) bs)"
proof (cases "b < 128")
  case True
  then show ?thesis using that(1) by simp
next
  case b: False
  show ?thesis
  proof (cases "next_rune (b # bs)")
    case None
    then show ?thesis using that(2) b bad_byte_escape by simp
  next
    case (Some x)
    obtain c n where x: "x = (c, n)" by (cases x)
    show ?thesis
    proof (cases "c = 8232 \<or> c = 8233")
      case True
      then show ?thesis
        using that(3) [of c n] b Some x separator_escape [of "hex_octet (c mod 16)"] by auto
    next
      case False
      then show ?thesis using that(4) [of c n] b Some x by simp
    qed
  qed
qed

declare escape_text.simps(2) [simp del]

lemma scan_code:
  "is_hex h1 \<and> is_hex h2 \<and> is_hex h3 \<and> is_hex h4 \<Longrightarrow>
     scan_string (92 # 117 # h1 # h2 # h3 # h4 # s) =
       map_option (\<lambda>(x, y). (92 # 117 # h1 # h2 # h3 # h4 # x, y)) (scan_string s)"
  by simp

lemma high_rune: "128 \<le> b \<Longrightarrow> next_rune (b # bs) = Some (c, n) \<Longrightarrow> \<forall>x \<in> set (take n (b # bs)). 128 \<le> x"
  using next_rune_high [of "b # bs" c n] by simp

lemma separator_hex: "c = 8232 \<or> c = 8233 \<Longrightarrow> hex_octet (c mod 16) \<in> {56, 57}"
  by (auto simp: hex_octet_def)

lemma map_option_pair_comp:
  "map_option (\<lambda>(x, y). (f x, y)) (map_option (\<lambda>(x, y). (g x, y)) m) = map_option (\<lambda>(x, y). (f (g x), y)) m"
  by (cases m) auto

declare scan_string.simps(2) [simp del]

lemma scan_escape_text:
  "scan_string (escape_text bs @ s) = map_option (\<lambda>(x, y). (escape_text bs @ x, y)) (scan_string s)"
proof (induction bs rule: escape_text.induct)
  case 1
  show ?case by (cases "scan_string s") auto
next
  case (2 b bs)
  show ?case
  proof (cases b bs rule: escape_text_cases)
    case ascii
    then show ?thesis
      using "2.IH"(1) by (simp add: scan_escape_octet map_option_pair_comp)
  next
    case bad
    then show ?thesis
      using "2.IH"(2) by (simp add: scan_code is_hex_def is_digit_def map_option_pair_comp)
  next
    case (separator c n)
    then show ?thesis
      using "2.IH"(3) [of "(c, n)" c n] separator_hex [of c]
      by (auto simp: scan_code is_hex_def is_digit_def map_option_pair_comp)
  next
    case (rune c n)
    then show ?thesis
      using "2.IH"(3) [of "(c, n)" c n] scan_high [OF high_rune [OF rune(1,2)]]
      by (simp add: map_option_pair_comp)
  qed
qed

lemma unquote_rune:
  assumes "next_rune s = Some (c, n)" "128 \<le> hd s"
  shows "unquote (take n s @ t) = take n s @ unquote t"
proof -
  obtain b bs where s: "s = b # bs" using assms(1) by (cases s) auto
  have n: "0 < n" "n \<le> length s" using next_rune_width [OF assms(1)] by auto
  have r: "next_rune (take n s @ t) = Some (c, n)" by (rule next_rune_append [OF next_rune_take [OF assms(1)]])
  obtain m where m: "n = Suc m" using n by (cases n) auto
  then have h: "take n s @ t = b # take m bs @ t" by (simp add: s)
  have "unquote (b # take m bs @ t) = encode_rune c @ unquote (drop m (take m bs @ t))"
    using r assms(2) by (simp add: h decode_rune_def unquote.simps(2) m s)
  also have "drop m (take m bs @ t) = t" using n s m by simp
  finally show ?thesis using h encode_next_rune [OF assms(1)] by simp
qed

lemma unquote_escape_text:
  "utf8_decode bs \<noteq> None \<Longrightarrow> unquote (escape_text bs @ s) = bs @ unquote s"
proof (induction bs rule: escape_text.induct)
  case (2 b bs)
  show ?case
  proof (cases b bs rule: escape_text_cases)
    case ascii
    then show ?thesis using "2.IH"(1) "2.prems" by (simp add: unquote_escape_octet)
  next
    case bad
    then show ?thesis using "2.prems" by simp
  next
    case (separator c n)
    have IH: "unquote (escape_text (drop (n - 1) bs) @ s) = drop (n - 1) bs @ unquote s"
      using "2.IH"(3) [of "(c, n)" c n] "2.prems" separator by simp
    have w: "0 < n" using next_rune_width [OF separator(2)] by simp
    have "unquote ([92, 117, 50, 48, 50, hex_octet (c mod 16)] @ escape_text (drop (n - 1) bs) @ s)
        = encode_rune c @ drop (n - 1) bs @ unquote s"
      using separator(3) IH hex_octet_back [of "c mod 16"]
      by (auto simp: unquote_code [of c] hex_value_def [of 50] hex_value_def [of 48])
    moreover have "encode_rune c @ drop (n - 1) bs = b # bs"
      using encode_next_rune [OF separator(2)] w by (cases n) simp_all
    ultimately show ?thesis using separator(4) by (metis append.assoc)
  next
    case (rune c n)
    have IH: "unquote (escape_text (drop (n - 1) bs) @ s) = drop (n - 1) bs @ unquote s"
      using "2.IH"(3) [of "(c, n)" c n] "2.prems" rune by (auto split: if_splits)
    have w: "0 < n" using next_rune_width [OF rune(2)] by simp
    have "unquote (escape_text (b # bs) @ s) = take n (b # bs) @ drop (n - 1) bs @ unquote s"
      using unquote_rune [OF rune(2)] rune(1,3) IH by simp
    also have "\<dots> = (b # bs) @ unquote s" using w by (cases n) simp_all
    finally show ?thesis .
  qed
qed simp

subsection \<open>The shape of what is written\<close>

definition json_text :: "nat list \<Rightarrow> bool" where
  "json_text t \<longleftrightarrow> (\<exists>cs. utf8_decode t = Some cs) \<and> (\<forall>x \<in> set t. 32 \<le> x)"

lemma json_text_bytes: "json_text t \<Longrightarrow> \<forall>x \<in> set t. x < 256"
  using utf8_decode_bytes by (auto simp: json_text_def)

named_theorems json_texts

lemma json_text_Nil [json_texts]: "json_text []"
  by (simp add: json_text_def)

lemma json_text_append [json_texts]: "json_text s \<Longrightarrow> json_text t \<Longrightarrow> json_text (s @ t)"
  by (auto simp: json_text_def utf8_decode_append)

lemma json_text_ascii: "\<forall>x \<in> set t. 32 \<le> x \<and> x < 128 \<Longrightarrow> json_text t"
  using utf8_decode_all_ascii [of t] by (auto simp: json_text_def)

lemma json_text_Cons [json_texts]: "32 \<le> x \<Longrightarrow> x < 128 \<Longrightarrow> json_text t \<Longrightarrow> json_text (x # t)"
  by (auto simp: json_text_def)

lemma json_text_rune: "128 \<le> b \<Longrightarrow> next_rune (b # bs) = Some (c, n) \<Longrightarrow> json_text (take n (b # bs))"
  using utf8_decode_rune [of "b # bs" c n "[]"] high_rune [of b bs c n]
  by (fastforce simp: json_text_def)

lemma json_text_escape_octet: "b < 128 \<Longrightarrow> json_text (escape_octet b)"
  by (rule json_text_ascii) (auto simp: escape_octet_def html_safe_def hex_octet_def)

lemma json_text_escape [json_texts]: "json_text (escape_text bs)"
proof (induction bs rule: escape_text.induct)
  case 1
  show ?case by (simp add: json_texts)
next
  case (2 b bs)
  show ?case
  proof (cases b bs rule: escape_text_cases)
    case ascii
    then show ?thesis using "2.IH"(1) by (simp add: json_texts json_text_escape_octet)
  next
    case bad
    then show ?thesis using "2.IH"(2) by (simp add: json_texts)
  next
    case (separator c n)
    then show ?thesis using "2.IH"(3) [of "(c, n)" c n] separator_hex [of c] by (auto intro!: json_texts)
  next
    case (rune c n)
    then show ?thesis
      using "2.IH"(3) [of "(c, n)" c n] json_text_rune [OF rune(1,2)] by (simp add: json_texts)
  qed
qed

lemma json_text_string [json_texts]: "json_text (write_string s)"
  by (simp add: write_string_def json_texts)

lemma format_nat_digits: "\<forall>x \<in> set (octets (format_nat n)). is_digit x"
proof (induction n rule: format_nat.induct)
  case (1 n)
  have d: "is_digit (of_char (digit_char d))" if "d < 10" for d
  proof -
    have "d = 0 \<or> d = 1 \<or> d = 2 \<or> d = 3 \<or> d = 4 \<or> d = 5 \<or> d = 6 \<or> d = 7 \<or> d = 8 \<or> d = 9"
      using that by presburger
    then show ?thesis by (elim disjE) (simp_all add: digit_char_def digits_def is_digit_def)
  qed
  show ?case
    using 1 d [of n] d [of "n mod 10"] by (subst format_nat.simps) (auto simp: octets_Cons)
qed

lemma json_text_uint [json_texts]: "json_text (write_uint n)"
  using format_nat_digits [of n] by (intro json_text_ascii) (auto simp: write_uint_def is_digit_def)

lemma json_text_int [json_texts]: "json_text (write_int i)"
  using json_text_uint [of "nat i"] json_text_uint [of "nat (- i)"]
  by (auto simp: write_int_def format_int_def octets_Cons write_uint_def intro: json_texts)

lemma json_text_intercalate [json_texts]:
  "\<forall>t \<in> set ts. json_text t \<Longrightarrow> json_text (intercalate [44] ts)"
  by (induction "[44 :: nat]" ts rule: intercalate.induct) (auto intro!: json_texts)

lemma json_text_object [json_texts]:
  "\<forall>kv \<in> set kvs. json_text (snd kv) \<Longrightarrow> json_text (write_object kvs)"
  by (auto simp: write_object_def write_field_def intro!: json_texts)

lemma json_text_array [json_texts]: "\<forall>t \<in> set ts. json_text t \<Longrightarrow> json_text (write_array ts)"
  by (auto simp: write_array_def intro!: json_texts)

subsection \<open>Reading objects back\<close>

text \<open>What may follow a value inside a container or at the end.\<close>

definition delimited :: "nat list \<Rightarrow> bool" where
  "delimited r \<longleftrightarrow> r = [] \<or> hd r \<in> {44, 93, 125}"

definition reads :: "nat list \<Rightarrow> json \<Rightarrow> bool" where
  "reads t v \<longleftrightarrow> (\<forall>r. delimited r \<longrightarrow> next_token (t @ r) = Some (TScalar v, r))"

lemma token_string:
  assumes "utf8_decode (octets s) \<noteq> None"
  shows "next_token (write_string s @ r) = Some (TScalar (JsonString (octets s)), r)"
proof -
  have "scan_string (escape_text (octets s) @ 34 # r) = Some (escape_text (octets s), r)"
    by (simp add: scan_escape_text scan_string.simps(2))
  moreover have "unquote (escape_text (octets s)) = octets s"
    using unquote_escape_text [OF assms, of "[]"] by simp
  ultimately show ?thesis by (simp add: next_token_def write_string_def is_space_def)
qed

lemma reads_string: "utf8_decode (octets s) \<noteq> None \<Longrightarrow> reads (write_string s) (JsonString (octets s))"
  by (simp add: reads_def token_string)

lemma format_nat_no_zero: "0 < n \<Longrightarrow> hd (format_nat n) \<noteq> CHR ''0''"
proof (induction n rule: format_nat.induct)
  case (1 n)
  have d: "digit_char n \<noteq> CHR ''0''" if "0 < n" "n < 10"
  proof -
    have "n = 1 \<or> n = 2 \<or> n = 3 \<or> n = 4 \<or> n = 5 \<or> n = 6 \<or> n = 7 \<or> n = 8 \<or> n = 9"
      using that by presburger
    then show ?thesis by (elim disjE) (simp_all add: digit_char_def digits_def)
  qed
  show ?case
    using 1 d format_nat_nonempty [of "n div 10"] by (subst format_nat.simps) auto
qed

lemma scan_digits_all: "\<forall>x \<in> set ds. is_digit x \<Longrightarrow> delimited r \<Longrightarrow> scan_digits (ds @ r) = (ds, r)"
  by (cases r) (auto simp: scan_digits_def delimited_def is_digit_def takeWhile_eq_all_conv dropWhile_eq_self_iff)

lemma scan_number_tail:
  "delimited r \<Longrightarrow> scan_fraction r = Some ([], r) \<and> scan_exponent r = Some ([], r)"
  by (auto simp: scan_fraction_def scan_exponent_def delimited_def split: list.splits)

lemma scan_integer_format:
  assumes "delimited r"
  shows "scan_integer (octets (format_nat n) @ r) = Some (octets (format_nat n), r)"
proof (cases "n = 0")
  case True
  then show ?thesis
    by (simp add: format_nat.simps [of 0] digit_char_def digits_def octets_Cons scan_integer_def)
next
  case False
  obtain c cs where c: "format_nat n = c # cs" "c \<noteq> CHR ''0''"
    using False format_nat_no_zero [of n] format_nat_nonempty [of n] by (cases "format_nat n") auto
  have "of_char c \<noteq> (48 :: nat)"
    using c(2) of_char_eq_iff [of c "CHR ''0''", where ?'a = nat] by simp
  then show ?thesis
    using scan_digits_all [OF format_nat_digits assms, of n] format_nat_digits [of n] c(1)
    by (simp add: scan_integer_def octets_Cons)
qed

lemma first_digit:
  obtains c cs where "octets (format_nat n) = c # cs" "is_digit c"
  using format_nat_digits [of n] format_nat_nonempty [of n]
  by (cases "octets (format_nat n)") (auto simp: octets_def)

lemma token_number:
  assumes "scan_number (c # s) = Some (x, r)" "c = 45 \<or> is_digit c"
  shows "next_token (c # s) = Some (TScalar (JsonNumber x), r)"
proof -
  have "\<not> is_space c" "c \<notin> {123, 125, 91, 93, 58, 44, 34}"
    using assms(2) by (auto simp: is_space_def is_digit_def)
  with assms show ?thesis by (simp add: next_token_def)
qed

lemma reads_uint: "reads (write_uint n) (JsonNumber (write_uint n))"
  unfolding reads_def
proof (intro allI impI)
  fix r :: "nat list"
  assume r: "delimited r"
  obtain c cs where c: "octets (format_nat n) = c # cs" "is_digit c" by (rule first_digit)
  have "scan_sign (octets (format_nat n) @ r) = ([], octets (format_nat n) @ r)"
    using c by (auto simp: scan_sign_def is_digit_def)
  then have "scan_number (octets (format_nat n) @ r) = Some (octets (format_nat n), r)"
    using scan_integer_format [OF r] scan_number_tail [OF r] by (simp add: scan_number_def)
  with c show "next_token (write_uint n @ r) = Some (TScalar (JsonNumber (write_uint n)), r)"
    using token_number [of c "cs @ r"] by (simp add: write_uint_def)
qed

lemma reads_int: "reads (write_int i) (JsonNumber (write_int i))"
proof (cases "i < 0")
  case False
  then show ?thesis using reads_uint [of "nat i"] by (simp add: write_int_def write_uint_def format_int_def)
next
  case True
  show ?thesis
    unfolding reads_def
  proof (intro allI impI)
    fix r :: "nat list"
    assume r: "delimited r"
    have "scan_number (45 # octets (format_nat (nat (- i))) @ r) = Some (45 # octets (format_nat (nat (- i))), r)"
      using scan_integer_format [OF r] scan_number_tail [OF r] by (simp add: scan_number_def scan_sign_def)
    then show "next_token (write_int i @ r) = Some (TScalar (JsonNumber (write_int i)), r)"
      using True token_number [of 45] by (simp add: write_int_def format_int_def octets_Cons)
  qed
qed

text \<open>The machine, inside an object of scalars.\<close>

lemma next_token_punctuation:
  "next_token (123 # r) = Some (TObject, r)" "next_token (125 # r) = Some (TEndObject, r)"
  "next_token (58 # r) = Some (TColon, r)" "next_token (44 # r) = Some (TComma, r)"
  by (simp_all add: next_token_def is_space_def)

lemma run_json_step:
  "next_token s = Some (t, r) \<Longrightarrow>
     run_json m s = (case json_push m t of Bad \<Rightarrow> None | Complete v \<Rightarrow> Some (v, r) | Going m' \<Rightarrow> run_json m' r)"
  by (subst run_json.simps) simp

lemma run_field:
  assumes "utf8_decode (octets k) \<noteq> None" "reads t v" "delimited r" "e = BeginString \<or> e = BeginStringOrEmpty"
  shows "run_json ([InObject ms k0], e) (write_field (k, t) @ r)
       = run_json ([InObject (ms @ [(octets k, v)]) []], EndValue) r"
proof -
  have "next_token (t @ r) = Some (TScalar v, r)" using assms(2,3) by (simp add: reads_def)
  then show ?thesis
    using assms(4)
    by (auto simp: write_field_def run_json_step [OF token_string [OF assms(1)]] run_json_step
        next_token_punctuation json_push_def begin_key_def begin_value_def split: token.splits)
qed

lemma run_fields:
  assumes "kvs \<noteq> []" "\<forall>(k, t, v) \<in> set kvs. utf8_decode (octets k) \<noteq> None \<and> reads t v"
    and "e = BeginString \<or> e = BeginStringOrEmpty"
  shows "run_json ([InObject ms k0], e)
           (intercalate [44] (map (\<lambda>(k, t, v). write_field (k, t)) kvs) @ 125 # r)
         = Some (JsonObject (ms @ map (\<lambda>(k, t, v). (octets k, v)) kvs), r)"
  using assms
proof (induction kvs arbitrary: ms k0 e)
  case (Cons x kvs)
  obtain k t v where x: "x = (k, t, v)" by (cases x)
  have k: "utf8_decode (octets k) \<noteq> None" "reads t v" using Cons.prems(2) x by auto
  show ?case
  proof (cases "kvs = []")
    case True
    then show ?thesis
      using run_field [OF k _ Cons.prems(3), of "125 # r" ms k0]
      by (simp add: x delimited_def run_json_step next_token_punctuation json_push_def)
  next
    case False
    let ?rest = "intercalate [44] (map (\<lambda>(k, t, v). write_field (k, t)) kvs) @ 125 # r"
    have "run_json ([InObject ms k0], e) (write_field (k, t) @ 44 # ?rest)
        = run_json ([InObject (ms @ [(octets k, v)]) []], EndValue) (44 # ?rest)"
      by (rule run_field [OF k _ Cons.prems(3)]) (simp add: delimited_def)
    also have "\<dots> = run_json ([InObject (ms @ [(octets k, v)]) []], BeginString) ?rest"
      by (simp add: run_json_step next_token_punctuation json_push_def)
    also have "\<dots> = Some (JsonObject ((ms @ [(octets k, v)]) @ map (\<lambda>(k, t, v). (octets k, v)) kvs), r)"
      by (rule Cons.IH [OF False]) (use Cons.prems(2) in auto)
    finally show ?thesis using False by (simp add: x intercalate_Cons)
  qed
qed simp

theorem object_reads_back:
  assumes "kvs \<noteq> []" "\<forall>(k, t, v) \<in> set kvs. utf8_decode (octets k) \<noteq> None \<and> reads t v"
  shows "run_json ([], BeginValue) (write_object (map (\<lambda>(k, t, v). (k, t)) kvs) @ r)
       = Some (JsonObject (map (\<lambda>(k, t, v). (octets k, v)) kvs), r)"
proof -
  have "run_json ([], BeginValue) (write_object (map (\<lambda>(k, t, v). (k, t)) kvs) @ r)
      = run_json ([InObject [] []], BeginStringOrEmpty)
          (intercalate [44] (map (\<lambda>(k, t, v). write_field (k, t)) kvs) @ 125 # r)"
    by (simp add: write_object_def run_json_step next_token_punctuation json_push_def begin_value_def
        open_frame_def maxNestingDepth_def comp_def case_prod_unfold)
  then show ?thesis using run_fields [OF assms, of BeginStringOrEmpty "[]" "[]" r] by simp
qed

end
