(* ===== verification/OrderJson.thy ===== *)
theory OrderJson
  imports JsonText GatewayServer Coordinator Pipeline
begin

text \<open>
  The JSON of the order path, byte by byte: what \<^verbatim>\<open>Dispatcher.post\<close> puts in a request
  (\<^verbatim>\<open>coordinator/dispatcher.go\<close>), what \<^verbatim>\<open>HandleOrder\<close> and the WebSocket handler read from one
  (\<^verbatim>\<open>gateway/server.go\<close>, \<^verbatim>\<open>transport/ws.go\<close>), and what they answer.  The decoding that \<open>GatewayServer\<close>
  leaves open is filled in here; the text of a decoding error is still a parameter.
\<close>

subsection \<open>Requests\<close>

definition octet_bytes :: "nat list \<Rightarrow> bytes" where
  "octet_bytes t = map of_nat t"

definition byte_octets :: "bytes \<Rightarrow> nat list" where
  "byte_octets bs = map unat bs"

definition marshal_any :: "json_value \<Rightarrow> nat list" where
  "marshal_any v = (case v of JNum i \<Rightarrow> write_int i | JStr s \<Rightarrow> write_string s)"

definition post_text :: "Event \<Rightarrow> nat list" where
  "post_text e = write_map (map (\<lambda>(k, v). (k, marshal_any v)) (post_body e))"

text \<open>
  The request of a post.  \<open>new_request\<close> is \<^verbatim>\<open>http.NewRequestWithContext\<close>, which fails on an address it
  cannot parse, \<open>send\<close> is \<^verbatim>\<open>Client.Do\<close>; the answer of the gateway is read and thrown away, whatever its
  status is.
\<close>

record http_request =
  rq_Method :: string
  rq_URL :: string
  rq_ContentType :: string
  rq_Body :: bytes

definition post_request :: "string \<Rightarrow> Event \<Rightarrow> http_request" where
  "post_request GatewayURL e =
     \<lparr>rq_Method = ''POST'', rq_URL = GatewayURL @ ''/v1/order'', rq_ContentType = ''application/json'',
      rq_Body = octet_bytes (post_text e)\<rparr>"

definition Dispatcher_post :: "(string \<Rightarrow> go_error option) \<Rightarrow> (http_request \<Rightarrow> go_error option) \<Rightarrow> string
    \<Rightarrow> Event \<Rightarrow> go_error option \<times> http_request list" where
  "Dispatcher_post new_request send GatewayURL e =
     (let req = post_request GatewayURL e in
      case new_request (rq_URL req) of
        Some err \<Rightarrow> (Some err, [])
      | None \<Rightarrow> (case send req of Some err \<Rightarrow> (Some err, [req]) | None \<Rightarrow> (None, [req])))"

subsection \<open>Reading a \<^verbatim>\<open>RESTOrder\<close>\<close>

definition zero_order :: RESTOrder where
  "zero_order =
     \<lparr>ro_BotID = 0, ro_LocalSeq = 0, ro_Side = [], ro_Qty = 0, ro_Price = 0, ro_OrderType = [], ro_TIF = []\<rparr>"

text \<open>One member of the object, put into the field its key names; other keys are skipped.\<close>

definition order_member :: "nat list \<Rightarrow> json \<Rightarrow> RESTOrder \<Rightarrow> RESTOrder option" where
  "order_member k v ro =
     (if field_named k ''bot_id'' then map_option (\<lambda>x. ro\<lparr>ro_BotID := x\<rparr>) (set_uint64 v (ro_BotID ro))
      else if field_named k ''local_seq'' then map_option (\<lambda>x. ro\<lparr>ro_LocalSeq := x\<rparr>) (set_uint64 v (ro_LocalSeq ro))
      else if field_named k ''side'' then map_option (\<lambda>x. ro\<lparr>ro_Side := x\<rparr>) (set_string v (ro_Side ro))
      else if field_named k ''qty'' then map_option (\<lambda>x. ro\<lparr>ro_Qty := x\<rparr>) (set_uint64 v (ro_Qty ro))
      else if field_named k ''price'' then map_option (\<lambda>x. ro\<lparr>ro_Price := x\<rparr>) (set_int64 v (ro_Price ro))
      else if field_named k ''order_type'' then map_option (\<lambda>x. ro\<lparr>ro_OrderType := x\<rparr>) (set_string v (ro_OrderType ro))
      else if field_named k ''tif'' then map_option (\<lambda>x. ro\<lparr>ro_TIF := x\<rparr>) (set_string v (ro_TIF ro))
      else Some ro)"

fun order_members :: "(nat list \<times> json) list \<Rightarrow> RESTOrder \<Rightarrow> RESTOrder option" where
  "order_members [] ro = Some ro"
| "order_members ((k, v) # ms) ro =
     (case order_member k v ro of None \<Rightarrow> None | Some ro' \<Rightarrow> order_members ms ro')"

text \<open>An object sets the fields it names, \<^verbatim>\<open>null\<close> none; every other value is an error.\<close>

definition order_of_json :: "json \<Rightarrow> RESTOrder option" where
  "order_of_json v =
     (case v of JsonNull \<Rightarrow> Some zero_order | JsonObject ms \<Rightarrow> order_members ms zero_order | _ \<Rightarrow> None)"

text \<open>
  The two entry points.  A wrong field is an error whatever the other fields are, as the library reports the first one it met
  after it has gone through all.
\<close>

definition order_result :: "(bytes \<Rightarrow> string) \<Rightarrow> bytes \<Rightarrow> json option \<Rightarrow> RESTOrder result" where
  "order_result msg body v =
     (case v of
        None \<Rightarrow> Inl (GoError (msg body))
      | Some j \<Rightarrow> (case order_of_json j of None \<Rightarrow> Inl (GoError (msg body)) | Some ro \<Rightarrow> Inr ro))"

definition rest_decode :: "(bytes \<Rightarrow> string) \<Rightarrow> bytes \<Rightarrow> RESTOrder result" where
  "rest_decode msg body = order_result msg body (decode_value (byte_octets body))"

definition ws_unmarshal :: "(bytes \<Rightarrow> string) \<Rightarrow> bytes \<Rightarrow> RESTOrder result" where
  "ws_unmarshal msg body = order_result msg body (unmarshal_value (byte_octets body))"

subsection \<open>Answers\<close>

text \<open>A field with \<^verbatim>\<open>omitempty\<close> is left out when it is empty.\<close>

definition optional_field :: "bool \<Rightarrow> string \<Rightarrow> nat list \<Rightarrow> (string \<times> nat list) list" where
  "optional_field is_empty name t = (if is_empty then [] else [(name, t)])"

definition fill_text :: "RESTFill \<Rightarrow> nat list" where
  "fill_text f =
     write_object
       [(''trade_id'', write_uint (unat (rf_TradeID f))),
        (''platform_seq_maker'', write_uint (unat (rf_PlatformSeqMaker f))),
        (''price'', write_int (sint (rf_Price f))),
        (''qty'', write_uint (unat (rf_Qty f))),
        (''ts_ns'', write_uint (unat (rf_TsNs f)))]"

definition null_text :: "nat list" where
  "null_text = octets ''null''"

definition reply_text :: "RESTReply option \<Rightarrow> nat list" where
  "reply_text rep =
     (case rep of
        None \<Rightarrow> null_text
      | Some r \<Rightarrow>
          write_object
            ([(''platform_seq'', write_uint (unat (rr_PlatformSeq r))),
              (''ack_ts_ns'', write_uint (unat (rr_AckTsNs r))),
              (''status'', write_uint (unat (rr_Status r)))]
             @ optional_field (rr_Message r = []) ''message'' (write_string (rr_Message r))
             @ optional_field (rr_Fills r = []) ''fills'' (write_array (map fill_text (rr_Fills r)))))"

text \<open>The body of an HTTP answer; \<^verbatim>\<open>http.Error\<close> and \<^verbatim>\<open>Encoder\<close> end it with a newline.\<close>

definition http_body :: "http_response \<Rightarrow> nat list" where
  "http_body resp =
     (case resp of HttpError st e \<Rightarrow> octets e @ [10] | HttpJSON rep \<Rightarrow> reply_text rep @ [10])"

definition ws_frame :: "ws_reply \<Rightarrow> nat list" where
  "ws_frame resp =
     (case resp of
        WsJSON rep \<Rightarrow> reply_text rep
      | WsErrorJSON e \<Rightarrow> write_map [(''error'', write_string e)])"

subsection \<open>Posted orders arrive\<close>

lemma byte_octets_back: "\<forall>x \<in> set t. x < 256 \<Longrightarrow> byte_octets (octet_bytes t) = t"
  by (induction t) (auto simp: byte_octets_def octet_bytes_def unat_of_nat)

lemma write_int_uint: "write_int (uint (x :: u64)) = write_uint (unat x)"
  by (simp add: write_int_def write_uint_def format_int_def)

lemma set_uint64_written: "set_uint64 (JsonNumber (write_uint (unat x))) old = Some x"
proof -
  have "unat x < 2 ^ 64" using unsigned_less [of x, where ?'a = nat] by simp
  then show ?thesis by (simp add: set_uint64_def write_uint_def parse_uint_format)
qed

lemma set_int64_written: "set_int64 (JsonNumber (write_int (sint x))) old = Some x"
  by (simp add: set_int64_def write_int_def ParseInt_format_i64)

lemma set_string_written: "set_string (JsonString (octets s)) old = Some s"
  by (simp add: set_string_def)

lemma post_text_sorted:
  "post_text e =
     write_object
       [(''bot_id'', write_uint (unat (e_BotID e))),
        (''local_seq'', write_uint (unat (e_OffsetNs e))),
        (''order_type'', write_string (os_OrderType (e_Order e))),
        (''price'', write_int (sint (os_Price (e_Order e)))),
        (''qty'', write_uint (unat (os_Qty (e_Order e)))),
        (''side'', write_string (os_Side (e_Order e))),
        (''tif'', write_string (os_TIF (e_Order e)))]"
  by (simp add: post_text_def write_map_def post_body_def marshal_any_def write_int_uint octets_Cons)

text \<open>Texts the scanner and the encoder agree on: those that are valid UTF-8.\<close>

definition valid_text :: "string \<Rightarrow> bool" where
  "valid_text s \<longleftrightarrow> utf8_decode (octets s) \<noteq> None"

definition valid_event :: "Event \<Rightarrow> bool" where
  "valid_event e \<longleftrightarrow>
     valid_text (os_Side (e_Order e)) \<and> valid_text (os_OrderType (e_Order e)) \<and> valid_text (os_TIF (e_Order e))"

lemma order_keys_valid:
  "\<forall>k \<in> {''bot_id'', ''local_seq'', ''order_type'', ''price'', ''qty'', ''side'', ''tif''}. utf8_decode (octets k) \<noteq> None"
  by (simp add: octets_Cons)

lemma post_text_reads:
  assumes "valid_event e"
  shows "run_json ([], BeginValue) (post_text e @ r) =
    Some (JsonObject
      [(octets ''bot_id'', JsonNumber (write_uint (unat (e_BotID e)))),
       (octets ''local_seq'', JsonNumber (write_uint (unat (e_OffsetNs e)))),
       (octets ''order_type'', JsonString (octets (os_OrderType (e_Order e)))),
       (octets ''price'', JsonNumber (write_int (sint (os_Price (e_Order e))))),
       (octets ''qty'', JsonNumber (write_uint (unat (os_Qty (e_Order e))))),
       (octets ''side'', JsonString (octets (os_Side (e_Order e)))),
       (octets ''tif'', JsonString (octets (os_TIF (e_Order e))))], r)"
proof -
  let ?o = "e_Order e"
  let ?kvs = "[(''bot_id'', write_uint (unat (e_BotID e)), JsonNumber (write_uint (unat (e_BotID e)))),
       (''local_seq'', write_uint (unat (e_OffsetNs e)), JsonNumber (write_uint (unat (e_OffsetNs e)))),
       (''order_type'', write_string (os_OrderType ?o), JsonString (octets (os_OrderType ?o))),
       (''price'', write_int (sint (os_Price ?o)), JsonNumber (write_int (sint (os_Price ?o)))),
       (''qty'', write_uint (unat (os_Qty ?o)), JsonNumber (write_uint (unat (os_Qty ?o)))),
       (''side'', write_string (os_Side ?o), JsonString (octets (os_Side ?o))),
       (''tif'', write_string (os_TIF ?o), JsonString (octets (os_TIF ?o)))]"
  have "\<forall>(k, t, v) \<in> set ?kvs. utf8_decode (octets k) \<noteq> None \<and> reads t v"
    using assms order_keys_valid
    by (simp only: list.set ball_simps prod.case insert_iff valid_event_def valid_text_def)
      (simp add: reads_uint reads_int reads_string)
  from object_reads_back [OF _ this, of r] show ?thesis
    by (simp only: post_text_sorted list.map prod.case) simp
qed

lemma order_keys_named:
  "field_named (octets ''bot_id'') k \<longleftrightarrow> fold_name (octets k) = octets ''BOT_ID''"
  "field_named (octets ''local_seq'') k \<longleftrightarrow> fold_name (octets k) = octets ''LOCAL_SEQ''"
  "field_named (octets ''order_type'') k \<longleftrightarrow> fold_name (octets k) = octets ''ORDER_TYPE''"
  "field_named (octets ''price'') k \<longleftrightarrow> fold_name (octets k) = octets ''PRICE''"
  "field_named (octets ''qty'') k \<longleftrightarrow> fold_name (octets k) = octets ''QTY''"
  "field_named (octets ''side'') k \<longleftrightarrow> fold_name (octets k) = octets ''SIDE''"
  "field_named (octets ''tif'') k \<longleftrightarrow> fold_name (octets k) = octets ''TIF''"
  by (auto simp: field_named_def octets_Cons)

lemma order_keys_folded:
  "fold_name (octets ''bot_id'') = octets ''BOT_ID''" "fold_name (octets ''local_seq'') = octets ''LOCAL_SEQ''"
  "fold_name (octets ''order_type'') = octets ''ORDER_TYPE''" "fold_name (octets ''price'') = octets ''PRICE''"
  "fold_name (octets ''qty'') = octets ''QTY''" "fold_name (octets ''side'') = octets ''SIDE''"
  "fold_name (octets ''tif'') = octets ''TIF''"
  by (simp_all add: octets_Cons)

definition event_order :: "Event \<Rightarrow> RESTOrder" where
  "event_order e =
     \<lparr>ro_BotID = e_BotID e, ro_LocalSeq = e_OffsetNs e, ro_Side = os_Side (e_Order e), ro_Qty = os_Qty (e_Order e),
      ro_Price = os_Price (e_Order e), ro_OrderType = os_OrderType (e_Order e), ro_TIF = os_TIF (e_Order e)\<rparr>"

lemma order_of_post:
  assumes "valid_event e"
  shows "map_option (\<lambda>(v, r). (order_of_json v, r)) (run_json ([], BeginValue) (post_text e @ r))
       = Some (Some (event_order e), r)"
  by (simp add: post_text_reads [OF assms] order_of_json_def order_member_def order_keys_named
      order_keys_folded set_uint64_written set_int64_written set_string_written zero_order_def event_order_def)

lemma json_text_post: "json_text (post_text e)"
  unfolding post_text_sorted by (intro json_text_object) (auto intro: json_texts)

lemma post_text_decodes:
  assumes "valid_event e"
  shows "rest_decode msg (octet_bytes (post_text e)) = Inr (event_order e)"
    and "ws_unmarshal msg (octet_bytes (post_text e)) = Inr (event_order e)"
  using order_of_post [OF assms, of "[]"] byte_octets_back [OF json_text_bytes [OF json_text_post]]
  by (auto simp: rest_decode_def ws_unmarshal_def order_result_def decode_value_def unmarshal_value_def)

text \<open>Every event of a compiled schedule has such texts.\<close>

lemma compiled_events_valid:
  assumes "Compile draws yaml seed dur = Some es" "e \<in> set es"
  shows "valid_event e"
proof -
  obtain j where "j < length es" "e = es ! j" using assms(2) by (metis in_set_conv_nth)
  then have "slot_event j e" using Compile_events [OF assms(1)] by simp
  then have "os_Side (e_Order e) \<in> {''bid'', ''ask''}" "os_OrderType (e_Order e) = ''limit''" "os_TIF (e_Order e) = ''gtc''"
    by (auto simp: slot_event_def sides_def)
  then show ?thesis by (auto simp: valid_event_def valid_text_def octets_Cons)
qed

text \<open>
  C16 (posted_orders_arrive): for an event of its schedule the coordinator makes one request, a POST whose
  body the gateway decodes, over either transport, into the order of that event; \<^verbatim>\<open>HandleOrder\<close>
  answers the request as \<^verbatim>\<open>Handle\<close> answers that order.
\<close>

theorem posted_orders_arrive:
  assumes "Compile draws yaml seed dur = Some es" "e \<in> set es"
    and "new_request (url @ ''/v1/order'') = None"
  shows "\<exists>req. snd (Dispatcher_post new_request send url e) = [req] \<and> rq_URL req = url @ ''/v1/order''
       \<and> HandleOrder (rest_decode msg) sec ev (rq_Method req) (rq_Body req) g =
           (case Handle sec ev (event_order e) g of
              ((rep, st, Some err), g') \<Rightarrow> (HttpError st (error_text err), g')
            | ((rep, st, None), g') \<Rightarrow> (HttpJSON rep, g'))
       \<and> ws_unmarshal msg (rq_Body req) = Inr (event_order e)"
  using post_text_decodes [OF compiled_events_valid [OF assms(1,2)], of msg] assms(3)
  by (intro exI [of _ "post_request url e"])
    (simp add: Dispatcher_post_def post_request_def HandleOrder_def Let_def split: option.splits)

theorem posted_orders_arrive_witness:
  "\<exists>e. e_OffsetNs e = 0 \<and> ws_unmarshal (\<lambda>_. ''bad'') (octet_bytes (post_text e)) = Inr (event_order e)"
proof -
  obtain es where es: "Compile sample_draws ''any'' 7 1 = Some es"
    using compile_loop_ends [OF sample_accepts] unfolding Compile_def by blast
  note evs = Compile_events [OF es]
  have n: "0 < length es" using evs(1) sample_slots by simp
  have "slot_event 0 (es ! 0)" using evs(2) [of 0] sample_slots by simp
  then have "e_OffsetNs (es ! 0) = 0" by (simp add: slot_event_def)
  moreover have "ws_unmarshal (\<lambda>_. ''bad'') (octet_bytes (post_text (es ! 0))) = Inr (event_order (es ! 0))"
    using posted_orders_arrive [OF es nth_mem [OF n], of "\<lambda>_. None" "''http://g''" "\<lambda>_. None" "\<lambda>_. ''bad''"]
    by (auto simp: Dispatcher_post_def post_request_def Let_def)
  ultimately show ?thesis by blast
qed

subsection \<open>The two transports\<close>

text \<open>
  Whatever the WebSocket handler reads as an order, REST reads as the same order.  REST also takes a
  body with something after the order, which the WebSocket handler answers with an error.
\<close>

theorem ws_orders_are_rest_orders:
  "ws_unmarshal msg body = Inr ro \<Longrightarrow> rest_decode msg body = Inr ro"
  by (auto simp: ws_unmarshal_def rest_decode_def order_result_def dest: unmarshal_decodes
      split: option.splits)

lemma next_token_closed: "next_token (125 # r) = Some (TEndObject, r)"
  by (rule next_token_punctuation)

lemma empty_object_reads: "run_json ([], BeginValue) (123 # 125 # r) = Some (JsonObject [], r)"
  by (simp add: run_json_step next_token_punctuation json_push_def begin_value_def open_frame_def
      maxNestingDepth_def)

lemma null_reads: "run_json ([], BeginValue) (octets ''null'' @ r) = Some (JsonNull, r)"
proof -
  have "next_token (octets ''null'' @ r) = Some (TScalar JsonNull, r)"
    by (simp add: next_token_def is_space_def is_digit_def literal_def octets_Cons)
  then show ?thesis by (simp add: run_json_step json_push_def begin_value_def)
qed

theorem rest_ignores_what_follows:
  "rest_decode msg (octet_bytes (octets ''{}x'')) = Inr zero_order"
  "ws_unmarshal msg (octet_bytes (octets ''{}x'')) = Inl (GoError (msg (octet_bytes (octets ''{}x''))))"
  using empty_object_reads [of "[120]"] byte_octets_back [of "octets ''{}x''"]
  by (simp_all add: rest_decode_def ws_unmarshal_def order_result_def decode_value_def unmarshal_value_def
      order_of_json_def octets_Cons is_space_def)

text \<open>
  \<^verbatim>\<open>null\<close> and an empty object are orders: no field is required, and what is forwarded is a limit bid of quantity \<open>0\<close> at
  price \<open>0\<close>, under a sequence number of its own.
\<close>

theorem null_is_an_order:
  "rest_decode msg (octet_bytes (octets ''null'')) = Inr zero_order"
  "no_Side (normalise sec zero_order stamp) = SIDE_BID \<and> no_Qty (normalise sec zero_order stamp) = 0
     \<and> no_Tif (normalise sec zero_order stamp) = TIME_IN_FORCE_GTC \<and> no_PlatformSeq (normalise sec zero_order stamp) = fst stamp"
  using null_reads [of "[]"] byte_octets_back [of "octets ''null''"]
  by (simp_all add: rest_decode_def order_result_def decode_value_def order_of_json_def octets_Cons
      zero_order_def normalise_def sideFromString_def tifFromString_def Let_def)

text \<open>Keys match without regard to case.\<close>

lemma key_case_is_ignored:
  "rest_decode msg (octet_bytes ([123, 34] @ octets ''QTY'' @ [34, 58, 51, 125])) = Inr (zero_order\<lparr>ro_Qty := 3\<rparr>)"
proof -
  have "char_of (51 :: nat) = CHR ''3''" by (simp add: char_of_eq_iff)
  moreover have "run_json ([], BeginValue) (123 # 34 # octets ''QTY'' @ [34, 58, 51, 125])
      = Some (JsonObject [(octets ''QTY'', JsonNumber [51])], [])"
    by (simp add: run_json_step next_token_punctuation json_push_def begin_value_def open_frame_def
        maxNestingDepth_def begin_key_def octets_Cons next_token_def [of "34 # _"] next_token_def [of "51 # _"]
        is_space_def scan_string.simps unquote_ascii is_digit_def scan_number_def scan_sign_def
        scan_integer_def scan_fraction_def scan_exponent_def scan_digits_def)
  ultimately show ?thesis
    by (simp add: rest_decode_def byte_octets_back octets_Cons order_result_def decode_value_def
        order_of_json_def order_member_def field_named_def set_uint64_def parse_uint_def octet_chars_def
        digit_value_def digits_def)
qed

text \<open>The abstract reading of \<open>Pipeline\<close> is what the bytes are read as.\<close>

lemma event_order_is_decoded: "event_order e = decode_order (post_body e)"
  by (simp add: event_order_def decode_post_body)

text \<open>The answers are JSON; the literal of the WebSocket handler is what the encoder would write.\<close>

lemma fill_text_json [json_texts]: "json_text (fill_text f)"
  unfolding fill_text_def by (intro json_text_object) (auto intro: json_texts)

lemma reply_text_json [json_texts]: "json_text (reply_text rep)"
  unfolding reply_text_def null_text_def
  by (cases rep) (auto simp: optional_field_def octets_Cons intro!: json_texts)

lemma ws_frame_json: "json_text (ws_frame r)"
  by (cases r) (auto simp: ws_frame_def write_map_def intro!: json_texts)

lemma bad_json_frame:
  "ws_frame (WsErrorJSON ''bad json'') =
     octets (''{'' @ [CHR 0x22] @ ''error'' @ [CHR 0x22] @ '':'' @ [CHR 0x22] @ ''bad json'' @ [CHR 0x22] @ ''}'')"
  by (simp add: ws_frame_def write_map_def write_object_def write_field_def write_string_def octets_Cons
      escape_text.simps(2) escape_octet_def html_safe_def)

end
