(* ===== verification/EventTail.thy ===== *)
theory EventTail
  imports FileSink Utf8
begin

text \<open>
  \<^verbatim>\<open>crates/telemetry-sidecar/src/main.rs\<close>: the sidecar that follows the event log of
  \<open>FileSink\<close> and echoes its lines.  The file is a list of bytes that only grows; the sidecar and
  the writer of the file are interleaved steps.
\<close>

subsection \<open>UTF-8\<close>

text \<open>\<^verbatim>\<open>String::from_utf8\<close>: the code points of a text, \<open>None\<close> when the bytes are not valid UTF-8.\<close>

definition from_utf8 :: "bytes \<Rightarrow> nat list option" where
  "from_utf8 bs = utf8_decode (map unat bs)"

text \<open>\<^verbatim>\<open>str::trim_end\<close>: the characters of Unicode's \<^verbatim>\<open>White_Space\<close>.\<close>

definition is_whitespace :: "nat \<Rightarrow> bool" where
  "is_whitespace c \<longleftrightarrow>
     (9 \<le> c \<and> c \<le> 13) \<or> c = 32 \<or> c = 133 \<or> c = 160 \<or> c = 5760 \<or> (8192 \<le> c \<and> c \<le> 8202)
     \<or> c = 8232 \<or> c = 8233 \<or> c = 8239 \<or> c = 8287 \<or> c = 12288"

definition trim_end :: "nat list \<Rightarrow> nat list" where
  "trim_end cs = rev (dropWhile is_whitespace (rev cs))"

subsection \<open>The sidecar\<close>

text \<open>
  \<open>Polling\<close> is the loop that waits for the file, \<open>Following n\<close> the loop that reads lines, \<open>n\<close> bytes into
  the file, \<open>Exited\<close> a \<^verbatim>\<open>main\<close> that returned an error.  The state also holds the pieces read and
  what was printed.
\<close>

datatype tail_phase = Polling | Following nat | Exited

record tail =
  tl_phase :: tail_phase
  tl_pieces :: "bytes list"
  tl_stderr :: "nat list list"

definition tail_start :: tail where
  "tail_start = \<lparr>tl_phase = Polling, tl_pieces = [], tl_stderr = []\<rparr>"

definition event_log_path :: "string option \<Rightarrow> string" where
  "event_log_path env = (case env of Some p \<Rightarrow> p | None \<Rightarrow> ''/var/log/ironbook/events.jsonl'')"

text \<open>
  \<^verbatim>\<open>read_line\<close> on what the file holds from here: up to and with the next newline, else everything
  there is.
\<close>

definition newline_byte :: u8 where
  "newline_byte = 10"

definition read_line :: "bytes \<Rightarrow> bytes" where
  "read_line bs =
     takeWhile (\<lambda>b. b \<noteq> newline_byte) bs @ (if newline_byte \<in> set bs then [newline_byte] else [])"

definition echo_prefix :: "nat list" where
  "echo_prefix = map of_char ''[telemetry-sidecar] ''"

text \<open>
  One round of either loop; \<open>file\<close> is \<open>None\<close> while the file cannot be opened, and \<open>Inl\<close> is a
  read the operating system refuses.
\<close>

definition tail_round :: "bytes option \<Rightarrow> go_error option \<Rightarrow> tail \<Rightarrow> tail" where
  "tail_round file io t =
     (case tl_phase t of
        Polling \<Rightarrow> (case file of None \<Rightarrow> t | Some bs \<Rightarrow> t\<lparr>tl_phase := Following 0\<rparr>)
      | Exited \<Rightarrow> t
      | Following pos \<Rightarrow>
          (case file of
             None \<Rightarrow> t
           | Some bs \<Rightarrow>
               (if io \<noteq> None then t\<lparr>tl_phase := Exited\<rparr>
                else
                  (let line = read_line (drop pos bs) in
                   if line = [] then t
                   else
                     (case from_utf8 line of
                        None \<Rightarrow> t\<lparr>tl_phase := Exited\<rparr>
                      | Some cs \<Rightarrow>
                          t\<lparr>tl_phase := Following (pos + length line),
                            tl_pieces := tl_pieces t @ [line],
                            tl_stderr := tl_stderr t @ [echo_prefix @ trim_end cs]\<rparr>)))))"

text \<open>
  The sidecar beside a writer: the file appears, grows by chunks \<open>ok\<close> allows, and the sidecar
  makes its rounds, at any of which a read may fail.
\<close>

record log_state =
  lg_file :: "bytes option"
  lg_tail :: tail

definition log_start :: log_state where
  "log_start = \<lparr>lg_file = None, lg_tail = tail_start\<rparr>"

inductive log_step :: "(bytes \<Rightarrow> bool) \<Rightarrow> log_state \<Rightarrow> log_state \<Rightarrow> bool" for ok where
  creates: "lg_file s = None \<Longrightarrow> log_step ok s (s\<lparr>lg_file := Some []\<rparr>)"
| appends: "lg_file s = Some bs \<Longrightarrow> ok c \<Longrightarrow> log_step ok s (s\<lparr>lg_file := Some (bs @ c)\<rparr>)"
| rounds: "log_step ok s (s\<lparr>lg_tail := tail_round (lg_file s) io (lg_tail s)\<rparr>)"

subsection \<open>Lines and code points\<close>

lemma takeWhile_sep: "sep \<notin> set xs \<Longrightarrow> takeWhile (\<lambda>b. b \<noteq> sep) (xs @ sep # ys) = xs"
  by (induction xs) auto

lemma read_line_prefix: "prefix (read_line bs) bs"
proof (cases "newline_byte \<in> set bs")
  case True
  then obtain xs ys where "bs = xs @ newline_byte # ys" "newline_byte \<notin> set xs"
    by (meson split_list_first)
  then show ?thesis by (simp add: read_line_def takeWhile_sep)
next
  case False
  then show ?thesis by (simp add: read_line_def takeWhile_is_prefix)
qed

lemma read_line_take: "read_line bs = take (length (read_line bs)) bs"
  using read_line_prefix by (metis append_eq_conv_conj prefix_def)

lemma read_line_nil [simp]: "read_line bs = [] \<longleftrightarrow> bs = []"
  by (cases bs) (auto simp: read_line_def)

lemma read_line_whole: "newline_byte \<notin> set l \<Longrightarrow> read_line (l @ newline_byte # r) = l @ [newline_byte]"
  by (simp add: read_line_def takeWhile_sep)

lemma read_line_rest: "newline_byte \<notin> set l \<Longrightarrow> read_line l = l"
  by (auto simp: read_line_def takeWhile_eq_all_conv)

lemma from_utf8_line: "from_utf8 l = Some cs \<Longrightarrow> from_utf8 (l @ [newline_byte]) = Some (cs @ [10])"
  by (simp add: from_utf8_def utf8_decode_append newline_byte_def)

lemma trim_end_line: "cs \<noteq> [] \<Longrightarrow> \<not> is_whitespace (last cs) \<Longrightarrow> trim_end (cs @ [10]) = cs"
proof -
  assume "cs \<noteq> []" "\<not> is_whitespace (last cs)"
  moreover have "is_whitespace 10" by (simp add: is_whitespace_def)
  ultimately show ?thesis by (cases cs rule: rev_cases) (simp_all add: trim_end_def)
qed

subsection \<open>Nothing is lost\<close>

text \<open>
  Whatever is appended and whichever reads fail, what the sidecar has read is what the file holds
  up to its position, and it has printed each piece without the white space at its end.
\<close>

definition tail_ok :: "log_state \<Rightarrow> bool" where
  "tail_ok s \<longleftrightarrow>
     (case tl_phase (lg_tail s) of
        Polling \<Rightarrow> tl_pieces (lg_tail s) = []
      | Following pos \<Rightarrow>
          (\<exists>bs. lg_file s = Some bs \<and> pos \<le> length bs \<and> concat (tl_pieces (lg_tail s)) = take pos bs)
      | Exited \<Rightarrow> (\<exists>bs. lg_file s = Some bs \<and> prefix (concat (tl_pieces (lg_tail s))) bs))
   \<and> tl_stderr (lg_tail s) = map (\<lambda>l. echo_prefix @ trim_end (the (from_utf8 l))) (tl_pieces (lg_tail s))"

lemma tail_ok_step: "log_step ok s s' \<Longrightarrow> tail_ok s \<Longrightarrow> tail_ok s'"
proof (induction rule: log_step.induct)
  case (creates s)
  then show ?case by (auto simp: tail_ok_def split: tail_phase.splits)
next
  case (appends s bs c)
  then show ?case by (auto simp: tail_ok_def split: tail_phase.splits)
next
  case (rounds s io)
  show ?case
  proof (cases "tl_phase (lg_tail s)")
    case (Following pos)
    with rounds obtain bs where bs: "lg_file s = Some bs" "pos \<le> length bs"
      "concat (tl_pieces (lg_tail s)) = take pos bs" by (auto simp: tail_ok_def)
    let ?l = "read_line (drop pos bs)"
    have "take pos bs @ ?l = take (pos + length ?l) bs" "pos + length ?l \<le> length bs"
      using read_line_take [of "drop pos bs"] prefix_length_le [OF read_line_prefix, of "drop pos bs"] bs(2)
      by (metis take_add, simp)
    then show ?thesis
      using rounds Following bs
      by (auto simp: tail_ok_def tail_round_def Let_def take_is_prefix split: option.splits)
  qed (use rounds in \<open>auto simp: tail_ok_def tail_round_def split: option.splits\<close>)
qed

lemma tail_ok_reachable: "(log_step ok)\<^sup>*\<^sup>* log_start s \<Longrightarrow> tail_ok s"
proof (induction rule: rtranclp_induct)
  case base
  show ?case by (simp add: tail_ok_def log_start_def tail_start_def)
qed (rule tail_ok_step)

theorem tail_loses_nothing:
  assumes "(log_step ok)\<^sup>*\<^sup>* log_start s" "tl_phase (lg_tail s) = Following pos"
  shows "\<exists>bs. lg_file s = Some bs \<and> concat (tl_pieces (lg_tail s)) = take pos bs
     \<and> tl_stderr (lg_tail s) = map (\<lambda>l. echo_prefix @ trim_end (the (from_utf8 l))) (tl_pieces (lg_tail s))"
  using tail_ok_reachable [OF assms(1)] assms(2) by (auto simp: tail_ok_def)

subsection \<open>The rows of the sink, line by line\<close>

text \<open>
  \<^verbatim>\<open>json.Encoder\<close> writes the encoding of a row and a newline with one write; \<open>json\<close> is that encoding
  and \<open>text\<close> its characters.  Control characters are escaped in it, it is valid UTF-8, and for a struct it ends with a
  brace.  A short write leaves the first \<open>kept\<close> bytes.
\<close>

definition line_encoder :: "(eventRow \<Rightarrow> bytes) \<Rightarrow> (eventRow \<Rightarrow> nat list) \<Rightarrow> bool" where
  "line_encoder json enc \<longleftrightarrow>
     (\<forall>r. newline_byte \<notin> set (json r) \<and> from_utf8 (json r) = Some (enc r) \<and> enc r \<noteq> []
        \<and> last (enc r) = 125)"

definition row_line :: "(eventRow \<Rightarrow> bytes) \<Rightarrow> eventRow \<Rightarrow> bytes" where
  "row_line json r = json r @ [newline_byte]"

definition line_bytes :: "(eventRow \<Rightarrow> bytes) \<Rightarrow> (eventRow \<Rightarrow> nat) \<Rightarrow> file_line \<Rightarrow> bytes" where
  "line_bytes json kept l = (case l of Line r \<Rightarrow> row_line json r | TornLine r \<Rightarrow> take (kept r) (row_line json r))"

lemma row_line_not_nil [simp]: "row_line json r \<noteq> []"
  by (simp add: row_line_def)

lemma read_line_row:
  "line_encoder json enc \<Longrightarrow> read_line (row_line json r @ bs) = row_line json r"
  by (simp add: line_encoder_def row_line_def read_line_whole)

lemma row_echo:
  assumes "line_encoder json enc"
  shows "from_utf8 (row_line json r) = Some (enc r @ [10])" "trim_end (enc r @ [10]) = enc r"
  using assms from_utf8_line trim_end_line [of "enc r"]
  by (auto simp: line_encoder_def row_line_def is_whitespace_def)

lemma drop_rows:
  "n < length rows \<Longrightarrow> drop (length (concat (map f (take n rows)))) (concat (map f rows))
     = f (rows ! n) @ concat (map f (drop (Suc n) rows))"
proof -
  assume "n < length rows"
  then have "rows = take n rows @ rows ! n # drop (Suc n) rows" by (rule id_take_nth_drop)
  then have "concat (map f rows)
      = concat (map f (take n rows)) @ f (rows ! n) @ concat (map f (drop (Suc n) rows))"
    by (metis concat.simps(2) concat_append list.simps(9) map_append)
  then show ?thesis by simp
qed

lemma tail_round_row:
  assumes "line_encoder json enc" "n < length rows"
    and "tl_phase t = Following (length (concat (map (row_line json) (take n rows))))"
  shows "tail_round (Some (concat (map (row_line json) rows))) None t =
    t\<lparr>tl_phase := Following (length (concat (map (row_line json) (take (Suc n) rows)))),
      tl_pieces := tl_pieces t @ [row_line json (rows ! n)],
      tl_stderr := tl_stderr t @ [echo_prefix @ enc (rows ! n)]\<rparr>"
  using assms row_echo [OF assms(1)]
  by (simp add: tail_round_def Let_def drop_rows read_line_row take_Suc_conv_app_nth)

lemma tail_round_end:
  "tl_phase t = Following (length bs) \<Longrightarrow> tail_round (Some bs) None t = t"
  by (simp add: tail_round_def)

text \<open>
  When the file grows by whole rows, the sidecar prints the rows themselves, each once and in
  order, wherever its rounds fall.
\<close>

definition follows_rows :: "(eventRow \<Rightarrow> bytes) \<Rightarrow> (eventRow \<Rightarrow> nat list) \<Rightarrow> log_state \<Rightarrow> bool" where
  "follows_rows json enc s \<longleftrightarrow>
     (\<exists>rows n. (case lg_file s of None \<Rightarrow> rows = [] | Some bs \<Rightarrow> bs = concat (map (row_line json) rows))
        \<and> n \<le> length rows
        \<and> tl_pieces (lg_tail s) = map (row_line json) (take n rows)
        \<and> tl_stderr (lg_tail s) = map (\<lambda>r. echo_prefix @ enc r) (take n rows))"

lemma follows_rows_step:
  assumes "log_step (\<lambda>c. c \<in> range (row_line json)) s s'" "line_encoder json enc" "tail_ok s"
    "follows_rows json enc s"
  shows "follows_rows json enc s'"
proof -
  from assms(4) obtain rows n where
    logged: "case lg_file s of None \<Rightarrow> rows = [] | Some bs \<Rightarrow> bs = concat (map (row_line json) rows)"
    and n: "n \<le> length rows" and pieces: "tl_pieces (lg_tail s) = map (row_line json) (take n rows)"
    and err: "tl_stderr (lg_tail s) = map (\<lambda>r. echo_prefix @ enc r) (take n rows)"
    by (auto simp: follows_rows_def)
  from assms(1) show ?thesis
  proof cases
    case creates
    then show ?thesis using logged n pieces err by (auto simp: follows_rows_def)
  next
    case (appends bs c)
    then obtain r where "c = row_line json r" by auto
    then show ?thesis
      using appends logged n pieces err
      by (auto simp: follows_rows_def intro!: exI [of _ "rows @ [r]"] exI [of _ n])
  next
    case (rounds io)
    show ?thesis
    proof (cases "tl_phase (lg_tail s)")
      case (Following pos)
      with assms(3) obtain bs where bs: "lg_file s = Some bs" "pos \<le> length bs"
        "concat (tl_pieces (lg_tail s)) = take pos bs" by (auto simp: tail_ok_def)
      have b: "bs = concat (map (row_line json) rows)" using logged bs(1) by simp
      have pos: "pos = length (concat (map (row_line json) (take n rows)))"
        using bs(2,3) pieces by (metis length_take min.absorb2)
      have ph: "tl_phase (lg_tail s) = Following (length (concat (map (row_line json) (take n rows))))"
        using Following pos by simp
      consider "io \<noteq> None" | "io = None" "n < length rows" | "io = None" "n = length rows"
        using n by linarith
      then show ?thesis
      proof cases
        case 1
        then show ?thesis
          using rounds Following bs(1) logged n pieces err
          by (auto simp: follows_rows_def tail_round_def)
      next
        case 2
        then show ?thesis
          using rounds bs(1) b n pieces err tail_round_row [OF assms(2) 2(2) ph]
          by (auto simp: follows_rows_def take_Suc_conv_app_nth intro!: exI [of _ rows] exI [of _ "Suc n"])
      next
        case 3
        then show ?thesis
          using rounds bs(1) b n pieces err tail_round_end ph
          by (auto simp: follows_rows_def intro!: exI [of _ rows] exI [of _ "length rows"])
      qed
    qed (use rounds logged n pieces err in \<open>auto simp: follows_rows_def tail_round_def split: option.splits\<close>)
  qed
qed

theorem sidecar_prints_each_row_once:
  assumes "(log_step (\<lambda>c. c \<in> range (row_line json)))\<^sup>*\<^sup>* log_start s" "line_encoder json enc"
  shows "follows_rows json enc s"
  using assms(1)
proof (induction rule: rtranclp_induct)
  case base
  show ?case by (auto simp: follows_rows_def log_start_def tail_start_def intro!: exI [of _ "[]"])
next
  case (step s s')
  then show ?case using follows_rows_step assms(2) tail_ok_reachable by blast
qed

text \<open>
  It catches up: after one round more than the sink has written lines, all complete, it has printed
  the events the gateway was told, in order.
\<close>

lemma tail_rounds_rows:
  assumes "line_encoder json enc" "k \<le> length rows"
  shows "tl_phase ((tail_round (Some (concat (map (row_line json) rows))) None ^^ Suc k) tail_start)
         = Following (length (concat (map (row_line json) (take k rows))))
       \<and> tl_stderr ((tail_round (Some (concat (map (row_line json) rows))) None ^^ Suc k) tail_start)
         = map (\<lambda>r. echo_prefix @ enc r) (take k rows)"
  using assms(2)
proof (induction k)
  case 0
  show ?case by (simp add: tail_round_def tail_start_def)
next
  case (Suc k)
  let ?t = "(tail_round (Some (concat (map (row_line json) rows))) None ^^ Suc k) tail_start"
  have "k < length rows" using Suc.prems by simp
  moreover have "tl_phase ?t = Following (length (concat (map (row_line json) (take k rows))))"
    and "tl_stderr ?t = map (\<lambda>r. echo_prefix @ enc r) (take k rows)"
    using Suc.IH Suc.prems by simp_all
  ultimately show ?case
    using tail_round_row [OF assms(1), of k rows ?t]
    by (simp add: take_Suc_conv_app_nth del: funpow.simps(2))
       (simp add: take_Suc_conv_app_nth)
qed

theorem sidecar_catches_up:
  assumes "line_encoder json enc" "sink_lines sk = map Line rows" "length rows < k"
  shows "tl_stderr ((tail_round (Some (concat (map (line_bytes json kept) (sink_lines sk)))) None ^^ k) tail_start)
     = map (\<lambda>r. echo_prefix @ enc r) rows"
proof -
  let ?bs = "concat (map (row_line json) rows)"
  have bs: "concat (map (line_bytes json kept) (sink_lines sk)) = ?bs"
    using assms(2) by (simp add: line_bytes_def comp_def)
  have stay: "(tail_round (Some ?bs) None ^^ (Suc (length rows) + j)) tail_start
      = (tail_round (Some ?bs) None ^^ Suc (length rows)) tail_start" for j
  proof (induction j)
    case (Suc j)
    then show ?case
      using tail_round_end tail_rounds_rows [OF assms(1), of "length rows" rows] by simp
  qed simp
  obtain j where "k = Suc (length rows) + j" using assms(3) less_imp_Suc_add by auto
  then show ?thesis
    using stay [of j] tail_rounds_rows [OF assms(1), of "length rows" rows] by (simp add: bs)
qed

subsection \<open>Torn lines\<close>

text \<open>
  \<^verbatim>\<open>read_line\<close> also returns what there is before a newline has been written: a round between two
  parts of a row prints them as two lines, and one between two bytes of a character ends the sidecar.
\<close>

definition poll_between :: "bytes \<Rightarrow> bytes \<Rightarrow> tail" where
  "poll_between a b =
     tail_round (Some (a @ b)) None (tail_round (Some a) None (tail_round (Some a) None tail_start))"

theorem torn_row_is_two_lines:
  assumes "a \<noteq> []" "b \<noteq> []" "newline_byte \<notin> set (a @ b)"
    and "from_utf8 a = Some cs" "from_utf8 b = Some ds"
  shows "tl_stderr (poll_between a (b @ [newline_byte]))
     = [echo_prefix @ trim_end cs, echo_prefix @ trim_end (ds @ [10])]"
  using assms read_line_whole [of b "[]"] from_utf8_line [OF assms(5)]
  by (simp add: poll_between_def tail_round_def tail_start_def read_line_rest Let_def)

theorem torn_character_ends_the_sidecar:
  assumes "newline_byte \<notin> set a" "from_utf8 a = None"
  shows "tl_phase (poll_between a b) = Exited"
proof -
  have "a \<noteq> []" using assms(2) by (auto simp: from_utf8_def)
  then show ?thesis
    using assms by (simp add: poll_between_def tail_round_def tail_start_def read_line_rest)
qed

text \<open>Such rows exist: two bytes, in hexadecimal c3 a9, are one character.\<close>

lemma torn_character_example:
  "from_utf8 [0xC3, 0xA9] = Some [233]" "tl_phase (poll_between [0xC3] [0xA9, 10]) = Exited"
  by (simp_all add: from_utf8_def next_rune.simps(2) second_ok_def tail_byte_def
      torn_character_ends_the_sidecar newline_byte_def)

text \<open>A short write of the sink is joined with the row written after it.\<close>

lemma short_write_joins_rows:
  assumes "line_encoder json enc" "kept r \<le> length (json r)"
  shows "read_line (concat (map (line_bytes json kept) [TornLine r, Line q])) = take (kept r) (json r) @ row_line json q"
proof -
  have "newline_byte \<notin> set (take (kept r) (json r) @ json q)"
    using assms(1) by (auto simp: line_encoder_def dest: in_set_takeD)
  from read_line_whole [OF this, of "[]"] show ?thesis
    using assms(2) by (simp add: line_bytes_def row_line_def)
qed

subsection \<open>An encoder\<close>

text \<open>The hypotheses on the encoder can hold: the encoding that writes an empty object for every row.\<close>

definition empty_object :: "eventRow \<Rightarrow> bytes" where
  "empty_object r = [123, 125]"

lemma empty_object_encoder: "line_encoder empty_object (\<lambda>r. [123, 125])"
  by (simp add: line_encoder_def empty_object_def newline_byte_def from_utf8_def)

lemma sidecar_catches_up_example:
  "tl_stderr ((tail_round (Some (concat (map (line_bytes empty_object (\<lambda>r. 0))
       (sink_lines (FileSink_OnIn sample_disk sample_sink sample_order))))) None ^^ 2) tail_start)
   = [echo_prefix @ [123, 125]]"
  using sidecar_catches_up [OF empty_object_encoder,
    of "FileSink_OnIn sample_disk sample_sink sample_order"
       "[\<lparr>row_Kind = ''in'', row_Source = [], row_Order = Some sample_order, row_Reply = None\<rparr>]" 2 "\<lambda>r. 0"]
  by (simp add: FileSink_OnIn_def FileSink_write_def sample_sink_def sample_disk_def Let_def)

end
