(* ===== verification/EventJson.thy ===== *)
theory EventJson
  imports OrderJson EventTail ReferenceOracle
begin

text \<open>
  The lines of the event log, byte by byte: \<^verbatim>\<open>json.NewEncoder(s.f).Encode(row)\<close> of \<^verbatim>\<open>sink_file.go\<close> on the messages of
  \<^verbatim>\<open>pkg/proto/ironbook/v1\<close> with their \<^verbatim>\<open>json\<close> tags.  With it the sidecar is shown to print what the gateway
  recorded.
\<close>

subsection \<open>Messages\<close>

definition base64_digit :: "nat \<Rightarrow> nat" where
  "base64_digit n =
     (if n < 26 then 65 + n else if n < 52 then 71 + n else if n < 62 then n - 4 else if n = 62 then 43 else 47)"

text \<open>\<^verbatim>\<open>base64.StdEncoding\<close>, which is how a \<^verbatim>\<open>[]byte\<close> is written.\<close>

fun base64 :: "nat list \<Rightarrow> nat list" where
  "base64 [] = []"
| "base64 [a] = [base64_digit (a div 4), base64_digit (a mod 4 * 16), 61, 61]"
| "base64 [a, b] =
     [base64_digit (a div 4), base64_digit (a mod 4 * 16 + b div 16), base64_digit (b mod 16 * 4), 61]"
| "base64 (a # b # c # r) =
     base64_digit (a div 4) # base64_digit (a mod 4 * 16 + b div 16)
     # base64_digit (b mod 16 * 4 + c div 64) # base64_digit (c mod 64) # base64 r"

definition write_bytes :: "bytes \<Rightarrow> nat list" where
  "write_bytes bs = 34 # base64 (byte_octets bs) @ [34]"

text \<open>The fields with \<^verbatim>\<open>omitempty\<close>, by kind.\<close>

definition uint_field :: "string \<Rightarrow> nat \<Rightarrow> (string \<times> nat list) list" where
  "uint_field name n = optional_field (n = 0) name (write_uint n)"

definition int_field :: "string \<Rightarrow> int \<Rightarrow> (string \<times> nat list) list" where
  "int_field name i = optional_field (i = 0) name (write_int i)"

definition bytes_field :: "string \<Rightarrow> bytes \<Rightarrow> (string \<times> nat list) list" where
  "bytes_field name bs = optional_field (bs = []) name (write_bytes bs)"

definition string_field :: "string \<Rightarrow> string \<Rightarrow> (string \<times> nat list) list" where
  "string_field name s = optional_field (s = []) name (write_string s)"

definition NormalizedOrder_text :: "NormalizedOrder \<Rightarrow> nat list" where
  "NormalizedOrder_text o1 =
     write_object
       (uint_field ''platform_seq'' (unat (no_PlatformSeq o1))
        @ uint_field ''platform_ts_ns'' (unat (no_PlatformTsNs o1))
        @ bytes_field ''client_order_id'' (no_ClientOrderId o1)
        @ bytes_field ''session_token'' (no_SessionToken o1)
        @ int_field ''side'' (sint (side_number (no_Side o1)))
        @ uint_field ''qty'' (unat (no_Qty o1))
        @ int_field ''price'' (sint (no_Price o1))
        @ int_field ''order_type'' (sint (order_type_number (no_OrderType o1)))
        @ int_field ''tif'' (sint (tif_number (no_Tif o1))))"

definition Ack_text :: "Ack \<Rightarrow> nat list" where
  "Ack_text a =
     write_object
       (uint_field ''platform_seq'' (unat (ack_PlatformSeq a))
        @ uint_field ''ack_ts_ns'' (unat (ack_AckTsNs a))
        @ uint_field ''status'' (unat (ack_Status a))
        @ string_field ''message'' (ack_Message a))"

definition Fill_text :: "Fill \<Rightarrow> nat list" where
  "Fill_text f =
     write_object
       (uint_field ''trade_id'' (unat (fill_TradeId f))
        @ uint_field ''platform_seq_taker'' (unat (fill_PlatformSeqTaker f))
        @ uint_field ''platform_seq_maker'' (unat (fill_PlatformSeqMaker f))
        @ int_field ''price'' (sint (fill_Price f))
        @ uint_field ''qty'' (unat (fill_Qty f))
        @ uint_field ''ts_ns'' (unat (fill_TsNs f)))"

text \<open>A pointer inside a slice is written as \<^verbatim>\<open>null\<close> when it is nil, a field that is one is left out.\<close>

definition pointer_text :: "('a \<Rightarrow> nat list) \<Rightarrow> 'a option \<Rightarrow> nat list" where
  "pointer_text w p = (case p of None \<Rightarrow> null_text | Some x \<Rightarrow> w x)"

definition pointer_field :: "string \<Rightarrow> ('a \<Rightarrow> nat list) \<Rightarrow> 'a option \<Rightarrow> (string \<times> nat list) list" where
  "pointer_field name w p = optional_field (p = None) name (pointer_text w p)"

definition Reply_text :: "Reply \<Rightarrow> nat list" where
  "Reply_text r =
     write_object
       (pointer_field ''ack'' Ack_text (reply_Ack r)
        @ optional_field (reply_Fills r = []) ''fills'' (write_array (map (pointer_text Fill_text) (reply_Fills r))))"

definition row_text :: "eventRow \<Rightarrow> nat list" where
  "row_text row =
     write_object
       ([(''kind'', write_string (row_Kind row))]
        @ string_field ''source'' (row_Source row)
        @ pointer_field ''order'' NormalizedOrder_text (row_Order row)
        @ pointer_field ''reply'' Reply_text (row_Reply row))"

definition row_json :: "eventRow \<Rightarrow> bytes" where
  "row_json row = octet_bytes (row_text row)"

subsection \<open>Every row is one line\<close>

lemma base64_digit_text: "n < 64 \<Longrightarrow> 32 \<le> base64_digit n \<and> base64_digit n < 128"
  by (auto simp: base64_digit_def)

lemma base64_ascii: "\<forall>b \<in> set bs. b < 256 \<Longrightarrow> \<forall>x \<in> set (base64 bs). 32 \<le> x \<and> x < 128"
proof (induction bs rule: base64.induct)
  case (2 a)
  then show ?case by (auto simp: base64_digit_text)
next
  case (3 a b)
  then have "a mod 4 * 16 + b div 16 < 64" by (simp add: less_mult_imp_div_less) linarith
  with 3 show ?case by (auto simp: base64_digit_text)
next
  case (4 a b c r)
  then have "a mod 4 * 16 + b div 16 < 64" "b mod 16 * 4 + c div 64 < 64" by simp_all linarith+
  with 4 show ?case by (auto simp: base64_digit_text)
qed simp

lemma write_bytes_text [json_texts]: "json_text (write_bytes bs)"
proof -
  have "\<forall>b \<in> set (byte_octets bs). b < 256"
    using unsigned_less [where ?'a = nat and ?'b = 8] by (auto simp: byte_octets_def)
  then show ?thesis
    unfolding write_bytes_def by (intro json_text_ascii) (auto dest!: base64_ascii)
qed

definition json_fields :: "(string \<times> nat list) list \<Rightarrow> bool" where
  "json_fields kvs \<longleftrightarrow> (\<forall>kv \<in> set kvs. json_text (snd kv))"

lemma json_fields_rules [json_texts]:
  "json_fields []" "json_text t \<Longrightarrow> json_fields kvs \<Longrightarrow> json_fields ((k, t) # kvs)"
  "json_fields a \<Longrightarrow> json_fields b \<Longrightarrow> json_fields (a @ b)"
  "json_text t \<Longrightarrow> json_fields (optional_field e k t)"
  by (auto simp: json_fields_def optional_field_def)

lemma json_fields_object: "json_fields kvs \<Longrightarrow> json_text (write_object kvs)"
  by (simp add: json_fields_def json_text_object)

lemma json_fields_kinds [json_texts]:
  "json_fields (uint_field k n)" "json_fields (int_field k i)" "json_fields (bytes_field k bs)"
  "json_fields (string_field k s)"
  by (simp_all add: uint_field_def int_field_def bytes_field_def string_field_def json_texts)

lemma null_text_json [json_texts]: "json_text null_text"
  by (simp add: null_text_def octets_Cons json_texts)

lemma pointer_text_json [json_texts]: "(\<And>x. json_text (w x)) \<Longrightarrow> json_text (pointer_text w p)"
  by (cases p) (simp_all add: pointer_text_def json_texts)

lemma pointer_field_json [json_texts]: "(\<And>x. json_text (w x)) \<Longrightarrow> json_fields (pointer_field k w p)"
  by (simp add: pointer_field_def json_texts)

lemma message_texts [json_texts]:
  "json_text (NormalizedOrder_text o1)" "json_text (Ack_text a)" "json_text (Fill_text f)"
  unfolding NormalizedOrder_text_def Ack_text_def Fill_text_def
  by (intro json_fields_object json_texts)+

lemma Reply_text_json [json_texts]: "json_text (Reply_text r)"
  unfolding Reply_text_def
  by (intro json_fields_object json_fields_rules pointer_field_json message_texts json_text_array)
    (auto intro: pointer_text_json message_texts)

lemma row_text_json: "json_text (row_text row)"
  unfolding row_text_def
  by (intro json_fields_object json_fields_rules json_fields_kinds pointer_field_json message_texts
      Reply_text_json json_text_string)

text \<open>A row ends with its brace, and what is before it is a text too.\<close>

lemma object_ends: "json_fields kvs \<Longrightarrow> \<exists>t. write_object kvs = t @ [125] \<and> json_text t"
  by (rule exI [of _ "123 # intercalate [44] (map write_field kvs)"])
    (auto simp: write_object_def write_field_def json_fields_def intro!: json_texts)

lemma row_text_ends: "\<exists>t. row_text row = t @ [125] \<and> json_text t"
  unfolding row_text_def
  by (intro object_ends json_fields_rules json_fields_kinds pointer_field_json message_texts
      Reply_text_json json_text_string)

text \<open>The code points of a row.\<close>

definition row_runes :: "eventRow \<Rightarrow> nat list" where
  "row_runes row = (case utf8_decode (row_text row) of Some cs \<Rightarrow> cs | None \<Rightarrow> [])"

lemma row_octets: "byte_octets (row_json row) = row_text row"
  unfolding row_json_def by (rule byte_octets_back [OF json_text_bytes [OF row_text_json]])

lemma row_json_encoder: "line_encoder row_json row_runes"
  unfolding line_encoder_def
proof (intro allI conjI)
  fix row
  obtain t where t: "row_text row = t @ [125]" "json_text t" using row_text_ends by blast
  obtain ds where "utf8_decode t = Some ds" using t(2) by (auto simp: json_text_def)
  then have ds: "utf8_decode (row_text row) = Some (ds @ [125])" by (simp add: t(1) utf8_decode_append)
  show "from_utf8 (row_json row) = Some (row_runes row)"
    using ds by (simp add: from_utf8_def row_octets [unfolded byte_octets_def] row_runes_def)
  show "row_runes row \<noteq> []" "last (row_runes row) = 125" using ds by (simp_all add: row_runes_def)
  have "\<forall>x \<in> set (byte_octets (row_json row)). 32 \<le> x"
    using row_text_json [of row] by (simp add: row_octets json_text_def)
  then show "newline_byte \<notin> set (row_json row)"
    by (auto simp: byte_octets_def newline_byte_def)
qed

subsection \<open>From the gateway to the sidecar\<close>

text \<open>
  However the writes of the gateway and the rounds of the sidecar interleave, and whichever reads
  fail, the sidecar has printed the JSON of the first rows, each once and in order.
\<close>

theorem sidecar_prints_the_rows:
  assumes "(log_step (\<lambda>c. c \<in> range (row_line row_json)))\<^sup>*\<^sup>* log_start s"
  shows "follows_rows row_json row_runes s"
  using sidecar_prints_each_row_once [OF assms row_json_encoder] .

text \<open>
  C36 (sidecar_echoes_the_gateway): on every interleaving of the fork of an order, with the sink open and a
  disk that accepts the writes, a sidecar that then makes its rounds over the bytes of the file prints
  the JSON of the rows that were there, of the order, and of one row per successful reply: nothing is
  lost, repeated or broken over lines.
\<close>

theorem sidecar_echoes_the_gateway:
  assumes "(fork_step (FileSink_OnReply disk) (Submit f) (Submit g) o1)\<^sup>*\<^sup>*
             (fork_start (FileSink_OnIn disk) (Some s) o1) st"
    and "\<nexists>st'. fork_step (FileSink_OnReply disk) (Submit f) (Submit g) o1 st st'"
    and "sink_open s" and "\<forall>rows. disk rows = WriteOk" and "sink_lines s = map Line old"
  shows "\<exists>s' rows evs. fork_sink st = Some s'
       \<and> List.map_filter row_event rows = SinkIn o1 # evs
       \<and> mset evs = replies_of o1 (Submit f o1) (Submit g o1)
       \<and> (\<forall>k > length (old @ rows).
            tl_stderr ((tail_round (Some (concat (map (line_bytes row_json kept) (sink_lines s')))) None ^^ k) tail_start)
              = map (\<lambda>r. echo_prefix @ row_runes r) (old @ rows))"
proof -
  obtain s' rows evs where s': "fork_sink st = Some s'" "sink_lines s' = sink_lines s @ map Line rows"
    "List.map_filter row_event rows = SinkIn o1 # evs"
    "mset evs = replies_of o1 (Submit f o1) (Submit g o1)"
    using sink_records_every_reply [OF assms(1-4)] by blast
  have "sink_lines s' = map Line (old @ rows)" by (simp add: s'(2) assms(5))
  with s' show ?thesis using sidecar_catches_up [OF row_json_encoder] by blast
qed

theorem sidecar_echoes_the_gateway_witness:
  "\<exists>s' rows evs. fork_sink sample_final = Some s'
     \<and> List.map_filter row_event rows = SinkIn sample_order # evs
     \<and> mset evs = replies_of sample_order (Submit sample_submission sample_order) (Submit sample_oracle sample_order)
     \<and> (\<forall>k > length ([] @ rows).
          tl_stderr ((tail_round (Some (concat (map (line_bytes row_json (\<lambda>r. 0)) (sink_lines s')))) None ^^ k) tail_start)
            = map (\<lambda>r. echo_prefix @ row_runes r) ([] @ rows))"
  by (rule sidecar_echoes_the_gateway [OF sample_final_reached sample_final_done])
    (simp_all add: sample_sink_def sample_disk_def)

text \<open>A row as text, with its quotes shown as apostrophes, and a padded encoding.\<close>

definition shown :: "nat list \<Rightarrow> string" where
  "shown t = octet_chars (map (\<lambda>b. if b = 34 then 39 else b) t)"

lemma sample_row_text:
  "shown (row_text \<lparr>row_Kind = ''in'', row_Source = [], row_Order = Some sample_order, row_Reply = None\<rparr>)
     = ''{'kind':'in','order':{'platform_seq':7,'platform_ts_ns':9,'side':1,'qty':1,'price':100,'order_type':1,'tif':1}}''"
  by code_simp

lemma base64_padding:
  "octet_chars (base64 (octets ''M'')) = ''TQ==''" "octet_chars (base64 (octets ''Ma'')) = ''TWE=''"
  "octet_chars (base64 (octets ''Man'')) = ''TWFu''"
  by code_simp+

end
