(* ===== verification/UploadJson.thy ===== *)
theory UploadJson
  imports SubmissionService JsonText
begin

text \<open>
  The bodies \<^verbatim>\<open>HandleUpload\<close> answers with (\<^verbatim>\<open>apps/submission-api/server/server.go\<close>), byte by byte.
\<close>

definition upload_body :: "upload_response \<Rightarrow> nat list" where
  "upload_body resp =
     (case resp of
        UploadError st msg \<Rightarrow> octets msg @ [10]
      | UploadJSON uuid sha n \<Rightarrow>
          write_map [(''id'', write_string uuid), (''sha256'', write_string sha), (''size'', write_int (sint n))] @ [10])"

lemma upload_body_sorted:
  "upload_body (UploadJSON uuid sha n) =
     write_object [(''id'', write_string uuid), (''sha256'', write_string sha), (''size'', write_int (sint n))] @ [10]"
  by (simp add: upload_body_def write_map_def octets_Cons)

lemma hex_text_valid: "utf8_decode (octets (hex_encode bs)) \<noteq> None"
proof -
  have "\<forall>b \<in> set (octets (hex_encode bs)). b < 128"
  proof -
    have "\<forall>c \<in> set hex_digits. of_char c < (128 :: nat)" by (simp add: hex_digits_def)
    then show ?thesis using hex_encode_alphabet [of bs] by (auto simp: octets_def)
  qed
  then show ?thesis using utf8_decode_all_ascii by force
qed

text \<open>
  A client that reads the answer to an upload as JSON gets the id, the digest in hexadecimal and the
  size, and can recover the digest from its text.
\<close>

theorem upload_answer_reads_back:
  assumes "HandleUpload svc http_method lang ev w = (UploadJSON uuid sha n, w')" "utf8_decode (octets uuid) \<noteq> None"
  shows "decode_value (upload_body (UploadJSON uuid sha n)) =
           Some (JsonObject
             [(octets ''id'', JsonString (octets uuid)), (octets ''sha256'', JsonString (octets sha)),
              (octets ''size'', JsonNumber (write_int (sint n)))])
       \<and> (\<exists>res. fst (Upload svc lang ev w) = Inr res \<and> hex_decode sha = Inr (ur_Sha256 res) \<and> n = ur_Size res)"
proof
  obtain res where res: "fst (Upload svc lang ev w) = Inr res" "sha = hex_encode (ur_Sha256 res)" "n = ur_Size res"
    using assms(1) by (auto simp: HandleUpload_def split: if_splits sum.splits prod.splits)
  then show "\<exists>res. fst (Upload svc lang ev w) = Inr res \<and> hex_decode sha = Inr (ur_Sha256 res) \<and> n = ur_Size res"
    by (auto simp: hex_decode_encode)
  let ?kvs = "[(''id'', write_string uuid, JsonString (octets uuid)),
      (''sha256'', write_string sha, JsonString (octets sha)),
      (''size'', write_int (sint n), JsonNumber (write_int (sint n)))]"
  have keys: "\<forall>k \<in> {''id'', ''sha256'', ''size''}. utf8_decode (octets k) \<noteq> None"
    by (simp add: octets_Cons)
  have "\<forall>(k, t, v) \<in> set ?kvs. utf8_decode (octets k) \<noteq> None \<and> reads t v"
    using keys assms(2) hex_text_valid [of "ur_Sha256 res"] res(2)
    by (simp only: list.set ball_simps prod.case insert_iff) (simp add: reads_int reads_string)
  from object_reads_back [OF _ this, of "[10]"]
  show "decode_value (upload_body (UploadJSON uuid sha n)) =
           Some (JsonObject
             [(octets ''id'', JsonString (octets uuid)), (octets ''sha256'', JsonString (octets sha)),
              (octets ''size'', JsonNumber (write_int (sint n)))])"
    by (simp only: decode_value_def upload_body_sorted list.map prod.case) simp
qed

end
