(* ===== verification/E2eUtils.thy ===== *)
theory E2eUtils
  imports Policy
begin

text \<open>
  \<^verbatim>\<open>apps/benchmark-operator/test/utils/utils.go\<close>: the helpers of the end-to-end suite.  They run
  commands from the project directory, look for cert-manager, load an image into a kind cluster and
  remove the comment marks of a block of a file.  The operating system, the commands and the log of the test
  runner are one peer, a function from the calls made so far to the answer of the last.
\<close>

subsection \<open>The calls and their answers\<close>

datatype e2e_call =
    Getwd
  | Chdir string
  | CombinedOutput string "string list"
  | GinkgoWrite string
  | LookupEnv string
  | ReadFile string
  | WriteFile string string

text \<open>
  An answer has the text returned and the error, if there is one; \<^verbatim>\<open>os.LookupEnv\<close> of a variable that is
  not set answers with an error.  \<open>CombinedOutput dir args\<close> is run with \<^verbatim>\<open>GO111MODULE=on\<close> added to
  the environment.
\<close>

record e2e_answer =
  an_text :: string
  an_err :: "go_error option"

type_synonym e2e_world = "(e2e_call, e2e_answer) peer"

subsection \<open>Strings\<close>

abbreviation newline :: char where
  "newline \<equiv> CHR 0x0A"

text \<open>\<^verbatim>\<open>strings.ReplaceAll(s, old, new)\<close>, for an \<open>old\<close> that is not empty.\<close>

function replace_all :: "string \<Rightarrow> string \<Rightarrow> string \<Rightarrow> string" where
  "replace_all old new s =
     (case s of
        [] \<Rightarrow> []
      | c # cs \<Rightarrow>
          if old \<noteq> [] \<and> prefix old s then new @ replace_all old new (drop (length old) s)
          else c # replace_all old new cs)"
  by pat_completeness auto
termination
  by (relation "measure (\<lambda>(old, new, s). length s)") auto

declare replace_all.simps [simp del]

text \<open>\<^verbatim>\<open>strings.Index\<close>: the first position the text occurs at; \<^verbatim>\<open>-1\<close> is \<open>None\<close>.\<close>

fun str_index :: "string \<Rightarrow> string \<Rightarrow> nat option" where
  "str_index [] sub = (if sub = [] then Some 0 else None)"
| "str_index (c # cs) sub =
     (if prefix sub (c # cs) then Some 0 else map_option Suc (str_index cs sub))"

text \<open>\<^verbatim>\<open>strings.TrimPrefix\<close>.\<close>

definition trim_prefix :: "string \<Rightarrow> string \<Rightarrow> string" where
  "trim_prefix s p = (if prefix p s then drop (length p) s else s)"

text \<open>\<^verbatim>\<open>%q\<close> of a text of ASCII characters.\<close>

definition hex_digit :: "nat \<Rightarrow> char" where
  "hex_digit n = ''0123456789abcdef'' ! n"

definition escape_char :: "char \<Rightarrow> string" where
  "escape_char c =
     (if c = CHR 0x22 then [CHR 0x5C, CHR 0x22]
      else if c = CHR 0x5C then [CHR 0x5C, CHR 0x5C]
      else if c = CHR 0x07 then [CHR 0x5C, CHR ''a'']
      else if c = CHR 0x08 then [CHR 0x5C, CHR ''b'']
      else if c = CHR 0x0C then [CHR 0x5C, CHR ''f'']
      else if c = CHR 0x0A then [CHR 0x5C, CHR ''n'']
      else if c = CHR 0x0D then [CHR 0x5C, CHR ''r'']
      else if c = CHR 0x09 then [CHR 0x5C, CHR ''t'']
      else if c = CHR 0x0B then [CHR 0x5C, CHR ''v'']
      else if of_char c < (32 :: nat) \<or> of_char c = (127 :: nat)
        then [CHR 0x5C, CHR ''x'', hex_digit (of_char c div 16), hex_digit (of_char c mod 16)]
      else [c])"

definition quote_text :: "string \<Rightarrow> string" where
  "quote_text s = CHR 0x22 # concat (map escape_char s) @ [CHR 0x22]"

subsection \<open>Running a command\<close>

definition warnError :: "e2e_world \<Rightarrow> go_error \<Rightarrow> e2e_call list \<Rightarrow> e2e_call list" where
  "warnError w e h = snd (ask w (GinkgoWrite (''warning: '' @ error_text e @ [newline])) h)"

definition GetProjectDir :: "e2e_world \<Rightarrow> e2e_call list
    \<Rightarrow> (string \<times> go_error option) \<times> e2e_call list" where
  "GetProjectDir w h =
     (let (a, h1) = ask w Getwd h
      in (case an_err a of
            Some e \<Rightarrow> ((an_text a, Some (Wrapf ''failed to get current working directory'' e)), h1)
          | None \<Rightarrow> ((replace_all ''/test/e2e'' [] (an_text a), None), h1)))"

definition RunCommand :: "e2e_world \<Rightarrow> string list \<Rightarrow> e2e_call list
    \<Rightarrow> (string \<times> go_error option) \<times> e2e_call list" where
  "RunCommand w args h =
     (let ((dir, ign), h1) = GetProjectDir w h;
          (cd, h2) = ask w (Chdir dir) h1;
          h3 = (case an_err cd of
                  Some e \<Rightarrow> snd (ask w (GinkgoWrite (''chdir dir: '' @ quote_text (error_text e) @ [newline])) h2)
                | None \<Rightarrow> h2);
          command = intercalate '' '' args;
          h4 = snd (ask w (GinkgoWrite (''running: '' @ quote_text command @ [newline])) h3);
          (out, h5) = ask w (CombinedOutput dir args) h4
      in (case an_err out of
            Some e \<Rightarrow>
              ((an_text out,
                Some (Wrapf (quote_text command @ '' failed with error '' @ quote_text (an_text out)) e)), h5)
          | None \<Rightarrow> ((an_text out, None), h5)))"

text \<open>A command whose failure is only reported.\<close>

definition run_or_warn :: "e2e_world \<Rightarrow> string list \<Rightarrow> e2e_call list \<Rightarrow> e2e_call list" where
  "run_or_warn w args h =
     (let ((out, err), h1) = RunCommand w args h
      in (case err of Some e \<Rightarrow> warnError w e h1 | None \<Rightarrow> h1))"

subsection \<open>cert-manager and kind\<close>

definition certmanager_url :: string where
  "certmanager_url =
     ''https://github.com/cert-manager/cert-manager/releases/download/'' @ ''v1.20.2'' @ ''/cert-manager.yaml''"

definition kubeSystemLeases :: "string list" where
  "kubeSystemLeases = [''cert-manager-cainjector-leader-election'', ''cert-manager-controller'']"

definition UninstallCertManager :: "e2e_world \<Rightarrow> e2e_call list \<Rightarrow> e2e_call list" where
  "UninstallCertManager w h =
     fold (\<lambda>lease. run_or_warn w [''kubectl'', ''delete'', ''lease'', lease, ''-n'', ''kube-system'',
              ''--ignore-not-found'', ''--force'', ''--grace-period=0''])
       kubeSystemLeases (run_or_warn w [''kubectl'', ''delete'', ''-f'', certmanager_url] h)"

definition InstallCertManager :: "e2e_world \<Rightarrow> e2e_call list \<Rightarrow> go_error option \<times> e2e_call list" where
  "InstallCertManager w h =
     (let ((out, err), h1) = RunCommand w [''kubectl'', ''apply'', ''-f'', certmanager_url] h
      in (case err of
            Some e \<Rightarrow> (Some e, h1)
          | None \<Rightarrow>
              (let ((out2, err2), h2) = RunCommand w [''kubectl'', ''wait'', ''deployment.apps/cert-manager-webhook'',
                      ''--for'', ''condition=Available'', ''--namespace'', ''cert-manager'', ''--timeout'', ''5m''] h1
               in (err2, h2))))"

definition certManagerCRDs :: "string list" where
  "certManagerCRDs =
     [''certificates.cert-manager.io'', ''issuers.cert-manager.io'', ''clusterissuers.cert-manager.io'',
      ''certificaterequests.cert-manager.io'', ''orders.acme.cert-manager.io'', ''challenges.acme.cert-manager.io'']"

definition GetNonEmptyLines :: "string \<Rightarrow> string list" where
  "GetNonEmptyLines output = filter (\<lambda>element. element \<noteq> []) (split_on newline output)"

definition IsCertManagerCRDsInstalled :: "e2e_world \<Rightarrow> e2e_call list \<Rightarrow> bool \<times> e2e_call list" where
  "IsCertManagerCRDsInstalled w h =
     (let ((output, err), h1) = RunCommand w [''kubectl'', ''get'', ''crds''] h
      in (case err of
            Some e \<Rightarrow> (False, h1)
          | None \<Rightarrow>
              (list_ex (\<lambda>crd. list_ex (\<lambda>line. str_contains line crd) (GetNonEmptyLines output))
                 certManagerCRDs, h1)))"

definition lookup_env :: "e2e_world \<Rightarrow> string \<Rightarrow> string \<Rightarrow> e2e_call list \<Rightarrow> string \<times> e2e_call list" where
  "lookup_env w name fallback h =
     (let (a, h1) = ask w (LookupEnv name) h
      in (if an_err a = None then an_text a else fallback, h1))"

definition LoadImageToKindClusterWithName :: "e2e_world \<Rightarrow> string \<Rightarrow> e2e_call list
    \<Rightarrow> go_error option \<times> e2e_call list" where
  "LoadImageToKindClusterWithName w name h =
     (let (cluster, h1) = lookup_env w ''KIND_CLUSTER'' ''kind'' h;
          (kindBinary, h2) = lookup_env w ''KIND'' ''kind'' h1;
          ((out, err), h3) = RunCommand w (kindBinary # [''load'', ''docker-image'', name, ''--name'', cluster]) h2
      in (err, h3))"

subsection \<open>\<^verbatim>\<open>UncommentCode\<close>\<close>

text \<open>
  \<^verbatim>\<open>bufio.Scanner\<close> with its default split function: the lines of a text, the end of a line and a carriage
  return before it dropped, and no line after a final newline.  The buffer holds
  \<open>65536\<close> bytes: a line that fills it ends the scan, with an error that only \<^verbatim>\<open>Scanner.Err\<close>, which the code does not call, would tell.
\<close>

definition maxTokenSize :: nat where
  "maxTokenSize = 65536"

definition dropCR :: "string \<Rightarrow> string" where
  "dropCR l = (if l \<noteq> [] \<and> last l = CHR 0x0D then butlast l else l)"

definition text_lines :: "string \<Rightarrow> string list" where
  "text_lines s = (let ws = split_on newline s in if last ws = [] then butlast ws else ws)"

definition scan_lines :: "string \<Rightarrow> string list" where
  "scan_lines s = map dropCR (takeWhile (\<lambda>l. length l < maxTokenSize) (text_lines s))"

text \<open>The writes to \<^verbatim>\<open>out\<close>, a \<^verbatim>\<open>bytes.Buffer\<close>, cannot fail.\<close>

definition uncommented :: "string \<Rightarrow> string list \<Rightarrow> string" where
  "uncommented prefx ls = intercalate [newline] (map (\<lambda>l. trim_prefix l prefx) ls)"

definition UncommentCode :: "e2e_world \<Rightarrow> string \<Rightarrow> string \<Rightarrow> string \<Rightarrow> e2e_call list
    \<Rightarrow> go_error option \<times> e2e_call list" where
  "UncommentCode w filename target prefx h =
     (let (a, h1) = ask w (ReadFile filename) h
      in (case an_err a of
            Some e \<Rightarrow> (Some (Wrapf (''failed to read file '' @ quote_text filename) e), h1)
          | None \<Rightarrow>
              (let content = an_text a in
               (case str_index content target of
                  None \<Rightarrow>
                    (Some (GoError (''unable to find the code '' @ quote_text target @ '' to be uncommented'')), h1)
                | Some idx \<Rightarrow>
                    (case scan_lines target of
                       [] \<Rightarrow> (None, h1)
                     | l # ls \<Rightarrow>
                         (let out = take idx content @ uncommented prefx (l # ls)
                                      @ drop (idx + length target) content;
                              (wr, h2) = ask w (WriteFile filename out) h1
                          in (case an_err wr of
                                Some e \<Rightarrow> (Some (Wrapf (''failed to write file '' @ quote_text filename) e), h2)
                              | None \<Rightarrow> (None, h2))))))))"

subsection \<open>What the helpers do\<close>

text \<open>A command runs once, in the project directory, and its outcome is the caller's.\<close>

lemma RunCommand_runs_once:
  "\<exists>dir log out. RunCommand w args h = (out, h @ [Getwd, Chdir dir] @ log @ [CombinedOutput dir args])
     \<and> (\<forall>c \<in> set log. \<exists>t. c = GinkgoWrite t)
     \<and> fst out = an_text (w (h @ [Getwd, Chdir dir] @ log @ [CombinedOutput dir args]))
     \<and> (snd out = None \<longleftrightarrow> an_err (w (h @ [Getwd, Chdir dir] @ log @ [CombinedOutput dir args])) = None)"
  by (auto simp: RunCommand_def GetProjectDir_def Let_def split: option.splits)

lemma GetProjectDir_strips:
  assumes "an_err (w (h @ [Getwd])) = None" "an_text (w (h @ [Getwd])) = root @ ''/test/e2e''"
    and "CHR ''/'' \<notin> set root"
  shows "GetProjectDir w h = ((root, None), h @ [Getwd])"
proof -
  have "replace_all ''/test/e2e'' [] (root @ ''/test/e2e'') = root"
    using assms(3)
  proof (induction root)
    case Nil
    show ?case by (simp add: replace_all.simps [of _ _ "_ # _"] replace_all.simps [of _ _ "[]"])
  next
    case (Cons c cs)
    then show ?case by (subst replace_all.simps) auto
  qed
  with assms show ?thesis by (simp add: GetProjectDir_def)
qed

text \<open>
  Looking for a name line by line finds what looking in the whole output finds, since no name of a
  CRD has a newline.
\<close>

lemma sublist_across:
  assumes "sep \<notin> set sub" "sub \<noteq> []"
  shows "sublist sub (e @ sep # rest) \<longleftrightarrow> sublist sub e \<or> sublist sub rest"
  using assms by (auto simp: sublist_append sublist_Cons_right prefix_Cons)

lemma str_contains_line:
  assumes "newline \<notin> set sub" "sub \<noteq> []"
  shows "str_contains s sub \<longleftrightarrow> list_ex (\<lambda>line. str_contains line sub) (GetNonEmptyLines s)"
proof -
  have "es \<noteq> [] \<Longrightarrow> sublist sub (intercalate [newline] es) \<longleftrightarrow> (\<exists>e \<in> set es. sublist sub e)" for es
  proof (induction es)
    case (Cons e es)
    then show ?case
      by (cases "es = []") (simp_all add: intercalate_Cons sublist_across [OF assms])
  qed simp
  from this [OF split_on_nonempty, of newline s] show ?thesis
    using assms(2) by (auto simp: intercalate_split_on list_ex_iff GetNonEmptyLines_def str_contains_iff)
qed

lemma crd_names_one_line: "crd \<in> set certManagerCRDs \<Longrightarrow> newline \<notin> set crd \<and> crd \<noteq> []"
  unfolding certManagerCRDs_def by (elim insertE set_ConsD [THEN disjE, elim_format]) auto

theorem IsCertManagerCRDsInstalled_correct:
  "\<exists>h'. IsCertManagerCRDsInstalled w h =
     (case fst (RunCommand w [''kubectl'', ''get'', ''crds''] h) of
        (output, None) \<Rightarrow> (\<exists>crd \<in> set certManagerCRDs. sublist crd output)
      | (output, Some e) \<Rightarrow> False, h')"
proof -
  have "list_ex (\<lambda>crd. list_ex (\<lambda>line. str_contains line crd) (GetNonEmptyLines crds)) certManagerCRDs
      \<longleftrightarrow> (\<exists>crd \<in> set certManagerCRDs. sublist crd crds)" for crds
    using crd_names_one_line str_contains_line [where s = crds, symmetric]
    by (auto simp: list_ex_iff [of _ certManagerCRDs] str_contains_iff)
  then show ?thesis
    by (auto simp: IsCertManagerCRDsInstalled_def Let_def split: prod.splits option.splits)
qed

subsection \<open>\<^verbatim>\<open>UncommentCode\<close>, branch by branch\<close>

lemma str_index_found:
  "str_index s sub = Some i \<Longrightarrow> (\<exists>post. s = take i s @ sub @ post) \<and> (\<forall>j < i. \<not> prefix sub (drop j s))"
proof (induction s arbitrary: i)
  case (Cons c cs)
  show ?case
  proof (cases "prefix sub (c # cs)")
    case True
    with Cons.prems show ?thesis by (auto simp: prefix_def)
  next
    case False
    with Cons.prems obtain k where k: "i = Suc k" "str_index cs sub = Some k" by auto
    with Cons.IH [OF k(2)] False show ?thesis by (auto simp: less_Suc_eq_0_disj)
  qed
qed (auto split: if_splits)

lemma str_index_none: "str_index s sub = None \<longleftrightarrow> \<not> sublist sub s"
  by (induction s) (auto simp: sublist_Cons_right)

lemma scan_lines_plain:
  assumes "ws \<noteq> []" "last ws \<noteq> []"
    and "\<forall>l \<in> set ws. newline \<notin> set l \<and> length l < maxTokenSize \<and> (l \<noteq> [] \<longrightarrow> last l \<noteq> CHR 0x0D)"
  shows "scan_lines (intercalate [newline] ws) = ws"
proof -
  have "text_lines (intercalate [newline] ws) = ws"
    using assms by (simp add: text_lines_def split_on_intercalate)
  moreover have "takeWhile (\<lambda>l. length l < maxTokenSize) ws = ws"
    using assms(3) by (simp add: takeWhile_eq_all_conv)
  moreover have "map dropCR ws = ws"
    using assms(3) by (intro map_idI) (auto simp: dropCR_def)
  ultimately show ?thesis unfolding scan_lines_def by metis
qed

lemma uncommented_prefix: "uncommented p (map (\<lambda>l. p @ l) ls) = intercalate [newline] ls"
  by (simp add: uncommented_def trim_prefix_def comp_def)

text \<open>
  A block whose lines all have the prefix, found in the file, is replaced by the lines without
  it; the rest of the file stays as it is and the file is written once.
\<close>

theorem UncommentCode_block:
  fixes p :: string
  assumes "an_err (w (h @ [ReadFile f])) = None"
    and "str_index (an_text (w (h @ [ReadFile f]))) target = Some (length before)"
    and "an_text (w (h @ [ReadFile f])) = before @ target @ after"
    and "target = intercalate [newline] (map (\<lambda>l. p @ l) ls)" "ls \<noteq> []" "p \<noteq> []"
    and "\<forall>l \<in> set ls. newline \<notin> set (p @ l) \<and> length (p @ l) < maxTokenSize \<and> last (p @ l) \<noteq> CHR 0x0D"
  shows "\<exists>err. UncommentCode w f target p h =
           (err, h @ [ReadFile f, WriteFile f (before @ intercalate [newline] ls @ after)])
       \<and> (err = None \<longleftrightarrow> an_err (w (h @ [ReadFile f, WriteFile f (before @ intercalate [newline] ls @ after)])) = None)"
proof -
  have "scan_lines target = map (\<lambda>l. p @ l) ls"
    unfolding assms(4) by (rule scan_lines_plain) (use assms(5-) in \<open>auto simp: last_map\<close>)
  moreover obtain l ls' where "map (\<lambda>l. p @ l) ls = l # ls'" using assms(5) by (cases ls) auto
  moreover note uncommented_prefix [of p ls]
  ultimately show ?thesis
    using assms(1-3) by (auto simp: UncommentCode_def Let_def split: option.splits)
qed

text \<open>
  The file is written at most once, and only after the target was found.
\<close>

lemma UncommentCode_calls:
  "\<exists>err. UncommentCode w f target p h = (err, h @ [ReadFile f])
     \<or> (\<exists>text. UncommentCode w f target p h = (err, h @ [ReadFile f, WriteFile f text])
         \<and> sublist target (an_text (w (h @ [ReadFile f]))))"
proof (cases "str_index (an_text (w (h @ [ReadFile f]))) target")
  case None
  then show ?thesis by (auto simp: UncommentCode_def Let_def split: option.splits)
next
  case (Some i)
  moreover from this have "sublist target (an_text (w (h @ [ReadFile f])))"
    using str_index_none [of "an_text (w (h @ [ReadFile f]))" target] by auto
  ultimately show ?thesis
    by (auto simp: UncommentCode_def Let_def split: option.splits list.splits)
qed

text \<open>
  Success is reported with nothing written exactly when the scan gives no line: for an empty
  target, which every file has, and for one whose first line does not fit in the scanner's buffer.
\<close>

lemma scan_lines_nothing:
  "scan_lines t = [] \<longleftrightarrow> t = [] \<or> maxTokenSize \<le> length (hd (split_on newline t))"
proof -
  obtain a as where a: "split_on newline t = a # as"
    using split_on_nonempty [of newline t] by (cases "split_on newline t") auto
  show ?thesis
  proof (cases "as = []")
    case True
    then have "t = a" using a intercalate_split_on [of newline t] by simp
    with True a show ?thesis
      by (auto simp: scan_lines_def text_lines_def Let_def not_less maxTokenSize_def)
  next
    case False
    with a have "t \<noteq> []" by auto
    moreover have "text_lines t = a # (if last as = [] then butlast as else as)"
      using a False by (simp add: text_lines_def)
    ultimately show ?thesis using a by (simp add: scan_lines_def not_less)
  qed
qed

theorem UncommentCode_silent:
  assumes "an_err (w (h @ [ReadFile f])) = None" "sublist t (an_text (w (h @ [ReadFile f])))"
  shows "UncommentCode w f t p h = (None, h @ [ReadFile f])
     \<longleftrightarrow> t = [] \<or> maxTokenSize \<le> length (hd (split_on newline t))"
proof -
  obtain i where "str_index (an_text (w (h @ [ReadFile f]))) t = Some i"
    using assms(2) str_index_none by (metis not_Some_eq)
  with assms(1) show ?thesis
    by (auto simp: UncommentCode_def Let_def scan_lines_nothing [symmetric] split: option.splits list.splits)
qed

text \<open>
  The scanner drops the end of line of the last line and the carriage return of every line: a
  target that ends with a newline is glued to the line after it.
\<close>

lemma final_newline_is_lost:
  "uncommented ''#'' (scan_lines (''#a'' @ [newline])) = ''a''"
  "uncommented ''#'' (scan_lines (''#a'' @ [CHR 0x0D, newline] @ ''#b'')) = ''a'' @ [newline] @ ''b''"
  by (simp_all add: scan_lines_def text_lines_def dropCR_def maxTokenSize_def uncommented_def trim_prefix_def)

lemma long_line_ends_the_block:
  assumes "newline \<notin> set l" "newline \<notin> set m" "maxTokenSize \<le> length m"
    and "length l < maxTokenSize" "l \<noteq> []" "last l \<noteq> CHR 0x0D"
  shows "scan_lines (l @ newline # m) = [l]"
proof -
  have "m \<noteq> []" using assms(3) by (auto simp: maxTokenSize_def)
  with assms show ?thesis
    by (simp add: scan_lines_def text_lines_def split_on_app split_on_word dropCR_def)
qed

end
