(* ===== verification/Spec2Isabelle.thy ===== *)
theory Spec2Isabelle
  imports Pipeline SubmissionGate RunLiveness OperatorMain DeepCopy RunFeed EventJson UploadJson E2eUtils
begin

text \<open>
  \<^bold>\<open>IronBook\<close>: a platform that benchmarks contestants' matching engines.  This development models its Go
  services and the Rust issuer of stamps, matching engine and reference oracle, and proves what makes
  each of them, and their composition, correct.

  \<^bold>\<open>The program.\<close>  A contestant uploads source to submission-api (\<^verbatim>\<open>apps/submission-api\<close>), which stores the
  bytes in MinIO under their SHA-256, writes a row in Postgres and creates a Kubernetes Job.  The Job
  runs build-runner (\<^verbatim>\<open>apps/build-runner\<close>): it unpacks and compiles the source, pushes an image and
  updates the row.  A \<^verbatim>\<open>BenchmarkRun\<close> resource makes benchmark-operator (\<^verbatim>\<open>apps/benchmark-operator\<close>) create
  four pods (reference oracle, submission, fairness-gateway, bot-coordinator) and three services, and
  drive the run through its phases; admission-webhook (\<^verbatim>\<open>apps/admission-webhook\<close>) polices pods.
  bot-coordinator (\<^verbatim>\<open>apps/bot-coordinator\<close>) compiles a schedule of orders and posts it to
  fairness-gateway (\<^verbatim>\<open>apps/fairness-gateway\<close>), which stamps each order with a global sequence number
  from time-service (\<^verbatim>\<open>crates/time-service\<close>), forwards it to the submission and the oracle at once, and
  records events.  The oracle (\<^verbatim>\<open>crates/reference-oracle\<close>) runs each order through the reference matching
  engine (\<^verbatim>\<open>crates/matching-engine\<close>); its fills are what a submission is judged by.

  \<^bold>\<open>Theories and source.\<close>  \<open>Prelude\<close> holds words, Go errors as values, HTTP codes, the convention for
  code outside the repository, and list lemmas; \<open>Codec\<close> (encodings of words, hex), \<open>Sha256\<close>, \<open>Strconv\<close>, \<open>Utf8\<close>,
  \<open>GoJson\<close> and \<open>JsonText\<close> (\<^verbatim>\<open>encoding/json\<close>: the writer, the reader as a push-down machine, and the reading back of what was
  written) and \<open>PathClean\<close> (\<^verbatim>\<open>path/filepath\<close>) the parts of Go's standard library the code relies on, executable and
  with their round trips; \<open>KubeTypes\<close> the Kubernetes objects, reduced to the fields the code names.
  \<^item> The order path: \<open>TimeService\<close> (\<^verbatim>\<open>time-service/src/lib.rs\<close>, \<^verbatim>\<open>main.rs\<close>), \<open>Stamper\<close> (\<^verbatim>\<open>gateway/stamper.go\<close>,
    and any number of gateways over one issuer), \<open>Wire\<close> (the protobuf messages), \<open>Identity\<close>
    (\<^verbatim>\<open>identity.go\<close>), \<open>Fork\<close> (\<^verbatim>\<open>fork.go\<close>: two goroutines as interleaved steps), \<open>FileSink\<close> (\<^verbatim>\<open>sink_file.go\<close>),
    \<open>EventTail\<close> (\<^verbatim>\<open>telemetry-sidecar/src/main.rs\<close>, which follows the sink's file),
    \<open>OrderJson\<close> and \<open>EventJson\<close> (the bytes of requests, answers and event rows),
    \<open>GatewayServer\<close> (\<^verbatim>\<open>server.go\<close>, \<^verbatim>\<open>transport/ws.go\<close>, \<^verbatim>\<open>config.go\<close>, \<^verbatim>\<open>main.go\<close>), \<open>Coordinator\<close>
    (\<^verbatim>\<open>schedule.go\<close>, \<^verbatim>\<open>dispatcher.go\<close>, \<^verbatim>\<open>main.go\<close>).
  \<^item> The engine: \<open>OrderBook\<close> (\<^verbatim>\<open>types.rs\<close>, \<^verbatim>\<open>book.rs\<close>), \<open>MatchEngine\<close> (\<^verbatim>\<open>match_engine.rs\<close>), \<open>PriceTime\<close> (price-time priority on
    flat lists, and the matcher as its refinement), \<open>BookInvariant\<close> (the invariant of books with any ids, \<^verbatim>\<open>cancel\<close>, and what distinct ids add for the index),
    \<open>History\<close> (whole runs, and engines of other makes), \<open>Snapshot\<close> (\<^verbatim>\<open>snapshot.rs\<close>), \<open>ReferenceOracle\<close>
    (\<^verbatim>\<open>reference-oracle/src/lib.rs\<close>, and what it makes of the gateway's orders), \<open>RunFeed\<close> (concurrent calls of one
    gateway in front of a submission and the oracle).
  \<^item> The operator: \<open>OperatorApi\<close> (the custom resources of \<^verbatim>\<open>api/v1\<close>, the API server as a peer, and reconcilers
    as programs over the history of calls), \<open>RunController\<close> (\<^verbatim>\<open>benchmarkrun_controller.go\<close>), \<open>RunSystem\<close> (the
    histories of a run through stale caches, failed writes and restarts), \<open>RunVersions\<close> (one reconcile as a step of the
    stored run), \<open>RunWorld\<close> (a run with its pods and services, which its reconciles create and the cluster runs or loses),
    \<open>RunLiveness\<close> (its way to \<^verbatim>\<open>COMPLETE\<close>, and the gate before \<^verbatim>\<open>RUNNING\<close>), \<open>StatusControllers\<close> (the scenario, submission and botswarm controllers), \<open>SubmissionGate\<close> (runs and the
    submissions they wait for), \<open>GoFlags\<close>
    (Go's \<^verbatim>\<open>flag\<close>) and \<open>OperatorMain\<close> (\<^verbatim>\<open>cmd/main.go\<close>, each \<^verbatim>\<open>SetupWithManager\<close>, the rbac markers),
    \<open>E2eUtils\<close> (\<^verbatim>\<open>test/utils/utils.go\<close>),
    \<open>GoHeap\<close> (memory, and what a deep copy of it is) and \<open>DeepCopy\<close> (\<^verbatim>\<open>zz_generated.deepcopy.go\<close>), \<open>Policy\<close> (\<^verbatim>\<open>policy.go\<close> and the webhook's \<^verbatim>\<open>main.go\<close>).
  \<^item> The build path: \<open>SubmissionTable\<close> (migration \<^verbatim>\<open>002_submissions.sql\<close> and its statements), \<open>JobDispatch\<close>
    (\<^verbatim>\<open>dispatcher/dispatcher.go\<close>), \<open>SubmissionService\<close> (\<^verbatim>\<open>repo\<close>, \<^verbatim>\<open>service\<close>, \<^verbatim>\<open>server\<close>), \<open>UploadJson\<close> (its answers), \<open>SubmissionSystem\<close> (uploads and
    builds interleaved call by call), \<open>Clients\<close> (\<^verbatim>\<open>pkg/postgresclient\<close>, \<^verbatim>\<open>pkg/miniclient\<close>), \<open>SubmissionMain\<close>,
    \<open>BuildSteps\<close> (\<^verbatim>\<open>builder/compile.go\<close>), \<open>BuildRunner\<close> (\<^verbatim>\<open>builder/builder.go\<close>, \<^verbatim>\<open>main.go\<close>).
  \<^item> \<open>Pipeline\<close> holds what the cross-component properties of this theory need: environments as the
    process in a pod reads them, addresses of services, and the gateway's reading of a posted order.

  \<^bold>\<open>State and effects.\<close>  A component's state is a record passed through its operations.  Code outside the
  repository (the API server, the operating system, MinIO, the registry library, envconfig, the
  random source) is a parameter, as a function from the history of calls to the answer of the last;
  laws of such code that a property needs are named hypotheses (\<open>kube_lib_ok\<close>, \<open>accepts_often\<close>,
  \<open>configured_by\<close>), as are conditions on the environment (\<open>refs_readable\<close>, \<open>healthy\<close>), and each such property has a witness.  The table's statements are atomic; a
  connection may refuse one or lose its answer (\<open>outage\<close>).  Errors are values of \<open>go_error + 'a\<close>.  Fixed
  width integers are words, so that sequence numbers, sizes and offsets wrap as in Go and Rust.

  \<^bold>\<open>Interfaces.\<close>  \<open>stamp_issuer\<close> is what a stamper relies on, interpreted on the time-service; \<open>sink\<close> is what \<open>Fork\<close> asks of an event sink, interpreted on \<open>FileSink\<close>; \<open>settling_reconciler\<close> is
  the contract of a reconciler that writes a status once, interpreted on the scenario and the
  submission controllers; \<open>submission_store\<close> is what submission-api and build-runner rely on in the
  table, interpreted on the SQL statements; \<open>price_time_engine\<close> is what the platform asks of a matching engine,
  interpreted on the reference one, and its consequences hold for any submission that keeps it; the word encodings of \<open>Codec\<close> share one contract too.

  \<^bold>\<open>What is shown.\<close>  Sequence numbers are unique and increasing over all gateways, failures and restarts
  within the safety gap; the fan-out gives one result under every interleaving; each transport
  behaves alike.  A run's phases follow their machine, only move forward and, on a cluster
  that turns healthy and loses no pod, reach \<^verbatim>\<open>COMPLETE\<close> by way of the pods that its reconciles create; it is
  \<^verbatim>\<open>RUNNING\<close> only once all four are up; its controllers keep within their roles
  and write to deep copies of what is cached, its pods are created and
  deleted at the right times and reached through the right addresses.  The policy is its
  specification.  Uploads are content addressed and deduplicated under every interleaving, dispatched
  at most once, and a build-runner started from any Job finds its source if submission-api
  writes to the bucket the Job names; extraction stays inside its
  directory; a build's row tells its outcome and the image it pushed.  The coordinator runs the schedule the operator asked
  for, with distinct orders.  The engine refines price-time priority, conserves quantities, keeps its book
  consistent (its index exact while ids do not repeat) and comes back from a snapshot; the oracle accepts every order of the gateway; both backends
  receive the same orders, and, when calls do not overlap, in one order, so that an engine that keeps the
  contract makes the oracle's fills; when calls overlap it need not.  What the coordinator posts is, byte by byte,
  what the gateway decodes, and the sidecar prints each row of the event log once and in order when rows are written
  whole.  The findings of the manifest name the places where the code departs from
  its documentation or intent.

  \<^bold>\<open>Bounds and termination.\<close>  No fuel is used.  The rejection loop of Go's \<^verbatim>\<open>Intn\<close> is a partial function, whose
  end is a theorem under \<open>accepts_often\<close>; schedule bounds hold for every duration an \<^verbatim>\<open>int32\<close> can hold,
  for which offsets stay below \<open>2 ^ 63\<close>; the loops of the matcher end because each round fills an order or
  drops a level, which is their termination proof; the seven reconciles to \<^verbatim>\<open>COMPLETE\<close> are the six edges of the phase
  machine and one for the finalizer; the other recursions are structural.  Quantities and prices
  of the engine are numbers of \<^typ>\<open>nat\<close> and \<^typ>\<open>int\<close>; in every run of the oracle they fit their 64 bits
  (\<open>wire_fills_are_exact\<close>).

  \<^bold>\<open>Not modelled.\<close>  The inside of controller-runtime (caches, work queues, leader election), TLS, HTTP listeners, generated code
  (protobuf descriptors, gRPC stubs but for the one client call), the JSON of Kubernetes objects and YAML,
  gzip, tar and registry formats, the bincode codec, the end-to-end tests (but for their helpers), the placeholders \<^verbatim>\<open>bot-worker\<close> and \<^verbatim>\<open>ironbookctl\<close>, the frontend and the deployment manifests but for the table's schema.
\<close>

section \<open>Properties that span components\<close>

text \<open>
  C3 (runner_finds_its_source): composition of submission-api, from its start, MinIO and build-runner.  Whatever
  uploads and builds have interleaved, a build-runner started from any Job that submission-api ever
  created decodes its digest and updates the row of its own submission, in a language a toolchain exists for.
  The bucket and key that it asks MinIO for hold an acknowledged object with that digest exactly when
  submission-api was configured with the bucket the Job names, \<^verbatim>\<open>submissions\<close>, as it is by default; configured with
  any other bucket, it never stores anything where its Jobs look.
\<close>

theorem runner_finds_its_source:
  assumes "submission_main boot = ApiServing addr svc" and "ab_config boot = Inr api"
    and "service_run svc s" and "j \<in> set (creates (uw_jobs (us_world s)))"
    and "configured_by (job_Template j) cfg"
  shows "\<exists>sha r. hex_decode (bc_SubmissionSha256 cfg) = Inr sha
       \<and> (if sg_MinIOBucket api = ''submissions''
          then \<exists>data. ((bc_MinIOBucket cfg, source_key cfg), data) \<in> set (uw_objects (us_world s)) \<and> sha256 data = sha
          else \<forall>key data. ((bc_MinIOBucket cfg, key), data) \<notin> set (uw_objects (us_world s)))
       \<and> sql_select sha (uw_table (us_world s)) = Some r \<and> row_id r = bc_SubmissionID cfg
       \<and> row_language r = bc_Language cfg \<and> bc_Language cfg \<in> {''rust'', ''go'', ''cpp''}"
proof -
  have w: "world_ok svc (us_world s)" using system_invariant [OF assms(3)] by (simp add: system_ok_def)
  obtain d r where r: "r \<in> set (uw_table (us_world s))" and j: "j = row_job d r"
    using w assms(4) unfolding world_ok_def by blast
  note cfg = configured_by_job [OF assms(5) [unfolded j]]
  note bucket = serves_its_bucket [OF assms(1,2)]
  obtain data where data: "((sg_MinIOBucket api, object_key (row_sha256 r)), data) \<in> set (uw_objects (us_world s))"
      "sha256 data = row_sha256 r"
    using world_okD(2) [OF w r] by (auto simp: bucket)
  have buckets: "k = sg_MinIOBucket api" if "((k, key), x) \<in> set (uw_objects (us_world s))" for k key x
    using world_okD(3) [OF w r] that by (auto simp: bucket)
  have t: "distinct (map row_sha256 (uw_table (us_world s)))" "row_check r"
    using w r by (auto simp: world_ok_def table_ok_def list_all_iff)
  obtain q where q: "sql_select (row_sha256 r) (uw_table (us_world s)) = Some q"
    using r sql_select_None [of "row_sha256 r" "uw_table (us_world s)"] by (metis not_None_eq)
  have qr: "q = r" using sql_select_Some [OF q] r t(1) by (auto simp: distinct_map dest: inj_onD)
  have key: "source_key cfg = object_key (row_sha256 r)" by (simp add: source_key_def object_key_def cfg)
  have look: "if sg_MinIOBucket api = ''submissions''
      then \<exists>data. ((bc_MinIOBucket cfg, source_key cfg), data) \<in> set (uw_objects (us_world s)) \<and> sha256 data = row_sha256 r
      else \<forall>key data. ((bc_MinIOBucket cfg, key), data) \<notin> set (uw_objects (us_world s))"
    unfolding key cfg using data buckets by (metis (full_types))
  have "bc_Language cfg \<in> {''rust'', ''go'', ''cpp''}" using t(2) by (simp add: cfg row_check_def)
  then show ?thesis
    using look q qr by (intro exI [of _ "row_sha256 r"] exI [of _ r]) (simp only: cfg hex_decode_encode)
qed

definition sample_job_config :: BuildConfig where
  "sample_job_config = (sample_build_config ''cpp'')\<lparr>bc_SubmissionID := ''u2'',
     bc_SubmissionSha256 := hex_encode (sha256 [7, 7]),
     bc_Registry := ''registry.ironbook.svc.cluster.local:5000''\<rparr>"

theorem runner_finds_its_source_witness:
  "\<exists>sha data. hex_decode (bc_SubmissionSha256 sample_job_config) = Inr sha
     \<and> ((''submissions'', source_key sample_job_config), data) \<in> set (uw_objects (us_world two_answers)) \<and> sha256 data = sha"
proof -
  let ?j = "build_job sample_dispatcher (dispatch_inputs ''u2'' (sha256 [7, 7]) ''cpp'')"
  have "configured_by (job_Template ?j) sample_job_config"
    by (simp add: configured_by_def pod_getenv_def job_pod job_env_def dispatch_inputs_def Let_def
        sample_job_config_def sample_build_config_def)
  then show ?thesis
    using runner_finds_its_source [OF sample_boot_serves _ two_answers_run, of sample_api_config ?j sample_job_config]
    by (auto simp: two_answers_eq(3) sample_boot_def sample_api_config_def sample_job_config_def sample_build_config_def)
qed

text \<open>
  The environment of a build Job sets every variable the build-runner
  requires, each to a non-empty value or from a secret, and a reference \<^verbatim>\<open>$(X)\<close> in the DSN is to a
  variable set before it.
\<close>

theorem job_env_is_complete:
  assumes "in_SubmissionID i \<noteq> []" and "in_Sha256Hex i \<noteq> []" and "in_Language i \<noteq> []"
  shows "(\<forall>tag \<in> set required_settings. \<exists>e \<in> set (job_env i). env_Name e = ''IRONBOOK_'' @ tag
           \<and> (env_Value e \<noteq> [] \<or> env_SecretKeyRef e \<noteq> None))
       \<and> distinct (map env_Name (job_env i))
       \<and> {''IRONBOOK_PG_USER'', ''IRONBOOK_PG_PASSWORD''}
           \<subseteq> set (map env_Name (takeWhile (\<lambda>e. env_Name e \<noteq> ''IRONBOOK_POSTGRES_DSN'') (job_env i)))"
proof (intro conjI)
  show "\<forall>tag \<in> set required_settings. \<exists>e \<in> set (job_env i). env_Name e = ''IRONBOOK_'' @ tag
      \<and> (env_Value e \<noteq> [] \<or> env_SecretKeyRef e \<noteq> None)"
    using assms unfolding required_settings_def job_env_def by (simp add: env_var_def envFromSecret_def)
  show "distinct (map env_Name (job_env i))" unfolding job_env_def by simp
  show "{''IRONBOOK_PG_USER'', ''IRONBOOK_PG_PASSWORD''}
      \<subseteq> set (map env_Name (takeWhile (\<lambda>e. env_Name e \<noteq> ''IRONBOOK_POSTGRES_DSN'') (job_env i)))"
    unfolding job_env_def by simp
qed

theorem job_env_is_complete_witness:
  "\<forall>tag \<in> set required_settings. \<exists>e \<in> set (job_env sample_inputs). env_Name e = ''IRONBOOK_'' @ tag
     \<and> (env_Value e \<noteq> [] \<or> env_SecretKeyRef e \<noteq> None)"
  using job_env_is_complete [of sample_inputs] by (simp add: sample_inputs_def)

text \<open>
  C31 (coordinator_runs_the_scenario): composition of the operator and the bot-coordinator.  The
  process started in the coordinator pod reads back the run's seed and the scenario's duration from
  its environment, compiles one event per millisecond of it, and, undisturbed, posts them all.
\<close>

theorem coordinator_runs_the_scenario:
  assumes "accepts_often (draws (brs_Seed (br_Spec br)))"
    and "\<forall>j. wait_cancelled ev j = None \<and> ctx_error ev j = None"
  shows "\<exists>es. Compile draws (scs_YAMLSpec (scn_Spec scn)) (brs_Seed (br_Spec br)) (scast (scs_DurationSeconds (scn_Spec scn)))
           = Some es
       \<and> length es = 1000 * nat (sint (scs_DurationSeconds (scn_Spec scn)))
       \<and> coordinator_main draws (pod_getenv (pod_Spec (coordinator_pod br scn))) ev None
           = Some (main_exit.Finished (map post_body es))"
proof -
  let ?get = "pod_getenv (pod_Spec (coordinator_pod br scn))"
  let ?dur = "scast (scs_DurationSeconds (scn_Spec scn)) :: i64"
  obtain es where es: "Compile draws (scs_YAMLSpec (scn_Spec scn)) (brs_Seed (br_Spec br)) ?dur = Some es"
    using compile_loop_ends [OF assms(1)] unfolding Compile_def by blast
  have env: "?get ''IRONBOOK_SCENARIO_YAML'' = scs_YAMLSpec (scn_Spec scn)"
    "?get ''IRONBOOK_SCENARIO_SEED'' = format_int (sint (brs_Seed (br_Spec br)))"
    "?get ''IRONBOOK_DURATION_SECONDS'' = format_int (sint (scs_DurationSeconds (scn_Spec scn)))"
    "?get ''IRONBOOK_GATEWAY_URL'' = ''http://'' @ st_GatewayEndpoint (br_Status br)"
    by (simp_all add: pod_getenv_def coordinator_pod_def)
  have "Run (''http://'' @ st_GatewayEndpoint (br_Status br)) ev es = (None, map post_body es)"
    using dispatch_all [OF assms(2)] by (simp add: Run_def)
  then have "coordinator_main draws ?get ev None = Some (main_exit.Finished (map post_body es))"
    using es unfolding coordinator_main_def env ParseInt_format_i64 ParseInt_format_i32 by simp
  moreover have "length es = 1000 * nat (sint (scs_DurationSeconds (scn_Spec scn)))"
    using Compile_events(1) [OF es] by (simp add: total_slots_i32)
  ultimately show ?thesis using es by blast
qed

theorem coordinator_runs_the_scenario_witness:
  "\<exists>es. length es = 3000
     \<and> coordinator_main sample_draws (pod_getenv (pod_Spec (coordinator_pod (sample_run ''ALLOCATING'' None) sample_scenario)))
         (sample_dispatch\<lparr>wait_cancelled := \<lambda>_. None\<rparr>) None = Some (main_exit.Finished (map post_body es))"
  using coordinator_runs_the_scenario [of sample_draws "sample_run ''ALLOCATING'' None"
      "sample_dispatch\<lparr>wait_cancelled := \<lambda>_. None\<rparr>" sample_scenario] sample_accepts
  by (auto simp: sample_dispatch_def sample_scenario_def)

text \<open>
  C38 (scheduled_orders_are_distinct): composition of the coordinator and the gateway.  What the
  gateway forwards for the events of one schedule, whatever stamps it draws, are limit GTC orders with
  the events' own sides, quantities and prices, and no two of them have the same client order id.
\<close>

theorem scheduled_orders_are_distinct:
  assumes "Compile draws yaml seed dur = Some es" and "total_slots dur \<le> 2147483647000"
  shows "distinct (map (\<lambda>e. no_ClientOrderId (normalise sec (decode_order (post_body e)) (stamp e))) es)
       \<and> (\<forall>e \<in> set es. let n = normalise sec (decode_order (post_body e)) (stamp e) in
            no_Side n = (if os_Side (e_Order e) = ''bid'' then SIDE_BID else SIDE_ASK)
          \<and> no_Qty n = os_Qty (e_Order e) \<and> no_Price n = os_Price (e_Order e)
          \<and> no_OrderType n = ORDER_TYPE_LIMIT \<and> no_Tif n = TIME_IN_FORCE_GTC)"
proof
  have "distinct (map (\<lambda>e. no_ClientOrderId (normalise sec (decode_order (post_body e)) (stamp e))) es)
      \<longleftrightarrow> inj_on (\<lambda>e. (e_BotID e, e_OffsetNs e)) (set es) \<and> distinct es"
    by (simp add: distinct_map normalise_def decode_post_body inj_on_def client_order_id_inj conj_commute)
  moreover have "inj_on e_OffsetNs (set es)" "distinct es"
    using offsets_distinct [OF assms] by (simp_all add: distinct_map)
  ultimately show "distinct (map (\<lambda>e. no_ClientOrderId (normalise sec (decode_order (post_body e)) (stamp e))) es)"
    by (simp add: inj_on_def)
  have slot_fields: "os_Side (e_Order e) \<in> {''bid'', ''ask''} \<and> os_OrderType (e_Order e) = ''limit''
      \<and> os_TIF (e_Order e) = ''gtc''" if "e \<in> set es" for e
    using Compile_slots [OF assms(1)] that by (auto simp: slot_event_def sides_def)
  show "\<forall>e \<in> set es. let n = normalise sec (decode_order (post_body e)) (stamp e) in
            no_Side n = (if os_Side (e_Order e) = ''bid'' then SIDE_BID else SIDE_ASK)
          \<and> no_Qty n = os_Qty (e_Order e) \<and> no_Price n = os_Price (e_Order e)
          \<and> no_OrderType n = ORDER_TYPE_LIMIT \<and> no_Tif n = TIME_IN_FORCE_GTC"
  proof
    fix e assume "e \<in> set es"
    from slot_fields [OF this]
    show "let n = normalise sec (decode_order (post_body e)) (stamp e) in
            no_Side n = (if os_Side (e_Order e) = ''bid'' then SIDE_BID else SIDE_ASK)
          \<and> no_Qty n = os_Qty (e_Order e) \<and> no_Price n = os_Price (e_Order e)
          \<and> no_OrderType n = ORDER_TYPE_LIMIT \<and> no_Tif n = TIME_IN_FORCE_GTC"
      by (auto simp: normalise_def decode_post_body Let_def sideFromString_def orderTypeFromString_def
          tifFromString_def)
  qed
qed

theorem scheduled_orders_are_distinct_witness:
  "\<exists>es. Compile sample_draws [] 7 1 = Some es \<and> length es = 1000
     \<and> distinct (map (\<lambda>e. no_ClientOrderId (normalise [1] (decode_order (post_body e)) (5, 6))) es)"
proof -
  obtain es where es: "Compile sample_draws [] 7 1 = Some es"
    using compile_loop_ends [OF sample_accepts] unfolding Compile_def by blast
  have "total_slots 1 \<le> 2147483647000" by (simp add: sample_slots)
  from scheduled_orders_are_distinct [OF es this, of "[1]" "\<lambda>_. (5, 6)"] es Compile_events(1) [OF es]
  show ?thesis by (simp add: sample_slots)
qed

text \<open>
  C30 (endpoints_reach_their_pods): inside the operator.  Each of the three services a run creates
  selects exactly the one pod of its role among the run's four, on a port that pod's container
  listens on; the endpoints in the run's status are the addresses of those services, and they are what the
  gateway and the coordinator are given.
\<close>

theorem endpoints_reach_their_pods:
  assumes "br1 = stamp_endpoints br"
  shows "(\<forall>(role, port) \<in> set run_services. \<exists>p. filter (selects (run_service br1 role port)) (run_pods br1 sub scn) = [p]
            \<and> pod_role p = role \<and> port \<in> set (pod_ports p))
       \<and> map (\<lambda>(role, port). service_address (run_service br1 role port)) run_services
           = [st_OracleEndpoint (br_Status br1), st_SubmissionEndpoint (br_Status br1), st_GatewayEndpoint (br_Status br1)]
       \<and> pod_getenv (pod_Spec (gateway_pod br1)) ''IRONBOOK_SUBMISSION_ENDPOINT'' = st_SubmissionEndpoint (br_Status br1)
       \<and> pod_getenv (pod_Spec (gateway_pod br1)) ''IRONBOOK_ORACLE_ENDPOINT'' = st_OracleEndpoint (br_Status br1)
       \<and> pod_getenv (pod_Spec (coordinator_pod br1 scn)) ''IRONBOOK_GATEWAY_URL''
           = ''http://'' @ st_GatewayEndpoint (br_Status br1)"
proof (intro conjI)
  have ne: "labelRun \<noteq> labelRole" by (simp add: label_defs)
  have meta: "om_Namespace (podMeta br1 role) = run_ns br1" "om_Labels (podMeta br1 role) labelRun = Some (run_name br1)"
    "om_Labels (podMeta br1 role) labelRole = Some role" for role
    using ne by (simp_all add: podMeta_def object_meta_def)
  have metas: "map pod_Meta (run_pods br1 sub scn) = map (podMeta br1) [roleOracle, roleSubmission, roleGateway, roleCoordinator]"
    by (simp add: run_pods_def oracle_pod_def submission_pod_def gateway_pod_def coordinator_pod_def)
  have sel: "selects (run_service br1 role port) p \<longleftrightarrow> r = role" if "pod_Meta p = podMeta br1 r" for p r role port
    using that by (simp add: selects_role meta)
  have each: "selects (run_service br1 role port) (oracle_pod br1) \<longleftrightarrow> roleOracle = role"
    "selects (run_service br1 role port) (submission_pod br1 sub) \<longleftrightarrow> roleSubmission = role"
    "selects (run_service br1 role port) (gateway_pod br1) \<longleftrightarrow> roleGateway = role"
    "selects (run_service br1 role port) (coordinator_pod br1 scn) \<longleftrightarrow> roleCoordinator = role" for role port
    by (rule sel, simp add: oracle_pod_def submission_pod_def gateway_pod_def coordinator_pod_def)+
  have role: "pod_role p = r" if "pod_Meta p = podMeta br1 r" for p r
    using that meta(3) [of r] by (simp add: pod_role_def label_def)
  have roles: "pod_role (oracle_pod br1) = roleOracle" "pod_role (submission_pod br1 sub) = roleSubmission"
    "pod_role (gateway_pod br1) = roleGateway"
    by (rule role, simp add: oracle_pod_def submission_pod_def gateway_pod_def)+
  have ports: "pod_ports (oracle_pod br1) = [7080]" "pod_ports (submission_pod br1 sub) = [7777]" "pod_ports (gateway_pod br1) = [8080]"
    by (simp_all add: pod_ports_def oracle_pod_def submission_pod_def gateway_pod_def)
  show "\<forall>(role, port) \<in> set run_services. \<exists>p. filter (selects (run_service br1 role port)) (run_pods br1 sub scn) = [p]
            \<and> pod_role p = role \<and> port \<in> set (pod_ports p)"
    by (simp add: run_services_def run_pods_def each roles ports) (simp add: role_defs roles [unfolded role_defs])
  show "map (\<lambda>(role, port). service_address (run_service br1 role port)) run_services
           = [st_OracleEndpoint (br_Status br1), st_SubmissionEndpoint (br_Status br1), st_GatewayEndpoint (br_Status br1)]"
    by (simp add: run_services_def service_address_def run_service_def object_meta_def port_texts assms
        stamp_endpoints_def endpoint_def run_name_def run_ns_def)
qed (simp_all add: pod_getenv_def gateway_pod_def coordinator_pod_def)

theorem endpoints_reach_their_pods_witness:
  "st_OracleEndpoint (br_Status (stamp_endpoints (sample_run ''ALLOCATING'' None))) = ''reference-oracle-r.n.svc:7080''
   \<and> pod_getenv (pod_Spec (gateway_pod (stamp_endpoints (sample_run ''ALLOCATING'' None)))) ''IRONBOOK_ORACLE_ENDPOINT''
       = ''reference-oracle-r.n.svc:7080''"
  using endpoints_reach_their_pods [OF refl, of "sample_run ''ALLOCATING'' None" sample_submission_cr sample_scenario]
  by (simp add: stamp_endpoints_def endpoint_def role_defs run_name_def run_ns_def sample_run_def object_meta_def)

text \<open>
  C39 (contestant_pods_skip_the_policy): composition of the operator and the admission webhook.  No pod
  of a run carries the label the policy looks for, so the webhook admits all of them unseen; and the
  submission's pod, which runs the contestant's code, would not pass: it asks for no sandboxed
  runtime.
\<close>

theorem contestant_pods_skip_the_policy:
  assumes "kube_lib_ok lib" and "p0 \<in> set (run_pods br sub scn)"
    and "SetControllerReference lib (br_Meta br) (pod_Meta p0) = Inr m"
  shows "Validate (p0\<lparr>pod_Meta := m\<rparr>) = allowed \<and> \<not> is_submission_pod (p0\<lparr>pod_Meta := m\<rparr>)
       \<and> (p0 = submission_pod br sub \<longrightarrow> \<not> compliant False (p0\<lparr>pod_Meta := m\<rparr>))"
proof -
  have "om_Labels m = om_Labels (pod_Meta p0)"
    using assms(1,3) unfolding kube_lib_ok_def same_identity_def by blast
  moreover have "\<exists>role. pod_Meta p0 = podMeta br role"
    using assms(2) by (auto simp: run_pods_def oracle_pod_def submission_pod_def gateway_pod_def coordinator_pod_def)
  moreover have "label (om_Labels (podMeta br role)) ''app'' = []" for role
    by (simp add: podMeta_def object_meta_def label_defs)
  ultimately have "label (om_Labels m) ''app'' = []" by auto
  then have skip: "\<not> is_submission_pod (p0\<lparr>pod_Meta := m\<rparr>)" by (simp add: is_submission_pod_def)
  then have "Validate (p0\<lparr>pod_Meta := m\<rparr>) = allowed" by (simp add: Validate_def is_submission_pod_def)
  moreover have "\<not> compliant False (submission_pod br sub\<lparr>pod_Meta := m\<rparr>)"
    by (simp add: compliant_def Let_def submission_pod_def zero_pod_spec_def)
  ultimately show ?thesis using skip by blast
qed

theorem contestant_pods_skip_the_policy_witness:
  "\<exists>m. SetControllerReference sample_lib (br_Meta (sample_run ''ALLOCATING'' None))
        (pod_Meta (submission_pod (sample_run ''ALLOCATING'' None) sample_submission_cr)) = Inr m
     \<and> Validate (submission_pod (sample_run ''ALLOCATING'' None) sample_submission_cr\<lparr>pod_Meta := m\<rparr>) = allowed
     \<and> \<not> compliant False (submission_pod (sample_run ''ALLOCATING'' None) sample_submission_cr\<lparr>pod_Meta := m\<rparr>)"
proof -
  let ?br = "sample_run ''ALLOCATING'' None"
  let ?p = "submission_pod ?br sample_submission_cr"
  obtain m where m: "SetControllerReference sample_lib (br_Meta ?br) (pod_Meta ?p) = Inr m"
    by (simp add: sample_lib_def)
  have "?p \<in> set (run_pods ?br sample_submission_cr sample_scenario)" by (simp add: run_pods_def)
  from contestant_pods_skip_the_policy [OF sample_lib_ok this m] m show ?thesis by blast
qed

end
